(* ===== verification/Bean_Prelude.thy ===== *)
theory Bean_Prelude
  imports Main "HOL-Library.Multiset" "HOL-Library.Word"
begin

text \<open>
  Shared vocabulary of the beanstalkd development: the machine types of \<open>dat.h\<close>, arrays whose
  slots past the live prefix are stale or uninitialised, and the generic list lemmas the component
  theories use.
\<close>

type_synonym u32 = "32 word"
type_synonym u64 = "64 word"

named_theorems bean_defs \<open>unfolding of the small operations of the model\<close>
named_theorems frame \<open>fields an operation leaves alone\<close>

subsection \<open>Arrays\<close>

text \<open>
  A C array of capacity \<open>cap\<close> is the list of the slots written so far. Writing slot \<open>k\<close> replaces
  an element, or appends one when \<open>k\<close> is the first slot never written.
\<close>

definition slot_write :: "'a list \<Rightarrow> nat \<Rightarrow> 'a \<Rightarrow> 'a list" where
  "slot_write xs k x = (if k < length xs then xs[k := x] else xs @ [x])"

lemma length_slot_write [simp]:
  "k \<le> length xs \<Longrightarrow> length (slot_write xs k x) = max (length xs) (Suc k)"
  by (auto simp: slot_write_def)

lemma nth_slot_write:
  "k \<le> length xs \<Longrightarrow> i < max (length xs) (Suc k) \<Longrightarrow>
   slot_write xs k x ! i = (if i = k then x else xs ! i)"
  by (auto simp: slot_write_def nth_append less_Suc_eq)

lemma slot_write_update [simp]: "k < length xs \<Longrightarrow> slot_write xs k x = xs[k := x]"
  by (simp add: slot_write_def)

lemma take_slot_write_same:
  "k \<le> length xs \<Longrightarrow> take (Suc k) (slot_write xs k x) = take k xs @ [x]"
  by (auto simp: slot_write_def take_Suc_conv_app_nth)

lemma take_slot_write_above: "n \<le> k \<Longrightarrow> k \<le> length xs \<Longrightarrow> take n (slot_write xs k x) = take n xs"
  by (auto simp: slot_write_def)

subsection \<open>Lists\<close>

lemma mset_take_swap:
  assumes "a < n" "b < n" "n \<le> length xs"
  shows "mset (take n (xs[a := xs ! b, b := xs ! a])) = mset (take n xs)"
proof -
  have "take n (xs[a := xs ! b, b := xs ! a]) =
      (take n xs)[a := take n xs ! b, b := take n xs ! a]"
    using assms by (simp add: take_update_swap)
  also have "mset \<dots> = mset (take n xs)"
    using assms by (subst mset_swap) (auto simp: min_absorb2)
  finally show ?thesis .
qed

lemma mset_take_remove_at:
  assumes "k < n" "n \<le> length xs"
  shows "mset (take (n - 1) (xs[k := xs ! (n - 1)])) = mset (take n xs) - {#xs ! k#}"
proof -
  let ?ys = "take n xs"
  have len: "length ?ys = n" using assms by simp
  have ys: "?ys = take (n - 1) xs @ [xs ! (n - 1)]"
    using assms by (metis Suc_diff_1 gr_zeroI less_le_trans lessI not_less0 take_Suc_conv_app_nth)
  show ?thesis
  proof (cases "k = n - 1")
    case True
    then have "take (n - 1) (xs[k := xs ! (n - 1)]) = take (n - 1) xs" by simp
    then show ?thesis using True ys by simp
  next
    case False
    then have k: "k < n - 1" using assms by simp
    have "take (n - 1) (xs[k := xs ! (n - 1)]) = (take (n - 1) xs)[k := xs ! (n - 1)]"
      by (simp add: take_update_swap)
    also have "mset \<dots> = add_mset (xs ! (n - 1)) (mset (take (n - 1) xs) - {#xs ! k#})"
      using k assms by (subst mset_update) auto
    also have "\<dots> = mset ?ys - {#xs ! k#}"
    proof -
      have "xs ! k \<in># mset (take (n - 1) xs)"
        using k assms by (auto simp: in_set_conv_nth)
      then show ?thesis using ys by simp
    qed
    finally show ?thesis .
  qed
qed

lemma distinct_concat_upt:
  assumes "\<And>i. i < n \<Longrightarrow> distinct (f i)"
    and "\<And>i j. i < j \<Longrightarrow> j < n \<Longrightarrow> set (f i) \<inter> set (f j) = {}"
  shows "distinct (concat (map f [0..<n]))"
  using assms
proof (induction n)
  case (Suc n)
  then have "\<forall>i<n. set (f i) \<inter> set (f n) = {}" by simp
  then have "set (concat (map f [0..<n])) \<inter> set (f n) = {}" by auto
  then show ?case using Suc by simp
qed simp

lemma mset_remove_set:
  assumes "mset ys = mset xs - {#x#}" "distinct xs"
  shows "set ys = set xs - {x}" "distinct ys"
proof -
  have m: "mset ys = mset (remove1 x xs)" using assms(1) by simp
  have "set ys = set (remove1 x xs)" using mset_eq_setD [OF m] .
  then show "set ys = set xs - {x}" using assms(2) by simp
  show "distinct ys" using mset_eq_imp_distinct_iff [OF m] assms(2) by simp
qed

lemma mset_add_set:
  assumes "mset ys = add_mset x (mset xs)"
  shows "set ys = insert x (set xs)"
  using mset_eq_setD [of ys "x # xs"] assms by simp

subsection \<open>Options and words\<close>

lemma option_eqI: "(\<And>x. a = Some x \<longleftrightarrow> b = Some x) \<Longrightarrow> a = b"
  by (metis option.exhaust)

lemma word_gr_1: "1 < (x :: 'a :: len word) \<Longrightarrow> x \<noteq> 0 \<and> x - 1 \<noteq> 0"
  by (metis eq_iff_diff_eq_0 less_irrefl word_not_simps(1))

end
