(* ===== verification/Bean_Heap.thy ===== *)
theory Bean_Heap
  imports Bean_Prelude
begin

text \<open>
  The binary heap of \<open>heap.c\<close>, over an arbitrary program state \<open>'s\<close>. As in the C code the elements
  are pointers: the order \<open>lt\<close> (the \<open>less\<close> callback) looks through them into the state, and \<open>setpos\<close> stores an element's
  array index into the state. \<open>heap_data\<close> holds the slots written so far, of which the first
  \<open>heap_len\<close> are in the heap; the slots after them are stale and the code does read them
  (\<open>heapremove\<close> of the last element).
\<close>

section \<open>The heap and its operations\<close>

record 'a Heap =
  heap_cap :: nat
  heap_len :: nat
  heap_data :: "'a list"

type_synonym ('s, 'a) less_fn = "'s \<Rightarrow> 'a \<Rightarrow> 'a \<Rightarrow> bool"
type_synonym ('s, 'a) setpos_fn = "'a \<Rightarrow> nat \<Rightarrow> 's \<Rightarrow> 's"
type_synonym 's malloc_fn = "'s \<Rightarrow> bool \<times> 's"

definition heap_set :: "('s, 'a) setpos_fn \<Rightarrow> 'a Heap \<times> 's \<Rightarrow> nat \<Rightarrow> 'a \<Rightarrow> 'a Heap \<times> 's" where
  "heap_set setpos hs k x =
     ((fst hs)\<lparr>heap_data := slot_write (heap_data (fst hs)) k x\<rparr>, setpos x k (snd hs))"

definition heap_swap :: "('s, 'a) setpos_fn \<Rightarrow> 'a Heap \<times> 's \<Rightarrow> nat \<Rightarrow> nat \<Rightarrow> 'a Heap \<times> 's" where
  "heap_swap setpos hs a b =
     (let tmp = heap_data (fst hs) ! a;
          hs1 = heap_set setpos hs a (heap_data (fst hs) ! b)
      in heap_set setpos hs1 b tmp)"

definition heap_less :: "('s, 'a) less_fn \<Rightarrow> 'a Heap \<times> 's \<Rightarrow> nat \<Rightarrow> nat \<Rightarrow> bool" where
  "heap_less lt hs a b = lt (snd hs) (heap_data (fst hs) ! a) (heap_data (fst hs) ! b)"

text \<open>Both sift loops of the source. \<open>siftdown\<close> moves towards the root, \<open>siftup\<close> towards the leaves.\<close>

function siftdown ::
  "('s, 'a) less_fn \<Rightarrow> ('s, 'a) setpos_fn \<Rightarrow> 'a Heap \<times> 's \<Rightarrow> nat \<Rightarrow> 'a Heap \<times> 's" where
  "siftdown lt setpos hs k =
     (let p = (k - 1) div 2
      in if k = 0 \<or> heap_less lt hs p k then hs
         else siftdown lt setpos (heap_swap setpos hs k p) p)"
  by pat_completeness auto
termination
  by (relation "measure (\<lambda>(lt, setpos, hs, k). k)") auto

definition smallest3 :: "('s, 'a) less_fn \<Rightarrow> 'a Heap \<times> 's \<Rightarrow> nat \<Rightarrow> nat" where
  "smallest3 lt hs k =
     (let l = k * 2 + 1;
          r = k * 2 + 2;
          s1 = (if l < heap_len (fst hs) \<and> heap_less lt hs l k then l else k);
          s2 = (if r < heap_len (fst hs) \<and> heap_less lt hs r s1 then r else s1)
      in s2)"

lemma heap_len_set [simp]: "heap_len (fst (heap_set setpos hs k x)) = heap_len (fst hs)"
  by (simp add: heap_set_def)

lemma heap_cap_set [simp]: "heap_cap (fst (heap_set setpos hs k x)) = heap_cap (fst hs)"
  by (simp add: heap_set_def)

lemma heap_len_swap [simp]: "heap_len (fst (heap_swap setpos hs a b)) = heap_len (fst hs)"
  by (simp add: heap_swap_def)

lemma heap_cap_swap [simp]: "heap_cap (fst (heap_swap setpos hs a b)) = heap_cap (fst hs)"
  by (simp add: heap_swap_def)

lemma smallest3_range: "smallest3 lt hs k \<noteq> k \<Longrightarrow>
    k < smallest3 lt hs k \<and> smallest3 lt hs k < heap_len (fst hs)"
  by (auto simp: smallest3_def Let_def split: if_splits)

function siftup ::
  "('s, 'a) less_fn \<Rightarrow> ('s, 'a) setpos_fn \<Rightarrow> 'a Heap \<times> 's \<Rightarrow> nat \<Rightarrow> 'a Heap \<times> 's" where
  "siftup lt setpos hs k =
     (let s = smallest3 lt hs k
      in if s = k then hs
         else siftup lt setpos (heap_swap setpos hs k s) s)"
  by pat_completeness auto
termination
  by (relation "measure (\<lambda>(lt, setpos, hs, k). heap_len (fst hs) - k)")
    (auto dest!: smallest3_range)

declare siftdown.simps [simp del] siftup.simps [simp del]

definition heapinsert ::
  "('s, 'a) less_fn \<Rightarrow> ('s, 'a) setpos_fn \<Rightarrow> 's malloc_fn \<Rightarrow> 'a Heap \<Rightarrow> 's \<Rightarrow> 'a \<Rightarrow> bool \<times> 'a Heap \<times> 's" where
  "heapinsert lt setpos malloc h s x =
     (let (ok, h1, s1) =
        (if heap_len h = heap_cap h
         then (case malloc s of
                 (False, s') \<Rightarrow> (False, h, s')
               | (True, s') \<Rightarrow>
                   (True, h\<lparr>heap_data := take (heap_len h) (heap_data h),
                           heap_cap := (heap_len h + 1) * 2\<rparr>, s'))
         else (True, h, s))
      in if \<not> ok then (False, h1, s1)
         else let k = heap_len h1;
                  h2 = h1\<lparr>heap_len := heap_len h1 + 1\<rparr>;
                  (h3, s3) = siftdown lt setpos (heap_set setpos (h2, s1) k x) k
              in (True, h3, s3))"

definition heapremove ::
  "('s, 'a) less_fn \<Rightarrow> ('s, 'a) setpos_fn \<Rightarrow> 'a Heap \<Rightarrow> 's \<Rightarrow> nat \<Rightarrow> 'a option \<times> 'a Heap \<times> 's" where
  "heapremove lt setpos h s k =
     (if k \<ge> heap_len h then (None, h, s)
      else let x = heap_data h ! k;
               h1 = h\<lparr>heap_len := heap_len h - 1\<rparr>;
               hs2 = heap_set setpos (h1, s) k (heap_data h1 ! heap_len h1);
               hs3 = siftdown lt setpos hs2 k;
               (h4, s4) = siftup lt setpos hs3 k
           in (Some x, h4, s4))"

section \<open>What the heap holds\<close>

definition heap_wf :: "'a Heap \<Rightarrow> bool" where
  "heap_wf h \<longleftrightarrow> heap_len h \<le> length (heap_data h) \<and> length (heap_data h) \<le> heap_cap h"

definition heap_elems :: "'a Heap \<Rightarrow> 'a list" where
  "heap_elems h = take (heap_len h) (heap_data h)"

definition empty_heap :: "'a Heap" where
  "empty_heap = \<lparr>heap_cap = 0, heap_len = 0, heap_data = []\<rparr>"

definition heap_ordered :: "('a \<Rightarrow> 'a \<Rightarrow> bool) \<Rightarrow> nat \<Rightarrow> 'a list \<Rightarrow> bool" where
  "heap_ordered lt n xs \<longleftrightarrow> (\<forall>i. 0 < i \<and> i < n \<longrightarrow> \<not> lt (xs ! i) (xs ! ((i - 1) div 2)))"

text \<open>
  Ordered except between \<open>k\<close> and its parent, or except between \<open>k\<close> and its children. In both, the
  children of \<open>k\<close> are ordered against the parent of \<open>k\<close>.
\<close>

definition heap_except_up :: "('a \<Rightarrow> 'a \<Rightarrow> bool) \<Rightarrow> nat \<Rightarrow> nat \<Rightarrow> 'a list \<Rightarrow> bool" where
  "heap_except_up lt n k xs \<longleftrightarrow>
     (\<forall>i. 0 < i \<and> i < n \<and> i \<noteq> k \<longrightarrow> \<not> lt (xs ! i) (xs ! ((i - 1) div 2))) \<and>
     (\<forall>i. 0 < i \<and> i < n \<and> (i - 1) div 2 = k \<and> 0 < k \<longrightarrow> \<not> lt (xs ! i) (xs ! ((k - 1) div 2)))"

definition heap_except_down :: "('a \<Rightarrow> 'a \<Rightarrow> bool) \<Rightarrow> nat \<Rightarrow> nat \<Rightarrow> 'a list \<Rightarrow> bool" where
  "heap_except_down lt n k xs \<longleftrightarrow>
     (\<forall>i. 0 < i \<and> i < n \<and> (i - 1) div 2 \<noteq> k \<longrightarrow> \<not> lt (xs ! i) (xs ! ((i - 1) div 2))) \<and>
     (\<forall>i. 0 < i \<and> i < n \<and> (i - 1) div 2 = k \<and> 0 < k \<longrightarrow> \<not> lt (xs ! i) (xs ! ((k - 1) div 2)))"

lemma heap_data_swap:
  "a < length (heap_data (fst hs)) \<Longrightarrow> b < length (heap_data (fst hs)) \<Longrightarrow>
   heap_data (fst (heap_swap setpos hs a b)) =
     (heap_data (fst hs))[a := heap_data (fst hs) ! b, b := heap_data (fst hs) ! a]"
  by (simp add: heap_swap_def heap_set_def Let_def)

section \<open>Sifting restores the heap order\<close>

text \<open>The orders the heap is used with are strict weak orders.\<close>

locale heap_order =
  fixes lt :: "'a \<Rightarrow> 'a \<Rightarrow> bool"
  assumes asym: "lt x y \<Longrightarrow> \<not> lt y x"
    and notlt_trans: "\<not> lt x y \<Longrightarrow> \<not> lt y z \<Longrightarrow> \<not> lt x z"
begin

lemma irrefl: "\<not> lt x x"
  using asym by blast

lemma lt_trans: "lt x y \<Longrightarrow> lt y z \<Longrightarrow> lt x z"
  using asym notlt_trans by blast

lemma root_least:
  assumes "heap_ordered lt n xs" "i < n"
  shows "\<not> lt (xs ! i) (xs ! 0)"
  using assms(2)
proof (induction i rule: less_induct)
  case (less i)
  show ?case
  proof (cases "i = 0")
    case True
    then show ?thesis by (simp add: irrefl)
  next
    case False
    then have "\<not> lt (xs ! i) (xs ! ((i - 1) div 2))"
      using assms(1) less.prems by (simp add: heap_ordered_def)
    moreover have "\<not> lt (xs ! ((i - 1) div 2)) (xs ! 0)"
      using False less.prems by (intro less.IH) auto
    ultimately show ?thesis by (rule notlt_trans)
  qed
qed

lemma except_up_swap:
  assumes H: "heap_except_up lt n k xs" and k: "0 < k" "k < n" and n: "n \<le> length xs"
    and c: "\<not> lt (xs ! p) (xs ! k)" and p: "p = (k - 1) div 2"
  shows "heap_except_up lt n p (xs[k := xs ! p, p := xs ! k])"
proof -
  let ?ys = "xs[k := xs ! p, p := xs ! k]"
  have pk: "p < k" using k p by auto
  have yk: "?ys ! k = xs ! p" and yp: "?ys ! p = xs ! k"
    and yo: "\<And>i. i \<noteq> k \<Longrightarrow> i \<noteq> p \<Longrightarrow> ?ys ! i = xs ! i"
    using pk k n by (auto simp: nth_list_update)
  have H1: "\<And>i. 0 < i \<Longrightarrow> i < n \<Longrightarrow> i \<noteq> k \<Longrightarrow> \<not> lt (xs ! i) (xs ! ((i - 1) div 2))"
    and H2: "\<And>i. 0 < i \<Longrightarrow> i < n \<Longrightarrow> (i - 1) div 2 = k \<Longrightarrow> \<not> lt (xs ! i) (xs ! p)"
    using H k p by (auto simp: heap_except_up_def)
  have A: "\<not> lt (?ys ! i) (?ys ! ((i - 1) div 2))" if i: "0 < i" "i < n" "i \<noteq> p" for i
  proof (cases "i = k")
    case True
    then show ?thesis using c yk yp p by simp
  next
    case ik: False
    have yi: "?ys ! i = xs ! i" using ik i by (intro yo) auto
    consider "(i - 1) div 2 = k" | "(i - 1) div 2 = p" | "(i - 1) div 2 \<noteq> k" "(i - 1) div 2 \<noteq> p"
      by blast
    then show ?thesis
    proof cases
      case 1
      then show ?thesis using H2 [of i] i yi yk by simp
    next
      case 2
      then have "\<not> lt (xs ! i) (xs ! p)" using H1 [of i] i ik by simp
      then show ?thesis using 2 yi yp notlt_trans [OF _ c] by simp
    next
      case 3
      then have "?ys ! ((i - 1) div 2) = xs ! ((i - 1) div 2)" by (rule yo)
      then show ?thesis using H1 [of i] i ik yi by simp
    qed
  qed
  have B: "\<not> lt (?ys ! i) (?ys ! ((p - 1) div 2))"
    if i: "0 < i" "i < n" "(i - 1) div 2 = p" "0 < p" for i
  proof -
    have pp: "(p - 1) div 2 < p" using i by auto
    then have ypp: "?ys ! ((p - 1) div 2) = xs ! ((p - 1) div 2)" using pk by (intro yo) auto
    have hp: "\<not> lt (xs ! p) (xs ! ((p - 1) div 2))" using H1 [of p] i pk k by simp
    show ?thesis
    proof (cases "i = k")
      case True
      then show ?thesis using hp yk ypp by simp
    next
      case False
      have "i \<noteq> p" using i by auto
      then have "?ys ! i = xs ! i" using False by (intro yo) auto
      moreover have "\<not> lt (xs ! i) (xs ! p)" using H1 [of i] i False by simp
      ultimately show ?thesis using ypp notlt_trans [OF _ hp] by simp
    qed
  qed
  show ?thesis
    unfolding heap_except_up_def using A B by blast
qed

lemma except_up_ordered:
  assumes "heap_except_up lt n k xs" "k = 0 \<or> lt (xs ! ((k - 1) div 2)) (xs ! k)"
  shows "heap_ordered lt n xs"
  using assms asym unfolding heap_except_up_def heap_ordered_def by (metis gr_zeroI less_irrefl)

lemma except_down_swap:
  assumes H: "heap_except_down lt n k xs" and kc: "k < c" "c < n" "(c - 1) div 2 = k"
    and n: "n \<le> length xs" and less: "lt (xs ! c) (xs ! k)"
    and least: "\<And>i. 0 < i \<Longrightarrow> i < n \<Longrightarrow> (i - 1) div 2 = k \<Longrightarrow> \<not> lt (xs ! i) (xs ! c)"
  shows "heap_except_down lt n c (xs[k := xs ! c, c := xs ! k])"
proof -
  let ?ys = "xs[k := xs ! c, c := xs ! k]"
  have yk: "?ys ! k = xs ! c" and yc: "?ys ! c = xs ! k"
    and yo: "\<And>i. i \<noteq> k \<Longrightarrow> i \<noteq> c \<Longrightarrow> ?ys ! i = xs ! i"
    using kc n by (auto simp: nth_list_update)
  have H1: "\<And>i. 0 < i \<Longrightarrow> i < n \<Longrightarrow> (i - 1) div 2 \<noteq> k \<Longrightarrow> \<not> lt (xs ! i) (xs ! ((i - 1) div 2))"
    and H2: "\<And>i. 0 < i \<Longrightarrow> i < n \<Longrightarrow> (i - 1) div 2 = k \<Longrightarrow> 0 < k \<Longrightarrow> \<not> lt (xs ! i) (xs ! ((k - 1) div 2))"
    using H by (auto simp: heap_except_down_def)
  have A: "\<not> lt (?ys ! i) (?ys ! ((i - 1) div 2))"
    if i: "0 < i" "i < n" "(i - 1) div 2 \<noteq> c" for i
  proof -
    consider "i = c" | "i = k" | "i \<noteq> c" "i \<noteq> k" "(i - 1) div 2 = k"
      | "i \<noteq> c" "i \<noteq> k" "(i - 1) div 2 \<noteq> k" by blast
    then show ?thesis
    proof cases
      case 1
      then show ?thesis using kc yk yc asym [OF less] by simp
    next
      case 2
      have "(k - 1) div 2 < k" using 2 i by auto
      then have "?ys ! ((k - 1) div 2) = xs ! ((k - 1) div 2)" using kc by (intro yo) auto
      then show ?thesis using 2 H2 [of c] kc i yk by simp
    next
      case 3
      then show ?thesis using least [of i] i yo [of i] yk by simp
    next
      case 4
      then show ?thesis using H1 [of i] i yo [of i] yo [of "(i - 1) div 2"] by simp
    qed
  qed
  have B: "\<not> lt (?ys ! i) (?ys ! ((c - 1) div 2))"
    if i: "0 < i" "i < n" "(i - 1) div 2 = c" for i
  proof -
    have "i \<noteq> k" "i \<noteq> c" using i kc by auto
    then have "?ys ! i = xs ! i" by (rule yo)
    moreover have "\<not> lt (xs ! i) (xs ! c)" using H1 [of i] i kc by simp
    ultimately show ?thesis using kc yk by simp
  qed
  show ?thesis
    unfolding heap_except_down_def using A B by blast
qed

lemma except_down_ordered:
  assumes "heap_except_down lt n k xs"
    and "\<And>i. 0 < i \<Longrightarrow> i < n \<Longrightarrow> (i - 1) div 2 = k \<Longrightarrow> \<not> lt (xs ! i) (xs ! k)"
  shows "heap_ordered lt n xs"
  using assms unfolding heap_except_down_def heap_ordered_def by metis

text \<open>Overwriting slot \<open>k\<close> leaves the order intact except around \<open>k\<close>.\<close>

lemma overwrite_up_or_down:
  assumes H: "heap_ordered lt n xs" and k: "k < n" and n: "n \<le> length xs"
  shows "k = 0 \<or> \<not> lt y (xs ! ((k - 1) div 2)) \<Longrightarrow> heap_except_down lt n k (xs[k := y])"
    and "0 < k \<Longrightarrow> \<not> lt (xs ! ((k - 1) div 2)) y \<Longrightarrow> heap_except_up lt n k (xs[k := y])"
proof -
  let ?p = "(k - 1) div 2"
  have H1: "\<And>i. 0 < i \<Longrightarrow> i < n \<Longrightarrow> \<not> lt (xs ! i) (xs ! ((i - 1) div 2))"
    using H by (auto simp: heap_ordered_def)
  have other: "\<And>i. i \<noteq> k \<Longrightarrow> xs[k := y] ! i = xs ! i" and at: "xs[k := y] ! k = y"
    using k n by auto
  have grand: "\<not> lt (xs[k := y] ! i) (xs[k := y] ! ?p)"
    if i: "0 < i" "i < n" "(i - 1) div 2 = k" "0 < k" for i
  proof -
    have "i \<noteq> k" "?p \<noteq> k" using i by auto
    moreover have "\<not> lt (xs ! i) (xs ! k)" using H1 [of i] i by simp
    moreover have "\<not> lt (xs ! k) (xs ! ?p)" using H1 [of k] i k by simp
    ultimately show ?thesis using other notlt_trans by metis
  qed
  show "heap_except_down lt n k (xs[k := y])" if c: "k = 0 \<or> \<not> lt y (xs ! ?p)"
    unfolding heap_except_down_def
  proof (intro conjI allI impI)
    fix i assume i: "0 < i \<and> i < n \<and> (i - 1) div 2 \<noteq> k"
    show "\<not> lt (xs[k := y] ! i) (xs[k := y] ! ((i - 1) div 2))"
    proof (cases "i = k")
      case True
      then show ?thesis using c i at other [of ?p] by simp
    next
      case False
      then show ?thesis using i H1 [of i] other by simp
    qed
  qed (use grand in blast)
  assume k0: "0 < k" and c: "\<not> lt (xs ! ?p) y"
  have child: "\<And>i. 0 < i \<Longrightarrow> i < n \<Longrightarrow> (i - 1) div 2 = k \<Longrightarrow> \<not> lt (xs ! i) y"
    using H1 [of k] k0 k c notlt_trans H1 by metis
  show "heap_except_up lt n k (xs[k := y])"
    unfolding heap_except_up_def
  proof (intro conjI allI impI)
    fix i assume i: "0 < i \<and> i < n \<and> i \<noteq> k"
    show "\<not> lt (xs[k := y] ! i) (xs[k := y] ! ((i - 1) div 2))"
    proof (cases "(i - 1) div 2 = k")
      case True
      then show ?thesis using child [of i] i at other [of i] by simp
    next
      case False
      then show ?thesis using i H1 [of i] other by simp
    qed
  qed (use grand in blast)
qed

end

section \<open>Frames and shapes of the loops\<close>

lemma heap_swap_frame:
  "(\<And>x k s. f (setpos x k s) = f s) \<Longrightarrow> f (snd (heap_swap setpos hs a b)) = f (snd hs)"
  by (simp add: heap_swap_def heap_set_def Let_def)

lemma siftdown_frame:
  "(\<And>x k s. f (setpos x k s) = f s) \<Longrightarrow> f (snd (siftdown lt setpos hs k)) = f (snd hs)"
proof (induction lt setpos hs k rule: siftdown.induct)
  case (1 lt setpos hs k)
  then show ?case
    by (subst siftdown.simps) (simp add: Let_def heap_swap_frame [where f = f])
qed

lemma siftup_frame:
  "(\<And>x k s. f (setpos x k s) = f s) \<Longrightarrow> f (snd (siftup lt setpos hs k)) = f (snd hs)"
proof (induction lt setpos hs k rule: siftup.induct)
  case (1 lt setpos hs k)
  then show ?case
    by (subst siftup.simps) (simp add: Let_def heap_swap_frame [where f = f])
qed

lemma siftdown_shape [simp]:
  "heap_len (fst (siftdown lt setpos hs k)) = heap_len (fst hs)"
  "heap_cap (fst (siftdown lt setpos hs k)) = heap_cap (fst hs)"
  by (induction lt setpos hs k rule: siftdown.induct; subst siftdown.simps; simp add: Let_def)+

lemma siftup_shape [simp]:
  "heap_len (fst (siftup lt setpos hs k)) = heap_len (fst hs)"
  "heap_cap (fst (siftup lt setpos hs k)) = heap_cap (fst hs)"
  by (induction lt setpos hs k rule: siftup.induct; subst siftup.simps; simp add: Let_def)+

lemma siftdown_length:
  "k < length (heap_data (fst hs)) \<Longrightarrow>
   length (heap_data (fst (siftdown lt setpos hs k))) = length (heap_data (fst hs))"
proof (induction lt setpos hs k rule: siftdown.induct)
  case (1 lt setpos hs k)
  then show ?case
    by (subst siftdown.simps) (auto simp: Let_def heap_data_swap)
qed

lemma siftup_length:
  "k < length (heap_data (fst hs)) \<Longrightarrow> heap_len (fst hs) \<le> length (heap_data (fst hs)) \<Longrightarrow>
   length (heap_data (fst (siftup lt setpos hs k))) = length (heap_data (fst hs))"
proof (induction lt setpos hs k rule: siftup.induct)
  case (1 lt setpos hs k)
  show ?case
  proof (cases "smallest3 lt hs k = k")
    case True
    then show ?thesis by (subst siftup.simps) simp
  next
    case False
    then show ?thesis
      using 1 smallest3_range [OF False] by (subst siftup.simps) (simp add: Let_def heap_data_swap)
  qed
qed

lemma siftdown_mset:
  "k < n \<Longrightarrow> n \<le> length (heap_data (fst hs)) \<Longrightarrow>
   mset (take n (heap_data (fst (siftdown lt setpos hs k)))) = mset (take n (heap_data (fst hs)))"
proof (induction lt setpos hs k rule: siftdown.induct)
  case (1 lt setpos hs k)
  then show ?case
    by (subst siftdown.simps) (auto simp: Let_def heap_data_swap mset_take_swap)
qed

lemma siftup_mset:
  "k < heap_len (fst hs) \<Longrightarrow> heap_len (fst hs) \<le> length (heap_data (fst hs)) \<Longrightarrow>
   mset (take (heap_len (fst hs)) (heap_data (fst (siftup lt setpos hs k)))) =
   mset (take (heap_len (fst hs)) (heap_data (fst hs)))"
proof (induction lt setpos hs k rule: siftup.induct)
  case (1 lt setpos hs k)
  show ?case
  proof (cases "smallest3 lt hs k = k")
    case True
    then show ?thesis by (subst siftup.simps) simp
  next
    case False
    then show ?thesis
      using 1 smallest3_range [OF False]
      by (subst siftup.simps) (simp add: Let_def heap_data_swap mset_take_swap)
  qed
qed

lemma siftup_past_end: "heap_len (fst hs) \<le> k \<Longrightarrow> siftup lt setpos hs k = hs"
  by (subst siftup.simps) (auto simp: Let_def smallest3_def)

text \<open>Whatever the callbacks and the allocator leave alone, the operations leave alone.\<close>

lemma heapinsert_frame:
  assumes "\<And>x k s. f (setpos x k s) = f s" "\<And>s. f (snd (malloc s)) = f s"
  shows "f (snd (snd (heapinsert lt setpos malloc h s x))) = f s"
proof -
  have m: "f b = f t" if "malloc t = (a, b)" for t a b using assms(2) [of t] that by simp
  show ?thesis
    by (auto simp: heapinsert_def Let_def heap_set_def assms(1) siftdown_frame [where f = f, OF assms(1)]
        split: prod.split bool.split dest!: m)
qed

lemma heapremove_frame:
  assumes "\<And>x k s. f (setpos x k s) = f s"
  shows "f (snd (snd (heapremove lt setpos h s k))) = f s"
  by (simp add: heapremove_def Let_def heap_set_def case_prod_beta assms
      siftdown_frame [where f = f, OF assms] siftup_frame [where f = f, OF assms])

section \<open>Correctness under lawful callbacks\<close>

text \<open>
  The contract of the two callbacks and of the allocator: \<open>setpos\<close> changes nothing but the position
  of its element, and neither it nor the allocator changes the order.
\<close>

locale heap_callbacks =
  fixes lt :: "('s, 'a) less_fn"
    and setpos :: "('s, 'a) setpos_fn"
    and malloc :: "'s malloc_fn"
    and getpos :: "'s \<Rightarrow> 'a \<Rightarrow> nat"
  assumes lt_setpos: "lt (setpos x k s) = lt s"
    and getpos_setpos: "getpos (setpos x k s) y = (if y = x then k else getpos s y)"
    and lt_malloc: "lt (snd (malloc s)) = lt s"
    and getpos_malloc: "getpos (snd (malloc s)) = getpos s"
    and order: "heap_order (lt s)"
begin

definition pos_ok :: "nat \<Rightarrow> 'a list \<Rightarrow> 's \<Rightarrow> bool" where
  "pos_ok n xs s \<longleftrightarrow> (\<forall>i<n. getpos s (xs ! i) = i)"

definition heap_ok :: "'a Heap \<Rightarrow> 's \<Rightarrow> bool" where
  "heap_ok h s \<longleftrightarrow> heap_wf h \<and> heap_ordered (lt s) (heap_len h) (heap_data h) \<and>
     pos_ok (heap_len h) (heap_data h) s"

lemma pos_ok_distinct: "pos_ok n xs s \<Longrightarrow> n \<le> length xs \<Longrightarrow> distinct (take n xs)"
  unfolding pos_ok_def by (simp add: distinct_conv_nth) metis

lemma swap_pos:
  assumes P: "pos_ok n (heap_data (fst hs)) (snd hs)" and ab: "a < n" "b < n" "a \<noteq> b"
    and n: "n \<le> length (heap_data (fst hs))"
  shows "pos_ok n (heap_data (fst (heap_swap setpos hs a b))) (snd (heap_swap setpos hs a b))"
proof -
  let ?xs = "heap_data (fst hs)"
  have d: "heap_data (fst (heap_swap setpos hs a b)) = ?xs[a := ?xs ! b, b := ?xs ! a]"
    using ab n by (intro heap_data_swap) auto
  have s: "snd (heap_swap setpos hs a b) = setpos (?xs ! a) b (setpos (?xs ! b) a (snd hs))"
    by (simp add: heap_swap_def heap_set_def Let_def)
  have inj: "\<And>i j. i < n \<Longrightarrow> j < n \<Longrightarrow> ?xs ! i = ?xs ! j \<Longrightarrow> i = j"
    using P unfolding pos_ok_def by metis
  show ?thesis
    unfolding d s pos_ok_def getpos_setpos
    using P ab n inj by (auto simp: nth_list_update pos_ok_def)
qed

lemma siftdown_pos:
  "pos_ok n (heap_data (fst hs)) (snd hs) \<Longrightarrow> k < n \<Longrightarrow> n \<le> length (heap_data (fst hs)) \<Longrightarrow>
   pos_ok n (heap_data (fst (siftdown lt setpos hs k))) (snd (siftdown lt setpos hs k))"
proof (induction k arbitrary: hs rule: less_induct)
  case (less k)
  show ?case
  proof (cases "k = 0 \<or> heap_less lt hs ((k - 1) div 2) k")
    case True
    then show ?thesis using less.prems by (subst (1 2) siftdown.simps) (auto simp: Let_def)
  next
    case False
    let ?p = "(k - 1) div 2" and ?hs = "heap_swap setpos hs k ((k - 1) div 2)"
    have "pos_ok n (heap_data (fst ?hs)) (snd ?hs)"
      using less.prems False by (intro swap_pos) auto
    then have "pos_ok n (heap_data (fst (siftdown lt setpos ?hs ?p))) (snd (siftdown lt setpos ?hs ?p))"
      using less.prems False by (intro less.IH) (auto simp: heap_data_swap)
    then show ?thesis using False by (subst (1 2) siftdown.simps) (simp add: Let_def)
  qed
qed

lemma siftdown_ordered:
  "heap_except_up (lt (snd hs)) n k (heap_data (fst hs)) \<Longrightarrow> k < n \<Longrightarrow>
   n \<le> length (heap_data (fst hs)) \<Longrightarrow>
   heap_ordered (lt (snd hs)) n (heap_data (fst (siftdown lt setpos hs k)))"
proof (induction k arbitrary: hs rule: less_induct)
  case (less k)
  let ?p = "(k - 1) div 2" and ?hs = "heap_swap setpos hs k ((k - 1) div 2)"
  show ?case
  proof (cases "k = 0 \<or> heap_less lt hs ?p k")
    case True
    then have "heap_ordered (lt (snd hs)) n (heap_data (fst hs))"
      using less.prems order by (intro heap_order.except_up_ordered) (auto simp: heap_less_def)
    then show ?thesis using True by (subst siftdown.simps) (auto simp: Let_def)
  next
    case False
    then have pk: "?p < k" by auto
    have lt: "lt (snd ?hs) = lt (snd hs)" by (rule heap_swap_frame) (rule lt_setpos)
    have "heap_except_up (lt (snd hs)) n ?p (heap_data (fst ?hs))"
      using False less.prems heap_order.except_up_swap [OF order less.prems(1), of ?p]
      by (simp add: heap_data_swap heap_less_def)
    then have "heap_ordered (lt (snd hs)) n (heap_data (fst (siftdown lt setpos ?hs ?p)))"
      using less.IH [of ?p ?hs] pk less.prems lt by (simp add: heap_data_swap)
    then show ?thesis using False by (subst siftdown.simps) (simp add: Let_def)
  qed
qed

lemma smallest3_least:
  assumes "0 < i" "i < heap_len (fst hs)" "(i - 1) div 2 = k"
  shows "\<not> heap_less lt hs i (smallest3 lt hs k)"
proof -
  let ?L = "heap_less lt hs" and ?l = "k * 2 + 1" and ?r = "k * 2 + 2"
  have irr: "\<And>a. \<not> ?L a a" and asy: "\<And>a b. ?L a b \<Longrightarrow> \<not> ?L b a"
    and tr: "\<And>a b c. \<not> ?L a b \<Longrightarrow> \<not> ?L b c \<Longrightarrow> \<not> ?L a c"
    unfolding heap_less_def
    using heap_order.irrefl [OF order] heap_order.asym [OF order] heap_order.notlt_trans [OF order]
    by blast+
  consider "i = ?l" | "i = ?r" using assms by linarith
  then show ?thesis
  proof cases
    case 1
    have "?L ?r ?l \<Longrightarrow> \<not> ?L ?l ?r" by (rule asy)
    moreover have "\<not> ?L ?l k \<Longrightarrow> ?L ?r k \<Longrightarrow> \<not> ?L ?l ?r"
      using tr [of ?l k ?r] asy [of ?r k] by blast
    ultimately show ?thesis
      using 1 assms(2) irr [of ?l] unfolding smallest3_def Let_def by presburger
  next
    case 2
    then show ?thesis
      using assms(2) irr [of ?r] unfolding smallest3_def Let_def by presburger
  qed
qed

lemma smallest3_less: "smallest3 lt hs k \<noteq> k \<Longrightarrow>
    heap_less lt hs (smallest3 lt hs k) k \<and> (smallest3 lt hs k - 1) div 2 = k"
  using heap_order.lt_trans [OF order, of "snd hs" "heap_data (fst hs) ! (k * 2 + 2)"
      "heap_data (fst hs) ! (k * 2 + 1)" "heap_data (fst hs) ! k"]
  unfolding smallest3_def heap_less_def Let_def by (simp split: if_splits)

lemma siftup_ordered_pos:
  "heap_except_down (lt (snd hs)) (heap_len (fst hs)) k (heap_data (fst hs)) \<Longrightarrow>
   heap_len (fst hs) \<le> length (heap_data (fst hs)) \<Longrightarrow> k < heap_len (fst hs) \<Longrightarrow>
   pos_ok (heap_len (fst hs)) (heap_data (fst hs)) (snd hs) \<Longrightarrow>
   heap_ordered (lt (snd hs)) (heap_len (fst hs)) (heap_data (fst (siftup lt setpos hs k))) \<and>
   pos_ok (heap_len (fst hs)) (heap_data (fst (siftup lt setpos hs k))) (snd (siftup lt setpos hs k))"
proof (induction "heap_len (fst hs) - k" arbitrary: k hs rule: less_induct)
  case less
  let ?c = "smallest3 lt hs k"
  let ?hs = "heap_swap setpos hs k ?c"
  show ?case
  proof (cases "?c = k")
    case True
    have "heap_ordered (lt (snd hs)) (heap_len (fst hs)) (heap_data (fst hs))"
      using less.prems smallest3_least [of _ hs k] True
      by (intro heap_order.except_down_ordered [OF order]) (auto simp: heap_less_def)
    then show ?thesis using True less.prems by (subst (1 2 3) siftup.simps) (simp add: Let_def)
  next
    case False
    note c = smallest3_range [OF False] smallest3_less [OF False]
    have lt: "lt (snd ?hs) = lt (snd hs)" by (rule heap_swap_frame) (rule lt_setpos)
    have "heap_except_down (lt (snd hs)) (heap_len (fst hs)) ?c (heap_data (fst ?hs))"
      using less.prems c smallest3_least [of _ hs k]
        heap_order.except_down_swap [OF order less.prems(1), of ?c]
      by (simp add: heap_data_swap heap_less_def)
    moreover have "pos_ok (heap_len (fst hs)) (heap_data (fst ?hs)) (snd ?hs)"
      using less.prems c by (intro swap_pos) auto
    moreover have "heap_len (fst hs) - ?c < heap_len (fst hs) - k" using c less.prems by arith
    ultimately have "heap_ordered (lt (snd hs)) (heap_len (fst hs)) (heap_data (fst (siftup lt setpos ?hs ?c))) \<and>
      pos_ok (heap_len (fst hs)) (heap_data (fst (siftup lt setpos ?hs ?c))) (snd (siftup lt setpos ?hs ?c))"
      using less.hyps [of ?hs ?c] less.prems c lt by (simp add: heap_data_swap)
    then show ?thesis using False by (subst (1 2 3) siftup.simps) (simp add: Let_def)
  qed
qed

lemma siftup_ordered_id:
  assumes "heap_ordered (lt (snd hs)) (heap_len (fst hs)) (heap_data (fst hs))"
  shows "siftup lt setpos hs k = hs"
proof -
  have "smallest3 lt hs k = k"
  proof (rule ccontr)
    assume c: "smallest3 lt hs k \<noteq> k"
    then have "0 < smallest3 lt hs k \<and> smallest3 lt hs k < heap_len (fst hs)"
      using smallest3_range [OF c] by linarith
    then show False
      using assms smallest3_less [OF c] unfolding heap_ordered_def heap_less_def by auto
  qed
  then show ?thesis by (subst siftup.simps) simp
qed

lemma heapinsert_fail:
  assumes "heapinsert lt setpos malloc h s x = (False, h', s')"
  shows "h' = h \<and> s' = snd (malloc s) \<and> heap_len h = heap_cap h"
  using assms by (auto simp: heapinsert_def Let_def split: if_splits prod.splits bool.splits)

lemma heapinsert_grow:
  assumes "heapinsert lt setpos malloc h s x = (True, h', s')" "heap_wf h"
  obtains g t where "heap_wf g" "heap_len g = heap_len h" "heap_len g < heap_cap g"
    "heap_elems g = heap_elems h" "t = s \<or> t = snd (malloc s)"
    "(h', s') = siftdown lt setpos
       (heap_set setpos (g\<lparr>heap_len := heap_len g + 1\<rparr>, t) (heap_len g) x) (heap_len g)"
proof (cases "heap_len h = heap_cap h")
  case True
  let ?g = "h\<lparr>heap_data := take (heap_len h) (heap_data h), heap_cap := (heap_len h + 1) * 2\<rparr>"
  have "(h', s') = siftdown lt setpos
       (heap_set setpos (?g\<lparr>heap_len := heap_len ?g + 1\<rparr>, snd (malloc s)) (heap_len ?g) x) (heap_len ?g)"
    using assms(1) True by (auto simp: heapinsert_def Let_def split: prod.splits bool.splits)
  then show ?thesis
    using assms(2) True by (intro that [of ?g "snd (malloc s)"]) (auto simp: heap_wf_def heap_elems_def)
next
  case False
  have "(h', s') = siftdown lt setpos
       (heap_set setpos (h\<lparr>heap_len := heap_len h + 1\<rparr>, s) (heap_len h) x) (heap_len h)"
    using assms(1) False by (auto simp: heapinsert_def Let_def split: prod.splits)
  then show ?thesis
    using assms(2) False by (intro that [of h s]) (auto simp: heap_wf_def)
qed

lemma nth_heap_elems: "i < heap_len h \<Longrightarrow> heap_elems h ! i = heap_data h ! i"
  by (simp add: heap_elems_def)

lemma order_elems:
  "heap_ordered l (heap_len h) (heap_data h) \<longleftrightarrow> heap_ordered l (heap_len h) (heap_elems h)"
  unfolding heap_ordered_def by (auto simp: heap_elems_def)

lemma pos_elems: "pos_ok (heap_len h) (heap_data h) s \<longleftrightarrow> pos_ok (heap_len h) (heap_elems h) s"
  unfolding pos_ok_def by (auto simp: heap_elems_def)

lemma heap_set_new:
  fixes g :: "'a Heap" and t :: 's and x :: 'a
  defines "n \<equiv> heap_len g"
  defines "hs \<equiv> heap_set setpos (g\<lparr>heap_len := n + 1\<rparr>, t) n x"
  assumes nl: "n \<le> length (heap_data g)" and ord: "heap_ordered (lt t) n (heap_data g)"
    and pos: "pos_ok n (heap_data g) t" and new: "x \<notin> set (heap_elems g)"
  shows "heap_except_up (lt t) (n + 1) n (heap_data (fst hs))"
    and "pos_ok (n + 1) (heap_data (fst hs)) (snd hs)"
proof -
  have d: "heap_data (fst hs) = slot_write (heap_data g) n x" and sn: "snd hs = setpos x n t"
    by (simp_all add: heap_set_def hs_def)
  have nth: "\<And>i. i < n + 1 \<Longrightarrow> heap_data (fst hs) ! i = (if i = n then x else heap_data g ! i)"
    using d nl by (auto simp: nth_slot_write)
  have neq: "heap_data g ! i \<noteq> x" if "i < n" for i
  proof -
    have "heap_data g ! i \<in> set (heap_elems g)"
      using that nl by (auto simp: heap_elems_def in_set_conv_nth n_def)
    then show ?thesis using new by blast
  qed
  show "heap_except_up (lt t) (n + 1) n (heap_data (fst hs))"
    unfolding heap_except_up_def
  proof (intro conjI allI impI)
    fix i assume i: "0 < i \<and> i < n + 1 \<and> i \<noteq> n"
    then have "(i - 1) div 2 < n" by auto
    then show "\<not> lt t (heap_data (fst hs) ! i) (heap_data (fst hs) ! ((i - 1) div 2))"
      using i ord nth [of i] nth [of "(i - 1) div 2"] by (simp add: heap_ordered_def)
  qed auto
  show "pos_ok (n + 1) (heap_data (fst hs)) (snd hs)"
    using pos nth neq unfolding pos_ok_def sn getpos_setpos by (auto simp: less_Suc_eq)
qed

lemma heapinsert_ok:
  assumes ins: "heapinsert lt setpos malloc h s x = (True, h', s')"
    and ok: "heap_ok h s" and new: "x \<notin> set (heap_elems h)"
  shows "heap_ok h' s'" "mset (heap_elems h') = add_mset x (mset (heap_elems h))" "lt s' = lt s"
proof -
  obtain g t where g: "heap_wf g" "heap_len g = heap_len h" "heap_len g < heap_cap g"
      "heap_elems g = heap_elems h" and t: "t = s \<or> t = snd (malloc s)"
    and eq: "(h', s') = siftdown lt setpos
       (heap_set setpos (g\<lparr>heap_len := heap_len g + 1\<rparr>, t) (heap_len g) x) (heap_len g)"
    using heapinsert_grow [OF ins] ok by (auto simp: heap_ok_def)
  let ?n = "heap_len g"
  let ?hs = "heap_set setpos (g\<lparr>heap_len := ?n + 1\<rparr>, t) ?n x"
  have nl: "?n \<le> length (heap_data g)" using g by (simp add: heap_wf_def)
  have ltt: "lt t = lt s" and gpt: "getpos t = getpos s" using t lt_malloc getpos_malloc by auto
  have "heap_ordered (lt t) ?n (heap_data g)" "pos_ok ?n (heap_data g) t"
    using ok g ltt gpt order_elems [of "lt s" g] order_elems [of "lt s" h]
      pos_elems [of g s] pos_elems [of h s]
    by (simp_all add: heap_ok_def pos_ok_def)
  note up = heap_set_new [OF nl this, of x]
  have d: "heap_data (fst ?hs) = slot_write (heap_data g) ?n x" and lt': "lt (snd ?hs) = lt s"
    using ltt lt_setpos by (simp_all add: heap_set_def)
  have len: "?n + 1 \<le> length (heap_data (fst ?hs))" using d nl by simp
  have hlen: "heap_len h' = ?n + 1" and hcap: "heap_cap h' = heap_cap g"
    using eq by (auto dest!: arg_cong [where f = fst] simp: heap_set_def)
  have data: "heap_data h' = heap_data (fst (siftdown lt setpos ?hs ?n))"
    and st: "s' = snd (siftdown lt setpos ?hs ?n)" using eq by (metis fst_conv, metis snd_conv)
  show lts: "lt s' = lt s"
    using siftdown_frame [of lt setpos lt ?hs ?n] lt_setpos lt' st by simp
  have "length (heap_data h') = length (heap_data (fst ?hs))"
    unfolding data using len by (intro siftdown_length) simp
  then have "heap_wf h'" using hlen hcap len d g nl by (auto simp: heap_wf_def)
  moreover have "heap_ordered (lt s) (?n + 1) (heap_data h')"
    unfolding data using siftdown_ordered [of ?hs "?n + 1" ?n] up(1) new g lt' ltt len by simp
  moreover have "pos_ok (?n + 1) (heap_data h') s'"
    unfolding data st using siftdown_pos [OF up(2), of ?n] new g len by simp
  ultimately show "heap_ok h' s'"
    using hlen lts by (simp add: heap_ok_def)
  have "mset (heap_elems h') = mset (take (?n + 1) (heap_data (fst ?hs)))"
    unfolding heap_elems_def hlen data by (rule siftdown_mset) (use len in auto)
  then show "mset (heap_elems h') = add_mset x (mset (heap_elems h))"
    using g nl d by (simp add: take_slot_write_same heap_elems_def)
qed

text \<open>
  Removal. The stale slot that \<open>siftdown\<close> sees when the last element is removed is harmless when
  the parent is strictly smaller; the order of the jobs is total, the order of the connections is not.
\<close>

definition removable :: "'a Heap \<Rightarrow> 's \<Rightarrow> nat \<Rightarrow> bool" where
  "removable h s k \<longleftrightarrow> k < heap_len h \<and>
     (Suc k = heap_len h \<longrightarrow> k = 0 \<or> lt s (heap_data h ! ((k - 1) div 2)) (heap_data h ! k))"

lemma total_removable:
  assumes ok: "heap_ok h s" and k: "k < heap_len h"
    and total: "\<And>x y. x \<in> set (heap_elems h) \<Longrightarrow> y \<in> set (heap_elems h) \<Longrightarrow> x \<noteq> y \<Longrightarrow> lt s x y \<or> lt s y x"
  shows "removable h s k"
proof -
  let ?p = "(k - 1) div 2"
  have "lt s (heap_data h ! ?p) (heap_data h ! k)" if k0: "k \<noteq> 0"
  proof -
    have p: "?p < heap_len h" "?p \<noteq> k" using k k0 by auto
    have "heap_data h ! ?p \<in> set (heap_elems h)" "heap_data h ! k \<in> set (heap_elems h)"
      using p k ok by (auto simp: heap_elems_def heap_ok_def heap_wf_def in_set_conv_nth)
    moreover have "heap_data h ! ?p \<noteq> heap_data h ! k"
      using ok p k unfolding heap_ok_def pos_ok_def by metis
    moreover have "\<not> lt s (heap_data h ! k) (heap_data h ! ?p)"
      using ok k k0 by (simp add: heap_ok_def heap_ordered_def)
    ultimately show ?thesis using total by blast
  qed
  then show ?thesis using k by (auto simp: removable_def)
qed

lemma overwrite_pos:
  assumes pos: "pos_ok (Suc n) xs s" and k: "k < n" and n: "n < length xs"
  shows "pos_ok n (xs[k := xs ! n]) (setpos (xs ! n) k s)"
  unfolding pos_ok_def
proof (intro allI impI)
  fix i assume i: "i < n"
  have g: "\<And>j. j < Suc n \<Longrightarrow> getpos s (xs ! j) = j" using pos by (simp add: pos_ok_def)
  then have "xs ! i \<noteq> xs ! n" using i by (metis less_Suc_eq less_irrefl)
  then show "getpos (setpos (xs ! n) k s) (xs[k := xs ! n] ! i) = i"
    using g [of i] i k n by (cases "i = k") (simp_all add: getpos_setpos)
qed

text \<open>The situations after the last element has been moved into slot \<open>k\<close>.\<close>

lemma remove_sift:
  fixes n k :: nat and h1 :: "'a Heap" and s :: 's
  defines "xs \<equiv> heap_data h1"
  defines "hs \<equiv> siftdown lt setpos (heap_set setpos (h1, s) k (xs ! n)) k"
  defines "hs' \<equiv> siftup lt setpos hs k"
  assumes n: "heap_len h1 = n" "n < length xs" and k: "k < n"
    and ord: "heap_ordered (lt s) (Suc n) xs" and pos: "pos_ok (Suc n) xs s"
  shows "heap_ordered (lt s) n (heap_data (fst hs'))" "pos_ok n (heap_data (fst hs')) (snd hs')"
    "mset (take n (heap_data (fst hs'))) = mset (take (Suc n) xs) - {#xs ! k#}"
    "length (heap_data (fst hs')) = length xs"
proof -
  let ?hs = "heap_set setpos (h1, s) k (xs ! n)" and ?p = "(k - 1) div 2"
  have d: "heap_data (fst ?hs) = xs[k := xs ! n]" and sn: "snd ?hs = setpos (xs ! n) k s"
    using n k by (simp_all add: heap_set_def xs_def)
  have lt1: "lt (snd ?hs) = lt s" using sn lt_setpos by simp
  have lt2: "lt (snd hs) = lt s"
    unfolding hs_def using siftdown_frame [of lt setpos lt ?hs k] lt_setpos lt1 by simp
  have p1: "pos_ok n (xs[k := xs ! n]) (snd ?hs)"
    unfolding sn using pos k n by (intro overwrite_pos) auto
  have ln: "length (heap_data (fst hs)) = length xs" "heap_len (fst hs) = n"
    unfolding hs_def using d k n by (simp_all add: siftdown_length)
  have p2: "pos_ok n (heap_data (fst hs)) (snd hs)"
    unfolding hs_def using siftdown_pos [of n ?hs k] p1 d k n by simp
  have on: "heap_ordered (lt s) n xs" using ord by (auto simp: heap_ordered_def)
  note over = heap_order.overwrite_up_or_down [OF order on k, of "xs ! n"]
  have "heap_ordered (lt s) n (heap_data (fst hs')) \<and> pos_ok n (heap_data (fst hs')) (snd hs')"
  proof (cases "k = 0 \<or> heap_less lt ?hs ?p k")
    case True
    then have "k = 0 \<or> lt s (xs ! ?p) (xs ! n)"
      using k n d lt1 by (cases "?p = k") (auto simp: heap_less_def)
    then have "heap_except_down (lt s) n k (xs[k := xs ! n])"
      using over(1) n heap_order.asym [OF order] by auto
    moreover have "hs = ?hs" unfolding hs_def using True by (subst siftdown.simps) (auto simp: Let_def)
    ultimately show ?thesis
      unfolding hs'_def using siftup_ordered_pos [of ?hs k] d n k lt1 p1 by (simp add: heap_set_def)
  next
    case False
    then have "\<not> lt s (xs ! ?p) (xs ! n)" "0 < k" "?p \<noteq> k"
      using k n d lt1 by (auto simp: heap_less_def)
    then have "heap_except_up (lt s) n k (xs[k := xs ! n])" using over(2) n by auto
    then have o: "heap_ordered (lt s) n (heap_data (fst hs))"
      unfolding hs_def using siftdown_ordered [of ?hs n k] d lt1 k n by simp
    then have "hs' = hs" unfolding hs'_def using siftup_ordered_id [of hs k] ln lt2 by simp
    then show ?thesis using o p2 by simp
  qed
  then show "heap_ordered (lt s) n (heap_data (fst hs'))" "pos_ok n (heap_data (fst hs')) (snd hs')"
    by blast+
  have "mset (take n (heap_data (fst hs'))) = mset (take n (heap_data (fst hs)))"
    unfolding hs'_def using siftup_mset [of k hs] ln k n by simp
  also have "\<dots> = mset (take n (xs[k := xs ! n]))"
    unfolding hs_def using siftdown_mset [of k n ?hs] d k n by simp
  also have "\<dots> = mset (take (Suc n) xs) - {#xs ! k#}"
    using mset_take_remove_at [of k "Suc n" xs] k n by simp
  finally show "mset (take n (heap_data (fst hs'))) = mset (take (Suc n) xs) - {#xs ! k#}" .
  show "length (heap_data (fst hs')) = length xs"
    unfolding hs'_def using siftup_length [of k hs] ln k n by simp
qed

lemma heapremove_last:
  assumes "removable h s k" "Suc k = heap_len h" "heap_wf h"
  shows "heapremove lt setpos h s k =
    (Some (heap_data h ! k), h\<lparr>heap_len := k\<rparr>, setpos (heap_data h ! k) k s)"
proof -
  let ?h = "h\<lparr>heap_len := heap_len h - 1\<rparr>"
  have k: "heap_len h - 1 = k" "k < length (heap_data h)" using assms by (auto simp: heap_wf_def)
  have hs: "heap_set setpos (?h, s) k (heap_data h ! k) = (h\<lparr>heap_len := k\<rparr>, setpos (heap_data h ! k) k s)"
    using k by (simp add: heap_set_def)
  have "siftdown lt setpos (h\<lparr>heap_len := k\<rparr>, setpos (heap_data h ! k) k s) k =
      (h\<lparr>heap_len := k\<rparr>, setpos (heap_data h ! k) k s)"
    using assms(1,2) by (subst siftdown.simps) (auto simp: Let_def heap_less_def removable_def lt_setpos)
  then show ?thesis
    using assms(2) k hs by (simp add: heapremove_def Let_def siftup_past_end)
qed

text \<open>
  The last element is overwritten with itself before it is sifted, with the heap already one shorter. When it is not larger than
  its parent, it takes the place of the parent, and it is the parent that drops out of the heap.
\<close>

lemma heapremove_last_tie:
  assumes wf: "heap_wf h" and k: "heap_len h = Suc k" "0 < k"
    and tie: "\<not> lt s (heap_data h ! ((k - 1) div 2)) (heap_data h ! k)"
    and e: "heapremove lt setpos h s k = (r, h', s')"
  shows "r = Some (heap_data h ! k)" "mset (heap_elems h') = mset (heap_elems h) - {#heap_data h ! ((k - 1) div 2)#}"
    "heap_data h ! k \<in> set (heap_elems h')"
proof -
  let ?x = "heap_data h ! k" and ?p = "(k - 1) div 2" and ?xs = "heap_data h"
  let ?hs = "(h\<lparr>heap_len := k\<rparr>, setpos ?x k s)"
  have p: "?p < k" "k < length ?xs" using wf k by (auto simp: heap_wf_def)
  have hs: "heap_set setpos (h\<lparr>heap_len := heap_len h - 1\<rparr>, s) k ?x = ?hs" using p k by (simp add: heap_set_def)
  let ?sw = "heap_swap setpos ?hs k ?p"
  have "siftdown lt setpos ?hs k = siftdown lt setpos ?sw ?p"
    using tie k(2) by (subst siftdown.simps) (simp add: Let_def heap_less_def lt_setpos)
  then have r: "r = Some ?x" and h': "h' = fst (siftdown lt setpos ?sw ?p)"
    using e k hs by (auto simp: heapremove_def Let_def siftup_past_end)
  show "r = Some ?x" by (rule r)
  have d: "heap_data (fst ?sw) = ?xs[k := ?xs ! ?p, ?p := ?x]" using p by (simp add: heap_data_swap)
  then have "take k (heap_data (fst ?sw)) = (take k ?xs)[?p := ?x]" using p by (simp add: take_update_swap list_update_beyond)
  moreover have "mset (heap_elems h') = mset (take k (heap_data (fst ?sw)))"
    using siftdown_mset [of ?p k ?sw lt setpos] p d by (simp add: heap_elems_def h')
  ultimately have m: "mset (heap_elems h') = add_mset ?x (mset (take k ?xs) - {#?xs ! ?p#})"
    using p by (simp add: mset_update)
  have "?xs ! ?p \<in># mset (take k ?xs)" using p by (auto simp: in_set_conv_nth)
  moreover have "mset (heap_elems h) = add_mset ?x (mset (take k ?xs))" using p k by (simp add: heap_elems_def take_Suc_conv_app_nth)
  ultimately show "mset (heap_elems h') = mset (heap_elems h) - {#?xs ! ?p#}" by (simp add: m)
  have "?x \<in># mset (heap_elems h')" by (simp add: m)
  then show "?x \<in> set (heap_elems h')" by simp
qed

lemma heapremove_ok:
  assumes rm: "heapremove lt setpos h s k = (r, h', s')"
    and ok: "heap_ok h s" and k: "removable h s k"
  shows "r = Some (heap_data h ! k)" "heap_ok h' s'"
    "mset (heap_elems h') = mset (heap_elems h) - {#heap_data h ! k#}" "lt s' = lt s"
proof -
  have wf: "heap_wf h" and ord: "heap_ordered (lt s) (heap_len h) (heap_data h)"
    and pos: "pos_ok (heap_len h) (heap_data h) s" and kl: "k < heap_len h"
    using ok k by (auto simp: heap_ok_def removable_def)
  obtain n where n: "heap_len h = Suc n" using kl by (cases "heap_len h") auto
  have nl: "n < length (heap_data h)" using wf n by (simp add: heap_wf_def)
  show lt: "lt s' = lt s"
    using rm heapremove_frame [of lt setpos lt h s k] lt_setpos by simp
  show r: "r = Some (heap_data h ! k)"
    using rm kl by (auto simp: heapremove_def Let_def split: prod.splits)
  have "heap_ok h' s' \<and> mset (heap_elems h') = mset (heap_elems h) - {#heap_data h ! k#}"
  proof (cases "k = n")
    case True
    then have h': "h' = h\<lparr>heap_len := k\<rparr>" "s' = setpos (heap_data h ! k) k s"
      using rm heapremove_last [OF k _ wf] n by auto
    have g: "\<And>i. i < Suc n \<Longrightarrow> getpos s (heap_data h ! i) = i" using pos n by (simp add: pos_ok_def)
    have "getpos s' (heap_data h ! i) = i" if "i < n" for i
      using g [of i] g [of n] that True h' by (auto simp: getpos_setpos)
    then have "pos_ok n (heap_data h) s'" by (simp add: pos_ok_def)
    then have "heap_ok h' s'"
      using h' True n wf ord lt by (auto simp: heap_ok_def heap_wf_def heap_ordered_def)
    then show ?thesis
      using h' True n nl by (simp add: heap_elems_def take_Suc_conv_app_nth)
  next
    case False
    then have kn: "k < n" using kl n by simp
    let ?h1 = "h\<lparr>heap_len := n\<rparr>"
    let ?hs' = "siftup lt setpos (siftdown lt setpos (heap_set setpos (?h1, s) k (heap_data ?h1 ! n)) k) k"
    have e: "(h', s') = ?hs'"
      using rm n kl by (auto simp: heapremove_def Let_def split: prod.splits)
    then have hs': "heap_data h' = heap_data (fst ?hs')" "s' = snd ?hs'" "h' = fst ?hs'"
      by (metis fst_conv snd_conv)+
    have cl: "heap_len h' = n" "heap_cap h' = heap_cap h"
      unfolding hs'(3) by (simp_all add: heap_set_def)
    have o: "heap_ordered (lt s) (Suc n) (heap_data ?h1)" "pos_ok (Suc n) (heap_data ?h1) s"
      using ord pos n by simp_all
    note rs = remove_sift [OF _ _ kn o, folded hs']
    show ?thesis
      using rs n nl lt cl wf by (simp add: heap_ok_def heap_wf_def heap_elems_def)
  qed
  then show "heap_ok h' s'" "mset (heap_elems h') = mset (heap_elems h) - {#heap_data h ! k#}"
    by blast+
qed

lemma heap_ok_empty [simp]: "heap_ok empty_heap s"
  by (simp add: heap_ok_def empty_heap_def heap_wf_def heap_ordered_def pos_ok_def)

lemma heap_root_least:
  assumes "heap_ok h s" "x \<in> set (heap_elems h)"
  shows "\<not> lt s x (heap_data h ! 0)"
proof -
  obtain i where "i < heap_len h" "x = heap_data h ! i"
    using assms by (auto simp: heap_elems_def heap_ok_def heap_wf_def in_set_conv_nth)
  then show ?thesis
    using assms heap_order.root_least [OF order] by (auto simp: heap_ok_def)
qed

lemma heap_elems_distinct: "heap_ok h s \<Longrightarrow> distinct (heap_elems h)"
  using pos_ok_distinct unfolding heap_elems_def heap_ok_def heap_wf_def by blast

lemma heap_pos_elem:
  assumes "heap_ok h s" "x \<in> set (heap_elems h)"
  shows "getpos s x < heap_len h \<and> heap_data h ! getpos s x = x"
proof -
  obtain i where "i < heap_len h" "x = heap_data h ! i"
    using assms by (auto simp: heap_elems_def heap_ok_def heap_wf_def in_set_conv_nth)
  then show ?thesis using assms by (auto simp: heap_ok_def pos_ok_def)
qed

text \<open>The heap looks at the positions and the order of its own elements only.\<close>

lemma heap_ok_cong:
  assumes ok: "heap_ok h s"
    and pos: "\<And>x. x \<in> set (heap_elems h) \<Longrightarrow> getpos s' x = getpos s x"
    and lts: "\<And>x y. x \<in> set (heap_elems h) \<Longrightarrow> y \<in> set (heap_elems h) \<Longrightarrow> lt s' x y = lt s x y"
  shows "heap_ok h s'"
proof -
  have m: "heap_data h ! i \<in> set (heap_elems h)" if "i < heap_len h" for i
    using that ok by (auto simp: heap_elems_def heap_ok_def heap_wf_def in_set_conv_nth)
  have "\<not> lt s' (heap_data h ! i) (heap_data h ! ((i - 1) div 2))" if "0 < i" "i < heap_len h" for i
  proof -
    have "(i - 1) div 2 < heap_len h" using that by auto
    then show ?thesis using lts [OF m m] that ok by (simp add: heap_ok_def heap_ordered_def)
  qed
  moreover have "getpos s' (heap_data h ! i) = i" if "i < heap_len h" for i
    using pos [OF m] that ok by (simp add: heap_ok_def pos_ok_def)
  ultimately show ?thesis using ok by (auto simp: heap_ok_def heap_ordered_def pos_ok_def)
qed

text \<open>Positions of elements outside the heap stay.\<close>

lemma swap_outside:
  assumes "a < n" "b < n" "n \<le> length (heap_data (fst hs))" "y \<notin> set (take n (heap_data (fst hs)))"
  shows "getpos (snd (heap_swap setpos hs a b)) y = getpos (snd hs) y"
    "y \<notin> set (take n (heap_data (fst (heap_swap setpos hs a b))))"
proof -
  have "heap_data (fst hs) ! i \<noteq> y" if "i < n" for i
    using that assms(3,4) by (auto simp: in_set_conv_nth)
  then show "getpos (snd (heap_swap setpos hs a b)) y = getpos (snd hs) y"
    using assms(1,2) by (auto simp: heap_swap_def heap_set_def Let_def getpos_setpos)
  have "mset (take n (heap_data (fst (heap_swap setpos hs a b)))) = mset (take n (heap_data (fst hs)))"
    using assms(1-3) by (simp add: heap_data_swap mset_take_swap)
  then show "y \<notin> set (take n (heap_data (fst (heap_swap setpos hs a b))))"
    using assms(4) by (metis set_mset_mset)
qed

lemma siftdown_outside:
  "k < n \<Longrightarrow> n \<le> length (heap_data (fst hs)) \<Longrightarrow> y \<notin> set (take n (heap_data (fst hs))) \<Longrightarrow>
   getpos (snd (siftdown lt setpos hs k)) y = getpos (snd hs) y"
proof (induction k arbitrary: hs rule: less_induct)
  case (less k)
  let ?p = "(k - 1) div 2"
  show ?case
  proof (cases "k = 0 \<or> heap_less lt hs ?p k")
    case True
    then show ?thesis by (subst siftdown.simps) (auto simp: Let_def)
  next
    case False
    then have p: "?p < k" "?p < n" using less.prems by auto
    note so = swap_outside [OF less.prems(1) p(2) less.prems(2,3)]
    have "getpos (snd (siftdown lt setpos (heap_swap setpos hs k ?p) ?p)) y =
        getpos (snd (heap_swap setpos hs k ?p)) y"
      using less.prems p so by (intro less.IH) (simp_all add: heap_data_swap)
    then show ?thesis using False so by (subst siftdown.simps) (simp add: Let_def)
  qed
qed

lemma siftup_outside:
  "heap_len (fst hs) \<le> length (heap_data (fst hs)) \<Longrightarrow> k < heap_len (fst hs) \<Longrightarrow>
   y \<notin> set (heap_elems (fst hs)) \<Longrightarrow> getpos (snd (siftup lt setpos hs k)) y = getpos (snd hs) y"
proof (induction "heap_len (fst hs) - k" arbitrary: hs k rule: less_induct)
  case less
  let ?s = "smallest3 lt hs k"
  show ?case
  proof (cases "?s = k")
    case True
    then show ?thesis by (subst siftup.simps) simp
  next
    case False
    note r = smallest3_range [OF False]
    have y: "y \<notin> set (take (heap_len (fst hs)) (heap_data (fst hs)))"
      using less.prems(3) by (simp add: heap_elems_def)
    have "getpos (snd (siftup lt setpos (heap_swap setpos hs k ?s) ?s)) y =
        getpos (snd (heap_swap setpos hs k ?s)) y"
      using less.prems r swap_outside(2) [OF less.prems(2) conjunct2 [OF r] less.prems(1) y]
      by (intro less.hyps) (simp_all add: heap_data_swap heap_elems_def diff_less_mono2)
    then show ?thesis
      using False swap_outside(1) [OF less.prems(2) conjunct2 [OF r] less.prems(1) y]
      by (subst siftup.simps) (simp add: Let_def)
  qed
qed

lemma heapinsert_outside:
  assumes ins: "heapinsert lt setpos malloc h s x = (r, h', s')"
    and wf: "heap_wf h" and y: "y \<notin> set (heap_elems h)" "y \<noteq> x"
  shows "getpos s' y = getpos s y"
proof (cases r)
  case False
  then have "s' = s \<or> s' = snd (malloc s)"
    using ins by (auto simp: heapinsert_def Let_def split: if_splits prod.splits bool.splits)
  then show ?thesis using getpos_malloc by auto
next
  case True
  then have ins': "heapinsert lt setpos malloc h s x = (True, h', s')" using ins by simp
  obtain g t where g: "heap_wf g" "heap_len g = heap_len h" "heap_len g < heap_cap g"
      "heap_elems g = heap_elems h" and t: "t = s \<or> t = snd (malloc s)"
    and eq: "(h', s') = siftdown lt setpos
       (heap_set setpos (g\<lparr>heap_len := heap_len g + 1\<rparr>, t) (heap_len g) x) (heap_len g)"
    using heapinsert_grow [OF ins' wf] by auto
  let ?n = "heap_len g"
  let ?hs = "heap_set setpos (g\<lparr>heap_len := ?n + 1\<rparr>, t) ?n x"
  have nl: "?n \<le> length (heap_data g)" using g by (simp add: heap_wf_def)
  have d: "heap_data (fst ?hs) = slot_write (heap_data g) ?n x" by (simp add: heap_set_def)
  have "take (Suc ?n) (heap_data (fst ?hs)) = heap_elems h @ [x]"
    using d nl g take_slot_write_same [OF nl, of x] by (simp add: heap_elems_def)
  then have "getpos (snd (siftdown lt setpos ?hs ?n)) y = getpos (snd ?hs) y"
    using y d nl by (intro siftdown_outside [of _ "Suc ?n"]) simp_all
  moreover have "getpos (snd ?hs) y = getpos s y"
    using y t getpos_malloc by (auto simp: heap_set_def getpos_setpos)
  ultimately show ?thesis using eq by (metis snd_conv)
qed

lemma heapremove_outside:
  assumes rm: "heapremove lt setpos h s k = (r, h', s')"
    and wf: "heap_wf h" and k: "removable h s k" and y: "y \<notin> set (heap_elems h)"
  shows "getpos s' y = getpos s y"
proof -
  obtain n where n: "heap_len h = Suc n" using k by (cases "heap_len h") (auto simp: removable_def)
  have nl: "n < length (heap_data h)" using wf n by (simp add: heap_wf_def)
  have o: "heap_data h ! i \<noteq> y" if "i < Suc n" for i
    using that y n nl by (auto simp: heap_elems_def in_set_conv_nth)
  have kn: "k < Suc n" using k n by (simp add: removable_def)
  show ?thesis
  proof (cases "k = n")
    case True
    then show ?thesis
      using rm heapremove_last [OF k _ wf] n o [OF kn] by (auto simp: getpos_setpos)
  next
    case False
    then have kn': "k < n" using kn by simp
    let ?h1 = "h\<lparr>heap_len := n\<rparr>"
    let ?hs = "heap_set setpos (?h1, s) k (heap_data h ! n)"
    let ?hs2 = "siftdown lt setpos ?hs k"
    have e: "s' = snd (siftup lt setpos ?hs2 k)"
      using rm n kn by (auto simp: heapremove_def Let_def split: prod.splits)
    have d: "heap_data (fst ?hs) = (heap_data h)[k := heap_data h ! n]"
      using kn' nl by (simp add: heap_set_def)
    have yn: "y \<notin> set (take n (heap_data (fst ?hs)))"
      using o kn' nl unfolding d by (auto simp: in_set_conv_nth nth_list_update)
    have "getpos (snd ?hs2) y = getpos (snd ?hs) y"
      using kn' nl yn d by (intro siftdown_outside [of _ n]) simp_all
    moreover have "mset (take n (heap_data (fst ?hs2))) = mset (take n (heap_data (fst ?hs)))"
      using kn' nl d by (intro siftdown_mset) simp_all
    then have "y \<notin> set (take n (heap_data (fst ?hs2)))" using yn by (metis set_mset_mset)
    then have "y \<notin> set (heap_elems (fst ?hs2))" by (simp add: heap_elems_def heap_set_def)
    moreover have "heap_len (fst ?hs2) = n" "length (heap_data (fst ?hs2)) = length (heap_data h)"
      using kn' nl d by (simp_all add: siftdown_length)
    ultimately have "getpos (snd (siftup lt setpos ?hs2 k)) y = getpos (snd ?hs) y"
      using kn' nl by (subst siftup_outside) simp_all
    then show ?thesis using e o [of n] by (simp add: heap_set_def getpos_setpos)
  qed
qed

end

end
