(* ===== verification/Bean_Ms.thy ===== *)
theory Bean_Ms
  imports Bean_Heap
begin

text \<open>
  The resizable multiset of \<open>ms.c\<close>. \<open>ms_items\<close> lists the \<open>len\<close> live slots, so \<open>a->len\<close> is its
  length; slots past it are never read. The callbacks \<open>oninsert\<close> and \<open>onremove\<close> act on the program
  state and run after the multiset itself has changed, as in the source.
\<close>

section \<open>The multiset and its operations\<close>

record 'a Ms =
  ms_cap :: nat
  ms_last :: nat
  ms_items :: "'a list"

type_synonym ('s, 'a) ms_event_fn = "'a \<Rightarrow> nat \<Rightarrow> 's \<Rightarrow> 's"

definition ms_init :: "'a Ms" where
  "ms_init = \<lparr>ms_cap = 0, ms_last = 0, ms_items = []\<rparr>"

definition ms_event :: "('s, 'a) ms_event_fn option \<Rightarrow> 'a \<Rightarrow> nat \<Rightarrow> 's \<Rightarrow> 's" where
  "ms_event cb item i s = (case cb of None \<Rightarrow> s | Some f \<Rightarrow> f item i s)"

definition grow :: "'s malloc_fn \<Rightarrow> 'a Ms \<Rightarrow> 's \<Rightarrow> bool \<times> 'a Ms \<times> 's" where
  "grow malloc a s =
     (let ncap = (if ms_cap a * 2 = 0 then 1 else ms_cap a * 2)
      in case malloc s of
           (False, s') \<Rightarrow> (False, a, s')
         | (True, s') \<Rightarrow> (True, a\<lparr>ms_cap := ncap\<rparr>, s'))"

definition ms_append ::
  "('s, 'a) ms_event_fn option \<Rightarrow> 's malloc_fn \<Rightarrow> 'a Ms \<Rightarrow> 's \<Rightarrow> 'a \<Rightarrow> bool \<times> 'a Ms \<times> 's" where
  "ms_append oninsert malloc a s item =
     (let (ok, a1, s1) = (if length (ms_items a) \<ge> ms_cap a then grow malloc a s else (True, a, s))
      in if \<not> ok then (False, a1, s1)
         else (True, a1\<lparr>ms_items := ms_items a1 @ [item]\<rparr>,
               ms_event oninsert item (length (ms_items a1)) s1))"

definition ms_delete ::
  "('s, 'a) ms_event_fn option \<Rightarrow> 'a Ms \<Rightarrow> 's \<Rightarrow> nat \<Rightarrow> bool \<times> 'a Ms \<times> 's" where
  "ms_delete onremove a s i =
     (if i \<ge> length (ms_items a) then (False, a, s)
      else let item = ms_items a ! i;
               xs = (ms_items a)[i := ms_items a ! (length (ms_items a) - 1)]
           in (True, a\<lparr>ms_items := butlast xs\<rparr>, ms_event onremove item i s))"

function ms_clear_loop :: "('s, 'a) ms_event_fn option \<Rightarrow> 'a Ms \<Rightarrow> 's \<Rightarrow> 'a Ms \<times> 's" where
  "ms_clear_loop onremove a s =
     (case ms_delete onremove a s 0 of
        (True, a', s') \<Rightarrow> ms_clear_loop onremove a' s'
      | (False, a', s') \<Rightarrow> (a', s'))"
  by pat_completeness auto
termination
  by (relation "measure (\<lambda>(onremove, a, s). length (ms_items a))")
    (auto simp: ms_delete_def Let_def split: if_splits)

declare ms_clear_loop.simps [simp del]

definition ms_clear :: "('s, 'a) ms_event_fn option \<Rightarrow> 'a Ms \<Rightarrow> 's \<Rightarrow> 'a Ms \<times> 's" where
  "ms_clear onremove a s = (let (_, s') = ms_clear_loop onremove a s in (ms_init, s'))"

text \<open>The search loop shared by \<open>ms_remove\<close> and \<open>ms_contains\<close>: the first index holding \<open>item\<close>.\<close>

fun ms_scan :: "'a list \<Rightarrow> 'a \<Rightarrow> nat \<Rightarrow> nat option" where
  "ms_scan [] item i = None"
| "ms_scan (x # xs) item i = (if x = item then Some i else ms_scan xs item (Suc i))"

definition ms_remove ::
  "('s, 'a) ms_event_fn option \<Rightarrow> 'a Ms \<Rightarrow> 's \<Rightarrow> 'a \<Rightarrow> bool \<times> 'a Ms \<times> 's" where
  "ms_remove onremove a s item =
     (case ms_scan (ms_items a) item 0 of
        Some i \<Rightarrow> ms_delete onremove a s i
      | None \<Rightarrow> (False, a, s))"

definition ms_contains :: "'a Ms \<Rightarrow> 'a \<Rightarrow> bool" where
  "ms_contains a item = (ms_scan (ms_items a) item 0 \<noteq> None)"

definition ms_take :: "('s, 'a) ms_event_fn option \<Rightarrow> 'a Ms \<Rightarrow> 's \<Rightarrow> 'a option \<times> 'a Ms \<times> 's" where
  "ms_take onremove a s =
     (if length (ms_items a) = 0 then (None, a, s)
      else let a1 = a\<lparr>ms_last := ms_last a mod length (ms_items a)\<rparr>;
               item = ms_items a1 ! ms_last a1;
               (_, a2, s2) = ms_delete onremove a1 s (ms_last a1)
           in (Some item, a2\<lparr>ms_last := ms_last a2 + 1\<rparr>, s2))"

section \<open>Behaviour\<close>

definition ms_wf :: "'a Ms \<Rightarrow> bool" where
  "ms_wf a \<longleftrightarrow> length (ms_items a) \<le> ms_cap a"

lemma ms_scan_Some:
  "ms_scan xs x i = Some j \<Longrightarrow> i \<le> j \<and> j - i < length xs \<and> xs ! (j - i) = x"
proof (induction xs arbitrary: i)
  case (Cons y ys)
  show ?case
  proof (cases "y = x")
    case True
    then show ?thesis using Cons.prems by simp
  next
    case False
    then have "ms_scan ys x (Suc i) = Some j" using Cons.prems by simp
    from Cons.IH [OF this] show ?thesis by (auto simp: nth_Cons')
  qed
qed simp

lemma ms_scan_None: "ms_scan xs x i = None \<longleftrightarrow> x \<notin> set xs"
  by (induction xs arbitrary: i) auto

lemma ms_contains_iff [simp]: "ms_contains a x \<longleftrightarrow> x \<in> set (ms_items a)"
  by (simp add: ms_contains_def ms_scan_None)

lemma mset_delete_nth:
  assumes "i < length xs"
  shows "mset (butlast (xs[i := xs ! (length xs - 1)])) = mset xs - {#xs ! i#}"
  using mset_take_remove_at [of i "length xs" xs] assms by (simp add: butlast_conv_take)

lemma ms_delete_ok:
  assumes "i < length (ms_items a)"
  shows "fst (ms_delete cb a s i)"
    "mset (ms_items (fst (snd (ms_delete cb a s i)))) = mset (ms_items a) - {#ms_items a ! i#}"
    "length (ms_items (fst (snd (ms_delete cb a s i)))) = length (ms_items a) - 1"
    "snd (snd (ms_delete cb a s i)) = ms_event cb (ms_items a ! i) i s"
    "ms_cap (fst (snd (ms_delete cb a s i))) = ms_cap a"
    "ms_last (fst (snd (ms_delete cb a s i))) = ms_last a"
  using assms mset_delete_nth [of i "ms_items a"] by (simp_all add: ms_delete_def Let_def)

lemma ms_append_cases:
  obtains (Ok) s1 c where "ms_append cb malloc a s x =
      (True, a\<lparr>ms_items := ms_items a @ [x], ms_cap := c\<rparr>, ms_event cb x (length (ms_items a)) s1)"
      "s1 = s \<or> s1 = snd (malloc s)" "ms_wf a \<longrightarrow> length (ms_items a) < c"
      "length (ms_items a) < ms_cap a \<longrightarrow> s1 = s \<and> c = ms_cap a"
  | (Oom) "ms_append cb malloc a s x = (False, a, snd (malloc s))"
      "\<not> fst (malloc s)" "length (ms_items a) \<ge> ms_cap a"
proof (cases "length (ms_items a) \<ge> ms_cap a")
  case full: True
  let ?c = "if ms_cap a * 2 = 0 then 1 else ms_cap a * 2"
  show ?thesis
  proof (cases "fst (malloc s)")
    case True
    then have "ms_append cb malloc a s x =
      (True, a\<lparr>ms_items := ms_items a @ [x], ms_cap := ?c\<rparr>, ms_event cb x (length (ms_items a)) (snd (malloc s)))"
      using full by (auto simp: ms_append_def grow_def Let_def split: prod.split bool.split)
    then show ?thesis using full by (intro Ok) (auto simp: ms_wf_def)
  next
    case False
    then show ?thesis
      using full by (intro Oom) (auto simp: ms_append_def grow_def Let_def split: prod.split bool.split)
  qed
next
  case False
  then have "ms_append cb malloc a s x =
      (True, a\<lparr>ms_items := ms_items a @ [x], ms_cap := ms_cap a\<rparr>, ms_event cb x (length (ms_items a)) s)"
    by (simp add: ms_append_def)
  then show ?thesis using False by (intro Ok) auto
qed

lemma ms_append_items:
  assumes "ms_append cb malloc a s x = (ok, a', s')"
  shows "ms_items a' = (if ok then ms_items a @ [x] else ms_items a)" "\<not> ok \<Longrightarrow> a' = a"
proof -
  show "ms_items a' = (if ok then ms_items a @ [x] else ms_items a)"
    by (rule ms_append_cases [of cb malloc a s x]) (use assms in auto)
  show "\<not> ok \<Longrightarrow> a' = a"
    by (rule ms_append_cases [of cb malloc a s x]) (use assms in auto)
qed

lemma ms_append_wf:
  assumes "ms_append cb malloc a s x = (ok, a', s')" "ms_wf a"
  shows "ms_wf a'"
  by (rule ms_append_cases [of cb malloc a s x]) (use assms in \<open>auto simp: ms_wf_def\<close>)

lemma ms_append_ok:
  assumes "ms_append cb malloc a s x = (True, a', s')" "\<And>s. f (snd (malloc s)) = f s"
    "\<And>x i s. f (ms_event cb x i s) = f s"
  shows "f s' = f s"
  by (rule ms_append_cases [of cb malloc a s x]) (use assms in auto)

lemma ms_remove_items:
  assumes "ms_remove cb a s x = (ok, a', s')"
  shows "ok \<longleftrightarrow> x \<in> set (ms_items a)" "mset (ms_items a') = mset (ms_items a) - {#x#}"
    "ms_cap a' = ms_cap a"
proof -
  have "(ok \<longleftrightarrow> x \<in> set (ms_items a)) \<and> mset (ms_items a') = mset (ms_items a) - {#x#} \<and> ms_cap a' = ms_cap a"
  proof (cases "ms_scan (ms_items a) x 0")
    case None
    then have "x \<notin> set (ms_items a)" by (simp add: ms_scan_None)
    then show ?thesis using assms None by (auto simp: ms_remove_def diff_single_trivial)
  next
    case (Some i)
    then have i: "i < length (ms_items a)" "ms_items a ! i = x" using ms_scan_Some by force+
    then have "x \<in> set (ms_items a)" by auto
    then show ?thesis
      using assms Some ms_delete_ok [OF i(1), of cb s] i by (simp add: ms_remove_def)
  qed
  then show "ok \<longleftrightarrow> x \<in> set (ms_items a)" "mset (ms_items a') = mset (ms_items a) - {#x#}"
    "ms_cap a' = ms_cap a" by blast+
qed

text \<open>With no callback, clearing empties the set; with one, the callback has run once per element.\<close>

fun run_events :: "('s, 'a) ms_event_fn option \<Rightarrow> 'a list \<Rightarrow> 's \<Rightarrow> 's" where
  "run_events cb [] s = s"
| "run_events cb (x # xs) s = run_events cb xs (ms_event cb x 0 s)"

lemma ms_clear_loop_events:
  "\<exists>ys. mset ys = mset (ms_items a) \<and> snd (ms_clear_loop cb a s) = run_events cb ys s"
proof (induction cb a s rule: ms_clear_loop.induct)
  case (1 cb a s)
  show ?case
  proof (cases "ms_items a")
    case Nil
    then show ?thesis
      by (intro exI [of _ "[]"], subst ms_clear_loop.simps) (simp add: ms_delete_def)
  next
    case (Cons x xs)
    then have i: "0 < length (ms_items a)" by simp
    let ?d = "ms_delete cb a s 0"
    have d: "?d = (True, fst (snd ?d), ms_event cb x 0 s)"
      using ms_delete_ok [OF i, of cb s] Cons by (metis nth_Cons_0 prod.collapse)
    obtain ys where "mset ys = mset (ms_items (fst (snd ?d)))"
        "snd (ms_clear_loop cb (fst (snd ?d)) (ms_event cb x 0 s)) = run_events cb ys (ms_event cb x 0 s)"
      using 1 [of True "(fst (snd ?d), ms_event cb x 0 s)" "fst (snd ?d)" "ms_event cb x 0 s"] d
      by auto
    moreover have "mset (ms_items (fst (snd ?d))) = mset xs"
      using ms_delete_ok(2) [OF i, of cb s] Cons by simp
    ultimately show ?thesis
      using Cons by (intro exI [of _ "x # ys"], subst ms_clear_loop.simps, subst d) simp
  qed
qed

section \<open>The order of \<open>ms_take\<close>\<close>

lemma ms_take_cases:
  assumes "ms_take cb a s = (r, a', s')"
  shows "ms_items a = [] \<Longrightarrow> r = None \<and> a' = a \<and> s' = s"
    and "ms_items a \<noteq> [] \<Longrightarrow> \<exists>x. r = Some x \<and> x \<in> set (ms_items a) \<and>
      x = ms_items a ! (ms_last a mod length (ms_items a)) \<and>
      mset (ms_items a') = mset (ms_items a) - {#x#} \<and> ms_cap a' = ms_cap a \<and>
      s' = ms_event cb x (ms_last a mod length (ms_items a)) s"
proof -
  show "ms_items a = [] \<Longrightarrow> r = None \<and> a' = a \<and> s' = s"
    using assms by (auto simp: ms_take_def)
  assume ne: "ms_items a \<noteq> []"
  let ?i = "ms_last a mod length (ms_items a)"
  let ?d = "ms_delete cb (a\<lparr>ms_last := ?i\<rparr>) s ?i"
  have i: "?i < length (ms_items (a\<lparr>ms_last := ?i\<rparr>))" using ne by simp
  have "r = Some (ms_items a ! ?i)" "a' = (fst (snd ?d))\<lparr>ms_last := Suc (ms_last (fst (snd ?d)))\<rparr>"
      "s' = snd (snd ?d)"
    using assms ne by (auto simp: ms_take_def Let_def case_prod_beta)
  then show "\<exists>x. r = Some x \<and> x \<in> set (ms_items a) \<and> x = ms_items a ! ?i \<and>
      mset (ms_items a') = mset (ms_items a) - {#x#} \<and> ms_cap a' = ms_cap a \<and> s' = ms_event cb x ?i s"
    using ms_delete_ok [OF i, of cb s] i by simp
qed

text \<open>\<open>k\<close> takes in a row, and what they return.\<close>

fun ms_takes :: "nat \<Rightarrow> 'a Ms \<Rightarrow> 'a list" where
  "ms_takes 0 a = []"
| "ms_takes (Suc k) a =
     (case ms_take None a () of
        (None, a', _) \<Rightarrow> []
      | (Some x, a', _) \<Rightarrow> x # ms_takes k a')"

lemma mset_ms_takes: "mset (ms_takes k a) \<subseteq># mset (ms_items a) \<and>
    length (ms_takes k a) = min k (length (ms_items a))"
proof (induction k arbitrary: a)
  case (Suc k)
  obtain r a' u where t: "ms_take None a () = (r, a', u)" by (cases "ms_take None a ()") auto
  show ?case
  proof (cases "ms_items a = []")
    case True
    then show ?thesis using t ms_take_cases(1) [OF t] by simp
  next
    case False
    then obtain x where x: "r = Some x" "x \<in> set (ms_items a)"
        "mset (ms_items a') = mset (ms_items a) - {#x#}"
      using ms_take_cases(2) [OF t] by blast
    have "size (mset (ms_items a')) = size (mset (ms_items a)) - 1"
      using x by (simp add: size_Diff_singleton)
    then have "length (ms_items a) = Suc (length (ms_items a'))"
      using False by (cases "ms_items a") auto
    then show ?thesis
      using t x Suc.IH [of a'] by (simp add: insert_subset_eq_iff)
  qed
qed simp

text \<open>After \<open>j\<close> takes the youngest elements have been moved to the front, in reverse.\<close>

lemma ms_take_rotate:
  assumes "ms_last a = j" "ms_items a = rev ys @ x # zs" "length ys = j"
  shows "\<exists>a'. ms_take None a () = (Some x, a', ()) \<and> ms_last a' = Suc j \<and>
    ms_items a' = (if zs = [] then rev ys else rev ys @ last zs # butlast zs)"
proof -
  have j: "ms_last a mod length (ms_items a) = j" using assms by simp
  have x: "ms_items a ! j = x" using assms by (simp add: nth_append)
  have l: "ms_items a ! (length (ms_items a) - 1) = (if zs = [] then x else last zs)"
    using assms by (auto simp: nth_append last_conv_nth nth_Cons')
  have "butlast ((rev ys @ x # zs)[j := v]) = rev ys @ butlast (v # zs)" for v
    using assms(3) by (simp add: list_update_append butlast_append)
  then show ?thesis
    using assms j x l by (auto simp: ms_take_def Let_def ms_delete_def ms_event_def)
qed

lemma ms_takes_oldest:
  "2 * k \<le> Suc (length xs) \<Longrightarrow> ms_last a = length ys \<Longrightarrow> ms_items a = rev ys @ xs \<Longrightarrow>
   ms_takes k a = take k xs"
proof (induction k arbitrary: a xs ys)
  case (Suc k)
  then obtain x zs where xs: "xs = x # zs" by (cases xs) auto
  obtain a' where a': "ms_take None a () = (Some x, a', ())" "ms_last a' = Suc (length ys)"
      "ms_items a' = (if zs = [] then rev ys else rev ys @ last zs # butlast zs)"
    using ms_take_rotate [of a "length ys" ys x zs] Suc.prems xs by auto
  show ?case
  proof (cases "k = 0")
    case True
    then show ?thesis using a' xs by simp
  next
    case False
    then have zs: "zs \<noteq> []" using Suc.prems xs by auto
    have "ms_takes k a' = take k (butlast zs)"
      using Suc.IH [of "butlast zs" a' "last zs # ys"] Suc.prems xs a' zs by simp
    also have "\<dots> = take k zs"
      using Suc.prems xs by (simp add: butlast_conv_take)
    finally show ?thesis using a' xs by simp
  qed
qed simp

section \<open>Order of taking\<close>

lemma ms_takes_cursor: "ms_takes k a = ms_takes k (a\<lparr>ms_last := ms_last a mod length (ms_items a)\<rparr>)"
  by (cases k) (simp_all add: ms_take_def Let_def)

text \<open>C28
  The takes return the items from the cursor on in the order in which they stand, whatever the cursor is, until it has come to the
  middle between its place and the end: \<open>ms_take\<close> moves the last item into the hole it leaves behind the cursor, so the item that was
  appended last is not overtaken before that. From a cursor at the start this is the first half of the items, the oldest ones.
\<close>

theorem ms_take_in_order:
  assumes "ms_last a mod length (ms_items a) + 2 * k \<le> Suc (length (ms_items a))"
  shows "ms_takes k a = take k (drop (ms_last a mod length (ms_items a)) (ms_items a))"
proof -
  let ?c = "ms_last a mod length (ms_items a)"
  have "?c \<le> length (ms_items a) \<or> k = 0" using assms by (cases "ms_items a = []") (simp_all add: less_imp_le)
  then show ?thesis
    using ms_takes_oldest [of k "drop ?c (ms_items a)" "a\<lparr>ms_last := ?c\<rparr>" "rev (take ?c (ms_items a))"] assms ms_takes_cursor [of k a]
    by auto
qed

theorem ms_take_in_order_witness:
  "ms_takes 2 \<lparr>ms_cap = 8, ms_last = 6, ms_items = [7, 8, 9, 10, 11 :: nat]\<rparr> = [8, 9]"
  using ms_take_in_order [of "\<lparr>ms_cap = 8, ms_last = 6, ms_items = [7, 8, 9, 10, 11 :: nat]\<rparr>" 2] by simp

end
