(* ===== verification/Bean_Joblist.thy ===== *)
theory Bean_Joblist
  imports Bean_Ms
begin

text \<open>
  The intrusive doubly linked lists of \<open>job.c\<close>. A list is a ring of nodes: its header (the buried
  list of a tube, the reserved jobs of a connection, the replay list) and the jobs on it. Two models:
  the pointers themselves (\<open>dll\<close>), and the lists they spell out together with the list each job is on
  (\<open>joblists\<close>), which the server model uses. Both satisfy the contract \<open>job_list_spec\<close>.
\<close>

section \<open>The pointers\<close>

record 'n dll =
  prv :: "'n \<Rightarrow> 'n"
  nxt :: "'n \<Rightarrow> 'n"

definition job_list_reset :: "'n dll \<Rightarrow> 'n \<Rightarrow> 'n dll" where
  "job_list_reset d head = d\<lparr>prv := (prv d)(head := head), nxt := (nxt d)(head := head)\<rparr>"

definition job_list_is_empty :: "'n dll \<Rightarrow> 'n \<Rightarrow> bool" where
  "job_list_is_empty d head \<longleftrightarrow> nxt d head = head \<and> prv d head = head"

definition job_list_remove :: "'n dll \<Rightarrow> 'n option \<Rightarrow> 'n option \<times> 'n dll" where
  "job_list_remove d jo =
     (case jo of
        None \<Rightarrow> (None, d)
      | Some j \<Rightarrow>
          if job_list_is_empty d j then (None, d)
          else let d1 = d\<lparr>prv := (prv d)(nxt d j := prv d j)\<rparr>;
                   d2 = d1\<lparr>nxt := (nxt d1)(prv d1 j := nxt d1 j)\<rparr>
               in (Some j, job_list_reset d2 j))"

definition job_list_insert :: "'n dll \<Rightarrow> 'n \<Rightarrow> 'n \<Rightarrow> 'n dll" where
  "job_list_insert d head j =
     (if \<not> job_list_is_empty d j then d
      else let d1 = d\<lparr>prv := (prv d)(j := prv d head)\<rparr>;
               d2 = d1\<lparr>nxt := (nxt d1)(j := head)\<rparr>;
               d3 = d2\<lparr>nxt := (nxt d2)(prv d2 head := j)\<rparr>
           in d3\<lparr>prv := (prv d3)(head := j)\<rparr>)"

section \<open>Rings\<close>

fun links :: "'n dll \<Rightarrow> 'n \<Rightarrow> 'n list \<Rightarrow> 'n \<Rightarrow> bool" where
  "links d a [] b \<longleftrightarrow> nxt d a = b \<and> prv d b = a"
| "links d a (x # xs) b \<longleftrightarrow> nxt d a = x \<and> prv d x = a \<and> links d x xs b"

definition ring :: "'n dll \<Rightarrow> 'n \<Rightarrow> 'n list \<Rightarrow> bool" where
  "ring d h xs \<longleftrightarrow> links d h xs h \<and> distinct (h # xs)"

lemma links_append: "links d a (xs @ y # ys) b \<longleftrightarrow> links d a xs y \<and> links d y ys b"
  by (induction xs arbitrary: a) auto

lemma links_frame:
  assumes "\<And>x. x = a \<or> x \<in> set xs \<Longrightarrow> nxt d' x = nxt d x"
    and "\<And>x. x = b \<or> x \<in> set xs \<Longrightarrow> prv d' x = prv d x"
  shows "links d' a xs b \<longleftrightarrow> links d a xs b"
  using assms by (induction xs arbitrary: a) auto

lemma links_last: "links d a xs b \<Longrightarrow> prv d b = (if xs = [] then a else last xs)"
  by (induction xs arbitrary: a) auto

lemma ring_is_empty: "ring d h xs \<Longrightarrow> job_list_is_empty d h \<longleftrightarrow> xs = []"
  by (cases xs) (auto simp: ring_def job_list_is_empty_def)

lemma ring_member_linked:
  assumes "ring d h xs" "j \<in> set xs"
  shows "\<not> job_list_is_empty d j"
proof -
  obtain ys zs where xs: "xs = ys @ j # zs" using assms(2) by (auto simp: in_set_conv_decomp)
  have "links d h ys j" using assms(1) xs by (simp add: ring_def links_append)
  then have "prv d j = (if ys = [] then h else last ys)" by (rule links_last)
  then have "prv d j \<noteq> j" using assms(1) xs by (auto simp: ring_def)
  then show ?thesis by (simp add: job_list_is_empty_def)
qed

lemma ring_insert:
  assumes "ring d h xs" "job_list_is_empty d j" "j \<noteq> h" "j \<notin> set xs"
  shows "ring (job_list_insert d h j) h (xs @ [j])"
proof -
  let ?e = "job_list_insert d h j" and ?l = "if xs = [] then h else last xs"
  have l: "prv d h = ?l" using assms(1) links_last by (fastforce simp: ring_def)
  have "?l \<noteq> j" using assms(3,4) by auto
  then have nxt: "nxt ?e = (nxt d)(j := h, ?l := j)" and prv: "prv ?e = (prv d)(j := ?l, h := j)"
    using assms(2,3) l by (auto simp: job_list_insert_def Let_def)
  have d: "distinct (h # xs)" "links d h xs h" using assms(1) by (simp_all add: ring_def)
  have "links ?e h xs j"
  proof (cases xs rule: rev_cases)
    case Nil
    then show ?thesis using nxt prv assms(3) by simp
  next
    case (snoc ys y)
    then have "links d h ys y" using d by (simp add: links_append)
    moreover have "links ?e h ys y \<longleftrightarrow> links d h ys y"
      using snoc d assms(3,4) nxt prv by (intro links_frame) auto
    ultimately show ?thesis using snoc nxt prv assms(3,4) d by (simp add: links_append)
  qed
  moreover have "nxt ?e j = h \<and> prv ?e h = j" using nxt prv \<open>?l \<noteq> j\<close> by simp
  ultimately show ?thesis using d assms(3,4) by (simp add: ring_def links_append)
qed

lemma ring_insert_other:
  assumes "ring d g ys" "ring d h xs" "job_list_is_empty d j" "j \<noteq> h" "j \<notin> set xs"
    "insert g (set ys) \<inter> insert h (set xs) = {}" "j \<noteq> g" "j \<notin> set ys"
  shows "ring (job_list_insert d h j) g ys"
proof -
  let ?e = "job_list_insert d h j" and ?l = "if xs = [] then h else last xs"
  have l: "prv d h = ?l" using assms(2) links_last by (fastforce simp: ring_def)
  have "?l \<noteq> j" using assms(4,5) by auto
  then have nxt: "nxt ?e = (nxt d)(j := h, ?l := j)" and prv: "prv ?e = (prv d)(j := ?l, h := j)"
    using assms(3,4) l by (auto simp: job_list_insert_def Let_def)
  have "?l \<in> insert h (set xs)" by simp
  then have "links ?e g ys g \<longleftrightarrow> links d g ys g"
    using nxt prv assms(6-8) by (intro links_frame) auto
  then show ?thesis using assms(1) by (simp add: ring_def)
qed

lemma ring_remove_ptrs:
  assumes "ring d h (xs @ j # ys)"
  shows "job_list_remove d (Some j) = (Some j,
    \<lparr>prv = (prv d)((if ys = [] then h else hd ys) := (if xs = [] then h else last xs), j := j),
     nxt = (nxt d)((if xs = [] then h else last xs) := (if ys = [] then h else hd ys), j := j)\<rparr>)"
proof -
  have r: "links d h xs j" "links d j ys h" "distinct (h # xs @ j # ys)"
    using assms by (simp_all add: ring_def links_append)
  have p: "prv d j = (if xs = [] then h else last xs)" using r(1) by (rule links_last)
  have n: "nxt d j = (if ys = [] then h else hd ys)" using r(2) by (cases ys) auto
  have "nxt d j \<noteq> j" using n r(3) by (cases ys) auto
  moreover have "\<not> job_list_is_empty d j" using ring_member_linked [OF assms, of j] by simp
  ultimately show ?thesis
    using p n by (simp add: job_list_remove_def Let_def job_list_reset_def)
qed

lemma ring_remove_neighbours:
  assumes "ring d h (xs @ j # ys)"
  shows "\<exists>l r. l \<in> insert h (set (xs @ j # ys)) \<and> r \<in> insert h (set (xs @ j # ys)) \<and>
    snd (job_list_remove d (Some j)) = \<lparr>prv = (prv d)(r := l, j := j), nxt = (nxt d)(l := r, j := j)\<rparr>"
proof -
  have "(if ys = [] then h else hd ys) \<in> insert h (set (xs @ j # ys))"
    and "(if xs = [] then h else last xs) \<in> insert h (set (xs @ j # ys))"
    by (auto simp: hd_in_set)
  then show ?thesis unfolding ring_remove_ptrs [OF assms] snd_conv by blast
qed

lemma ring_remove:
  assumes R: "ring d h (xs @ j # ys)"
  shows "fst (job_list_remove d (Some j)) = Some j"
    "ring (snd (job_list_remove d (Some j))) h (xs @ ys)"
    "job_list_is_empty (snd (job_list_remove d (Some j))) j"
proof -
  note ptrs = ring_remove_ptrs [OF R]
  let ?e = "snd (job_list_remove d (Some j))"
  show "fst (job_list_remove d (Some j)) = Some j" "job_list_is_empty ?e j"
    by (simp_all add: ptrs job_list_is_empty_def)
  have r: "links d h xs j" "links d j ys h" "distinct (h # xs @ j # ys)"
    using R by (simp_all add: ring_def links_append)
  show "ring ?e h (xs @ ys)"
  proof (cases ys)
    case Nil
    show ?thesis
    proof (cases xs rule: rev_cases)
      case Nil
      then show ?thesis using \<open>ys = []\<close> r by (simp add: ptrs ring_def)
    next
      case (snoc us u)
      have "links ?e h us u \<longleftrightarrow> links d h us u"
        using snoc r(3) \<open>ys = []\<close> by (intro links_frame) (auto simp: ptrs)
      then show ?thesis using snoc \<open>ys = []\<close> r by (simp add: ptrs ring_def links_append)
    qed
  next
    case (Cons v vs)
    have "set xs \<inter> insert v (set vs) = {}" using r(3) Cons by auto
    then have "xs \<noteq> [] \<Longrightarrow> last xs \<notin> insert v (set vs)" by (metis IntI empty_iff last_in_set)
    then have V: "links ?e v vs h \<longleftrightarrow> links d v vs h"
      using Cons r(3) by (intro links_frame) (auto simp: ptrs)
    show ?thesis
    proof (cases xs rule: rev_cases)
      case Nil
      then show ?thesis using Cons r V by (auto simp: ptrs ring_def)
    next
      case (snoc us u)
      have "links ?e h us u \<longleftrightarrow> links d h us u"
        using snoc Cons r(3) by (intro links_frame) (auto simp: ptrs)
      then show ?thesis using snoc Cons r V by (auto simp: ptrs ring_def links_append)
    qed
  qed
qed

lemma ring_remove_other:
  assumes "ring d g zs" "ring d h (xs @ j # ys)"
    "insert g (set zs) \<inter> insert h (set (xs @ j # ys)) = {}"
  shows "ring (snd (job_list_remove d (Some j))) g zs"
proof -
  obtain l r where lr: "l \<in> insert h (set (xs @ j # ys))" "r \<in> insert h (set (xs @ j # ys))"
    and e: "snd (job_list_remove d (Some j)) = \<lparr>prv = (prv d)(r := l, j := j), nxt = (nxt d)(l := r, j := j)\<rparr>"
    using ring_remove_neighbours [OF assms(2)] by metis
  have "x \<noteq> l \<and> x \<noteq> r \<and> x \<noteq> j" if "x = g \<or> x \<in> set zs" for x
    using that lr assms(3) by (metis Int_iff empty_iff insert_iff in_set_conv_decomp)
  then have "links (snd (job_list_remove d (Some j))) g zs g \<longleftrightarrow> links d g zs g"
    by (intro links_frame) (simp_all add: e)
  then show ?thesis using assms(1) by (simp add: ring_def)
qed

section \<open>The lists the pointers spell out\<close>

record ('h, 'j) joblists =
  jl_items :: "'h \<Rightarrow> 'j list"
  jl_owner :: "'j \<Rightarrow> 'h option"

definition jl_reset :: "('h, 'j) joblists \<Rightarrow> 'j \<Rightarrow> ('h, 'j) joblists" where
  "jl_reset l j = l\<lparr>jl_owner := (jl_owner l)(j := None)\<rparr>"

definition jl_is_empty :: "('h, 'j) joblists \<Rightarrow> 'h \<Rightarrow> bool" where
  "jl_is_empty l h \<longleftrightarrow> jl_items l h = []"

definition jl_insert :: "('h, 'j) joblists \<Rightarrow> 'h \<Rightarrow> 'j \<Rightarrow> ('h, 'j) joblists" where
  "jl_insert l h j =
     (if jl_owner l j \<noteq> None then l
      else l\<lparr>jl_items := (jl_items l)(h := jl_items l h @ [j]), jl_owner := (jl_owner l)(j := Some h)\<rparr>)"

definition jl_remove :: "('h, 'j) joblists \<Rightarrow> 'j \<Rightarrow> bool \<times> ('h, 'j) joblists" where
  "jl_remove l j =
     (case jl_owner l j of
        None \<Rightarrow> (False, l)
      | Some h \<Rightarrow> (True, l\<lparr>jl_items := (jl_items l)(h := remove1 j (jl_items l h)),
                           jl_owner := (jl_owner l)(j := None)\<rparr>))"

definition jl_ok :: "('h, 'j) joblists \<Rightarrow> bool" where
  "jl_ok l \<longleftrightarrow> (\<forall>h. distinct (jl_items l h)) \<and> (\<forall>h j. j \<in> set (jl_items l h) \<longleftrightarrow> jl_owner l j = Some h)"

section \<open>The contract of the job lists\<close>

text \<open>
  \<open>rep d L\<close>: the representation \<open>d\<close> holds the lists \<open>L\<close>. A job is on at most one list; inserting
  a job that is already on a list does nothing; removing reports whether the job was on one.
\<close>

locale job_list_spec =
  fixes rep :: "'d \<Rightarrow> ('h \<Rightarrow> 'j list) \<Rightarrow> bool"
    and insert_job :: "'d \<Rightarrow> 'h \<Rightarrow> 'j \<Rightarrow> 'd"
    and remove_job :: "'d \<Rightarrow> 'j \<Rightarrow> bool \<times> 'd"
    and is_empty :: "'d \<Rightarrow> 'h \<Rightarrow> bool"
  assumes rep_distinct: "rep d L \<Longrightarrow> distinct (L h)"
    and rep_disjoint: "rep d L \<Longrightarrow> j \<in> set (L h) \<Longrightarrow> j \<in> set (L h') \<Longrightarrow> h = h'"
    and rep_insert_new: "rep d L \<Longrightarrow> (\<And>h'. j \<notin> set (L h')) \<Longrightarrow> rep (insert_job d h j) (L(h := L h @ [j]))"
    and rep_insert_old: "rep d L \<Longrightarrow> j \<in> set (L h') \<Longrightarrow> insert_job d h j = d"
    and rep_remove_on: "rep d L \<Longrightarrow> j \<in> set (L h) \<Longrightarrow>
      fst (remove_job d j) \<and> rep (snd (remove_job d j)) (L(h := remove1 j (L h)))"
    and rep_remove_off: "rep d L \<Longrightarrow> (\<And>h. j \<notin> set (L h)) \<Longrightarrow> remove_job d j = (False, d)"
    and rep_is_empty: "rep d L \<Longrightarrow> is_empty d h \<longleftrightarrow> L h = []"
begin

text \<open>Moving a job from the list it is on to another one, as reserving and burying do.\<close>

lemma rep_move:
  assumes "rep d L" "j \<in> set (L g)" "g \<noteq> h"
  shows "rep (insert_job (snd (remove_job d j)) h j) (L(g := remove1 j (L g), h := L h @ [j]))"
proof -
  let ?L = "L(g := remove1 j (L g))"
  have r: "rep (snd (remove_job d j)) ?L" using assms rep_remove_on by blast
  moreover have "\<And>h'. j \<notin> set (?L h')"
    using assms rep_distinct rep_disjoint by (auto simp: fun_upd_def split: if_splits)
  ultimately have "rep (insert_job (snd (remove_job d j)) h j) (?L(h := ?L h @ [j]))"
    by (rule rep_insert_new)
  then show ?thesis using assms(3) by simp
qed

text \<open>Inserting and removing again restores the lists.\<close>

lemma rep_insert_remove:
  assumes "rep d L" "\<And>h'. j \<notin> set (L h')"
  shows "fst (remove_job (insert_job d h j) j)" "rep (snd (remove_job (insert_job d h j) j)) L"
proof -
  have "rep (insert_job d h j) (L(h := L h @ [j]))" using assms by (rule rep_insert_new)
  from rep_remove_on [OF this, of j h]
  show "fst (remove_job (insert_job d h j) j)" "rep (snd (remove_job (insert_job d h j) j)) L"
    using assms(2) [of h] by (auto simp: remove1_append)
qed

end

interpretation jl: job_list_spec "\<lambda>l L. jl_ok l \<and> jl_items l = L" jl_insert jl_remove jl_is_empty
proof (unfold_locales, goal_cases)
  case (3 l L j h)
  then have "jl_owner l j = None" by (metis jl_ok_def not_None_eq)
  then show ?case using 3 by (auto simp: jl_insert_def jl_ok_def fun_eq_iff)
next
  case (4 l L j h' h)
  then show ?case by (auto simp: jl_ok_def jl_insert_def)
next
  case (5 l L j h)
  then have "jl_owner l j = Some h" by (auto simp: jl_ok_def)
  then show ?case using 5 by (auto simp: jl_remove_def jl_ok_def)
next
  case (6 l L j)
  then have "jl_owner l j = None" by (metis jl_ok_def not_None_eq)
  then show ?case by (simp add: jl_remove_def)
qed (auto simp: jl_ok_def jl_is_empty_def)

section \<open>The pointers satisfy the contract\<close>

datatype ('h, 'j) lnode = LHead 'h | LJob 'j

definition dll_rep :: "('h, 'j) lnode dll \<Rightarrow> ('h \<Rightarrow> 'j list) \<Rightarrow> bool" where
  "dll_rep d L \<longleftrightarrow> (\<forall>h. ring d (LHead h) (map LJob (L h))) \<and>
     (\<forall>h h' j. j \<in> set (L h) \<longrightarrow> j \<in> set (L h') \<longrightarrow> h = h') \<and>
     (\<forall>j. (\<forall>h. j \<notin> set (L h)) \<longrightarrow> job_list_is_empty d (LJob j))"

definition dll_insert :: "('h, 'j) lnode dll \<Rightarrow> 'h \<Rightarrow> 'j \<Rightarrow> ('h, 'j) lnode dll" where
  "dll_insert d h j = job_list_insert d (LHead h) (LJob j)"

definition dll_remove :: "('h, 'j) lnode dll \<Rightarrow> 'j \<Rightarrow> bool \<times> ('h, 'j) lnode dll" where
  "dll_remove d j = (let (r, d') = job_list_remove d (Some (LJob j)) in (r \<noteq> None, d'))"

lemma job_list_insert_empty_other:
  assumes "ring d h xs" "job_list_is_empty d j" "job_list_is_empty d i" "i \<noteq> j" "i \<noteq> h" "i \<notin> set xs"
  shows "job_list_is_empty (job_list_insert d h j) i"
proof -
  have "prv d h = (if xs = [] then h else last xs)"
    using assms(1) links_last by (fastforce simp: ring_def)
  then have "prv d h \<noteq> i" using assms(5,6) by (auto split: if_splits)
  then show ?thesis
    using assms by (auto simp: job_list_insert_def job_list_is_empty_def Let_def)
qed

lemma job_list_remove_empty_other:
  assumes "ring d h (xs @ j # ys)" "job_list_is_empty d i" "i \<noteq> h" "i \<notin> set (xs @ j # ys)"
  shows "job_list_is_empty (snd (job_list_remove d (Some j))) i"
proof -
  obtain l r where "l \<in> insert h (set (xs @ j # ys))" "r \<in> insert h (set (xs @ j # ys))"
    and e: "snd (job_list_remove d (Some j)) = \<lparr>prv = (prv d)(r := l, j := j), nxt = (nxt d)(l := r, j := j)\<rparr>"
    using ring_remove_neighbours [OF assms(1)] by metis
  then have "l \<noteq> i" "r \<noteq> i" using assms(3,4) by (metis insertE)+
  then show ?thesis using assms(2,4) by (simp add: e job_list_is_empty_def)
qed

lemma dll_rep_insert:
  assumes R: "dll_rep d L" and off: "\<And>h'. j \<notin> set (L h')"
  shows "dll_rep (dll_insert d h j) (L(h := L h @ [j]))"
proof -
  let ?e = "dll_insert d h j"
  have rings: "\<And>g. ring d (LHead g) (map LJob (L g))" and e: "job_list_is_empty d (LJob j)"
    using R off by (auto simp: dll_rep_def)
  have disj: "\<And>g g' i. i \<in> set (L g) \<Longrightarrow> i \<in> set (L g') \<Longrightarrow> g = g'"
    using R unfolding dll_rep_def by blast
  have "ring ?e (LHead g) (map LJob ((L(h := L h @ [j])) g))" for g
  proof (cases "g = h")
    case True
    then show ?thesis
      using ring_insert [OF rings e] off [of h] by (auto simp: dll_insert_def)
  next
    case False
    then show ?thesis
      using ring_insert_other [OF rings [of g] rings [of h] e] off disj
      by (auto simp: dll_insert_def)
  qed
  moreover have "job_list_is_empty ?e (LJob i)" if "\<forall>g. i \<notin> set ((L(h := L h @ [j])) g)" for i
  proof -
    have i: "i \<noteq> j" "\<And>g. i \<notin> set (L g)" using that by (metis Un_iff fun_upd_other fun_upd_same list.set_intros(1) set_append)+
    then have "job_list_is_empty d (LJob i)" using R by (auto simp: dll_rep_def)
    then show ?thesis
      using job_list_insert_empty_other [OF rings [of h] e, of "LJob i"] i by (auto simp: dll_insert_def)
  qed
  ultimately show ?thesis
    using disj off by (auto simp: dll_rep_def split: if_splits)
qed

lemma dll_rep_remove:
  assumes R: "dll_rep d L" and on: "j \<in> set (L h)"
  shows "fst (dll_remove d j)" "dll_rep (snd (dll_remove d j)) (L(h := remove1 j (L h)))"
proof -
  obtain xs ys where L: "L h = xs @ j # ys" using on by (auto simp: in_set_conv_decomp)
  have rings: "\<And>g. ring d (LHead g) (map LJob (L g))" using R by (simp add: dll_rep_def)
  have disj: "\<And>g g' i. i \<in> set (L g) \<Longrightarrow> i \<in> set (L g') \<Longrightarrow> g = g'"
    using R unfolding dll_rep_def by blast
  have rh: "ring d (LHead h) (map LJob xs @ LJob j # map LJob ys)" using rings [of h] L by simp
  then have dist: "j \<notin> set xs" "j \<notin> set ys" by (auto simp: ring_def)
  let ?e = "snd (job_list_remove d (Some (LJob j)))"
  have e: "snd (dll_remove d j) = ?e" by (simp add: dll_remove_def case_prod_beta)
  show "fst (dll_remove d j)" using ring_remove(1) [OF rh] by (simp add: dll_remove_def case_prod_beta)
  have r1: "remove1 j (L h) = xs @ ys" using L dist by (simp add: remove1_append)
  have rg: "ring ?e (LHead g) (map LJob ((L(h := remove1 j (L h))) g))" for g
  proof (cases "g = h")
    case True
    then show ?thesis using ring_remove(2) [OF rh] r1 by simp
  next
    case False
    have "ring ?e (LHead g) (map LJob (L g))"
      using disj [of _ g h] L False by (intro ring_remove_other [OF rings rh]) auto
    then show ?thesis using False by simp
  qed
  have em: "job_list_is_empty ?e (LJob i)" if "\<forall>g. i \<notin> set ((L(h := remove1 j (L h))) g)" for i
  proof (cases "i = j")
    case True
    then show ?thesis using ring_remove(3) [OF rh] by simp
  next
    case False
    then have i: "i \<notin> set (L g)" for g
      using that r1 L by (cases "g = h") (force dest: spec [of _ g])+
    then have "job_list_is_empty d (LJob i)" using R by (auto simp: dll_rep_def)
    then show ?thesis
      using job_list_remove_empty_other [OF rh, of "LJob i"] i [of h] L by auto
  qed
  have sub: "set ((L(h := remove1 j (L h))) g) \<subseteq> set (L g)" for g
    using set_remove1_subset [of j "L h"] by auto
  show "dll_rep (snd (dll_remove d j)) (L(h := remove1 j (L h)))"
    unfolding e dll_rep_def using rg em disj sub by (meson subsetD)
qed

interpretation dll: job_list_spec dll_rep dll_insert dll_remove "\<lambda>d h. job_list_is_empty d (LHead h)"
proof (unfold_locales, goal_cases)
  case (1 d L h)
  then have "ring d (LHead h) (map LJob (L h))" by (simp add: dll_rep_def)
  then show ?case by (simp add: ring_def distinct_map)
next
  case (2 d L j h h')
  then show ?case unfolding dll_rep_def by blast
next
  case (3 d L j h)
  then show ?case by (rule dll_rep_insert)
next
  case (4 d L j h' h)
  then have "\<not> job_list_is_empty d (LJob j)"
    using ring_member_linked [of d "LHead h'" "map LJob (L h')"] by (auto simp: dll_rep_def)
  then show ?case by (simp add: dll_insert_def job_list_insert_def)
next
  case (5 d L j h)
  then show ?case by (intro conjI dll_rep_remove)
next
  case (6 d L j)
  then have "job_list_is_empty d (LJob j)" by (auto simp: dll_rep_def)
  then show ?case by (simp add: dll_remove_def job_list_remove_def)
next
  case (7 d L h)
  then show ?case using ring_is_empty [of d "LHead h" "map LJob (L h)"] by (simp add: dll_rep_def)
qed

text \<open>
  The two representations stay in step: the server's lists are what the pointers spell out, after
  every insertion and removal, and removals report the same result.
\<close>

definition jl_sim :: "('h, 'j) lnode dll \<Rightarrow> ('h, 'j) joblists \<Rightarrow> bool" where
  "jl_sim d l \<longleftrightarrow> jl_ok l \<and> dll_rep d (jl_items l)"

lemma jl_sim_insert: "jl_sim d l \<Longrightarrow> jl_sim (dll_insert d h j) (jl_insert l h j)"
proof (cases "\<exists>h'. j \<in> set (jl_items l h')")
  case True
  then show "jl_sim d l \<Longrightarrow> ?thesis"
    using dll.rep_insert_old jl.rep_insert_old unfolding jl_sim_def by metis
next
  case False
  then show "jl_sim d l \<Longrightarrow> ?thesis"
    using dll_rep_insert [of d "jl_items l" j h] jl.rep_insert_new [of l "jl_items l" j h]
    by (auto simp: jl_sim_def)
qed

lemma jl_sim_remove:
  assumes "jl_sim d l"
  shows "fst (dll_remove d j) = fst (jl_remove l j)" "jl_sim (snd (dll_remove d j)) (snd (jl_remove l j))"
proof -
  have "fst (dll_remove d j) = fst (jl_remove l j) \<and> jl_sim (snd (dll_remove d j)) (snd (jl_remove l j))"
  proof (cases "\<exists>h. j \<in> set (jl_items l h)")
    case True
    then obtain h where h: "j \<in> set (jl_items l h)" by blast
    then show ?thesis
      using assms dll.rep_remove_on [of d "jl_items l" j h] jl.rep_remove_on [of l "jl_items l" j h]
      by (auto simp: jl_sim_def)
  next
    case False
    then show ?thesis
      using assms dll.rep_remove_off [of d "jl_items l" j] jl.rep_remove_off [of l "jl_items l" j]
      by (auto simp: jl_sim_def)
  qed
  then show "fst (dll_remove d j) = fst (jl_remove l j)" "jl_sim (snd (dll_remove d j)) (snd (jl_remove l j))"
    by blast+
qed

section \<open>The refinement\<close>

text \<open>C23
  The circular lists of \<open>job.c\<close>, linked through \<open>prev\<close> and \<open>next\<close>, implement lists of jobs in which a job
  is on at most one list: inserting and removing commute with the abstraction, and removing reports the
  same result.
\<close>

theorem job_lists_refine:
  assumes "jl_sim d l"
  shows "jl_sim (dll_insert d h j) (jl_insert l h j) \<and>
    fst (dll_remove d j) = fst (jl_remove l j) \<and> jl_sim (snd (dll_remove d j)) (snd (jl_remove l j))"
  using jl_sim_insert [OF assms] jl_sim_remove [OF assms] by simp

theorem job_lists_refine_witness:
  "jl_sim (dll_insert \<lparr>prv = (\<lambda>x. x), nxt = (\<lambda>x. x)\<rparr> (0 :: nat) (5 :: nat))
     (jl_insert \<lparr>jl_items = (\<lambda>_. []), jl_owner = (\<lambda>_. None)\<rparr> 0 5)"
proof -
  have "jl_sim \<lparr>prv = (\<lambda>x :: (nat, nat) lnode. x), nxt = (\<lambda>x. x)\<rparr> \<lparr>jl_items = (\<lambda>_. []), jl_owner = (\<lambda>_. None)\<rparr>"
    by (simp add: jl_sim_def jl_ok_def dll_rep_def ring_def job_list_is_empty_def)
  from job_lists_refine [OF this] show ?thesis by blast
qed

end
