(* ===== verification/Bean_Jobhash.thy ===== *)
theory Bean_Jobhash
  imports Bean_Joblist
begin

text \<open>
  The job hash table of \<open>job.c\<close> with the bucket counts of \<open>primes.c\<close>. A bucket's \<open>ht_next\<close> chain is
  the list of its jobs, newest first; \<open>ids\<close> reads \<open>j->r.id\<close>. The bucket index is converted to \<open>int\<close>
  as the source does, so a bucket is found by a signed number. \<open>job_index\<close> is the contract the rest of
  the server relies on: the table is a finite map from ids to jobs.
\<close>

section \<open>The table and its operations\<close>

definition primes :: "nat list" where
  "primes = [12289, 24593, 49193, 98387, 196799,
      393611, 787243, 1574491, 3148987, 6297979,
      12595991, 25191989, 50383981, 100767977, 201535967,
      403071937, 806143879, 1612287763, 3224575537, 6449151103,
      12898302233, 25796604473, 51593208973, 103186417951, 206372835917,
      412745671837, 825491343683, 1650982687391, 3301965374803, 6603930749621,
      13207861499251, 26415722998507, 52831445997037, 105662891994103, 211325783988211,
      422651567976461, 845303135952931, 1690606271905871, 3381212543811743, 6762425087623523,
      13524850175247127, 27049700350494287, 54099400700988593, 108198801401977301, 216397602803954641,
      432795205607909293, 865590411215818597, 1731180822431637217]"

abbreviation NUM_PRIMES :: nat where
  "NUM_PRIMES \<equiv> 48"

record 'j Jobhash =
  cur_prime :: nat
  all_jobs_cap :: nat
  all_jobs_used :: nat
  hash_table_was_oom :: bool
  all_jobs :: "int \<Rightarrow> 'j list"

definition jobhash_init :: "'j Jobhash" where
  "jobhash_init = \<lparr>cur_prime = 0, all_jobs_cap = 12289, all_jobs_used = 0,
     hash_table_was_oom = False, all_jobs = (\<lambda>_. [])\<rparr>"

definition get_job_hash_index :: "nat \<Rightarrow> u64 \<Rightarrow> int" where
  "get_job_hash_index cap job_id = signed_take_bit 31 (uint job_id mod int cap)"

text \<open>The part of \<open>store_job\<close> before its load check.\<close>

definition ht_link :: "('j \<Rightarrow> u64) \<Rightarrow> 'j \<Rightarrow> 'j Jobhash \<Rightarrow> 'j Jobhash" where
  "ht_link ids j h =
     (let index = get_job_hash_index (all_jobs_cap h) (ids j)
      in h\<lparr>all_jobs := (all_jobs h)(index := j # all_jobs h index),
           all_jobs_used := all_jobs_used h + 1\<rparr>)"

definition ht_jobs :: "'j Jobhash \<Rightarrow> 'j list" where
  "ht_jobs h = concat (map (\<lambda>i. all_jobs h (int i)) [0..<all_jobs_cap h])"

text \<open>
  \<open>rehash\<close> over the function that stores one job, which is \<open>store_job\<close> itself in the source: the two
  call each other. The old buckets are emptied from their heads, in index order.
\<close>

definition rehash_with ::
  "('j \<Rightarrow> 'j Jobhash \<times> 's \<Rightarrow> 'j Jobhash \<times> 's) \<Rightarrow> 's malloc_fn \<Rightarrow> bool \<Rightarrow> 'j Jobhash \<times> 's \<Rightarrow> 'j Jobhash \<times> 's" where
  "rehash_with store malloc is_upscaling hs =
     (let (h, s) = hs;
          p = int (cur_prime h) + (if is_upscaling then 1 else - 1)
      in if p \<ge> int NUM_PRIMES then (h, s)
         else if p < 0 then (h, s)
         else if is_upscaling \<and> hash_table_was_oom h then (h, s)
         else case malloc s of
                (False, s') \<Rightarrow> (h\<lparr>hash_table_was_oom := True\<rparr>, s')
              | (True, s') \<Rightarrow>
                  fold store (ht_jobs h)
                    (\<lparr>cur_prime = nat p, all_jobs_cap = primes ! nat p, all_jobs_used = 0,
                      hash_table_was_oom = False, all_jobs = (\<lambda>_. [])\<rparr>, s'))"

text \<open>\<open>store_job_n n\<close> allows \<open>n\<close> nested calls of \<open>rehash\<close>; one is enough (\<open>store_job_nested\<close>).\<close>

primrec store_job_n ::
  "nat \<Rightarrow> ('j \<Rightarrow> u64) \<Rightarrow> 's malloc_fn \<Rightarrow> 'j \<Rightarrow> 'j Jobhash \<times> 's \<Rightarrow> 'j Jobhash \<times> 's" where
  "store_job_n 0 ids malloc j hs = (ht_link ids j (fst hs), snd hs)"
| "store_job_n (Suc n) ids malloc j hs =
     (let h = ht_link ids j (fst hs)
      in if all_jobs_used h > all_jobs_cap h * 4
         then rehash_with (store_job_n n ids malloc) malloc True (h, snd hs)
         else (h, snd hs))"

definition store_job :: "('j \<Rightarrow> u64) \<Rightarrow> 's malloc_fn \<Rightarrow> 'j \<Rightarrow> 'j Jobhash \<times> 's \<Rightarrow> 'j Jobhash \<times> 's" where
  "store_job ids malloc = store_job_n 2 ids malloc"

definition rehash :: "('j \<Rightarrow> u64) \<Rightarrow> 's malloc_fn \<Rightarrow> bool \<Rightarrow> 'j Jobhash \<times> 's \<Rightarrow> 'j Jobhash \<times> 's" where
  "rehash ids malloc = rehash_with (store_job ids malloc) malloc"

definition job_find :: "('j \<Rightarrow> u64) \<Rightarrow> 'j Jobhash \<Rightarrow> u64 \<Rightarrow> 'j option" where
  "job_find ids h job_id =
     find (\<lambda>j. ids j = job_id) (all_jobs h (get_job_hash_index (all_jobs_cap h) job_id))"

definition job_hash_free ::
  "('j \<Rightarrow> u64) \<Rightarrow> 's malloc_fn \<Rightarrow> 'j \<Rightarrow> 'j Jobhash \<times> 's \<Rightarrow> 'j Jobhash \<times> 's" where
  "job_hash_free ids malloc j hs =
     (let (h, s) = hs;
          index = get_job_hash_index (all_jobs_cap h) (ids j);
          slot = all_jobs h index;
          h1 = (if j \<in> set slot
                then h\<lparr>all_jobs := (all_jobs h)(index := remove1 j slot),
                       all_jobs_used := all_jobs_used h - 1\<rparr>
                else h)
      in if all_jobs_used h1 < all_jobs_cap h1 div 16 then rehash ids malloc False (h1, s) else (h1, s))"

section \<open>Well-formed tables\<close>

definition ht_ok :: "('j \<Rightarrow> u64) \<Rightarrow> 'j Jobhash \<Rightarrow> bool" where
  "ht_ok ids h \<longleftrightarrow>
     cur_prime h < NUM_PRIMES \<and> all_jobs_cap h = primes ! cur_prime h \<and> all_jobs_cap h \<le> 2 ^ 31 \<and>
     (\<forall>i j. j \<in> set (all_jobs h i) \<longrightarrow> i = uint (ids j) mod int (all_jobs_cap h)) \<and>
     (\<forall>i. distinct (all_jobs h i)) \<and>
     (\<forall>i i' j j'. j \<in> set (all_jobs h i) \<longrightarrow> j' \<in> set (all_jobs h i') \<longrightarrow> ids j = ids j' \<longrightarrow> j = j') \<and>
     all_jobs_used h = (\<Sum>i<all_jobs_cap h. length (all_jobs h (int i)))"

definition ht_set :: "'j Jobhash \<Rightarrow> 'j set" where
  "ht_set h = (\<Union>i. set (all_jobs h i))"

lemma primes_step: "Suc i < NUM_PRIMES \<Longrightarrow> primes ! i < primes ! Suc i \<and> primes ! Suc i \<le> 3 * primes ! i"
proof -
  have "successively (\<lambda>a b. a < b \<and> b \<le> 3 * a) primes" by (simp add: primes_def)
  moreover have "length primes = NUM_PRIMES" by (simp add: primes_def)
  ultimately show "Suc i < NUM_PRIMES \<Longrightarrow> ?thesis" by (auto simp: successively_conv_nth)
qed

lemma primes_pos: "i < NUM_PRIMES \<Longrightarrow> 0 < primes ! i"
proof -
  have "list_all (\<lambda>p. 0 < p) primes" "length primes = NUM_PRIMES" by (simp_all add: primes_def)
  then show "i < NUM_PRIMES \<Longrightarrow> ?thesis" by (auto simp: list_all_length)
qed

lemma primes_17: "primes ! 17 = 1612287763" by (simp add: primes_def)

lemma primes_mono: "i \<le> j \<Longrightarrow> j < NUM_PRIMES \<Longrightarrow> primes ! i \<le> primes ! j"
proof (induction j rule: dec_induct)
  case (step n)
  then show ?case using primes_step [of n] by simp
qed simp

lemma primes_small: "i \<le> 17 \<Longrightarrow> primes ! i \<le> 2 ^ 31"
  using primes_mono [of i 17] by (simp add: primes_17)

lemma primes_big: "17 < i \<Longrightarrow> i < NUM_PRIMES \<Longrightarrow> 2 ^ 31 < primes ! i"
  using primes_mono [of 18 i] by (simp add: primes_def)

lemma hash_index_mod:
  assumes "0 < cap" "cap \<le> 2 ^ 31"
  shows "get_job_hash_index cap job_id = uint job_id mod int cap"
proof -
  have "0 \<le> uint job_id mod int cap" "uint job_id mod int cap < int cap" using assms by simp_all
  moreover have "int cap \<le> 2 ^ 31" using assms(2) by (metis of_nat_le_iff of_nat_numeral of_nat_power)
  ultimately show ?thesis
    unfolding get_job_hash_index_def by (intro signed_take_bit_int_eq_self) auto
qed

lemma ht_okD:
  assumes "ht_ok ids h"
  shows "cur_prime h < NUM_PRIMES" "all_jobs_cap h = primes ! cur_prime h" "all_jobs_cap h \<le> 2 ^ 31"
    "\<forall>i j. j \<in> set (all_jobs h i) \<longrightarrow> i = uint (ids j) mod int (all_jobs_cap h)"
    "\<forall>i. distinct (all_jobs h i)"
    "\<forall>i i' j j'. j \<in> set (all_jobs h i) \<longrightarrow> j' \<in> set (all_jobs h i') \<longrightarrow> ids j = ids j' \<longrightarrow> j = j'"
    "all_jobs_used h = (\<Sum>i<all_jobs_cap h. length (all_jobs h (int i)))"
  using assms unfolding ht_ok_def by blast+

lemma ht_ok_cap: "ht_ok ids h \<Longrightarrow> 0 < all_jobs_cap h"
  using primes_pos [of "cur_prime h"] ht_okD(1,2) [of ids h] by simp

lemma ht_ok_index: "ht_ok ids h \<Longrightarrow>
    get_job_hash_index (all_jobs_cap h) n = uint n mod int (all_jobs_cap h)"
  using hash_index_mod ht_ok_cap ht_okD(3) by blast

lemma ht_set_iff: "j \<in> ht_set h \<longleftrightarrow> (\<exists>i. j \<in> set (all_jobs h i))"
  by (simp add: ht_set_def)

lemma ht_set_bucket:
  "ht_ok ids h \<Longrightarrow> j \<in> ht_set h \<longleftrightarrow> j \<in> set (all_jobs h (uint (ids j) mod int (all_jobs_cap h)))"
  using ht_okD(4) unfolding ht_set_iff by blast

lemma ht_unique: "ht_ok ids h \<Longrightarrow> j \<in> ht_set h \<Longrightarrow> j' \<in> ht_set h \<Longrightarrow> ids j = ids j' \<Longrightarrow> j = j'"
  using ht_okD(6) unfolding ht_set_iff by blast

lemma ht_ok_oom [simp]:
  "ht_ok ids (h\<lparr>hash_table_was_oom := b\<rparr>) = ht_ok ids h"
  "ht_set (h\<lparr>hash_table_was_oom := b\<rparr>) = ht_set h"
  unfolding ht_ok_def ht_set_def by simp_all

lemma ht_ok_init: "ht_ok ids jobhash_init"
  by (simp add: ht_ok_def jobhash_init_def primes_def)

text \<open>Looking up an id finds the job of the table that has it.\<close>

lemma job_find_iff:
  assumes "ht_ok ids h"
  shows "job_find ids h n = Some j \<longleftrightarrow> j \<in> ht_set h \<and> ids j = n"
proof -
  let ?i = "get_job_hash_index (all_jobs_cap h) n"
  have B: "j \<in> set (all_jobs h ?i)" if "j \<in> ht_set h" "ids j = n" for j
    using ht_set_bucket [OF assms, of j] that by (simp add: ht_ok_index [OF assms])
  show ?thesis
  proof (cases "job_find ids h n")
    case None
    then have "\<And>j. j \<in> set (all_jobs h ?i) \<Longrightarrow> ids j \<noteq> n" by (auto simp: job_find_def find_None_iff)
    then show ?thesis using None B by auto
  next
    case (Some j')
    then have "j' \<in> set (all_jobs h ?i)" "ids j' = n"
      by (auto simp: job_find_def find_Some_iff in_set_conv_nth)
    then have "j' \<in> ht_set h" "ids j' = n" by (auto simp: ht_set_def)
    then show ?thesis using Some ht_unique [OF assms] by auto
  qed
qed

lemma job_find_None: "ht_ok ids h \<Longrightarrow> job_find ids h n = None \<longleftrightarrow> (\<forall>j \<in> ht_set h. ids j \<noteq> n)"
  using job_find_iff [of ids h n] by (metis not_None_eq)

section \<open>Storing, rehashing and freeing\<close>

lemma sum_length_upd:
  assumes "i < n" "length xs = length (f (int i)) + d"
  shows "(\<Sum>k<n. length ((f(int i := xs)) (int k))) = (\<Sum>k<n. length (f (int k))) + d"
proof -
  have "(\<Sum>k<n. length ((f(int i := xs)) (int k))) =
      length xs + (\<Sum>k\<in>{..<n} - {i}. length ((f(int i := xs)) (int k)))"
    using assms(1) by (subst sum.remove [of _ i]) auto
  also have "\<dots> = length xs + (\<Sum>k\<in>{..<n} - {i}. length (f (int k)))" by simp
  also have "\<dots> = (\<Sum>k<n. length (f (int k))) + d"
    using assms by (subst sum.remove [of "{..<n}" i]) auto
  finally show ?thesis .
qed

lemma ht_link_shape [simp]:
  "all_jobs_cap (ht_link ids j h) = all_jobs_cap h" "cur_prime (ht_link ids j h) = cur_prime h"
  "all_jobs_used (ht_link ids j h) = Suc (all_jobs_used h)"
  "hash_table_was_oom (ht_link ids j h) = hash_table_was_oom h"
  by (simp_all add: ht_link_def Let_def)

lemma ht_link_set: "ht_set (ht_link ids j h) = insert j (ht_set h)"
proof (rule set_eqI)
  fix x
  let ?i = "get_job_hash_index (all_jobs_cap h) (ids j)"
  have b: "set (all_jobs (ht_link ids j h) i) = (if i = ?i then insert j (set (all_jobs h i)) else set (all_jobs h i))" for i
    by (simp add: ht_link_def Let_def)
  show "x \<in> ht_set (ht_link ids j h) \<longleftrightarrow> x \<in> insert j (ht_set h)"
    unfolding ht_set_iff insert_iff b by (metis insert_iff)
qed

lemma bucket_index:
  assumes "ht_ok ids h"
  obtains i where "i < all_jobs_cap h" "uint (n :: u64) mod int (all_jobs_cap h) = int i"
proof -
  have "0 \<le> uint n mod int (all_jobs_cap h)" "uint n mod int (all_jobs_cap h) < int (all_jobs_cap h)"
    using ht_ok_cap [OF assms] by simp_all
  then show ?thesis by (intro that [of "nat (uint n mod int (all_jobs_cap h))"]) auto
qed

lemma ht_link_ok:
  assumes ok: "ht_ok ids h" and new: "\<And>j'. j' \<in> ht_set h \<Longrightarrow> ids j' \<noteq> ids j"
  shows "ht_ok ids (ht_link ids j h)"
proof -
  obtain i where i: "i < all_jobs_cap h" "uint (ids j) mod int (all_jobs_cap h) = int i"
    using bucket_index [OF ok] by blast
  have b: "all_jobs (ht_link ids j h) = (all_jobs h)(int i := j # all_jobs h (int i))"
    by (simp add: ht_link_def Let_def ht_ok_index [OF ok] i)
  have notin: "\<And>i'. j \<notin> set (all_jobs h i')" using new ht_set_iff by metis
  have "\<forall>i' j'. j' \<in> set (all_jobs (ht_link ids j h) i') \<longrightarrow> i' = uint (ids j') mod int (all_jobs_cap h)"
    using ht_okD(4) [OF ok] i(2) unfolding b by auto
  moreover have "\<forall>i'. distinct (all_jobs (ht_link ids j h) i')"
    using ht_okD(5) [OF ok] notin unfolding b by auto
  moreover have "\<forall>i1 i2 j1 j2. j1 \<in> set (all_jobs (ht_link ids j h) i1) \<longrightarrow>
      j2 \<in> set (all_jobs (ht_link ids j h) i2) \<longrightarrow> ids j1 = ids j2 \<longrightarrow> j1 = j2"
    using ht_unique [OF ok] new ht_link_set [of ids j h] ht_set_iff by (metis insertE)
  moreover have "Suc (all_jobs_used h) = (\<Sum>k<all_jobs_cap h. length (all_jobs (ht_link ids j h) (int k)))"
    unfolding b using ht_okD(7) [OF ok] i by (subst sum_length_upd [where d = 1]) auto
  ultimately show ?thesis
    using ht_okD(1,2,3) [OF ok] unfolding ht_ok_def by simp
qed

text \<open>Linking a whole list of jobs with fresh, distinct ids.\<close>

lemma fold_link_ok:
  "ht_ok ids h \<Longrightarrow> distinct (map ids js) \<Longrightarrow> (\<forall>j \<in> set js. \<forall>j' \<in> ht_set h. ids j' \<noteq> ids j) \<Longrightarrow>
   ht_ok ids (fold (ht_link ids) js h) \<and> ht_set (fold (ht_link ids) js h) = ht_set h \<union> set js \<and>
   all_jobs_used (fold (ht_link ids) js h) = all_jobs_used h + length js \<and>
   all_jobs_cap (fold (ht_link ids) js h) = all_jobs_cap h"
proof (induction js arbitrary: h)
  case (Cons j js)
  have "ht_ok ids (ht_link ids j h)" using Cons.prems by (intro ht_link_ok) auto
  moreover have "\<forall>i \<in> set js. \<forall>j' \<in> ht_set (ht_link ids j h). ids j' \<noteq> ids i"
    using Cons.prems by (auto simp: ht_link_set image_iff)
  ultimately show ?case
    using Cons.IH [of "ht_link ids j h"] Cons.prems by (auto simp: ht_link_set)
qed simp

text \<open>While the load stays below four, \<open>store_job\<close> just links: no rehash starts inside a rehash.\<close>

lemma fold_store_links:
  "all_jobs_used h + length js \<le> all_jobs_cap h * 4 \<Longrightarrow>
   fold (store_job_n n ids malloc) js (h, s) = (fold (ht_link ids) js h, s)"
proof (induction js arbitrary: h)
  case (Cons j js)
  have "store_job_n n ids malloc j (h, s) = (ht_link ids j h, s)"
    using Cons.prems by (cases n) (auto simp: Let_def)
  then show ?case using Cons.IH [of "ht_link ids j h"] Cons.prems by simp
qed simp

lemma ht_jobs_set: "ht_ok ids h \<Longrightarrow> set (ht_jobs h) = ht_set h"
proof -
  assume ok: "ht_ok ids h"
  have "j \<in> set (ht_jobs h)" if "j \<in> ht_set h" for j
  proof -
    obtain i where "i < all_jobs_cap h" "uint (ids j) mod int (all_jobs_cap h) = int i"
      using bucket_index [OF ok] by blast
    then show ?thesis using that ht_set_bucket [OF ok, of j] by (force simp: ht_jobs_def)
  qed
  then show ?thesis by (auto simp: ht_jobs_def ht_set_iff)
qed

lemma ht_jobs_length: "ht_ok ids h \<Longrightarrow> length (ht_jobs h) = all_jobs_used h"
  using ht_okD(7) [of ids h]
  by (simp add: ht_jobs_def length_concat comp_def interv_sum_list_conv_sum_set_nat atLeast0LessThan)

lemma ht_jobs_distinct: "ht_ok ids h \<Longrightarrow> distinct (map ids (ht_jobs h))"
proof -
  assume ok: "ht_ok ids h"
  have "set (all_jobs h (int a)) \<inter> set (all_jobs h (int b)) = {}" if "a < b" for a b
    using that ht_okD(4) [OF ok] by (metis disjoint_iff less_irrefl of_nat_eq_iff)
  then have "distinct (ht_jobs h)"
    unfolding ht_jobs_def using ht_okD(5) [OF ok] by (intro distinct_concat_upt) auto
  then show ?thesis
    using ht_unique [OF ok] ht_jobs_set [OF ok] by (auto simp: distinct_map inj_on_def)
qed

text \<open>
  A rehash that fits keeps the jobs. \<open>rehash_fits\<close>: scaling up stays below \<open>2^31\<close> buckets, and the
  new table has room for the jobs at load four.
\<close>

definition rehash_fits :: "bool \<Rightarrow> 'j Jobhash \<Rightarrow> bool" where
  "rehash_fits up h \<longleftrightarrow>
     (if up then cur_prime h < 17 \<and> all_jobs_used h \<le> all_jobs_cap h * 4 + 1
      else all_jobs_used h < all_jobs_cap h div 16)"

lemma new_cap_fits:
  assumes ok: "ht_ok ids h" and fits: "rehash_fits up h"
    and p: "int p = int (cur_prime h) + (if up then 1 else - 1)"
  shows "p < NUM_PRIMES" "primes ! p \<le> 2 ^ 31" "all_jobs_used h \<le> primes ! p * 4"
proof -
  have c: "cur_prime h < NUM_PRIMES" "all_jobs_cap h = primes ! cur_prime h" "all_jobs_cap h \<le> 2 ^ 31"
    using ht_okD [OF ok] by simp_all
  have "p < NUM_PRIMES \<and> primes ! p \<le> 2 ^ 31 \<and> all_jobs_used h \<le> primes ! p * 4"
  proof (cases up)
    case True
    then have "p = Suc (cur_prime h)" "cur_prime h < 17" "all_jobs_used h \<le> all_jobs_cap h * 4 + 1"
      using p fits by (auto simp: rehash_fits_def)
    then show ?thesis using primes_step [of "cur_prime h"] primes_small [of p] c by simp
  next
    case False
    then have "cur_prime h = Suc p" "all_jobs_used h < all_jobs_cap h div 16"
      using p fits by (auto simp: rehash_fits_def)
    moreover from this have "all_jobs_used h \<le> all_jobs_cap h"
      by (meson div_le_dividend le_trans less_imp_le)
    ultimately show ?thesis using primes_step [of p] c by simp
  qed
  then show "p < NUM_PRIMES" "primes ! p \<le> 2 ^ 31" "all_jobs_used h \<le> primes ! p * 4" by blast+
qed

text \<open>The load the upscaling keeps, except after an allocation failure or below the first prime.\<close>

definition ht_load :: "'j Jobhash \<Rightarrow> bool" where
  "ht_load h \<longleftrightarrow> all_jobs_used h \<le> all_jobs_cap h * 4 \<or> hash_table_was_oom h"

lemma rehash_with_ok:
  assumes ok: "ht_ok ids h" and fits: "rehash_fits up h"
    and r: "rehash_with (store_job_n n ids malloc) malloc up (h, s) = (h', s')"
  shows "ht_ok ids h' \<and> ht_set h' = ht_set h \<and> all_jobs_used h' = all_jobs_used h \<and>
    (s' = s \<or> s' = snd (malloc s)) \<and> ht_load h'"
proof -
  let ?q = "int (cur_prime h) + (if up then 1 else - 1)"
  note d = r [unfolded rehash_with_def Let_def prod.case]
  consider (same) "h' = h" "s' = s" "ht_load h" | (oom) "h' = h\<lparr>hash_table_was_oom := True\<rparr>" "s' = snd (malloc s)"
    | (new) "0 \<le> ?q" "(h', s') = fold (store_job_n n ids malloc) (ht_jobs h)
        (\<lparr>cur_prime = nat ?q, all_jobs_cap = primes ! nat ?q, all_jobs_used = 0,
          hash_table_was_oom = False, all_jobs = (\<lambda>_. [])\<rparr>, snd (malloc s))"
  proof (cases "int NUM_PRIMES \<le> ?q \<or> ?q < 0 \<or> up \<and> hash_table_was_oom h")
    case True
    then have "(h', s') = (h, s)" using d by argo
    moreover have "ht_load h" using True fits by (auto simp: rehash_fits_def ht_load_def split: if_splits)
    ultimately show ?thesis using same by simp
  next
    case False
    then have c: "\<not> int NUM_PRIMES \<le> ?q" "\<not> ?q < 0" "\<not> (up \<and> hash_table_was_oom h)" by blast+
    note d = d [unfolded if_not_P [OF c(1)] if_not_P [OF c(2)] if_not_P [OF c(3)]]
    obtain b t where m: "malloc s = (b, t)" by (cases "malloc s")
    show ?thesis
    proof (cases b)
      case True
      then show ?thesis using c d m by (intro new) auto
    next
      case False
      then show ?thesis using d m by (intro oom) auto
    qed
  qed
  then show ?thesis
  proof cases
    case same
    then show ?thesis using ok by simp
  next
    case oom
    then show ?thesis using ok by (simp add: ht_load_def)
  next
    case new
    define g :: "'a Jobhash" where "g = \<lparr>cur_prime = nat ?q, all_jobs_cap = primes ! nat ?q,
      all_jobs_used = 0, hash_table_was_oom = False, all_jobs = (\<lambda>_. [])\<rparr>"
    note cap = new_cap_fits [OF ok fits, of "nat ?q"]
    have g: "ht_ok ids g" "ht_set g = {}" using cap new(1) by (simp_all add: g_def ht_ok_def ht_set_def)
    have "(h', s') = (fold (ht_link ids) (ht_jobs h) g, snd (malloc s))"
      unfolding new(2) g_def [symmetric]
      using cap new(1) ht_jobs_length [OF ok] by (intro fold_store_links) (simp add: g_def)
    then show ?thesis
      using fold_link_ok [OF g(1) ht_jobs_distinct [OF ok]] g ht_jobs_set [OF ok] ht_jobs_length [OF ok] cap(3) new(1)
      by (simp add: g_def ht_load_def)
  qed
qed

lemma store_job_nested:
  assumes ok: "ht_ok ids h" and new: "\<And>j'. j' \<in> ht_set h \<Longrightarrow> ids j' \<noteq> ids j"
    and load: "all_jobs_used h \<le> all_jobs_cap h * 4" and room: "cur_prime h < 17"
  shows "store_job_n (Suc n) ids malloc j (h, s) = store_job_n 1 ids malloc j (h, s)"
proof -
  let ?g = "ht_link ids j h"
  have g: "ht_ok ids ?g" using ok new by (rule ht_link_ok)
  have f: "rehash_fits True ?g" using load room by (simp add: rehash_fits_def)
  have "rehash_with (store_job_n m ids malloc) malloc True (?g, s) =
      rehash_with (store_job_n 0 ids malloc) malloc True (?g, s)" for m
    using new_cap_fits(3) [OF g f, of "Suc (cur_prime ?g)"] ht_jobs_length [OF g]
    by (auto simp: rehash_with_def Let_def fold_store_links nat_add_distrib split: prod.split bool.split)
  then show ?thesis by (simp add: Let_def)
qed

text \<open>
  \<open>ht_room\<close>: one more job will not push the table past its 18th prime, the last below \<open>2^31\<close>.
\<close>

definition ht_room :: "'j Jobhash \<Rightarrow> bool" where
  "ht_room h \<longleftrightarrow> all_jobs_used h < primes ! 17 * 4"

lemma ht_prime_small: "ht_ok ids h \<Longrightarrow> cur_prime h \<le> 17"
  using primes_big [of "cur_prime h"] ht_okD(1,2,3) [of ids h] by linarith

lemma store_job_ok:
  assumes ok: "ht_ok ids h" and new: "\<And>j'. j' \<in> ht_set h \<Longrightarrow> ids j' \<noteq> ids j"
    and room: "ht_room h" and load: "ht_load h"
    and st: "store_job ids malloc j (h, s) = (h', s')"
  shows "ht_ok ids h'" "ht_set h' = insert j (ht_set h)" "all_jobs_used h' = Suc (all_jobs_used h)"
    "s' = s \<or> s' = snd (malloc s)" "ht_load h'"
proof -
  let ?g = "ht_link ids j h"
  have g: "ht_ok ids ?g" "ht_set ?g = insert j (ht_set h)" using ht_link_ok [OF ok new] ht_link_set by simp_all
  have e: "(h', s') = (if all_jobs_used ?g > all_jobs_cap ?g * 4
      then rehash_with (store_job_n 1 ids malloc) malloc True (?g, s) else (?g, s))"
    using st unfolding store_job_def numeral_2_eq_2 store_job_n.simps Let_def fst_conv snd_conv One_nat_def
    by (rule sym)
  have "ht_ok ids h' \<and> ht_set h' = insert j (ht_set h) \<and> all_jobs_used h' = Suc (all_jobs_used h) \<and>
    (s' = s \<or> s' = snd (malloc s)) \<and> ht_load h'"
  proof (cases "all_jobs_used ?g > all_jobs_cap ?g * 4")
    case False
    then show ?thesis using e g by (simp add: ht_load_def)
  next
    case True
    then have r: "rehash_with (store_job_n 1 ids malloc) malloc True (?g, s) = (h', s')" using e by simp
    show ?thesis
    proof (cases "hash_table_was_oom h")
      case True
      then have "h' = ?g" "s' = s" using r by (auto simp: rehash_with_def Let_def split: if_splits)
      then show ?thesis using g True by (simp add: ht_load_def)
    next
      case noom: False
      have "cur_prime h \<noteq> 17" using True room ht_okD(2) [OF ok] by (auto simp: ht_room_def)
      then have "rehash_fits True ?g"
        using load noom ht_prime_small [OF ok] by (auto simp: rehash_fits_def ht_load_def)
      then show ?thesis using rehash_with_ok [OF g(1) _ r] g by simp
    qed
  qed
  then show "ht_ok ids h'" "ht_set h' = insert j (ht_set h)" "all_jobs_used h' = Suc (all_jobs_used h)"
    "s' = s \<or> s' = snd (malloc s)" "ht_load h'" by blast+
qed

lemma ht_unlink_ok:
  assumes ok: "ht_ok ids h" and j: "j \<in> ht_set h"
  defines "k \<equiv> uint (ids j) mod int (all_jobs_cap h)"
  shows "ht_ok ids (h\<lparr>all_jobs := (all_jobs h)(k := remove1 j (all_jobs h k)), all_jobs_used := all_jobs_used h - 1\<rparr>)"
    "ht_set (h\<lparr>all_jobs := (all_jobs h)(k := remove1 j (all_jobs h k)), all_jobs_used := all_jobs_used h - 1\<rparr>) = ht_set h - {j}"
    "0 < all_jobs_used h"
proof -
  let ?h = "h\<lparr>all_jobs := (all_jobs h)(k := remove1 j (all_jobs h k)), all_jobs_used := all_jobs_used h - 1\<rparr>"
  have jk: "j \<in> set (all_jobs h k)" using j ht_set_bucket [OF ok, of j] by (simp add: k_def)
  have others: "j \<notin> set (all_jobs h i)" if "i \<noteq> k" for i using that ht_okD(4) [OF ok] by (auto simp: k_def)
  have b: "set (all_jobs ?h i) = set (all_jobs h i) - {j}" for i
    using others [of i] ht_okD(5) [OF ok] by (simp add: set_remove1_eq)
  show s: "ht_set ?h = ht_set h - {j}" unfolding ht_set_def b by blast
  obtain i where i: "i < all_jobs_cap h" "k = int i" using bucket_index [OF ok] k_def by metis
  have "(\<Sum>n<all_jobs_cap h. length (all_jobs h (int n))) =
      (\<Sum>n<all_jobs_cap h. length (all_jobs ?h (int n))) + 1"
  proof -
    have "all_jobs h = (all_jobs ?h)(int i := all_jobs h (int i))" using i by auto
    moreover have "length (all_jobs h (int i)) = length (all_jobs ?h (int i)) + 1"
      using jk i by (simp add: length_remove1) (metis One_nat_def Suc_pred length_pos_if_in_set)
    ultimately show ?thesis using sum_length_upd [OF i(1), of "all_jobs h (int i)" "all_jobs ?h" 1] by metis
  qed
  then have u: "all_jobs_used h = (\<Sum>n<all_jobs_cap h. length (all_jobs ?h (int n))) + 1"
    using ht_okD(7) [OF ok] by simp
  then show "0 < all_jobs_used h" by simp
  have "\<forall>i. distinct (all_jobs ?h i)" using ht_okD(5) [OF ok] by simp
  moreover have "\<forall>i j'. j' \<in> set (all_jobs ?h i) \<longrightarrow> i = uint (ids j') mod int (all_jobs_cap h)"
    unfolding b using ht_okD(4) [OF ok] by blast
  moreover have "\<forall>i i' j1 j2. j1 \<in> set (all_jobs ?h i) \<longrightarrow> j2 \<in> set (all_jobs ?h i') \<longrightarrow> ids j1 = ids j2 \<longrightarrow> j1 = j2"
    unfolding b using ht_okD(6) [OF ok] by blast
  ultimately show "ht_ok ids ?h" using ht_okD(1,2,3) [OF ok] u unfolding ht_ok_def by simp
qed

lemma job_hash_free_ok:
  assumes ok: "ht_ok ids h" and f: "job_hash_free ids malloc j (h, s) = (h', s')"
  shows "ht_ok ids h'" "ht_set h' = ht_set h - {j}" "s' = s \<or> s' = snd (malloc s)" "ht_load h \<Longrightarrow> ht_load h'"
    "all_jobs_used h' \<le> all_jobs_used h"
proof -
  let ?k = "uint (ids j) mod int (all_jobs_cap h)"
  define g where "g = (if j \<in> set (all_jobs h ?k)
    then h\<lparr>all_jobs := (all_jobs h)(?k := remove1 j (all_jobs h ?k)), all_jobs_used := all_jobs_used h - 1\<rparr> else h)"
  have g: "ht_ok ids g" "ht_set g = ht_set h - {j}"
    using ht_unlink_ok [OF ok, of j] ok ht_set_bucket [OF ok, of j] by (auto simp: g_def)
  have e: "(h', s') = (if all_jobs_used g < all_jobs_cap g div 16
      then rehash_with (store_job_n 2 ids malloc) malloc False (g, s) else (g, s))"
    using f unfolding job_hash_free_def Let_def rehash_def store_job_def ht_ok_index [OF ok] prod.case
      g_def [symmetric] by (rule sym)
  have gl: "ht_load h \<Longrightarrow> ht_load g" "all_jobs_used g \<le> all_jobs_used h" by (auto simp: g_def ht_load_def)
  have "ht_ok ids h' \<and> ht_set h' = ht_set h - {j} \<and> (s' = s \<or> s' = snd (malloc s)) \<and> (ht_load h \<longrightarrow> ht_load h') \<and>
    all_jobs_used h' \<le> all_jobs_used h"
  proof (cases "all_jobs_used g < all_jobs_cap g div 16")
    case True
    then have "rehash_fits False g" by (simp add: rehash_fits_def)
    then show ?thesis using rehash_with_ok [OF g(1) _ e [symmetric, unfolded if_P [OF True]]] g gl(2) by simp
  next
    case False
    then show ?thesis using e g gl by simp
  qed
  then show "ht_ok ids h'" "ht_set h' = ht_set h - {j}" "s' = s \<or> s' = snd (malloc s)" "ht_load h \<Longrightarrow> ht_load h'"
    "all_jobs_used h' \<le> all_jobs_used h" by blast+
qed

section \<open>The contract: a map from ids to jobs\<close>

locale job_index =
  fixes invar :: "'t \<Rightarrow> bool"
    and room :: "'t \<Rightarrow> bool"
    and lookup :: "'t \<Rightarrow> u64 \<Rightarrow> 'j option"
    and add :: "'j \<Rightarrow> 't \<Rightarrow> 't"
    and del :: "'j \<Rightarrow> 't \<Rightarrow> 't"
    and key :: "'j \<Rightarrow> u64"
  assumes lookup_key: "invar t \<Longrightarrow> lookup t n = Some j \<Longrightarrow> key j = n"
    and add_invar: "invar t \<Longrightarrow> room t \<Longrightarrow> lookup t (key j) = None \<Longrightarrow> invar (add j t)"
    and add_lookup: "invar t \<Longrightarrow> room t \<Longrightarrow> lookup t (key j) = None \<Longrightarrow>
      lookup (add j t) = (lookup t)(key j \<mapsto> j)"
    and del_invar: "invar t \<Longrightarrow> invar (del j t)"
    and del_lookup: "invar t \<Longrightarrow> lookup t (key j) = Some j \<Longrightarrow> lookup (del j t) = (lookup t)(key j := None)"
    and del_absent: "invar t \<Longrightarrow> lookup t (key j) = None \<Longrightarrow> lookup (del j t) = lookup t"
begin

lemma add_del: "invar t \<Longrightarrow> room t \<Longrightarrow> lookup t (key j) = None \<Longrightarrow> lookup (del j (add j t)) = lookup t"
  using add_invar [of t j] add_lookup [of t j] del_lookup [of "add j t" j] by auto

lemma del_others: "invar t \<Longrightarrow> lookup t (key j) = Some j \<Longrightarrow> n \<noteq> key j \<Longrightarrow> lookup (del j t) n = lookup t n"
  using del_lookup by simp

end

text \<open>
  The load bound of \<open>ht_load\<close> is part of the room: freeing never raises the load past it, but a
  failed allocation while shrinking leaves the flag set, which only postpones the next growth.
\<close>

definition ht_fits :: "'j Jobhash \<Rightarrow> bool" where
  "ht_fits h \<longleftrightarrow> ht_room h \<and> ht_load h"

lemma job_find_eq:
  assumes "ht_ok ids h" "ht_ok ids' g" "\<And>j. j \<in> ht_set h \<and> ids j = n \<longleftrightarrow> j \<in> ht_set g \<and> ids' j = n"
  shows "job_find ids h n = job_find ids' g n"
proof (cases "job_find ids h n")
  case None
  then show ?thesis
    using job_find_iff [OF assms(1), of n] job_find_iff [OF assms(2), of n] assms(3)
    by (cases "job_find ids' g n") auto
next
  case (Some j)
  then show ?thesis
    using job_find_iff [OF assms(1), of n j] job_find_iff [OF assms(2), of n j] assms(3) by auto
qed

lemma store_job_fst:
  assumes "ht_ok ids (fst t)" "ht_fits (fst t)" "job_find ids (fst t) (ids j) = None"
  shows "ht_ok ids (fst (store_job ids malloc j t))"
    "ht_set (fst (store_job ids malloc j t)) = insert j (ht_set (fst t))"
proof -
  obtain h s h' s' where e: "t = (h, s)" "store_job ids malloc j t = (h', s')"
    by (metis surj_pair)
  have new: "\<And>j'. j' \<in> ht_set h \<Longrightarrow> ids j' \<noteq> ids j"
    using job_find_None [of ids h "ids j"] assms(1,3) e(1) by simp
  have pre: "ht_ok ids h" "ht_room h" "ht_load h" "store_job ids malloc j (h, s) = (h', s')"
    using assms(1,2) e by (simp_all add: ht_fits_def)
  show "ht_ok ids (fst (store_job ids malloc j t))"
    "ht_set (fst (store_job ids malloc j t)) = insert j (ht_set (fst t))"
    using store_job_ok(1,2) [OF pre(1) new pre(2-4)] e by simp_all
qed

lemma job_hash_free_fst:
  assumes "ht_ok ids (fst t)"
  shows "ht_ok ids (fst (job_hash_free ids malloc j t))"
    "ht_set (fst (job_hash_free ids malloc j t)) = ht_set (fst t) - {j}"
proof -
  obtain h s h' s' where e: "t = (h, s)" "job_hash_free ids malloc j t = (h', s')"
    by (metis surj_pair)
  show "ht_ok ids (fst (job_hash_free ids malloc j t))"
    "ht_set (fst (job_hash_free ids malloc j t)) = ht_set (fst t) - {j}"
    using job_hash_free_ok(1,2) [of ids h malloc j s h' s'] assms e by simp_all
qed

interpretation ht: job_index "\<lambda>t. ht_ok ids (fst t)" "\<lambda>t. ht_fits (fst t)" "\<lambda>t. job_find ids (fst t)"
  "store_job ids malloc" "job_hash_free ids malloc" ids
  for ids :: "'j \<Rightarrow> u64" and malloc :: "'s malloc_fn"
proof (unfold_locales, goal_cases)
  case (1 t n j)
  then show ?case using job_find_iff [of ids "fst t" n j] by simp
next
  case (2 t j)
  then show ?case by (rule store_job_fst(1))
next
  case (3 t j)
  note h = store_job_fst [OF 3, of malloc]
  have new: "\<And>j'. j' \<in> ht_set (fst t) \<Longrightarrow> ids j' \<noteq> ids j"
    using job_find_None [OF 3(1), of "ids j"] 3(3) by simp
  show ?case
  proof
    fix n
    show "job_find ids (fst (store_job ids malloc j t)) n = ((job_find ids (fst t))(ids j \<mapsto> j)) n"
    proof (cases "n = ids j")
      case True
      then show ?thesis using job_find_iff [OF h(1), of n j] h(2) by simp
    next
      case False
      then have "job_find ids (fst (store_job ids malloc j t)) n = job_find ids (fst t) n"
        by (intro job_find_eq [OF h(1) 3(1)]) (auto simp: h(2))
      then show ?thesis using False by simp
    qed
  qed
next
  case (4 t j)
  then show ?case by (rule job_hash_free_fst(1))
next
  case (5 t j)
  note h = job_hash_free_fst [OF 5(1), of malloc j]
  have j: "j \<in> ht_set (fst t)" using job_find_iff [OF 5(1)] 5(2) by simp
  show ?case
  proof
    fix n
    show "job_find ids (fst (job_hash_free ids malloc j t)) n = ((job_find ids (fst t))(ids j := None)) n"
    proof (cases "n = ids j")
      case True
      then have "job_find ids (fst (job_hash_free ids malloc j t)) n = None"
        using ht_unique [OF 5(1) _ j] unfolding job_find_None [OF h(1)] h(2) by blast
      then show ?thesis using True by simp
    next
      case False
      then have "job_find ids (fst (job_hash_free ids malloc j t)) n = job_find ids (fst t) n"
        by (intro job_find_eq [OF h(1) 5(1)]) (auto simp: h(2))
      then show ?thesis using False by simp
    qed
  qed
next
  case (6 t j)
  note h = job_hash_free_fst [OF 6(1), of malloc j]
  have "j \<notin> ht_set (fst t)" using job_find_None [OF 6(1), of "ids j"] 6(2) by auto
  then show ?case by (intro ext job_find_eq [OF h(1) 6(1)]) (auto simp: h(2))
qed

section \<open>Lookups\<close>

text \<open>C24
  After \<open>store_job\<close> a lookup finds the stored job under its id and every other job as before, also when
  storing made the table grow and every job moved to another bucket, and when the allocation of the larger
  table failed.
\<close>

theorem job_find_store:
  assumes "ht_ok ids h" "ht_fits h" "job_find ids h (ids j) = None"
  shows "job_find ids (fst (store_job ids malloc j (h, s))) = (job_find ids h)(ids j \<mapsto> j)"
  using ht.add_lookup [of ids "(h, s)" j] assms by simp

theorem job_find_store_witness:
  "job_find (\<lambda>n :: nat. of_nat n) (fst (store_job (\<lambda>n. of_nat n) (\<lambda>s. (False, s)) 7 (jobhash_init, ()))) 7 = Some 7"
proof -
  have "ht_fits (jobhash_init :: nat Jobhash)"
    by (simp add: ht_fits_def ht_room_def ht_load_def jobhash_init_def primes_17)
  moreover have "job_find (\<lambda>n :: nat. of_nat n) jobhash_init (of_nat 7) = None"
    by (simp add: job_find_def jobhash_init_def)
  ultimately show ?thesis
    using job_find_store [of "\<lambda>n :: nat. of_nat n" jobhash_init 7 "\<lambda>s. (False, s)" "()"]
    by (simp add: ht_ok_init)
qed

text \<open>C25
  \<open>job_hash_free\<close> takes exactly one job out: lookups of all other ids are unchanged, also when the table
  shrinks.
\<close>

theorem job_find_free:
  assumes "ht_ok ids h" "job_find ids h (ids j) = Some j"
  shows "job_find ids (fst (job_hash_free ids malloc j (h, s))) = (job_find ids h)(ids j := None)"
  using ht.del_lookup [of ids "(h, s)" j] assms by simp

theorem job_find_free_witness:
  "job_find (\<lambda>n :: nat. of_nat n)
     (fst (job_hash_free (\<lambda>n. of_nat n) (\<lambda>s. (True, s)) 7 (ht_link (\<lambda>n. of_nat n) 7 jobhash_init, ()))) 7 = None"
proof -
  have ok: "ht_ok (\<lambda>n :: nat. of_nat n) (ht_link (\<lambda>n. of_nat n) 7 jobhash_init)"
    by (rule ht_link_ok [OF ht_ok_init]) (simp add: ht_set_def jobhash_init_def)
  have "job_find (\<lambda>n :: nat. of_nat n) (ht_link (\<lambda>n. of_nat n) 7 jobhash_init) (of_nat 7) = Some 7"
    by (simp add: job_find_def ht_link_def jobhash_init_def)
  with job_find_free [OF ok this, of "\<lambda>s. (True, s)" "()"] show ?thesis by simp
qed

text \<open>C26
  The index of a bucket is computed in 64 bits and returned as an \<open>int\<close>. For the first eighteen table sizes
  it is a bucket of the table; for all larger sizes there are ids whose index is negative, so that the table
  is accessed before its first bucket.
\<close>

theorem hash_index_in_table:
  assumes "i < NUM_PRIMES"
  shows "(\<forall>n. 0 \<le> get_job_hash_index (primes ! i) n \<and> get_job_hash_index (primes ! i) n < int (primes ! i)) \<longleftrightarrow> i \<le> 17"
proof
  assume "i \<le> 17"
  then show "\<forall>n. 0 \<le> get_job_hash_index (primes ! i) n \<and> get_job_hash_index (primes ! i) n < int (primes ! i)"
    using primes_pos [OF assms] primes_small [of i] by (simp add: hash_index_mod)
next
  assume r: "\<forall>n. 0 \<le> get_job_hash_index (primes ! i) n \<and> get_job_hash_index (primes ! i) n < int (primes ! i)"
  show "i \<le> 17"
  proof (rule ccontr)
    assume "\<not> i \<le> 17"
    then have b: "2 ^ 31 < primes ! i" using primes_big assms by simp
    have "uint (2 ^ 31 :: u64) mod int (primes ! i) = 2 ^ 31"
      using b by simp
    then have "get_job_hash_index (primes ! i) (2 ^ 31) = - (2 ^ 31)"
      by (simp add: get_job_hash_index_def signed_take_bit_eq_take_bit_minus take_bit_eq_mod)
    then show False using spec [OF r, of "2 ^ 31"] by simp
  qed
qed

theorem hash_index_in_table_witness:
  "\<exists>n. \<not> (0 \<le> get_job_hash_index (primes ! 18) n \<and> get_job_hash_index (primes ! 18) n < int (primes ! 18))"
  using hash_index_in_table [of 18] by auto

end
