(* ===== verification/Bean_Parse.thy ===== *)
theory Bean_Parse
  imports Bean_Prelude
begin

text \<open>
  The lexical layer of \<open>prot.c\<close>: finding the end of a command line, telling the commands apart,
  and reading numbers, durations and tube names. A NUL-terminated C string is the list of its
  characters before the NUL, and a pointer into it is a suffix of that list. \<open>strtoumax\<close>,
  \<open>strtoul\<close> and \<open>strspn\<close> are the library functions the code calls, in base ten and the C locale.
\<close>

section \<open>Constants\<close>

abbreviation MAX_TUBE_NAME_LEN :: nat where "MAX_TUBE_NAME_LEN \<equiv> 201"

abbreviation LINE_BUF_SIZE :: nat where "LINE_BUF_SIZE \<equiv> 224"

abbreviation CR :: char where "CR \<equiv> CHR 0x0D"

abbreviation LF :: char where "LF \<equiv> CHR 0x0A"

abbreviation NUL :: char where "NUL \<equiv> CHR 0x00"

definition NAME_CHARS :: string where
  "NAME_CHARS = ''ABCDEFGHIJKLMNOPQRSTUVWXYZ'' @ ''abcdefghijklmnopqrstuvwxyz'' @ ''0123456789-+/;.$_()''"

datatype op = OP_UNKNOWN | OP_PUT | OP_PEEKJOB | OP_RESERVE | OP_DELETE | OP_RELEASE | OP_BURY
  | OP_KICK | OP_STATS | OP_STATSJOB | OP_PEEK_BURIED | OP_USE | OP_WATCH | OP_IGNORE
  | OP_LIST_TUBES | OP_LIST_TUBE_USED | OP_LIST_TUBES_WATCHED | OP_STATS_TUBE | OP_PEEK_READY
  | OP_PEEK_DELAYED | OP_RESERVE_TIMEOUT | OP_TOUCH | OP_QUIT | OP_PAUSE_TUBE | OP_KICKJOB
  | OP_RESERVE_JOB

primrec op_names :: "op \<Rightarrow> string" where
  "op_names OP_UNKNOWN = ''<unknown>''"
| "op_names OP_PUT = ''put ''"
| "op_names OP_PEEKJOB = ''peek ''"
| "op_names OP_RESERVE = ''reserve''"
| "op_names OP_DELETE = ''delete ''"
| "op_names OP_RELEASE = ''release ''"
| "op_names OP_BURY = ''bury ''"
| "op_names OP_KICK = ''kick ''"
| "op_names OP_STATS = ''stats''"
| "op_names OP_STATSJOB = ''stats-job ''"
| "op_names OP_PEEK_BURIED = ''peek-buried''"
| "op_names OP_USE = ''use ''"
| "op_names OP_WATCH = ''watch ''"
| "op_names OP_IGNORE = ''ignore ''"
| "op_names OP_LIST_TUBES = ''list-tubes''"
| "op_names OP_LIST_TUBE_USED = ''list-tube-used''"
| "op_names OP_LIST_TUBES_WATCHED = ''list-tubes-watched''"
| "op_names OP_STATS_TUBE = ''stats-tube ''"
| "op_names OP_PEEK_READY = ''peek-ready''"
| "op_names OP_PEEK_DELAYED = ''peek-delayed''"
| "op_names OP_RESERVE_TIMEOUT = ''reserve-with-timeout ''"
| "op_names OP_TOUCH = ''touch ''"
| "op_names OP_QUIT = ''quit''"
| "op_names OP_PAUSE_TUBE = ''pause-tube''"
| "op_names OP_KICKJOB = ''kick-job ''"
| "op_names OP_RESERVE_JOB = ''reserve-job ''"

section \<open>Lines and commands\<close>

text \<open>\<open>memchr\<close>: the index of the first \<open>c\<close>.\<close>

fun memchr :: "char \<Rightarrow> string \<Rightarrow> nat option" where
  "memchr c [] = None"
| "memchr c (x # xs) = (if x = c then Some 0 else map_option Suc (memchr c xs))"

text \<open>The buffer \<open>s\<close> holds the \<open>size\<close> characters read so far, at least one.\<close>

definition scan_line_end :: "string \<Rightarrow> nat" where
  "scan_line_end s =
     (case memchr CR (take (length s - 1) s) of
        None \<Rightarrow> 0
      | Some match \<Rightarrow> if s ! (match + 1) = LF then match + 2 else 0)"

definition starts_with :: "string \<Rightarrow> string \<Rightarrow> bool" where
  "starts_with s p = (take (length p) s = p)"

text \<open>The order in which \<open>which_cmd\<close> makes its tests.\<close>

definition cmd_tests :: "op list" where
  "cmd_tests = [OP_PUT, OP_PEEKJOB, OP_PEEK_READY, OP_PEEK_DELAYED, OP_PEEK_BURIED,
     OP_RESERVE_TIMEOUT, OP_RESERVE_JOB, OP_RESERVE, OP_DELETE, OP_RELEASE, OP_BURY, OP_KICK,
     OP_KICKJOB, OP_TOUCH, OP_STATSJOB, OP_STATS_TUBE, OP_STATS, OP_USE, OP_WATCH, OP_IGNORE,
     OP_LIST_TUBES_WATCHED, OP_LIST_TUBE_USED, OP_LIST_TUBES, OP_QUIT, OP_PAUSE_TUBE]"

definition which_cmd :: "string \<Rightarrow> op" where
  "which_cmd cmd =
     (case find (\<lambda>p. starts_with cmd (op_names p)) cmd_tests of Some p \<Rightarrow> p | None \<Rightarrow> OP_UNKNOWN)"

section \<open>Numbers, durations and tube names\<close>

definition is_digit :: "char \<Rightarrow> bool" where
  "is_digit c \<longleftrightarrow> of_char c \<ge> (48 :: nat) \<and> of_char c \<le> (57 :: nat)"

definition is_space :: "char \<Rightarrow> bool" where
  "is_space c \<longleftrightarrow> c \<in> set [CHR 0x20, CHR 0x09, CHR 0x0A, CHR 0x0B, CHR 0x0C, CHR 0x0D]"

definition digit_val :: "char \<Rightarrow> nat" where
  "digit_val c = of_char c - 48"

definition dec_val :: "string \<Rightarrow> nat" where
  "dec_val ds = foldl (\<lambda>n c. n * 10 + digit_val c) 0 ds"

record strto =
  strto_num :: u64
  strto_end :: string
  strto_erange :: bool

text \<open>
  \<open>strtoul\<close> and \<open>strtoumax\<close> on an LP64 machine: leading white space, an optional sign, digits; a
  magnitude above \<open>2^64 - 1\<close> is \<open>ERANGE\<close>, a minus sign negates modulo \<open>2^64\<close>, and without digits
  the end pointer is the start of the buffer.
\<close>

definition strtoumax :: "string \<Rightarrow> strto" where
  "strtoumax buf =
     (let b = dropWhile is_space buf;
          neg = (b \<noteq> [] \<and> hd b = CHR ''-'');
          b1 = (if b \<noteq> [] \<and> (hd b = CHR ''-'' \<or> hd b = CHR ''+'') then tl b else b);
          ds = takeWhile is_digit b1;
          n = dec_val ds
      in if ds = [] then \<lparr>strto_num = 0, strto_end = buf, strto_erange = False\<rparr>
         else if n \<ge> 2 ^ 64 then
           \<lparr>strto_num = - 1, strto_end = dropWhile is_digit b1, strto_erange = True\<rparr>
         else \<lparr>strto_num = (if neg then - of_nat n else of_nat n),
               strto_end = dropWhile is_digit b1, strto_erange = False\<rparr>)"

text \<open>
  \<open>to_end\<close> says that the caller passed a NULL \<open>end\<close>, so the number must be the rest of the string.
  The result is the number and the end pointer, or \<open>None\<close> for a nonzero return.
\<close>

definition read_u64 :: "bool \<Rightarrow> string \<Rightarrow> (u64 \<times> string) option" where
  "read_u64 to_end buf0 =
     (let buf = dropWhile (\<lambda>c. c = CHR '' '') buf0
      in if buf = [] \<or> \<not> is_digit (hd buf) then None
         else let t = strtoumax buf
              in if strto_end t = buf then None
                 else if strto_erange t then None
                 else if to_end \<and> strto_end t \<noteq> [] then None
                 else if uint (strto_num t) > 2 ^ 64 - 1 then None
                 else Some (strto_num t, strto_end t))"

definition read_u32 :: "bool \<Rightarrow> string \<Rightarrow> (u32 \<times> string) option" where
  "read_u32 to_end buf0 =
     (let buf = dropWhile (\<lambda>c. c = CHR '' '') buf0
      in if buf = [] \<or> \<not> is_digit (hd buf) then None
         else let t = strtoumax buf
              in if strto_end t = buf then None
                 else if strto_erange t then None
                 else if to_end \<and> strto_end t \<noteq> [] then None
                 else if uint (strto_num t) > 2 ^ 32 - 1 then None
                 else Some (ucast (strto_num t), strto_end t))"

definition read_duration :: "bool \<Rightarrow> string \<Rightarrow> (int \<times> string) option" where
  "read_duration to_end buf =
     (case read_u32 to_end buf of
        None \<Rightarrow> None
      | Some (dur_sec, e) \<Rightarrow> Some (uint dur_sec * 1000000000, e))"

definition strspn :: "string \<Rightarrow> string \<Rightarrow> nat" where
  "strspn s accept = length (takeWhile (\<lambda>c. c \<in> set accept) s)"

text \<open>The result is the pair of the name pointer and the end pointer.\<close>

definition read_tube_name :: "string \<Rightarrow> (string \<times> string) option" where
  "read_tube_name buf0 =
     (let buf = dropWhile (\<lambda>c. c = CHR '' '') buf0;
          len = strspn buf NAME_CHARS
      in if len = 0 then None else Some (buf, drop len buf))"

definition is_valid_tube :: "string \<Rightarrow> nat \<Rightarrow> bool" where
  "is_valid_tube name maxlen =
     (let len = length name
      in 0 < len \<and> len \<le> maxlen \<and> strspn name NAME_CHARS = len \<and> name ! 0 \<noteq> CHR ''-'')"

text \<open>The count of the \<open>kick\<close> command: \<open>strtoul\<close> into an unsigned int; \<open>None\<close> for a bad format.\<close>

definition read_kick_count :: "string \<Rightarrow> u32 option" where
  "read_kick_count buf =
     (let t = strtoumax buf
      in if strto_end t = buf \<or> strto_erange t then None else Some (ucast (strto_num t)))"

section \<open>Decimal printing\<close>

text \<open>What \<open>PRIu64\<close>, \<open>%u\<close> and \<open>%zu\<close> print.\<close>

fun fmt_dec :: "nat \<Rightarrow> string" where
  "fmt_dec n = (if n < 10 then [] else fmt_dec (n div 10)) @ [char_of (48 + n mod 10)]"

declare fmt_dec.simps [simp del]

section \<open>Lines\<close>

lemma memchr_Some:
  "memchr c s = Some i \<longleftrightarrow> i < length s \<and> s ! i = c \<and> (\<forall>k<i. s ! k \<noteq> c)"
proof (induction s arbitrary: i)
  case (Cons x xs)
  then show ?case by (cases i) (auto simp: All_less_Suc2)
qed simp

lemma memchr_None: "memchr c s = None \<longleftrightarrow> c \<notin> set s"
  by (induction s) auto

text \<open>
  A line end is found exactly when the first carriage return of the buffer is followed by a line
  feed.
\<close>

lemma scan_line_end_iff:
  assumes "0 < n"
  shows "scan_line_end s = n \<longleftrightarrow> (\<exists>line rest. s = line @ [CR, LF] @ rest \<and> CR \<notin> set line \<and> n = length line + 2)"
proof
  assume n: "scan_line_end s = n"
  then obtain i where i: "memchr CR (take (length s - 1) s) = Some i" "s ! (i + 1) = LF" "n = i + 2"
    using assms by (auto simp: scan_line_end_def split: option.splits if_splits)
  then have b: "i < length s - 1" "s ! i = CR" "\<forall>k<i. s ! k \<noteq> CR" by (auto simp: memchr_Some)
  have "s = take i s @ [s ! i, s ! (i + 1)] @ drop (i + 2) s"
    using b(1) by (metis Suc_eq_plus1 add_2_eq_Suc' append_Cons append_Nil append_take_drop_id
      Cons_nth_drop_Suc less_diff_conv Suc_lessD)
  moreover have "CR \<notin> set (take i s)" using b by (auto simp: in_set_conv_nth)
  ultimately show "\<exists>line rest. s = line @ [CR, LF] @ rest \<and> CR \<notin> set line \<and> n = length line + 2"
    using i b by (intro exI [of _ "take i s"] exI [of _ "drop (i + 2) s"]) simp
next
  assume "\<exists>line rest. s = line @ [CR, LF] @ rest \<and> CR \<notin> set line \<and> n = length line + 2"
  then obtain line rest where s: "s = line @ [CR, LF] @ rest" "CR \<notin> set line" "n = length line + 2"
    by blast
  have "memchr CR (take (length s - 1) s) = Some (length line)"
    using s by (auto simp: memchr_Some nth_append in_set_conv_nth)
  then show "scan_line_end s = n" using s by (simp add: scan_line_end_def nth_append)
qed

section \<open>Commands\<close>

lemma starts_with_append [simp]: "starts_with (p @ s) p"
  by (simp add: starts_with_def)

text \<open>
  Which tests a command line with the text of \<open>p\<close> in front can pass before that of \<open>p\<close>.
\<close>

definition has_args :: "op \<Rightarrow> bool" where
  "has_args p \<longleftrightarrow> p \<noteq> OP_UNKNOWN \<and> last (op_names p) = CHR '' ''"

lemma which_cmd_args: "has_args p \<Longrightarrow> which_cmd (op_names p @ args) = p"
  by (cases p) (simp_all add: has_args_def which_cmd_def cmd_tests_def starts_with_def)

lemma which_cmd_plain: "p \<noteq> OP_UNKNOWN \<Longrightarrow> which_cmd (op_names p) = p"
  by (cases p) (simp_all add: which_cmd_def cmd_tests_def starts_with_def)

section \<open>Reading numbers\<close>

lemma takeWhile_all_append: "\<forall>x\<in>set xs. P x \<Longrightarrow> ys = [] \<or> \<not> P (hd ys) \<Longrightarrow>
    takeWhile P (xs @ ys) = xs \<and> dropWhile P (xs @ ys) = ys"
  by (induction xs) (cases ys; auto)+

lemma is_digit_not_space: "is_digit c \<Longrightarrow> \<not> is_space c \<and> c \<noteq> CHR ''-'' \<and> c \<noteq> CHR ''+'' \<and> c \<noteq> CHR '' ''"
  by (auto simp: is_digit_def is_space_def)

text \<open>On a buffer that begins with a digit the conversion reads exactly the leading digits.\<close>

lemma strtoumax_digits:
  assumes "is_digit (hd buf)" "buf \<noteq> []"
  defines "ds \<equiv> takeWhile is_digit buf"
  shows "strto_end (strtoumax buf) = dropWhile is_digit buf" "ds \<noteq> []" "strto_end (strtoumax buf) \<noteq> buf"
    "strto_erange (strtoumax buf) \<longleftrightarrow> dec_val ds \<ge> 2 ^ 64"
    "dec_val ds < 2 ^ 64 \<Longrightarrow> strto_num (strtoumax buf) = of_nat (dec_val ds)"
proof -
  obtain c r where c: "buf = c # r" "is_digit c" using assms(1,2) by (cases buf) auto
  then have b: "dropWhile is_space buf = buf" "\<not> (hd buf = CHR ''-'' \<or> hd buf = CHR ''+'')"
    using is_digit_not_space [of c] by auto
  show ds: "ds \<noteq> []" using c by (simp add: ds_def)
  show e: "strto_end (strtoumax buf) = dropWhile is_digit buf"
    "strto_erange (strtoumax buf) \<longleftrightarrow> dec_val ds \<ge> 2 ^ 64"
    "dec_val ds < 2 ^ 64 \<Longrightarrow> strto_num (strtoumax buf) = of_nat (dec_val ds)"
    using b ds by (simp_all add: strtoumax_def Let_def ds_def [symmetric])
  show "strto_end (strtoumax buf) \<noteq> buf"
    using e(1) c length_dropWhile_le [of is_digit r] by auto
qed

text \<open>A decimal field of a command line: spaces, then a maximal run of digits.\<close>

definition dec_field :: "string \<Rightarrow> (nat \<times> string) option" where
  "dec_field s =
     (let b = dropWhile (\<lambda>c. c = CHR '' '') s; ds = takeWhile is_digit b
      in if ds = [] then None else Some (dec_val ds, dropWhile is_digit b))"

definition field_below :: "nat \<Rightarrow> bool \<Rightarrow> string \<Rightarrow> (nat \<times> string) option" where
  "field_below bound to_end s =
     (case dec_field s of
        None \<Rightarrow> None
      | Some (n, e) \<Rightarrow> if n < bound \<and> (to_end \<longrightarrow> e = []) then Some (n, e) else None)"

lemma digits_Nil: "takeWhile is_digit b = [] \<longleftrightarrow> b = [] \<or> \<not> is_digit (hd b)"
  by (cases b) auto

lemma read_u64_field:
  "read_u64 to_end s = map_option (\<lambda>(n, e). (of_nat n, e)) (field_below (2 ^ 64) to_end s)"
proof (cases "dropWhile (\<lambda>c. c = CHR '' '') s = [] \<or> \<not> is_digit (hd (dropWhile (\<lambda>c. c = CHR '' '') s))")
  case True
  then show ?thesis by (simp add: read_u64_def field_below_def dec_field_def Let_def digits_Nil)
next
  case False
  let ?b = "dropWhile (\<lambda>c. c = CHR '' '') s"
  have d: "is_digit (hd ?b)" "?b \<noteq> []" using False by auto
  note t = strtoumax_digits [OF d]
  have w: "\<not> uint (x :: u64) > 2 ^ 64 - 1" for x using uint_lt2p [of x] by simp
  show ?thesis
    using False t w by (auto simp: read_u64_def field_below_def dec_field_def Let_def)
qed

lemma read_u32_field:
  "read_u32 to_end s = map_option (\<lambda>(n, e). (of_nat n, e)) (field_below (2 ^ 32) to_end s)"
proof (cases "dropWhile (\<lambda>c. c = CHR '' '') s = [] \<or> \<not> is_digit (hd (dropWhile (\<lambda>c. c = CHR '' '') s))")
  case True
  then show ?thesis by (simp add: read_u32_def field_below_def dec_field_def Let_def digits_Nil)
next
  case False
  let ?b = "dropWhile (\<lambda>c. c = CHR '' '') s" and ?n = "dec_val (takeWhile is_digit (dropWhile (\<lambda>c. c = CHR '' '') s))"
  have d: "is_digit (hd ?b)" "?b \<noteq> []" using False by auto
  note t = strtoumax_digits [OF d]
  have u: "?n < 2 ^ 64 \<Longrightarrow> uint (of_nat ?n :: u64) = int ?n"
    by (simp add: unsigned_of_nat take_bit_nat_eq_self)
  have c: "?n < 2 ^ 64 \<Longrightarrow> ucast (of_nat ?n :: u64) = (of_nat ?n :: u32)"
    by (simp add: unsigned_of_nat take_bit_nat_eq_self)
  show ?thesis
  proof (cases "?n < 2 ^ 32")
    case True
    then have "?n < 2 ^ 64" by simp
    then show ?thesis
      using False t u c True by (auto simp: read_u32_def field_below_def dec_field_def Let_def)
  next
    case big: False
    then have "?n < 2 ^ 64 \<Longrightarrow> int ?n > 2 ^ 32 - 1" by simp
    then show ?thesis
      using False t u big by (auto simp: read_u32_def field_below_def dec_field_def Let_def)
  qed
qed

section \<open>Printing and reading back\<close>

lemma digit_char: "d < 10 \<Longrightarrow> is_digit (char_of (48 + d)) \<and> digit_val (char_of (48 + d)) = (d :: nat)"
  by (simp add: is_digit_def digit_val_def of_char_of take_bit_nat_eq_self flip: take_bit_eq_mod)

lemma dec_val_snoc: "dec_val (ds @ [c]) = dec_val ds * 10 + digit_val c"
  by (simp add: dec_val_def)

lemma fmt_dec_digits: "\<forall>c\<in>set (fmt_dec n). is_digit c"
proof (induction n rule: fmt_dec.induct)
  case (1 n)
  then show ?case
    using digit_char [of "n mod 10"] by (subst fmt_dec.simps) (cases "n < 10"; auto)
qed

lemma fmt_dec_val: "dec_val (fmt_dec n) = n"
proof (induction n rule: fmt_dec.induct)
  case (1 n)
  show ?case
  proof (cases "n < 10")
    case True
    then show ?thesis using digit_char [of n] by (subst fmt_dec.simps) (simp add: dec_val_def)
  next
    case False
    then have "dec_val (fmt_dec n) = n div 10 * 10 + n mod 10"
      using 1 digit_char [of "n mod 10"] by (subst fmt_dec.simps) (simp add: dec_val_snoc)
    then show ?thesis by simp
  qed
qed

lemma fmt_dec_not_Nil: "fmt_dec n \<noteq> []"
  by (subst fmt_dec.simps) simp

lemma dec_field_fmt:
  assumes "rest = [] \<or> \<not> is_digit (hd rest)"
  shows "dec_field (replicate k CHR '' '' @ fmt_dec n @ rest) = Some (n, rest)"
proof -
  obtain c ds where ds: "fmt_dec n = c # ds" using fmt_dec_not_Nil [of n] by (cases "fmt_dec n") auto
  then have "is_digit c" using fmt_dec_digits [of n] by simp
  then have "dropWhile (\<lambda>c. c = CHR '' '') (replicate k CHR '' '' @ fmt_dec n @ rest) = fmt_dec n @ rest"
    using is_digit_not_space [of c] ds by (induction k) simp_all
  moreover have "takeWhile is_digit (fmt_dec n @ rest) = fmt_dec n" "dropWhile is_digit (fmt_dec n @ rest) = rest"
    using takeWhile_all_append [OF fmt_dec_digits assms] by blast+
  ultimately show ?thesis by (simp add: dec_field_def Let_def fmt_dec_not_Nil fmt_dec_val)
qed

text \<open>C29
  \<open>read_u64\<close> reads back what \<open>PRIu64\<close> prints, after any number of spaces and up to a character
  that is not a digit. A number that does not fit 64 bits is rejected, and so is anything after
  the number when the caller asked for the whole string.\<close>

theorem read_u64_print:
  assumes "rest = [] \<or> \<not> is_digit (hd rest)"
  shows "read_u64 to_end (replicate k CHR '' '' @ fmt_dec n @ rest) =
    (if n < 2 ^ 64 \<and> (to_end \<longrightarrow> rest = []) then Some (of_nat n, rest) else None)"
  unfolding read_u64_field field_below_def dec_field_fmt [OF assms] by simp

theorem read_u64_print_witness:
  "read_u64 True (replicate 2 CHR '' '' @ fmt_dec 18446744073709551616 @ []) = None"
  using read_u64_print [of "[]" True 2 18446744073709551616] by simp

text \<open>C30
  \<open>read_duration\<close> reads a number of seconds that fits 32 bits and yields nanoseconds; every larger number is rejected, also beyond
  the 64 bits at which \<open>strtoumax\<close> saturates, and so is anything after the number when the caller asked for the whole string. The
  product is then below \<open>2 ^ 63\<close>.
\<close>

theorem read_duration_exact:
  assumes "rest = [] \<or> \<not> is_digit (hd rest)"
  shows "read_duration to_end (replicate k CHR '' '' @ fmt_dec n @ rest) =
    (if n < 2 ^ 32 \<and> (to_end \<longrightarrow> rest = []) then Some (int n * 1000000000, rest) else None)"
proof -
  have "uint (of_nat n :: u32) = int n" if "n < 2 ^ 32" using that by (simp add: unsigned_of_nat take_bit_nat_eq_self)
  then show ?thesis unfolding read_duration_def read_u32_field field_below_def dec_field_fmt [OF assms] by simp
qed

theorem read_duration_exact_witness:
  "read_duration False (replicate 1 CHR '' '' @ fmt_dec 4294967295 @ '' 7'') = Some (4294967295000000000, '' 7'') \<and>
   read_duration False (replicate 1 CHR '' '' @ fmt_dec 4294967296 @ '' 7'') = None"
  using read_duration_exact [of "'' 7''" False 1 4294967295] read_duration_exact [of "'' 7''" False 1 4294967296] by (simp add: is_digit_def)

text \<open>C32
  \<open>scan_line_end\<close> returns a nonzero length exactly when the first carriage return in the buffer is
  followed by a line feed, and the length is that of the line with its two-character end.\<close>

theorem scan_line_end_first_CR:
  assumes "0 < n"
  shows "scan_line_end s = n \<longleftrightarrow>
    (\<exists>line rest. s = line @ [CR, LF] @ rest \<and> CR \<notin> set line \<and> n = length line + 2)"
  using assms by (rule scan_line_end_iff)

theorem scan_line_end_first_CR_witness:
  "scan_line_end [CHR ''a'', CR, CHR ''b'', CR, LF] = 0 \<and> scan_line_end (''quit'' @ [CR, LF]) = 6"
proof -
  have "scan_line_end [CHR ''a'', CR, CHR ''b'', CR, LF] = 0" by (simp add: scan_line_end_def)
  moreover have "\<exists>line rest. ''quit'' @ [CR, LF] = line @ [CR, LF] @ rest \<and> CR \<notin> set line \<and> 6 = length line + 2"
    by (rule exI [of _ "''quit''"], rule exI [of _ "[]"]) simp
  then have "scan_line_end (''quit'' @ [CR, LF]) = 6"
    by (intro iffD2 [OF scan_line_end_first_CR]) simp_all
  ultimately show ?thesis by blast
qed

text \<open>C31
  \<open>which_cmd\<close> recognises every command: a command that takes arguments whatever follows its name,
  a command without arguments when its name is the whole line. No earlier test of the sequence
  shadows a later one.\<close>

theorem which_cmd_complete:
  assumes "p \<noteq> OP_UNKNOWN" "has_args p \<or> args = []"
  shows "which_cmd (op_names p @ args) = p"
  using which_cmd_args [of p args] which_cmd_plain [of p] assms by auto

theorem which_cmd_complete_witness: "which_cmd (op_names OP_RESERVE_TIMEOUT @ ''5'') = OP_RESERVE_TIMEOUT"
  by (rule which_cmd_complete) (simp_all add: has_args_def)

text \<open>C33
  The count of \<open>kick\<close> is read by \<open>strtoul\<close> into an unsigned int, without a range check: a
  count of 33 to 64 bits is truncated, so \<open>kick 4294967296\<close> kicks nothing.\<close>

theorem kick_count_truncates:
  assumes "n < 2 ^ 64" "rest = [] \<or> \<not> is_digit (hd rest)"
  shows "map_option unat (read_kick_count (fmt_dec n @ rest)) = Some (n mod 2 ^ 32)"
proof -
  obtain c ds where ds: "fmt_dec n = c # ds" using fmt_dec_not_Nil [of n] by (cases "fmt_dec n") auto
  then have d: "is_digit (hd (fmt_dec n @ rest))" "fmt_dec n @ rest \<noteq> []" using fmt_dec_digits [of n] by auto
  have "takeWhile is_digit (fmt_dec n @ rest) = fmt_dec n"
    using takeWhile_all_append [OF fmt_dec_digits assms(2)] by blast
  then show ?thesis
    using strtoumax_digits [OF d] assms(1)
    by (simp add: read_kick_count_def Let_def fmt_dec_val unsigned_of_nat unsigned_ucast_eq take_bit_eq_mod)
qed

theorem kick_count_truncates_witness:
  "map_option unat (read_kick_count (fmt_dec 4294967296 @ [])) = Some 0"
  using kick_count_truncates [of 4294967296 "[]"] by simp

end
