(* ===== verification/Bean_State.thy ===== *)
theory Bean_State
  imports Bean_Jobhash Bean_Parse
begin

text \<open>
  The structures of \<open>dat.h\<close> and the globals of the program, gathered in one record \<open>server\<close>.

  A pointer is an address; each kind of structure has a store from addresses to structures and a
  set of the addresses that are allocated. \<open>prev\<close>/\<open>next\<close> of the jobs are the job lists of
  \<open>Bean_Joblist\<close>, \<open>ht_next\<close> the buckets of \<open>Bean_Jobhash\<close>, \<open>fnext\<close>/\<open>fprev\<close> the list \<open>f_jlist\<close>
  of a file, and \<open>next\<close> of the files the list \<open>wal_files\<close>, whose first and last elements are the
  head and the tail of the log. The environment is part of the record: \<open>allocs\<close> says which of the next
  allocations succeed (all of them once the list is used up), \<open>sys\<close> the same for system calls, and
  \<open>ticks\<close> are the next readings of the clock, after which it stands still.

  \<open>free\<close> takes an address out of the set of the allocated ones and leaves the structure in the store. Code that followed a pointer to a
  freed structure would be undefined in C; here it reads the last contents. The invariants say which pointers lead to allocated
  structures.

  Counters of type \<open>uint64\<close>, \<open>uint32\<close> and \<open>uint\<close> are words, so they wrap as in C. Times and
  the sizes of the log are integers. Fields of \<open>struct Conn\<close> that only hold sizes of buffers
  (\<open>cmd_read\<close>, \<open>reply_len\<close>) are the lengths of the lists that model the buffers, and the bits of
  \<open>type\<close> are three flags.
\<close>

section \<open>Structures\<close>

type_synonym addr = nat

datatype jstate = Invalid | Ready | Reserved | Buried | Delayed | Copy

record Jobrec =
  r_id :: u64
  r_pri :: u32
  r_delay :: int
  r_ttr :: int
  r_body_size :: int
  r_created_at :: int
  r_deadline_at :: int
  r_reserve_ct :: u32
  r_timeout_ct :: u32
  r_release_ct :: u32
  r_bury_ct :: u32
  r_kick_ct :: u32
  r_state :: jstate

record Job = Jobrec +
  j_tube :: "addr option"
  heap_index :: nat
  j_file :: "addr option"
  reserver :: "addr option"
  walresv :: int
  walused :: int
  body :: string
  body_at :: addr

record stats =
  urgent_ct :: u64
  waiting_ct :: u64
  buried_ct :: u64
  reserved_ct :: u64
  pause_ct :: u64
  total_delete_ct :: u64
  total_jobs_ct :: u64

record Tube =
  refs :: u32
  t_name :: string
  ready :: "addr Heap"
  delay :: "addr Heap"
  waiting_conns :: "addr Ms"
  stat :: stats
  using_ct :: u32
  watching_ct :: u32
  pause :: int
  unpause_at :: int

datatype cstate = STATE_WANT_COMMAND | STATE_WANT_DATA | STATE_SEND_JOB | STATE_SEND_WORD
  | STATE_WAIT | STATE_BITBUCKET | STATE_CLOSE | STATE_WANT_ENDLINE

record Conn =
  sock_fd :: int
  c_state :: cstate
  type_producer :: bool
  type_worker :: bool
  type_waiting :: bool
  c_next :: "addr option"
  c_use :: "addr option"
  tickat :: int
  tickpos :: nat
  in_conns :: bool
  soonest_job :: "addr option"
  c_rw :: char
  pending_timeout :: int
  halfclosed :: bool
  c_cmd :: string
  cmd_len :: nat
  c_reply :: string
  reply_sent :: int
  in_job_read :: int
  in_job :: "addr option"
  out_job :: "addr option"
  out_job_sent :: int
  watch :: "addr Ms"

record Wal =
  filesize :: int
  wal_use :: bool
  wal_files :: "addr list"
  wal_cur :: "addr option"
  nfile :: int
  wal_next :: int
  wal_resv :: int
  alive :: int
  nmig :: int
  nrec :: int
  wantsync :: bool
  syncrate :: int
  lastsync :: int

record File =
  f_refs :: u32
  f_seq :: int
  iswopen :: bool
  f_free :: int
  f_resv :: int
  f_jlist :: "addr list"

text \<open>The heads of the doubly linked job lists: a tube's buried jobs, a connection's reserved jobs,
  and the list the log is replayed from.\<close>

datatype lhead = LBuried addr | LReserved addr | LReplay

record server =
  brk :: addr
  job_st :: "addr \<Rightarrow> Job"
  live_jobs :: "addr set"
  tube_st :: "addr \<Rightarrow> Tube"
  live_tubes :: "addr set"
  conn_st :: "addr \<Rightarrow> Conn"
  live_conns :: "addr set"
  file_st :: "addr \<Rightarrow> File"
  file_brk :: addr
  lists :: "(lhead, addr) joblists"
  jobhash :: "addr Jobhash"
  next_id :: u64
  tubes :: "addr Ms"
  default_tube :: "addr option"
  conns :: "addr Heap"
  wal :: Wal
  ready_ct :: u64
  timeout_ct :: u64
  op_ct :: "op \<Rightarrow> u64"
  global_stat :: stats
  drain_mode :: bool
  started_at :: int
  job_data_size_limit :: nat
  cur_conn_ct :: int
  cur_worker_ct :: int
  cur_producer_ct :: int
  tot_conn_ct :: u32
  epollq :: "addr option"
  allocs :: "bool list"
  sys :: "bool list"
  ticks :: "int list"
  now :: int

definition upd_job :: "addr \<Rightarrow> (Job \<Rightarrow> Job) \<Rightarrow> server \<Rightarrow> server" where
  "upd_job j f s = s\<lparr>job_st := (job_st s)(j := f (job_st s j))\<rparr>"

definition upd_tube :: "addr \<Rightarrow> (Tube \<Rightarrow> Tube) \<Rightarrow> server \<Rightarrow> server" where
  "upd_tube t f s = s\<lparr>tube_st := (tube_st s)(t := f (tube_st s t))\<rparr>"

definition upd_conn :: "addr \<Rightarrow> (Conn \<Rightarrow> Conn) \<Rightarrow> server \<Rightarrow> server" where
  "upd_conn c f s = s\<lparr>conn_st := (conn_st s)(c := f (conn_st s c))\<rparr>"

definition upd_file :: "addr \<Rightarrow> (File \<Rightarrow> File) \<Rightarrow> server \<Rightarrow> server" where
  "upd_file a f s = s\<lparr>file_st := (file_st s)(a := f (file_st s a))\<rparr>"

definition upd_stat :: "addr \<Rightarrow> (stats \<Rightarrow> stats) \<Rightarrow> server \<Rightarrow> server" where
  "upd_stat t f = upd_tube t (\<lambda>x. x\<lparr>stat := f (stat x)\<rparr>)"

section \<open>The environment\<close>

definition malloc :: "server malloc_fn" where
  "malloc s = (case allocs s of [] \<Rightarrow> (True, s) | b # bs \<Rightarrow> (b, s\<lparr>allocs := bs\<rparr>))"

definition syscall :: "server \<Rightarrow> bool \<times> server" where
  "syscall s = (case sys s of [] \<Rightarrow> (True, s) | b # bs \<Rightarrow> (b, s\<lparr>sys := bs\<rparr>))"

definition nanoseconds :: "server \<Rightarrow> int \<times> server" where
  "nanoseconds s = (case ticks s of [] \<Rightarrow> (now s, s) | t # ts \<Rightarrow> (t, s\<lparr>ticks := ts, now := t\<rparr>))"

section \<open>Zeroed structures\<close>

definition zero_stats :: stats where
  "zero_stats = \<lparr>urgent_ct = 0, waiting_ct = 0, buried_ct = 0, reserved_ct = 0, pause_ct = 0,
     total_delete_ct = 0, total_jobs_ct = 0\<rparr>"

definition zero_job :: Job where
  "zero_job = \<lparr>r_id = 0, r_pri = 0, r_delay = 0, r_ttr = 0, r_body_size = 0, r_created_at = 0,
     r_deadline_at = 0, r_reserve_ct = 0, r_timeout_ct = 0, r_release_ct = 0, r_bury_ct = 0,
     r_kick_ct = 0, r_state = Invalid, j_tube = None, heap_index = 0, j_file = None,
     reserver = None, walresv = 0, walused = 0, body = [], body_at = 0\<rparr>"

definition zero_tube :: Tube where
  "zero_tube = \<lparr>refs = 0, t_name = [], ready = empty_heap, delay = empty_heap,
     waiting_conns = ms_init, stat = zero_stats, using_ct = 0, watching_ct = 0, pause = 0,
     unpause_at = 0\<rparr>"

definition zero_conn :: Conn where
  "zero_conn = \<lparr>sock_fd = 0, c_state = STATE_WANT_COMMAND, type_producer = False,
     type_worker = False, type_waiting = False, c_next = None, c_use = None, tickat = 0,
     tickpos = 0, in_conns = False, soonest_job = None, c_rw = NUL, pending_timeout = 0,
     halfclosed = False, c_cmd = [], cmd_len = 0, c_reply = [], reply_sent = 0, in_job_read = 0,
     in_job = None, out_job = None, out_job_sent = 0, watch = ms_init\<rparr>"

definition zero_file :: File where
  "zero_file = \<lparr>f_refs = 0, f_seq = 0, iswopen = False, f_free = 0, f_resv = 0,
     f_jlist = []\<rparr>"

definition zero_wal :: Wal where
  "zero_wal = \<lparr>filesize = 10485760, wal_use = False, wal_files = [], wal_cur = None,
     nfile = 0, wal_next = 0, wal_resv = 0, alive = 0, nmig = 0, nrec = 0,
     wantsync = True, syncrate = 50000000, lastsync = 0\<rparr>"

text \<open>The state before \<open>prot_init\<close>, with the clock at \<open>t\<close>.\<close>

definition boot :: "int \<Rightarrow> server" where
  "boot t = \<lparr>brk = 1, job_st = (\<lambda>_. zero_job), live_jobs = {}, tube_st = (\<lambda>_. zero_tube),
     live_tubes = {}, conn_st = (\<lambda>_. zero_conn), live_conns = {}, file_st = (\<lambda>_. zero_file), file_brk = 1,
     lists = \<lparr>jl_items = (\<lambda>_. []), jl_owner = (\<lambda>_. None)\<rparr>, jobhash = jobhash_init, next_id = 1,
     tubes = ms_init, default_tube = None, conns = empty_heap, wal = zero_wal, ready_ct = 0,
     timeout_ct = 0, op_ct = (\<lambda>_. 0), global_stat = zero_stats, drain_mode = False, started_at = 0,
     job_data_size_limit = 65535, cur_conn_ct = 0, cur_worker_ct = 0, cur_producer_ct = 0,
     tot_conn_ct = 0, epollq = None, allocs = [], sys = [], ticks = [], now = t\<rparr>"

section \<open>The callbacks of the heaps\<close>

definition job_setpos :: "addr \<Rightarrow> nat \<Rightarrow> server \<Rightarrow> server" where
  "job_setpos j pos = upd_job j (\<lambda>x. x\<lparr>heap_index := pos\<rparr>)"

definition job_pri_less :: "server \<Rightarrow> addr \<Rightarrow> addr \<Rightarrow> bool" where
  "job_pri_less s a b =
     (if r_pri (job_st s a) < r_pri (job_st s b) then True
      else if r_pri (job_st s a) > r_pri (job_st s b) then False
      else r_id (job_st s a) < r_id (job_st s b))"

definition job_delay_less :: "server \<Rightarrow> addr \<Rightarrow> addr \<Rightarrow> bool" where
  "job_delay_less s a b =
     (if r_deadline_at (job_st s a) < r_deadline_at (job_st s b) then True
      else if r_deadline_at (job_st s a) > r_deadline_at (job_st s b) then False
      else r_id (job_st s a) < r_id (job_st s b))"

definition conn_setpos :: "addr \<Rightarrow> nat \<Rightarrow> server \<Rightarrow> server" where
  "conn_setpos c i = upd_conn c (\<lambda>x. x\<lparr>tickpos := i\<rparr>)"

definition conn_less :: "server \<Rightarrow> addr \<Rightarrow> addr \<Rightarrow> bool" where
  "conn_less s a b \<longleftrightarrow> tickat (conn_st s a) < tickat (conn_st s b)"

abbreviation job_getpos :: "server \<Rightarrow> addr \<Rightarrow> nat" where
  "job_getpos s j \<equiv> heap_index (job_st s j)"

lemma malloc_cases: "snd (malloc s) = s \<or> (\<exists>bs. snd (malloc s) = s\<lparr>allocs := bs\<rparr>)"
  by (auto simp: malloc_def split: list.splits)

lemma heap_order_jobs: "heap_order (job_pri_less s)" "heap_order (job_delay_less s)"
  by unfold_locales (auto simp: job_pri_less_def job_delay_less_def split: if_splits)

lemma heap_order_conns: "heap_order (conn_less s)"
  by unfold_locales (auto simp: conn_less_def)

lemmas callback_defs = job_pri_less_def job_delay_less_def conn_less_def job_setpos_def conn_setpos_def
  upd_job_def upd_conn_def malloc_def

interpretation jready: heap_callbacks job_pri_less job_setpos malloc job_getpos
  by (rule heap_callbacks.intro)
    (auto simp: callback_defs fun_eq_iff heap_order_jobs split: list.split)

interpretation jdelay: heap_callbacks job_delay_less job_setpos malloc job_getpos
  by (rule heap_callbacks.intro)
    (auto simp: callback_defs fun_eq_iff heap_order_jobs split: list.split)

interpretation chp: heap_callbacks conn_less conn_setpos malloc "\<lambda>s c. tickpos (conn_st s c)"
  by (rule heap_callbacks.intro)
    (auto simp: callback_defs fun_eq_iff heap_order_conns split: list.split)

lemma job_pri_less_total: "r_id (job_st s a) \<noteq> r_id (job_st s b) \<Longrightarrow> job_pri_less s a b \<or> job_pri_less s b a"
  by (auto simp: job_pri_less_def)

lemma job_delay_less_total:
  "r_id (job_st s a) \<noteq> r_id (job_st s b) \<Longrightarrow> job_delay_less s a b \<or> job_delay_less s b a"
  by (auto simp: job_delay_less_def)

section \<open>The heaps of jobs and of connections\<close>

text \<open>
  A ready heap is well formed when its array is large enough, no element is smaller than its parent, and
  every job knows its position.
\<close>

definition ready_heap_ok :: "addr Heap \<Rightarrow> server \<Rightarrow> bool" where
  "ready_heap_ok h s \<longleftrightarrow> heap_wf h \<and> heap_ordered (job_pri_less s) (heap_len h) (heap_data h) \<and>
     (\<forall>i < heap_len h. heap_index (job_st s (heap_data h ! i)) = i)"

lemma ready_heap_ok_iff: "ready_heap_ok h s \<longleftrightarrow> jready.heap_ok h s"
  by (simp add: ready_heap_ok_def jready.heap_ok_def jready.pos_ok_def)

text \<open>C21
  \<open>heapinsert\<close> on a ready heap: on success the heap is well formed again and holds the new job beside the
  old ones; it fails only when the array is full and cannot be enlarged, and then the heap is unchanged.
\<close>

theorem ready_heap_insert:
  assumes "ready_heap_ok h s" "j \<notin> set (heap_elems h)"
    "heapinsert job_pri_less job_setpos malloc h s j = (b, h', s')"
  shows "ready_heap_ok h' s' \<and>
    (if b then mset (heap_elems h') = add_mset j (mset (heap_elems h))
     else h' = h \<and> heap_len h = heap_cap h \<and> \<not> fst (malloc s))"
proof (cases b)
  case True
  then show ?thesis using jready.heapinsert_ok [of h s j h' s'] assms by (simp add: ready_heap_ok_iff)
next
  case False
  have f: "\<not> fst (malloc s)"
    using assms(3) False by (auto simp: heapinsert_def Let_def split: if_splits prod.splits)
  have e: "h' = h" "s' = snd (malloc s)" "heap_len h = heap_cap h"
    using jready.heapinsert_fail [of h s j h' s'] assms(3) False by simp_all
  have "job_st (snd (malloc s)) = job_st s" by (auto simp: malloc_def split: list.split)
  then have "ready_heap_ok h (snd (malloc s)) = ready_heap_ok h s"
    by (simp add: ready_heap_ok_def jready.lt_malloc)
  then show ?thesis using assms(1) False f e by simp
qed

theorem ready_heap_insert_witness:
  "ready_heap_ok (fst (snd (heapinsert job_pri_less job_setpos malloc empty_heap (boot 0) 5)))
     (snd (snd (heapinsert job_pri_less job_setpos malloc empty_heap (boot 0) 5)))"
proof -
  obtain b h' s' where e: "heapinsert job_pri_less job_setpos malloc empty_heap (boot 0) 5 = (b, h', s')"
    by (rule prod_cases3)
  have "ready_heap_ok empty_heap (boot 0)" by (simp add: ready_heap_ok_iff)
  from ready_heap_insert [OF this _ e] have "ready_heap_ok h' s'" by (simp add: heap_elems_def empty_heap_def)
  then show ?thesis by (simp add: e)
qed

text \<open>C22
  \<open>heapremove\<close> on a ready heap whose jobs have different ids: for every position it returns the job there,
  takes exactly that job out and leaves a well formed heap.
\<close>

theorem ready_heap_remove:
  assumes "ready_heap_ok h s" "inj_on (\<lambda>j. r_id (job_st s j)) (set (heap_elems h))" "k < heap_len h"
    "heapremove job_pri_less job_setpos h s k = (r, h', s')"
  shows "r = Some (heap_data h ! k) \<and> ready_heap_ok h' s' \<and>
    mset (heap_elems h') = mset (heap_elems h) - {#heap_data h ! k#}"
proof -
  have ok: "jready.heap_ok h s" using assms(1) by (simp add: ready_heap_ok_iff)
  have "jready.removable h s k"
    by (rule jready.total_removable [OF ok assms(3)])
      (rule job_pri_less_total, use assms(2) in \<open>auto dest: inj_onD\<close>)
  then show ?thesis using jready.heapremove_ok [OF assms(4) ok] by (simp add: ready_heap_ok_iff)
qed

theorem ready_heap_remove_witness:
  "fst (heapremove job_pri_less job_setpos \<lparr>heap_cap = 2, heap_len = 1, heap_data = [5]\<rparr> (boot 0) 0) = Some 5"
proof -
  let ?h = "\<lparr>heap_cap = 2, heap_len = 1, heap_data = [5]\<rparr> :: addr Heap"
  obtain r h' s' where e: "heapremove job_pri_less job_setpos ?h (boot 0) 0 = (r, h', s')"
    by (rule prod_cases3)
  have "ready_heap_ok ?h (boot 0)"
    by (simp add: ready_heap_ok_def heap_wf_def heap_ordered_def boot_def zero_job_def)
  from ready_heap_remove [OF this _ _ e] have "r = Some 5" by (simp add: heap_elems_def)
  then show ?thesis by (subst e) simp
qed

text \<open>
  The root of a ready heap is the job with the smallest priority and, among those, the smallest id, so jobs
  of equal priority come out in the order in which they were put.
\<close>

theorem ready_heap_root:
  assumes "ready_heap_ok h s" "j \<in> set (heap_elems h)"
  shows "r_pri (job_st s (heap_data h ! 0)) < r_pri (job_st s j) \<or>
    r_pri (job_st s (heap_data h ! 0)) = r_pri (job_st s j) \<and> r_id (job_st s (heap_data h ! 0)) \<le> r_id (job_st s j)"
  using jready.heap_root_least [of h s j] assms
  by (auto simp: ready_heap_ok_iff job_pri_less_def not_less split: if_splits)

theorem ready_heap_root_witness:
  "r_pri (job_st (boot 0) 5) < r_pri (job_st (boot 0) (5 :: addr)) \<or>
   r_pri (job_st (boot 0) 5) = r_pri (job_st (boot 0) 5) \<and> r_id (job_st (boot 0) 5) \<le> r_id (job_st (boot 0) 5)"
proof -
  have "ready_heap_ok \<lparr>heap_cap = 2, heap_len = 1, heap_data = [5]\<rparr> (boot 0)"
    by (simp add: ready_heap_ok_def heap_wf_def heap_ordered_def boot_def zero_job_def)
  from ready_heap_root [OF this, of 5] show ?thesis by (simp add: heap_elems_def)
qed

text \<open>C40
  \<open>conn_less\<close> does not order connections with the same \<open>tickat\<close>. When the last connection of the heap \<open>srv.conns\<close> is
  removed and its \<open>tickat\<close> is that of its parent, \<open>siftdown\<close> exchanges the two after the heap has been made shorter: whatever
  the size of the heap, it keeps the connection that was to be removed and loses the parent.
\<close>

theorem conns_heap_tie:
  assumes "heap_wf h" "heap_len h = Suc k" "0 < k"
    "tickat (conn_st s (heap_data h ! k)) = tickat (conn_st s (heap_data h ! ((k - 1) div 2)))"
    "heapremove conn_less conn_setpos h s k = (r, h', s')"
  shows "r = Some (heap_data h ! k) \<and> heap_data h ! k \<in> set (heap_elems h') \<and>
    mset (heap_elems h') = mset (heap_elems h) - {#heap_data h ! ((k - 1) div 2)#}"
proof -
  have "\<not> conn_less s (heap_data h ! ((k - 1) div 2)) (heap_data h ! k)" using assms(4) by (simp add: conn_less_def)
  from chp.heapremove_last_tie [OF assms(1-3) this assms(5)] show ?thesis by blast
qed

theorem conns_heap_tie_witness:
  "\<exists>r h' s'. heapremove conn_less conn_setpos \<lparr>heap_cap = 4, heap_len = 3, heap_data = [3, 4, 5]\<rparr> (boot 0) 2 = (r, h', s') \<and>
     r = Some 5 \<and> mset (heap_elems h') = {#4, 5#}"
proof -
  let ?h = "\<lparr>heap_cap = 4, heap_len = 3, heap_data = [3, 4, 5]\<rparr> :: addr Heap"
  obtain r h' s' where e: "heapremove conn_less conn_setpos ?h (boot 0) 2 = (r, h', s')" by (rule prod_cases3)
  have h: "heap_wf ?h" "heap_len ?h = Suc 2" "(0 :: nat) < 2" by (simp_all add: heap_wf_def)
  have t: "tickat (conn_st (boot 0) (heap_data ?h ! 2)) = tickat (conn_st (boot 0) (heap_data ?h ! ((2 - 1) div 2)))" by (simp add: boot_def)
  have "heap_elems ?h = [3, 4, 5]" "heap_data ?h ! 2 = 5" "heap_data ?h ! ((2 - 1) div 2) = 3" by (simp_all add: heap_elems_def)
  with conns_heap_tie [OF h t e] have "r = Some 5 \<and> mset (heap_elems h') = {#4, 5#}" by simp
  with e show ?thesis by blast
qed

end
