(* ===== verification/Bean_Tube.thy ===== *)
theory Bean_Tube
  imports Bean_State
begin

text \<open>
  The tubes of \<open>tube.c\<close>: creation, reference counting and lookup by name. The global set
  \<open>tubes\<close> holds weak references: a tube leaves it when its last counted reference goes.
\<close>

section \<open>Operations\<close>

definition make_tube :: "string \<Rightarrow> server \<Rightarrow> addr option \<times> server" where
  "make_tube name s =
     (case malloc s of
        (False, s1) \<Rightarrow> (None, s1)
      | (True, s1) \<Rightarrow>
          let t = brk s1
          in (Some t, s1\<lparr>brk := t + 1,
                         tube_st := (tube_st s1)(t := zero_tube\<lparr>t_name := take (MAX_TUBE_NAME_LEN - 1) name\<rparr>),
                         live_tubes := insert t (live_tubes s1),
                         lists := (lists s1)\<lparr>jl_items := (jl_items (lists s1))(LBuried t := [])\<rparr>\<rparr>))"

definition tube_free :: "addr \<Rightarrow> server \<Rightarrow> server" where
  "tube_free t s =
     (let (_, ts, _) = ms_remove None (tubes s) () t;
          s1 = s\<lparr>tubes := ts\<rparr>;
          s2 = upd_tube t (\<lambda>x. x\<lparr>waiting_conns := fst (ms_clear None (waiting_conns x) ())\<rparr>) s1
      in s2\<lparr>live_tubes := live_tubes s2 - {t}\<rparr>)"

definition tube_dref :: "addr option \<Rightarrow> server \<Rightarrow> server" where
  "tube_dref tp s =
     (case tp of
        None \<Rightarrow> s
      | Some t \<Rightarrow>
          if refs (tube_st s t) < 1 then s
          else let s1 = upd_tube t (\<lambda>x. x\<lparr>refs := refs x - 1\<rparr>) s
               in if refs (tube_st s1 t) < 1 then tube_free t s1 else s1)"

definition tube_iref :: "addr option \<Rightarrow> server \<Rightarrow> server" where
  "tube_iref tp s =
     (case tp of None \<Rightarrow> s | Some t \<Rightarrow> upd_tube t (\<lambda>x. x\<lparr>refs := refs x + 1\<rparr>) s)"

definition make_and_insert_tube :: "string \<Rightarrow> server \<Rightarrow> addr option \<times> server" where
  "make_and_insert_tube name s =
     (case make_tube name s of
        (None, s1) \<Rightarrow> (None, s1)
      | (Some t, s1) \<Rightarrow>
          (case ms_append None malloc (tubes s1) s1 t of
             (ok, ts, s2) \<Rightarrow>
               if \<not> ok then (None, tube_dref (Some t) (s2\<lparr>tubes := ts\<rparr>))
               else (Some t, s2\<lparr>tubes := ts\<rparr>)))"

definition tube_find :: "addr Ms \<Rightarrow> string \<Rightarrow> server \<Rightarrow> addr option" where
  "tube_find tubeset name s =
     find (\<lambda>t. take MAX_TUBE_NAME_LEN (t_name (tube_st s t)) = take MAX_TUBE_NAME_LEN name)
       (ms_items tubeset)"

definition tube_find_or_make :: "string \<Rightarrow> server \<Rightarrow> addr option \<times> server" where
  "tube_find_or_make name s =
     (case tube_find (tubes s) name s of
        Some t \<Rightarrow> (Some t, s)
      | None \<Rightarrow> make_and_insert_tube name s)"

section \<open>Frames\<close>

lemma upd_simps [simp]:
  "job_st (upd_tube t g s) = job_st s" "live_jobs (upd_tube t g s) = live_jobs s"
  "tube_st (upd_tube t g s) = (tube_st s)(t := g (tube_st s t))" "conn_st (upd_tube t g s) = conn_st s"
  "lists (upd_tube t g s) = lists s" "jobhash (upd_tube t g s) = jobhash s" "tubes (upd_tube t g s) = tubes s"
  "live_tubes (upd_tube t g s) = live_tubes s" "brk (upd_tube t g s) = brk s" "wal (upd_tube t g s) = wal s"
  "allocs (upd_tube t g s) = allocs s" "ready_ct (upd_tube t g s) = ready_ct s"
  "global_stat (upd_tube t g s) = global_stat s" "next_id (upd_tube t g s) = next_id s"
  "live_conns (upd_tube t g s) = live_conns s" "ticks (upd_tube t g s) = ticks s" "now (upd_tube t g s) = now s"
  by (simp_all add: upd_tube_def)

lemma malloc_frame [simp]:
  "job_st (snd (malloc s)) = job_st s" "live_jobs (snd (malloc s)) = live_jobs s"
  "tube_st (snd (malloc s)) = tube_st s" "conn_st (snd (malloc s)) = conn_st s"
  "lists (snd (malloc s)) = lists s" "jobhash (snd (malloc s)) = jobhash s" "tubes (snd (malloc s)) = tubes s"
  "live_tubes (snd (malloc s)) = live_tubes s" "brk (snd (malloc s)) = brk s" "wal (snd (malloc s)) = wal s"
  "ready_ct (snd (malloc s)) = ready_ct s" "global_stat (snd (malloc s)) = global_stat s"
  "next_id (snd (malloc s)) = next_id s" "live_conns (snd (malloc s)) = live_conns s"
  "ticks (snd (malloc s)) = ticks s" "now (snd (malloc s)) = now s"
  by (simp_all add: malloc_def split: list.split)

lemma malloc_eqD: "malloc s = (b, s') \<Longrightarrow> \<exists>bs. s' = s\<lparr>allocs := bs\<rparr>"
  by (auto simp: malloc_def split: list.splits intro: exI [of _ "allocs s"])

section \<open>Names\<close>

text \<open>The registry is well formed: every registered tube is allocated, with a name of at most 200
  characters, and no two have the same name.\<close>

definition tubes_ok :: "server \<Rightarrow> bool" where
  "tubes_ok s \<longleftrightarrow>
     ms_wf (tubes s) \<and> set (ms_items (tubes s)) \<subseteq> live_tubes s \<and> (\<forall>t \<in> live_tubes s. t < brk s) \<and>
     (\<forall>t \<in> set (ms_items (tubes s)). length (t_name (tube_st s t)) < MAX_TUBE_NAME_LEN) \<and>
     distinct (map (\<lambda>t. t_name (tube_st s t)) (ms_items (tubes s)))"

lemma tube_find_Some:
  assumes "tubes_ok s" "length name < MAX_TUBE_NAME_LEN"
  shows "tube_find (tubes s) name s = Some t \<longleftrightarrow> t \<in> set (ms_items (tubes s)) \<and> t_name (tube_st s t) = name"
proof -
  have eq: "take MAX_TUBE_NAME_LEN (t_name (tube_st s t)) = take MAX_TUBE_NAME_LEN name \<longleftrightarrow> t_name (tube_st s t) = name"
    if "t \<in> set (ms_items (tubes s))" for t
    using that assms by (auto simp: tubes_ok_def)
  have d: "t = t'" if "t \<in> set (ms_items (tubes s))" "t' \<in> set (ms_items (tubes s))"
    "t_name (tube_st s t) = t_name (tube_st s t')" for t t'
    using assms(1) that by (auto simp: tubes_ok_def distinct_map inj_on_def)
  have snd: "t \<in> set (ms_items (tubes s)) \<and> t_name (tube_st s t) = name"
    if "tube_find (tubes s) name s = Some t" for t
  proof -
    from that have "t \<in> set (ms_items (tubes s))"
      "take MAX_TUBE_NAME_LEN (t_name (tube_st s t)) = take MAX_TUBE_NAME_LEN name"
      by (auto simp: tube_find_def find_Some_iff)
    then show ?thesis using eq by blast
  qed
  have "tube_find (tubes s) name s \<noteq> None" if "t \<in> set (ms_items (tubes s))" "t_name (tube_st s t) = name"
    using that by (auto simp: tube_find_def find_None_iff)
  then show ?thesis using snd d by (cases "tube_find (tubes s) name s") auto
qed

lemma tube_find_None:
  assumes "tubes_ok s" "length name < MAX_TUBE_NAME_LEN"
  shows "tube_find (tubes s) name s = None \<longleftrightarrow> name \<notin> (\<lambda>t. t_name (tube_st s t)) ` set (ms_items (tubes s))"
proof (cases "tube_find (tubes s) name s")
  case None
  then show ?thesis using tube_find_Some [OF assms] by auto
next
  case (Some t)
  then show ?thesis using tube_find_Some [OF assms, of t] by auto
qed

lemma make_tube_new:
  assumes "make_tube name s = (Some t, s')"
  shows "t = brk s" "brk s' = t + 1" "tube_st s' = (tube_st s)(t := zero_tube\<lparr>t_name := take 200 name\<rparr>)"
    "live_tubes s' = insert t (live_tubes s)" "tubes s' = tubes s"
  using assms
  by (auto simp: make_tube_def Let_def split: prod.splits bool.splits dest!: malloc_eqD)

lemma ms_append_frame:
  assumes "ms_append None malloc a s x = (ok, a', s')"
  shows "s' = s \<or> s' = snd (malloc s)"
  using assms
  by (auto simp: ms_append_def grow_def ms_event_def Let_def split: if_splits prod.splits bool.splits)

lemma make_and_insert_tube_ok:
  assumes ok: "tubes_ok s" and len: "length name < MAX_TUBE_NAME_LEN"
    and new: "tube_find (tubes s) name s = None" and m: "make_and_insert_tube name s = (Some t, s')"
  shows "tubes_ok s'" "ms_items (tubes s') = ms_items (tubes s) @ [t]" "t_name (tube_st s' t) = name"
    "t \<notin> live_tubes s" "\<forall>t' \<in> live_tubes s. tube_st s' t' = tube_st s t'"
proof -
  obtain s1 where s1: "make_tube name s = (Some t, s1)"
    using m by (auto simp: make_and_insert_tube_def split: prod.splits option.splits if_splits)
  note n = make_tube_new [OF s1]
  obtain ts s2 where a: "ms_append None malloc (tubes s1) s1 t = (True, ts, s2)" "s' = s2\<lparr>tubes := ts\<rparr>"
    using m s1 by (auto simp: make_and_insert_tube_def split: prod.splits option.splits if_splits)
  have f: "tube_st s2 = tube_st s1" "live_tubes s2 = live_tubes s1" "brk s2 = brk s1"
    using ms_append_frame [OF a(1)] by auto
  have ts: "ms_items ts = ms_items (tubes s) @ [t]" "ms_wf ts"
    using ms_append_items [of None malloc "tubes s1" s1 t] ms_append_wf [of None malloc "tubes s1" s1 t] a(1) n(5) ok
    by (auto simp: tubes_ok_def)
  show t: "t \<notin> live_tubes s" using ok n(1) by (auto simp: tubes_ok_def)
  show it: "ms_items (tubes s') = ms_items (tubes s) @ [t]" using a(2) ts by simp
  show nm: "t_name (tube_st s' t) = name" using a(2) f n(3) len by simp
  show fr: "\<forall>t' \<in> live_tubes s. tube_st s' t' = tube_st s t'" using a(2) f n(3) t by auto
  have sub: "set (ms_items (tubes s)) \<subseteq> live_tubes s" using ok by (simp add: tubes_ok_def)
  then have eq: "t_name (tube_st s' x) = t_name (tube_st s x)" if "x \<in> set (ms_items (tubes s))" for x
    using fr that by auto
  have "distinct (map (\<lambda>x. t_name (tube_st s' x)) (ms_items (tubes s)))"
    using ok eq by (simp add: tubes_ok_def cong: map_cong)
  moreover have "name \<notin> (\<lambda>x. t_name (tube_st s' x)) ` set (ms_items (tubes s))"
    using new tube_find_None [OF ok len] eq by (metis (no_types, lifting) image_cong)
  ultimately have "distinct (map (\<lambda>x. t_name (tube_st s' x)) (ms_items (tubes s')))"
    using it nm by simp
  then show "tubes_ok s'"
    using ok ts a(2) f n sub eq nm len it by (auto simp: tubes_ok_def)
qed

text \<open>Looking up again finds the tube that was made, and nothing else changes hands.\<close>

lemma tube_find_or_make_ok:
  assumes ok: "tubes_ok s" and len: "length name < MAX_TUBE_NAME_LEN"
    and m: "tube_find_or_make name s = (Some t, s')"
  shows "tubes_ok s'" "tube_find (tubes s') name s' = Some t"
    "\<And>n. length n < MAX_TUBE_NAME_LEN \<Longrightarrow> n \<noteq> name \<Longrightarrow> tube_find (tubes s') n s' = tube_find (tubes s) n s"
proof -
  have "tubes_ok s' \<and> tube_find (tubes s') name s' = Some t \<and>
    (\<forall>n. length n < MAX_TUBE_NAME_LEN \<longrightarrow> n \<noteq> name \<longrightarrow> tube_find (tubes s') n s' = tube_find (tubes s) n s)"
  proof (cases "tube_find (tubes s) name s")
    case (Some t')
    then show ?thesis using m ok by (simp add: tube_find_or_make_def)
  next
    case None
    then have "make_and_insert_tube name s = (Some t, s')" using m by (simp add: tube_find_or_make_def)
    note k = make_and_insert_tube_ok [OF ok len None this]
    have sub: "set (ms_items (tubes s)) \<subseteq> live_tubes s" using ok by (simp add: tubes_ok_def)
    have "tube_find (tubes s') n s' = tube_find (tubes s) n s"
      if n: "length n < MAX_TUBE_NAME_LEN" "n \<noteq> name" for n
    proof -
      have "t' \<in> set (ms_items (tubes s')) \<and> t_name (tube_st s' t') = n \<longleftrightarrow>
          t' \<in> set (ms_items (tubes s)) \<and> t_name (tube_st s t') = n" for t'
        using k(2,3,5) sub n(2) by auto
      then show ?thesis
        using tube_find_Some [OF k(1) n(1)] tube_find_Some [OF ok n(1)]
        by (intro option_eqI) simp
    qed
    then show ?thesis using k tube_find_Some [OF k(1) len, of t] by simp
  qed
  then show "tubes_ok s'" "tube_find (tubes s') name s' = Some t"
    "\<And>n. length n < MAX_TUBE_NAME_LEN \<Longrightarrow> n \<noteq> name \<Longrightarrow> tube_find (tubes s') n s' = tube_find (tubes s) n s"
    by blast+
qed

lemma tube_dref_last:
  assumes "refs (tube_st s t) = 1"
  shows "tube_dref (Some t) s = tube_free t (upd_tube t (\<lambda>x. x\<lparr>refs := 0\<rparr>) s)"
  using assms by (simp add: tube_dref_def Let_def upd_tube_def)

lemma tube_dref_more:
  assumes "1 < refs (tube_st s t)"
  shows "tube_dref (Some t) s = upd_tube t (\<lambda>x. x\<lparr>refs := refs x - 1\<rparr>) s"
  using word_gr_1 [OF assms] by (simp add: tube_dref_def Let_def)

lemma tube_free_registry:
  assumes "distinct (ms_items (tubes s))"
  shows "set (ms_items (tubes (tube_free t s))) = set (ms_items (tubes s)) - {t}"
    "live_tubes (tube_free t s) = live_tubes s - {t}"
proof -
  obtain ok ts u where r: "ms_remove None (tubes s) () t = (ok, ts, u)" by (cases "ms_remove None (tubes s) () t")
  have "set (ms_items ts) = set (ms_items (tubes s)) - {t}"
    using mset_remove_set(1) [OF ms_remove_items(2) [OF r] assms] .
  then show "set (ms_items (tubes (tube_free t s))) = set (ms_items (tubes s)) - {t}"
    "live_tubes (tube_free t s) = live_tubes s - {t}"
    using r by (simp_all add: tube_free_def)
qed

section \<open>The registry\<close>

text \<open>C27
  When \<open>tube_find_or_make\<close> returns a tube, looking the name up afterwards finds that tube, every other name
  is found as before, and the names in the registry stay distinct.
\<close>

theorem tube_find_or_make_finds:
  assumes "tubes_ok s" "length name < MAX_TUBE_NAME_LEN" "tube_find_or_make name s = (Some t, s')"
  shows "tubes_ok s' \<and> tube_find (tubes s') name s' = Some t \<and>
    (\<forall>n. length n < MAX_TUBE_NAME_LEN \<and> n \<noteq> name \<longrightarrow> tube_find (tubes s') n s' = tube_find (tubes s) n s)"
  using tube_find_or_make_ok [OF assms] by blast

theorem tube_find_or_make_finds_witness:
  "tube_find (tubes (snd (tube_find_or_make ''a'' (boot 0)))) ''a'' (snd (tube_find_or_make ''a'' (boot 0))) = Some 1"
proof -
  have ok: "tubes_ok (boot 0)" by (simp add: tubes_ok_def boot_def ms_wf_def ms_init_def)
  have e: "tube_find_or_make ''a'' (boot 0) = (Some 1, snd (tube_find_or_make ''a'' (boot 0)))"
    by (simp add: tube_find_or_make_def tube_find_def make_and_insert_tube_def make_tube_def malloc_def
        boot_def ms_init_def ms_append_def grow_def ms_event_def Let_def)
  show ?thesis using tube_find_or_make_finds [OF ok _ e] by simp
qed

end
