(* ===== verification/Bean_Job.thy ===== *)
theory Bean_Job
  imports Bean_Tube
begin

text \<open>
  Allocation, copying and freeing of jobs (\<open>job.c\<close>), over the hash table of \<open>Bean_Jobhash\<close> and the
  tubes of \<open>Bean_Tube\<close>. \<open>body\<close> is the storage behind the structure, as the list of the bytes written to it so far; it is
  filled from the front. \<open>body_at\<close> is the pointer \<open>body\<close> of the C structure: the job whose storage it points to. \<open>allocate_job\<close> sets it
  to the job itself, and only \<open>job_copy\<close> makes a job whose pointer leads elsewhere: it copies the storage and the pointer, so the
  pointer of the copy still leads to the storage of the original. All code that fills or compares a body does so for a job
  that is not a copy, hence for its own storage.
\<close>

section \<open>Operations\<close>

abbreviation ids :: "server \<Rightarrow> addr \<Rightarrow> u64" where
  "ids s \<equiv> \<lambda>j. r_id (job_st s j)"

definition find_job :: "server \<Rightarrow> u64 \<Rightarrow> addr option" where
  "find_job s n = job_find (ids s) (jobhash s) n"

definition list_insert :: "lhead \<Rightarrow> addr \<Rightarrow> server \<Rightarrow> server" where
  "list_insert h j s = s\<lparr>lists := jl_insert (lists s) h j\<rparr>"

definition list_remove :: "addr \<Rightarrow> server \<Rightarrow> bool \<times> server" where
  "list_remove j s = (let (ok, l) = jl_remove (lists s) j in (ok, s\<lparr>lists := l\<rparr>))"

definition allocate_job :: "int \<Rightarrow> server \<Rightarrow> addr option \<times> server" where
  "allocate_job bsize s =
     (case malloc s of
        (False, s1) \<Rightarrow> (None, s1)
      | (True, s1) \<Rightarrow>
          let j = brk s1;
              (t, s2) = nanoseconds s1
          in (Some j, s2\<lparr>brk := j + 1,
                         job_st := (job_st s2)(j := zero_job\<lparr>r_created_at := t, r_body_size := bsize, body_at := j\<rparr>),
                         live_jobs := insert j (live_jobs s2),
                         lists := jl_reset (lists s2) j\<rparr>))"

definition make_job_with_id ::
  "u32 \<Rightarrow> int \<Rightarrow> int \<Rightarrow> int \<Rightarrow> addr option \<Rightarrow> u64 \<Rightarrow> server \<Rightarrow> addr option \<times> server" where
  "make_job_with_id pri dly ttr bsize tube n s =
     (case allocate_job bsize s of
        (None, s1) \<Rightarrow> (None, s1)
      | (Some j, s1) \<Rightarrow>
          let s2 = (if n \<noteq> 0
                    then let s' = upd_job j (\<lambda>x. x\<lparr>r_id := n\<rparr>) s1
                         in (if n \<ge> next_id s' then s'\<lparr>next_id := n + 1\<rparr> else s')
                    else (upd_job j (\<lambda>x. x\<lparr>r_id := next_id s1\<rparr>) s1)\<lparr>next_id := next_id s1 + 1\<rparr>);
              s3 = upd_job j (\<lambda>x. x\<lparr>r_pri := pri, r_delay := dly, r_ttr := ttr\<rparr>) s2;
              (h, s4) = store_job (ids s3) malloc j (jobhash s3, s3);
              s5 = s4\<lparr>jobhash := h\<rparr>;
              s6 = tube_dref (j_tube (job_st s5 j)) s5;
              s7 = upd_job j (\<lambda>x. x\<lparr>j_tube := tube\<rparr>) s6
          in (Some j, tube_iref tube s7))"

definition make_job :: "u32 \<Rightarrow> int \<Rightarrow> int \<Rightarrow> int \<Rightarrow> addr option \<Rightarrow> server \<Rightarrow> addr option \<times> server" where
  "make_job pri dly ttr bsize tube = make_job_with_id pri dly ttr bsize tube 0"

definition hash_free :: "addr \<Rightarrow> server \<Rightarrow> server" where
  "hash_free j s =
     (let (h, s1) = job_hash_free (ids s) malloc j (jobhash s, s) in s1\<lparr>jobhash := h\<rparr>)"

definition job_free :: "addr option \<Rightarrow> server \<Rightarrow> server" where
  "job_free jp s =
     (case jp of
        None \<Rightarrow> s
      | Some j \<Rightarrow>
          let s1 = tube_dref (j_tube (job_st s j)) s;
              s2 = tube_iref None (upd_job j (\<lambda>x. x\<lparr>j_tube := None\<rparr>) s1);
              s3 = (if r_state (job_st s2 j) \<noteq> Copy then hash_free j s2 else s2)
          in s3\<lparr>live_jobs := live_jobs s3 - {j}\<rparr>)"

definition job_copy :: "addr option \<Rightarrow> server \<Rightarrow> addr option \<times> server" where
  "job_copy jp s =
     (case jp of
        None \<Rightarrow> (None, s)
      | Some j \<Rightarrow>
          (case malloc s of
             (False, s1) \<Rightarrow> (None, s1)
           | (True, s1) \<Rightarrow>
               let n = brk s1;
                   s2 = s1\<lparr>brk := n + 1, job_st := (job_st s1)(n := job_st s1 j),
                           live_jobs := insert n (live_jobs s1), lists := jl_reset (lists s1) n\<rparr>;
                   s3 = upd_job n (\<lambda>x. x\<lparr>j_file := None, j_tube := None\<rparr>) s2;
                   s4 = tube_dref (j_tube (job_st s3 n)) s3;
                   s5 = tube_iref (j_tube (job_st s4 j)) (upd_job n (\<lambda>x. x\<lparr>j_tube := j_tube (job_st s4 j)\<rparr>) s4)
               in (Some n, upd_job n (\<lambda>x. x\<lparr>r_state := Copy\<rparr>) s5)))"

definition job_state :: "Job \<Rightarrow> string" where
  "job_state j =
     (if r_state j = Ready then ''ready''
      else if r_state j = Reserved then ''reserved''
      else if r_state j = Buried then ''buried''
      else if r_state j = Delayed then ''delayed''
      else ''invalid'')"

end
