(* ===== verification/Bean_Wal.thy ===== *)
theory Bean_Wal
  imports Bean_Job
begin

text \<open>
  The write side of the log (\<open>walg.c\<close>, \<open>file.c\<close>): how space is reserved in the files before a
  record is written, how records use it, and when files are dropped. The bytes on disk are not part
  of the state; a system call that can fail is a \<open>syscall\<close> of the environment. The files between
  \<open>w->head\<close> and \<open>w->tail\<close> are the list \<open>wal_files\<close>.
\<close>

section \<open>Files\<close>

abbreviation upd_wal :: "(Wal \<Rightarrow> Wal) \<Rightarrow> server \<Rightarrow> server" where
  "upd_wal f s \<equiv> s\<lparr>wal := f (wal s)\<rparr>"

abbreviation sizeof_int :: int where "sizeof_int \<equiv> 4"

abbreviation sizeof_Jobrec :: int where "sizeof_Jobrec \<equiv> 80"

definition wal_tail :: "server \<Rightarrow> addr" where
  "wal_tail s = last (wal_files (wal s))"

definition walgc :: "server \<Rightarrow> server" where
  "walgc s =
     (let fs = wal_files (wal s);
          keep = dropWhile (\<lambda>f. f_refs (file_st s f) = 0) fs
      in upd_wal (\<lambda>w. w\<lparr>wal_files := keep, nfile := nfile w - int (length fs - length keep)\<rparr>) s)"

definition fileincref :: "addr option \<Rightarrow> server \<Rightarrow> server" where
  "fileincref fp s = (case fp of None \<Rightarrow> s | Some f \<Rightarrow> upd_file f (\<lambda>x. x\<lparr>f_refs := f_refs x + 1\<rparr>) s)"

definition filedecref :: "addr option \<Rightarrow> server \<Rightarrow> server" where
  "filedecref fp s =
     (case fp of
        None \<Rightarrow> s
      | Some f \<Rightarrow>
          let s1 = upd_file f (\<lambda>x. x\<lparr>f_refs := f_refs x - 1\<rparr>) s
          in if f_refs (file_st s1 f) < 1 then walgc s1 else s1)"

definition fileaddjob :: "addr \<Rightarrow> addr \<Rightarrow> server \<Rightarrow> server" where
  "fileaddjob f j s =
     fileincref (Some f)
       (upd_file f (\<lambda>x. x\<lparr>f_jlist := f_jlist x @ [j]\<rparr>) (upd_job j (\<lambda>x. x\<lparr>j_file := Some f\<rparr>) s))"

definition filermjob :: "addr option \<Rightarrow> addr \<Rightarrow> server \<Rightarrow> server" where
  "filermjob fp j s =
     (case fp of
        None \<Rightarrow> s
      | Some f \<Rightarrow>
          if Some f \<noteq> j_file (job_st s j) then s
          else let s1 = upd_file f (\<lambda>x. x\<lparr>f_jlist := remove1 j (f_jlist x)\<rparr>) s;
                   s2 = upd_job j (\<lambda>x. x\<lparr>j_file := None\<rparr>) s1;
                   s3 = upd_wal (\<lambda>w. w\<lparr>alive := alive w - walused (job_st s2 j)\<rparr>) s2;
                   s4 = upd_job j (\<lambda>x. x\<lparr>walused := 0\<rparr>) s3
               in filedecref (Some f) s4)"

definition filewopen :: "addr \<Rightarrow> server \<Rightarrow> server" where
  "filewopen f s =
     (case syscall s of
        (False, s1) \<Rightarrow> s1
      | (True, s1) \<Rightarrow>
          (case syscall s1 of
             (False, s2) \<Rightarrow> s2
           | (True, s2) \<Rightarrow>
               (case syscall s2 of
                  (False, s3) \<Rightarrow> s3
                | (True, s3) \<Rightarrow>
                    upd_file f (\<lambda>x. x\<lparr>f_free := filesize (wal s3) - sizeof_int, f_resv := 0\<rparr>)
                      (fileincref (Some f) (upd_file f (\<lambda>x. x\<lparr>iswopen := True\<rparr>) s3)))))"

definition filewrite :: "addr \<Rightarrow> addr \<Rightarrow> int \<Rightarrow> server \<Rightarrow> bool \<times> server" where
  "filewrite f j len s =
     (case syscall s of
        (False, s1) \<Rightarrow> (False, s1)
      | (True, s1) \<Rightarrow>
          (True,
           upd_wal (\<lambda>w. w\<lparr>wal_resv := wal_resv w - len, alive := alive w + len\<rparr>)
             (upd_file f (\<lambda>x. x\<lparr>f_resv := f_resv x - len\<rparr>)
               (upd_job j (\<lambda>x. x\<lparr>walresv := walresv x - len, walused := walused x + len\<rparr>) s1))))"

fun filewrites :: "addr \<Rightarrow> addr \<Rightarrow> int list \<Rightarrow> server \<Rightarrow> bool \<times> server" where
  "filewrites f j [] s = (True, s)"
| "filewrites f j (n # ns) s =
     (case filewrite f j n s of (False, s1) \<Rightarrow> (False, s1) | (True, s1) \<Rightarrow> filewrites f j ns s1)"

definition filewrjobshort :: "addr \<Rightarrow> addr \<Rightarrow> server \<Rightarrow> bool \<times> server" where
  "filewrjobshort f j s =
     (case filewrites f j [sizeof_int, sizeof_Jobrec] s of
        (False, s1) \<Rightarrow> (False, s1)
      | (True, s1) \<Rightarrow>
          (True, if r_state (job_st s1 j) = Invalid then filermjob (j_file (job_st s1 j)) j s1 else s1))"

definition tube_name_len :: "addr \<Rightarrow> server \<Rightarrow> int" where
  "tube_name_len j s = int (length (t_name (tube_st s (the (j_tube (job_st s j))))))"

definition filewrjobfull :: "addr \<Rightarrow> addr \<Rightarrow> server \<Rightarrow> bool \<times> server" where
  "filewrjobfull f j s =
     (let s1 = fileaddjob f j s
      in filewrites f j [sizeof_int, tube_name_len j s1, sizeof_Jobrec, r_body_size (job_st s1 j)] s1)"

definition filewclose :: "addr option \<Rightarrow> server \<Rightarrow> server" where
  "filewclose fp s =
     (case fp of
        None \<Rightarrow> s
      | Some f \<Rightarrow>
          if \<not> iswopen (file_st s f) then s
          else filedecref (Some f) (upd_file f (\<lambda>x. x\<lparr>iswopen := False\<rparr>) s))"

definition fileadd :: "addr \<Rightarrow> server \<Rightarrow> server" where
  "fileadd f = upd_wal (\<lambda>w. w\<lparr>wal_files := wal_files w @ [f], nfile := nfile w + 1\<rparr>)"

section \<open>Reserving space\<close>

text \<open>The file after \<open>f\<close> in the chain.\<close>

fun next_file :: "addr list \<Rightarrow> addr \<Rightarrow> addr option" where
  "next_file (x # y # zs) f = (if x = f then Some y else next_file (y # zs) f)"
| "next_file _ f = None"

definition usenext :: "server \<Rightarrow> bool \<times> server" where
  "usenext s =
     (case next_file (wal_files (wal s)) (the (wal_cur (wal s))) of
        None \<Rightarrow> (False, s)
      | Some g \<Rightarrow> (True, filewclose (wal_cur (wal s)) (upd_wal (\<lambda>w. w\<lparr>wal_cur := Some g\<rparr>) s)))"

definition makenextfile :: "server \<Rightarrow> bool \<times> server" where
  "makenextfile s =
     (case malloc s of
        (False, s1) \<Rightarrow> (False, s1)
      | (True, s1) \<Rightarrow>
          (case malloc s1 of
             (False, s2) \<Rightarrow> (False, s2)
           | (True, s2) \<Rightarrow>
               let f = file_brk s2;
                   s3 = s2\<lparr>file_brk := f + 1,
                           file_st := (file_st s2)(f := zero_file\<lparr>f_seq := wal_next (wal s2)\<rparr>)\<rparr>;
                   s4 = filewopen f s3
               in if \<not> iswopen (file_st s4 f) then (False, s4)
                  else (True, fileadd f (upd_wal (\<lambda>w. w\<lparr>wal_next := wal_next w + 1\<rparr>) s4))))"

definition moveresv :: "addr \<Rightarrow> addr \<Rightarrow> int \<Rightarrow> server \<Rightarrow> server" where
  "moveresv to from n s =
     upd_file to (\<lambda>x. x\<lparr>f_resv := f_resv x + n, f_free := f_free x - n\<rparr>)
       (upd_file from (\<lambda>x. x\<lparr>f_resv := f_resv x - n, f_free := f_free x + n\<rparr>) s)"

definition needfree :: "int \<Rightarrow> server \<Rightarrow> int \<times> server" where
  "needfree n s =
     (if f_free (file_st s (wal_tail s)) \<ge> n then (n, s)
      else case makenextfile s of (True, s1) \<Rightarrow> (n, s1) | (False, s1) \<Rightarrow> (0, s1))"

abbreviation rec_size :: int where "rec_size \<equiv> sizeof_int + sizeof_Jobrec"

text \<open>
  The recursion of \<open>balancerest\<close> walks the chain, which it may extend; \<open>n\<close> bounds the number of
  calls. Running out of the bound is reported as a failure; \<open>balancerest_succeeds\<close> shows that it does not happen when there is room for
  the moves. \<open>rem_c\<close> is the C remainder.
\<close>

definition rem_c :: "int \<Rightarrow> int \<Rightarrow> int" where
  "rem_c a b = sgn a * (\<bar>a\<bar> mod \<bar>b\<bar>)"

fun balancerest :: "nat \<Rightarrow> addr option \<Rightarrow> int \<Rightarrow> server \<Rightarrow> bool \<times> server" where
  "balancerest k None n s = (True, s)"
| "balancerest 0 (Some b) n s = (False, s)"
| "balancerest (Suc k) (Some b) n s =
     (let rest = f_resv (file_st s b) - n;
          r = rem_c rest rec_size
      in if r = 0 then balancerest k (next_file (wal_files (wal s)) b) 0 s
         else let c = rec_size - r
              in if f_resv (file_st s (wal_tail s)) \<ge> c \<and> f_free (file_st s b) \<ge> c
                 then let s1 = moveresv b (wal_tail s) c s
                      in balancerest k (next_file (wal_files (wal s1)) b) 0 s1
                 else case needfree r s of
                        (m, s1) \<Rightarrow>
                          if m \<noteq> r then (False, s1)
                          else let s2 = moveresv (wal_tail s1) b r s1
                               in balancerest k (next_file (wal_files (wal s2)) b) 0 s2)"

fun balance_loop :: "nat \<Rightarrow> int \<Rightarrow> server \<Rightarrow> bool \<times> server" where
  "balance_loop 0 n s = (f_resv (file_st s (the (wal_cur (wal s)))) \<ge> n, s)"
| "balance_loop (Suc k) n s =
     (let m = f_resv (file_st s (the (wal_cur (wal s))))
      in if m \<ge> n then (True, s)
         else case needfree m s of
                (r, s1) \<Rightarrow>
                  if r \<noteq> m then (False, s1)
                  else let s2 = moveresv (wal_tail s1) (the (wal_cur (wal s1))) m s1
                       in balance_loop k n (snd (usenext s2)))"

definition balance :: "int \<Rightarrow> server \<Rightarrow> bool \<times> server" where
  "balance n s =
     (case balance_loop (Suc (length (wal_files (wal s)))) n s of
        (False, s1) \<Rightarrow> (False, s1)
      | (True, s1) \<Rightarrow> balancerest (length (wal_files (wal s1)) + 2) (wal_cur (wal s1)) n s1)"

definition reserve :: "int \<Rightarrow> server \<Rightarrow> int \<times> server" where
  "reserve n s =
     (if \<not> wal_use (wal s) then (1, s)
      else let cur = the (wal_cur (wal s))
           in if f_free (file_st s cur) \<ge> n
              then (n, upd_wal (\<lambda>w. w\<lparr>wal_resv := wal_resv w + n\<rparr>)
                        (upd_file cur (\<lambda>x. x\<lparr>f_free := f_free x - n, f_resv := f_resv x + n\<rparr>) s))
              else case needfree n s of
                     (r, s1) \<Rightarrow>
                       if r \<noteq> n then (0, s1)
                       else let s2 = upd_wal (\<lambda>w. w\<lparr>wal_resv := wal_resv w + n\<rparr>)
                                  (upd_file (wal_tail s1)
                                    (\<lambda>x. x\<lparr>f_free := f_free x - n, f_resv := f_resv x + n\<rparr>) s1)
                            in case balance n s2 of
                                 (True, s3) \<Rightarrow> (n, s3)
                               | (False, s3) \<Rightarrow>
                                   (0, upd_file (wal_tail s3)
                                         (\<lambda>x. x\<lparr>f_resv := f_resv x - n, f_free := f_free x + n\<rparr>)
                                         (upd_wal (\<lambda>w. w\<lparr>wal_resv := wal_resv w - n\<rparr>) s3)))"

definition walresvput :: "addr \<Rightarrow> server \<Rightarrow> int \<times> server" where
  "walresvput j s =
     reserve (sizeof_int + tube_name_len j s + sizeof_Jobrec + r_body_size (job_st s j)
              + sizeof_int + sizeof_Jobrec) s"

definition walresvupdate :: "server \<Rightarrow> int \<times> server" where
  "walresvupdate s = reserve (sizeof_int + sizeof_Jobrec) s"

definition walresvmigrate :: "addr \<Rightarrow> server \<Rightarrow> int \<times> server" where
  "walresvmigrate j s =
     reserve (sizeof_int + tube_name_len j s + sizeof_Jobrec + r_body_size (job_st s j)) s"

section \<open>Writing and maintenance\<close>

definition walwrite :: "addr \<Rightarrow> server \<Rightarrow> bool \<times> server" where
  "walwrite j s =
     (if \<not> wal_use (wal s) then (True, s)
      else let (go, s1) = (if f_resv (file_st s (the (wal_cur (wal s)))) > 0 then (True, s) else usenext s);
               (r, s2) = (if \<not> go then (False, s1)
                          else if j_file (job_st s1 j) \<noteq> None
                          then filewrjobshort (the (wal_cur (wal s1))) j s1
                          else filewrjobfull (the (wal_cur (wal s1))) j s1);
               s3 = (if \<not> r then upd_wal (\<lambda>w. w\<lparr>wal_use := False\<rparr>) (filewclose (wal_cur (wal s2)) s2) else s2)
           in (r, upd_wal (\<lambda>w. w\<lparr>nrec := nrec w + 1\<rparr>) s3))"

definition ratio :: "server \<Rightarrow> int" where
  "ratio s =
     (let d = alive (wal s) + wal_resv (wal s);
          n = nfile (wal s) * filesize (wal s) - d
      in if d = 0 then 0 else sgn n * sgn d * (\<bar>n\<bar> div \<bar>d\<bar>))"

definition moveone :: "server \<Rightarrow> server" where
  "moveone s =
     (let fs = wal_files (wal s);
          cur = the (wal_cur (wal s));
          head = hd fs
      in if head = cur \<or> next_file fs head = Some cur then s
         else case f_jlist (file_st s head) of
                [] \<Rightarrow> s
              | j # _ \<Rightarrow>
                  (case walresvmigrate j s of
                     (z, s1) \<Rightarrow>
                       if z = 0 then s1
                       else let s2 = filermjob (Some head) j s1;
                                s3 = upd_wal (\<lambda>w. w\<lparr>nmig := nmig w + 1\<rparr>) s2
                            in snd (walwrite j s3)))"

definition walcompact :: "server \<Rightarrow> server" where
  "walcompact s = (moveone ^^ nat (ratio s - 1)) s"

definition walsync :: "server \<Rightarrow> server" where
  "walsync s =
     (case nanoseconds s of
        (t, s1) \<Rightarrow>
          if wantsync (wal s1) \<and> t \<ge> lastsync (wal s1) + syncrate (wal s1)
          then snd (syscall (upd_wal (\<lambda>w. w\<lparr>lastsync := t\<rparr>) s1))
          else s1)"

definition walmaint :: "server \<Rightarrow> server" where
  "walmaint s = (if wal_use (wal s) then walsync (walcompact s) else s)"

end
