(* ===== verification/Bean_Conn.thy ===== *)
theory Bean_Conn
  imports Bean_Wal
begin

text \<open>
  Connections (\<open>conn.c\<close>) and the part of \<open>prot.c\<close> that answers them: scheduling in the heap
  \<open>srv.conns\<close>, the reserved jobs of a connection, the waiting sets of the tubes, and replies.
  \<open>connclose\<close> is in \<open>Bean_Queue\<close> because it returns reserved jobs to their queues.
\<close>

section \<open>Connections\<close>

abbreviation SAFETY_MARGIN :: int where "SAFETY_MARGIN \<equiv> 1000000000"

definition on_watch :: "addr \<Rightarrow> nat \<Rightarrow> server \<Rightarrow> server" where
  "on_watch t i s = upd_tube t (\<lambda>x. x\<lparr>watching_ct := watching_ct x + 1\<rparr>) (tube_iref (Some t) s)"

definition on_ignore :: "addr \<Rightarrow> nat \<Rightarrow> server \<Rightarrow> server" where
  "on_ignore t i s = tube_dref (Some t) (upd_tube t (\<lambda>x. x\<lparr>watching_ct := watching_ct x - 1\<rparr>) s)"

definition make_conn :: "int \<Rightarrow> cstate \<Rightarrow> addr \<Rightarrow> addr \<Rightarrow> server \<Rightarrow> addr option \<times> server" where
  "make_conn fd start_state use wt s =
     (case malloc s of
        (False, s1) \<Rightarrow> (None, s1)
      | (True, s1) \<Rightarrow>
          let c = brk s1;
              s2 = s1\<lparr>brk := c + 1, conn_st := (conn_st s1)(c := zero_conn), live_conns := insert c (live_conns s1)\<rparr>
          in case ms_append (Some on_watch) malloc (watch (conn_st s2 c)) s2 wt of
               (False, w, s3) \<Rightarrow> (None, s3\<lparr>live_conns := live_conns s3 - {c}\<rparr>)
             | (True, w, s3) \<Rightarrow>
                 let s4 = upd_conn c (\<lambda>x. x\<lparr>watch := w\<rparr>) s3;
                     s5 = tube_dref (c_use (conn_st s4 c)) s4;
                     s6 = tube_iref (Some use) (upd_conn c (\<lambda>x. x\<lparr>c_use := Some use\<rparr>) s5);
                     s7 = upd_tube use (\<lambda>x. x\<lparr>using_ct := using_ct x + 1\<rparr>) s6;
                     s8 = upd_conn c (\<lambda>x. x\<lparr>c_state := start_state, pending_timeout := - 1,
                                            tickpos := 0, in_conns := False\<rparr>) s7;
                     s9 = s8\<lparr>lists := (lists s8)\<lparr>jl_items := (jl_items (lists s8))(LReserved c := [])\<rparr>\<rparr>
                 in (Some c, s9\<lparr>cur_conn_ct := cur_conn_ct s9 + 1, tot_conn_ct := tot_conn_ct s9 + 1\<rparr>))"

definition connsetproducer :: "addr \<Rightarrow> server \<Rightarrow> server" where
  "connsetproducer c s =
     (if type_producer (conn_st s c) then s
      else (upd_conn c (\<lambda>x. x\<lparr>type_producer := True\<rparr>) s)\<lparr>cur_producer_ct := cur_producer_ct s + 1\<rparr>)"

definition connsetworker :: "addr \<Rightarrow> server \<Rightarrow> server" where
  "connsetworker c s =
     (if type_worker (conn_st s c) then s
      else (upd_conn c (\<lambda>x. x\<lparr>type_worker := True\<rparr>) s)\<lparr>cur_worker_ct := cur_worker_ct s + 1\<rparr>)"

definition has_reserved_job :: "addr \<Rightarrow> server \<Rightarrow> bool" where
  "has_reserved_job c s = (\<not> jl_is_empty (lists s) (LReserved c))"

definition conn_set_soonestjob :: "addr \<Rightarrow> addr \<Rightarrow> server \<Rightarrow> server" where
  "conn_set_soonestjob c j s =
     (case soonest_job (conn_st s c) of
        None \<Rightarrow> upd_conn c (\<lambda>x. x\<lparr>soonest_job := Some j\<rparr>) s
      | Some k \<Rightarrow>
          if r_deadline_at (job_st s j) < r_deadline_at (job_st s k)
          then upd_conn c (\<lambda>x. x\<lparr>soonest_job := Some j\<rparr>) s else s)"

definition connsoonestjob :: "addr \<Rightarrow> server \<Rightarrow> addr option \<times> server" where
  "connsoonestjob c s =
     (case soonest_job (conn_st s c) of
        Some j \<Rightarrow> (Some j, s)
      | None \<Rightarrow>
          let s1 = fold (conn_set_soonestjob c) (jl_items (lists s) (LReserved c)) s
          in (soonest_job (conn_st s1 c), s1))"

definition conntickat :: "addr \<Rightarrow> server \<Rightarrow> int \<times> server" where
  "conntickat c s =
     (let margin = (if type_waiting (conn_st s c) then SAFETY_MARGIN else 0);
          (t, should_timeout, s1) =
            (if has_reserved_job c s
             then case connsoonestjob c s of
                    (j, s') \<Rightarrow> (case nanoseconds s' of
                       (nw, s'') \<Rightarrow> (r_deadline_at (job_st s' (the j)) - nw - margin, True, s''))
             else (2 ^ 63 - 1, False, s));
          (t, should_timeout) =
            (if pending_timeout (conn_st s1 c) \<ge> 0
             then (min t (pending_timeout (conn_st s1 c) * 1000000000), True)
             else (t, should_timeout))
      in if should_timeout then (case nanoseconds s1 of (nw, s2) \<Rightarrow> (nw + t, s2)) else (0, s1))"

definition conns_remove :: "addr \<Rightarrow> server \<Rightarrow> server" where
  "conns_remove c s =
     (case heapremove conn_less conn_setpos (conns s) s (tickpos (conn_st s c)) of
        (_, h, s1) \<Rightarrow> upd_conn c (\<lambda>x. x\<lparr>in_conns := False\<rparr>) (s1\<lparr>conns := h\<rparr>))"

definition connsched :: "addr \<Rightarrow> server \<Rightarrow> server" where
  "connsched c s =
     (let s1 = (if in_conns (conn_st s c) then conns_remove c s else s);
          (t, s2) = conntickat c s1;
          s3 = upd_conn c (\<lambda>x. x\<lparr>tickat := t\<rparr>) s2
      in if t \<noteq> 0
         then case heapinsert conn_less conn_setpos malloc (conns s3) s3 c of
                (_, h, s4) \<Rightarrow> upd_conn c (\<lambda>x. x\<lparr>in_conns := True\<rparr>) (s4\<lparr>conns := h\<rparr>)
         else s3)"

definition conn_reserve_job :: "addr \<Rightarrow> addr \<Rightarrow> server \<Rightarrow> server" where
  "conn_reserve_job c j s =
     (let s1 = upd_stat (the (j_tube (job_st s j))) (\<lambda>x. x\<lparr>reserved_ct := reserved_ct x + 1\<rparr>) s;
          s2 = upd_job j (\<lambda>x. x\<lparr>r_reserve_ct := r_reserve_ct x + 1\<rparr>) s1;
          (t, s3) = nanoseconds s2;
          s4 = upd_job j (\<lambda>x. x\<lparr>r_deadline_at := t + r_ttr x, r_state := Reserved\<rparr>) s3;
          s5 = list_insert (LReserved c) j s4;
          s6 = upd_job j (\<lambda>x. x\<lparr>reserver := Some c\<rparr>) s5;
          s7 = upd_conn c (\<lambda>x. x\<lparr>pending_timeout := - 1\<rparr>) s6
      in conn_set_soonestjob c j s7)"

definition conndeadlinesoon :: "addr \<Rightarrow> server \<Rightarrow> bool \<times> server" where
  "conndeadlinesoon c s =
     (case nanoseconds s of
        (t, s1) \<Rightarrow> (case connsoonestjob c s1 of
          (jo, s2) \<Rightarrow> (case jo of
             None \<Rightarrow> (False, s2)
           | Some j \<Rightarrow> (t \<ge> r_deadline_at (job_st s2 j) - SAFETY_MARGIN, s2))))"

definition conn_ready :: "addr \<Rightarrow> server \<Rightarrow> bool" where
  "conn_ready c s = list_ex (\<lambda>t. heap_len (ready (tube_st s t)) \<noteq> 0) (ms_items (watch (conn_st s c)))"

section \<open>Replies and the waiting sets\<close>

definition epollq_add :: "addr \<Rightarrow> char \<Rightarrow> server \<Rightarrow> server" where
  "epollq_add c rw s =
     (let s1 = upd_conn c (\<lambda>x. x\<lparr>c_rw := rw\<rparr>) s;
          s2 = connsched c s1;
          s3 = upd_conn c (\<lambda>x. x\<lparr>c_next := epollq s2\<rparr>) s2
      in s3\<lparr>epollq := Some c\<rparr>)"

definition reply :: "addr \<Rightarrow> string \<Rightarrow> cstate \<Rightarrow> server \<Rightarrow> server" where
  "reply c line st s =
     upd_conn c (\<lambda>x. x\<lparr>c_reply := line, reply_sent := 0, c_state := st\<rparr>) (epollq_add c CHR ''w'' s)"

abbreviation crlf :: string where "crlf \<equiv> [CR, LF]"

definition reply_msg :: "addr \<Rightarrow> string \<Rightarrow> server \<Rightarrow> server" where
  "reply_msg c m = reply c (m @ crlf) STATE_SEND_WORD"

definition reply_line :: "addr \<Rightarrow> cstate \<Rightarrow> string \<Rightarrow> server \<Rightarrow> server" where
  "reply_line c st line s =
     (if length line \<ge> LINE_BUF_SIZE then reply_msg c ''INTERNAL_ERROR'' s else reply c line st s)"

definition reply_job :: "addr \<Rightarrow> addr \<Rightarrow> string \<Rightarrow> server \<Rightarrow> server" where
  "reply_job c j msg s =
     reply_line c STATE_SEND_JOB
       (msg @ '' '' @ fmt_dec (unat (r_id (job_st s j))) @ '' ''
         @ fmt_dec (nat ((r_body_size (job_st s j) - 2) mod 2 ^ 32)) @ crlf)
       (upd_conn c (\<lambda>x. x\<lparr>out_job := Some j, out_job_sent := 0\<rparr>) s)"

definition unwait_tube :: "addr \<Rightarrow> addr \<Rightarrow> server \<Rightarrow> server" where
  "unwait_tube c t s =
     upd_tube t (\<lambda>x. x\<lparr>waiting_conns := fst (snd (ms_remove None (waiting_conns x) () c))\<rparr>)
       (upd_stat t (\<lambda>x. x\<lparr>waiting_ct := waiting_ct x - 1\<rparr>) s)"

definition remove_waiting_conn :: "addr \<Rightarrow> server \<Rightarrow> server" where
  "remove_waiting_conn c s =
     (if \<not> type_waiting (conn_st s c) then s
      else let s1 = upd_conn c (\<lambda>x. x\<lparr>type_waiting := False\<rparr>) s;
               s2 = s1\<lparr>global_stat := (global_stat s1)\<lparr>waiting_ct := waiting_ct (global_stat s1) - 1\<rparr>\<rparr>
           in fold (unwait_tube c) (ms_items (watch (conn_st s2 c))) s2)"

definition wait_tube :: "addr \<Rightarrow> addr \<Rightarrow> server \<Rightarrow> server" where
  "wait_tube c t s =
     (let s1 = upd_stat t (\<lambda>x. x\<lparr>waiting_ct := waiting_ct x + 1\<rparr>) s
      in case ms_append None malloc (waiting_conns (tube_st s1 t)) s1 c of
           (_, w, s2) \<Rightarrow> upd_tube t (\<lambda>x. x\<lparr>waiting_conns := w\<rparr>) s2)"

definition enqueue_waiting_conn :: "addr \<Rightarrow> server \<Rightarrow> server" where
  "enqueue_waiting_conn c s =
     (let s1 = upd_conn c (\<lambda>x. x\<lparr>type_waiting := True\<rparr>) s;
          s2 = s1\<lparr>global_stat := (global_stat s1)\<lparr>waiting_ct := waiting_ct (global_stat s1) + 1\<rparr>\<rparr>
      in fold (wait_tube c) (ms_items (watch (conn_st s2 c))) s2)"

definition wait_for_job :: "addr \<Rightarrow> int \<Rightarrow> server \<Rightarrow> server" where
  "wait_for_job c timeout s =
     (let s1 = upd_conn c (\<lambda>x. x\<lparr>c_state := STATE_WAIT\<rparr>) s;
          s2 = enqueue_waiting_conn c s1;
          s3 = upd_conn c (\<lambda>x. x\<lparr>pending_timeout := timeout\<rparr>) s2
      in epollq_add c CHR ''h'' s3)"

end
