(* ===== verification/Bean_Queue.thy ===== *)
theory Bean_Queue
  imports Bean_Conn
begin

text \<open>
  The queues of \<open>prot.c\<close>: handing ready jobs to waiting connections, putting jobs into the ready and
  delay heaps and the buried lists, taking them out again, and closing a connection.
\<close>

section \<open>Handing out ready jobs\<close>

abbreviation URGENT_THRESHOLD :: u32 where "URGENT_THRESHOLD \<equiv> 1024"

definition upd_global :: "(stats \<Rightarrow> stats) \<Rightarrow> server \<Rightarrow> server" where
  "upd_global f s = s\<lparr>global_stat := f (global_stat s)\<rparr>"

definition awaited_step :: "int \<Rightarrow> addr \<Rightarrow> addr option \<times> server \<Rightarrow> addr option \<times> server" where
  "awaited_step nw t js =
     (let (j, s) = js
      in if pause (tube_st s t) \<noteq> 0 \<and> unpause_at (tube_st s t) > nw then (j, s)
         else let s1 = (if pause (tube_st s t) \<noteq> 0 then upd_tube t (\<lambda>x. x\<lparr>pause := 0\<rparr>) s else s);
                  x = tube_st s1 t
              in if ms_items (waiting_conns x) \<noteq> [] \<and> heap_len (ready x) \<noteq> 0
                 then let candidate = heap_data (ready x) ! 0
                      in if j = None \<or> job_pri_less s1 candidate (the j) then (Some candidate, s1)
                         else (j, s1)
                 else (j, s1))"

definition next_awaited_job :: "int \<Rightarrow> server \<Rightarrow> addr option \<times> server" where
  "next_awaited_job nw s = fold (awaited_step nw) (ms_items (tubes s)) (None, s)"

definition ready_remove :: "addr \<Rightarrow> server \<Rightarrow> server" where
  "ready_remove j s =
     (let t = the (j_tube (job_st s j))
      in case heapremove job_pri_less job_setpos (ready (tube_st s t)) s (heap_index (job_st s j)) of
           (_, h, s1) \<Rightarrow> upd_tube t (\<lambda>x. x\<lparr>ready := h\<rparr>) s1)"

definition delay_remove :: "addr \<Rightarrow> server \<Rightarrow> server" where
  "delay_remove j s =
     (let t = the (j_tube (job_st s j))
      in case heapremove job_delay_less job_setpos (delay (tube_st s t)) s (heap_index (job_st s j)) of
           (_, h, s1) \<Rightarrow> upd_tube t (\<lambda>x. x\<lparr>delay := h\<rparr>) s1)"

definition remove_ready_job :: "addr option \<Rightarrow> server \<Rightarrow> addr option \<times> server" where
  "remove_ready_job jp s =
     (case jp of
        None \<Rightarrow> (None, s)
      | Some j \<Rightarrow>
          if r_state (job_st s j) \<noteq> Ready then (None, s)
          else let s1 = ready_remove j s;
                   s2 = s1\<lparr>ready_ct := ready_ct s1 - 1\<rparr>
               in (Some j,
                   if r_pri (job_st s2 j) < URGENT_THRESHOLD
                   then upd_stat (the (j_tube (job_st s2 j))) (\<lambda>x. x\<lparr>urgent_ct := urgent_ct x - 1\<rparr>)
                          (upd_global (\<lambda>x. x\<lparr>urgent_ct := urgent_ct x - 1\<rparr>) s2)
                   else s2))"

text \<open>
  One iteration of \<open>process_queue\<close> after a job has been found. The loop is bounded by the number
  of ready jobs; \<open>process_queue_exhausts\<close> shows that this is enough.
\<close>

definition process_one :: "addr \<Rightarrow> server \<Rightarrow> server" where
  "process_one j s =
     (case remove_ready_job (Some j) s of
        (None, s1) \<Rightarrow> s1
      | (Some j, s1) \<Rightarrow>
          let t = the (j_tube (job_st s1 j))
          in case ms_take None (waiting_conns (tube_st s1 t)) () of
               (co, w, _) \<Rightarrow>
                 let s2 = upd_tube t (\<lambda>x. x\<lparr>waiting_conns := w\<rparr>) s1
                 in case co of
                      None \<Rightarrow> s2
                    | Some c \<Rightarrow>
                        let s3 = upd_global (\<lambda>x. x\<lparr>reserved_ct := reserved_ct x + 1\<rparr>) s2;
                            s4 = remove_waiting_conn c s3;
                            s5 = conn_reserve_job c j s4
                        in reply_job c j ''RESERVED'' s5)"

fun process_loop :: "nat \<Rightarrow> int \<Rightarrow> server \<Rightarrow> server" where
  "process_loop 0 nw s = s"
| "process_loop (Suc n) nw s =
     (case next_awaited_job nw s of
        (None, s1) \<Rightarrow> s1
      | (Some j, s1) \<Rightarrow> process_loop n nw (process_one j s1))"

definition ready_total :: "server \<Rightarrow> nat" where
  "ready_total s = sum_list (map (\<lambda>t. heap_len (ready (tube_st s t))) (ms_items (tubes s)))"

definition process_queue :: "server \<Rightarrow> server" where
  "process_queue s = (case nanoseconds s of (nw, s1) \<Rightarrow> process_loop (Suc (ready_total s1)) nw s1)"

definition soonest_delayed_job :: "server \<Rightarrow> addr option" where
  "soonest_delayed_job s =
     fold (\<lambda>t j. if heap_len (delay (tube_st s t)) = 0 then j
                 else let nj = heap_data (delay (tube_st s t)) ! 0
                      in if j = None \<or> r_deadline_at (job_st s nj) < r_deadline_at (job_st s (the j))
                         then Some nj else j)
       (ms_items (tubes s)) None"

section \<open>Putting jobs into the queues\<close>

definition ready_insert :: "addr \<Rightarrow> server \<Rightarrow> bool \<times> server" where
  "ready_insert j s =
     (let t = the (j_tube (job_st s j))
      in case heapinsert job_pri_less job_setpos malloc (ready (tube_st s t)) s j of
           (r, h, s1) \<Rightarrow> (r, upd_tube t (\<lambda>x. x\<lparr>ready := h\<rparr>) s1))"

definition delay_insert :: "addr \<Rightarrow> server \<Rightarrow> bool \<times> server" where
  "delay_insert j s =
     (let t = the (j_tube (job_st s j))
      in case heapinsert job_delay_less job_setpos malloc (delay (tube_st s t)) s j of
           (r, h, s1) \<Rightarrow> (r, upd_tube t (\<lambda>x. x\<lparr>delay := h\<rparr>) s1))"

definition place_job :: "addr \<Rightarrow> int \<Rightarrow> server \<Rightarrow> bool \<times> server" where
  "place_job j dly s =
     (let s0 = upd_job j (\<lambda>x. x\<lparr>reserver := None\<rparr>) s
      in if dly \<noteq> 0
         then let (t, s1) = nanoseconds s0;
                  s2 = upd_job j (\<lambda>x. x\<lparr>r_deadline_at := t + dly\<rparr>) s1
              in case delay_insert j s2 of
                   (False, s3) \<Rightarrow> (False, s3)
                 | (True, s3) \<Rightarrow> (True, upd_job j (\<lambda>x. x\<lparr>r_state := Delayed\<rparr>) s3)
         else case ready_insert j s0 of
                (False, s1) \<Rightarrow> (False, s1)
              | (True, s1) \<Rightarrow>
                  let s2 = upd_job j (\<lambda>x. x\<lparr>r_state := Ready\<rparr>) s1;
                      s3 = s2\<lparr>ready_ct := ready_ct s2 + 1\<rparr>
                  in (True,
                      if r_pri (job_st s3 j) < URGENT_THRESHOLD
                      then upd_stat (the (j_tube (job_st s3 j))) (\<lambda>x. x\<lparr>urgent_ct := urgent_ct x + 1\<rparr>)
                             (upd_global (\<lambda>x. x\<lparr>urgent_ct := urgent_ct x + 1\<rparr>) s3)
                      else s3))"

definition enqueue_job :: "addr \<Rightarrow> int \<Rightarrow> bool \<Rightarrow> server \<Rightarrow> bool \<times> server" where
  "enqueue_job j dly update_store s =
     (case place_job j dly s of
        (False, s1) \<Rightarrow> (False, s1)
      | (True, s1) \<Rightarrow>
          if update_store
          then (case walwrite j s1 of
                  (False, s2) \<Rightarrow> (False, s2)
                | (True, s2) \<Rightarrow> (True, process_queue (walmaint s2)))
          else (True, process_queue s1))"

definition bury_list :: "addr \<Rightarrow> server \<Rightarrow> server" where
  "bury_list j s =
     (let t = the (j_tube (job_st s j));
          s1 = list_insert (LBuried t) j s;
          s2 = upd_global (\<lambda>x. x\<lparr>buried_ct := buried_ct x + 1\<rparr>) s1;
          s3 = upd_stat t (\<lambda>x. x\<lparr>buried_ct := buried_ct x + 1\<rparr>) s2
      in upd_job j (\<lambda>x. x\<lparr>r_state := Buried, reserver := None, r_bury_ct := r_bury_ct x + 1\<rparr>) s3)"

definition bury_job :: "addr \<Rightarrow> bool \<Rightarrow> server \<Rightarrow> bool \<times> server" where
  "bury_job j update_store s =
     (if update_store
      then case walresvupdate s of
             (z, s1) \<Rightarrow>
               if z = 0 then (False, s1)
               else let s2 = bury_list j (upd_job j (\<lambda>x. x\<lparr>walresv := walresv x + z\<rparr>) s1)
                    in case walwrite j s2 of
                         (False, s3) \<Rightarrow> (False, s3)
                       | (True, s3) \<Rightarrow> (True, walmaint s3)
      else (True, bury_list j s))"

section \<open>Taking jobs out of the queues\<close>

definition remove_buried_job :: "addr option \<Rightarrow> server \<Rightarrow> addr option \<times> server" where
  "remove_buried_job jp s =
     (case jp of
        None \<Rightarrow> (None, s)
      | Some j \<Rightarrow>
          if r_state (job_st s j) \<noteq> Buried then (None, s)
          else case list_remove j s of
                 (False, s1) \<Rightarrow> (None, s1)
               | (True, s1) \<Rightarrow>
                   (Some j, upd_stat (the (j_tube (job_st s1 j))) (\<lambda>x. x\<lparr>buried_ct := buried_ct x - 1\<rparr>)
                              (upd_global (\<lambda>x. x\<lparr>buried_ct := buried_ct x - 1\<rparr>) s1)))"

definition remove_delayed_job :: "addr option \<Rightarrow> server \<Rightarrow> addr option \<times> server" where
  "remove_delayed_job jp s =
     (case jp of
        None \<Rightarrow> (None, s)
      | Some j \<Rightarrow> if r_state (job_st s j) \<noteq> Delayed then (None, s) else (Some j, delay_remove j s))"

definition is_job_reserved_by_conn :: "addr \<Rightarrow> addr option \<Rightarrow> server \<Rightarrow> bool" where
  "is_job_reserved_by_conn c jp s =
     (case jp of
        None \<Rightarrow> False
      | Some j \<Rightarrow> reserver (job_st s j) = Some c \<and> r_state (job_st s j) = Reserved)"

definition touch_job :: "addr \<Rightarrow> addr option \<Rightarrow> server \<Rightarrow> bool \<times> server" where
  "touch_job c jp s =
     (if is_job_reserved_by_conn c jp s
      then let j = the jp;
               (t, s1) = nanoseconds s
           in (True, upd_conn c (\<lambda>x. x\<lparr>soonest_job := None\<rparr>)
                       (upd_job j (\<lambda>x. x\<lparr>r_deadline_at := t + r_ttr x\<rparr>) s1))
      else (False, s))"

definition remove_this_reserved_job :: "addr \<Rightarrow> addr \<Rightarrow> server \<Rightarrow> addr option \<times> server" where
  "remove_this_reserved_job c j s =
     (case list_remove j s of
        (False, s1) \<Rightarrow> (None, upd_conn c (\<lambda>x. x\<lparr>soonest_job := None\<rparr>) s1)
      | (True, s1) \<Rightarrow>
          let s2 = upd_global (\<lambda>x. x\<lparr>reserved_ct := reserved_ct x - 1\<rparr>) s1;
              s3 = upd_stat (the (j_tube (job_st s2 j))) (\<lambda>x. x\<lparr>reserved_ct := reserved_ct x - 1\<rparr>) s2;
              s4 = upd_job j (\<lambda>x. x\<lparr>reserver := None\<rparr>) s3
          in (Some j, upd_conn c (\<lambda>x. x\<lparr>soonest_job := None\<rparr>) s4))"

definition remove_reserved_job :: "addr \<Rightarrow> addr option \<Rightarrow> server \<Rightarrow> addr option \<times> server" where
  "remove_reserved_job c jp s =
     (if \<not> is_job_reserved_by_conn c jp s then (None, s) else remove_this_reserved_job c (the jp) s)"

section \<open>Kicking\<close>

definition kick_buried_job :: "addr \<Rightarrow> server \<Rightarrow> bool \<times> server" where
  "kick_buried_job j s =
     (case walresvupdate s of
        (z, s1) \<Rightarrow>
          if z = 0 then (False, s1)
          else let s2 = upd_job j (\<lambda>x. x\<lparr>walresv := walresv x + z\<rparr>) s1;
                   s3 = snd (remove_buried_job (Some j) s2);
                   s4 = upd_job j (\<lambda>x. x\<lparr>r_kick_ct := r_kick_ct x + 1\<rparr>) s3
               in case enqueue_job j 0 True s4 of
                    (True, s5) \<Rightarrow> (True, s5)
                  | (False, s5) \<Rightarrow> (False, snd (bury_job j False s5)))"

definition kick_delayed_job :: "addr \<Rightarrow> server \<Rightarrow> bool \<times> server" where
  "kick_delayed_job j s =
     (case walresvupdate s of
        (z, s1) \<Rightarrow>
          if z = 0 then (False, s1)
          else let s2 = upd_job j (\<lambda>x. x\<lparr>walresv := walresv x + z\<rparr>) s1;
                   s3 = delay_remove j s2;
                   s4 = upd_job j (\<lambda>x. x\<lparr>r_kick_ct := r_kick_ct x + 1\<rparr>) s3
               in case enqueue_job j 0 True s4 of
                    (True, s5) \<Rightarrow> (True, s5)
                  | (False, s5) \<Rightarrow>
                      (case enqueue_job j (r_delay (job_st s5 j)) False s5 of
                         (True, s6) \<Rightarrow> (False, s6)
                       | (False, s6) \<Rightarrow> (False, snd (bury_job j False s6))))"

definition buried_job_p :: "addr \<Rightarrow> server \<Rightarrow> bool" where
  "buried_job_p t s = (\<not> jl_is_empty (lists s) (LBuried t))"

primrec kick_buried_jobs :: "nat \<Rightarrow> addr \<Rightarrow> server \<Rightarrow> nat \<times> server" where
  "kick_buried_jobs 0 t s = (0, s)"
| "kick_buried_jobs (Suc n) t s =
     (if buried_job_p t s
      then case kick_buried_jobs n t (snd (kick_buried_job (hd (jl_items (lists s) (LBuried t))) s)) of
             (i, s1) \<Rightarrow> (Suc i, s1)
      else (0, s))"

primrec kick_delayed_jobs :: "nat \<Rightarrow> addr \<Rightarrow> server \<Rightarrow> nat \<times> server" where
  "kick_delayed_jobs 0 t s = (0, s)"
| "kick_delayed_jobs (Suc n) t s =
     (if heap_len (delay (tube_st s t)) > 0
      then case kick_delayed_jobs n t (snd (kick_delayed_job (heap_data (delay (tube_st s t)) ! 0) s)) of
             (i, s1) \<Rightarrow> (Suc i, s1)
      else (0, s))"

definition kick_jobs :: "addr \<Rightarrow> u32 \<Rightarrow> server \<Rightarrow> nat \<times> server" where
  "kick_jobs t n s =
     (if buried_job_p t s then kick_buried_jobs (unat n) t s else kick_delayed_jobs (unat n) t s)"

section \<open>Closing a connection\<close>

text \<open>The loop of \<open>enqueue_reserved_jobs\<close>; its bound is the number of jobs on the list.\<close>

fun enqueue_reserved_loop :: "nat \<Rightarrow> addr \<Rightarrow> server \<Rightarrow> server" where
  "enqueue_reserved_loop 0 c s = s"
| "enqueue_reserved_loop (Suc n) c s =
     (case jl_items (lists s) (LReserved c) of
        [] \<Rightarrow> s
      | j # _ \<Rightarrow>
          let s1 = snd (list_remove j s);
              (r, s2) = enqueue_job j 0 False s1;
              s3 = (if r then s2 else snd (bury_job j False s2));
              s4 = upd_global (\<lambda>x. x\<lparr>reserved_ct := reserved_ct x - 1\<rparr>) s3;
              s5 = upd_stat (the (j_tube (job_st s4 j))) (\<lambda>x. x\<lparr>reserved_ct := reserved_ct x - 1\<rparr>) s4;
              s6 = upd_conn c (\<lambda>x. x\<lparr>soonest_job := None\<rparr>) s5
          in enqueue_reserved_loop n c s6)"

definition enqueue_reserved_jobs :: "addr \<Rightarrow> server \<Rightarrow> server" where
  "enqueue_reserved_jobs c s =
     enqueue_reserved_loop (length (jl_items (lists s) (LReserved c))) c s"

definition connclose :: "addr \<Rightarrow> server \<Rightarrow> server" where
  "connclose c s =
     (let s0 = snd (syscall s);
          s1 = job_free (in_job (conn_st s0 c)) s0;
          s2 = (case out_job (conn_st s1 c) of
                  Some j \<Rightarrow> if r_state (job_st s1 j) = Copy then job_free (Some j) s1 else s1
                | None \<Rightarrow> s1);
          s3 = upd_conn c (\<lambda>x. x\<lparr>in_job := None, out_job := None, in_job_read := 0\<rparr>) s2;
          s4 = (if type_producer (conn_st s3 c) then s3\<lparr>cur_producer_ct := cur_producer_ct s3 - 1\<rparr> else s3);
          s5 = (if type_worker (conn_st s4 c) then s4\<lparr>cur_worker_ct := cur_worker_ct s4 - 1\<rparr> else s4);
          s6 = s5\<lparr>cur_conn_ct := cur_conn_ct s5 - 1\<rparr>;
          s7 = remove_waiting_conn c s6;
          s8 = (if has_reserved_job c s7 then enqueue_reserved_jobs c s7 else s7);
          (w, s9) = ms_clear (Some on_ignore) (watch (conn_st s8 c)) s8;
          s10 = upd_conn c (\<lambda>x. x\<lparr>watch := w\<rparr>) s9;
          s11 = upd_tube (the (c_use (conn_st s10 c))) (\<lambda>x. x\<lparr>using_ct := using_ct x - 1\<rparr>) s10;
          s12 = tube_dref (c_use (conn_st s11 c)) s11;
          s13 = tube_iref None (upd_conn c (\<lambda>x. x\<lparr>c_use := None\<rparr>) s12);
          s14 = (if in_conns (conn_st s13 c) then conns_remove c s13 else s13)
      in s14\<lparr>live_conns := live_conns s14 - {c}\<rparr>)"

end
