(* ===== verification/Bean_Inv.thy ===== *)
theory Bean_Inv
  imports Bean_Queue
begin

text \<open>
  The invariant of the queues. Every allocated job that is not in flight is in exactly the container
  that its state names: the ready or the delay heap of its tube, the buried list of its tube, or the
  list of the connection that reserved it (\<open>places_ok\<close>); and the counters that \<open>stats\<close> reports
  are the numbers of such jobs (\<open>counts_ok\<close>). The set \<open>X\<close> holds the jobs in flight: a command
  has taken them out of their container and not yet put them into another, or they are not yet
  enqueued at all.
\<close>

section \<open>The view of the queues\<close>

text \<open>What the invariant reads of a job (other than its heap position), of a tube and of the server.\<close>

definition core :: "Job \<Rightarrow> u64 \<times> u32 \<times> int \<times> jstate \<times> addr option \<times> addr option" where
  "core x = (r_id x, r_pri x, r_deadline_at x, r_state x, j_tube x, reserver x)"

definition sview :: "stats \<Rightarrow> u64 \<times> u64 \<times> u64" where
  "sview x = (urgent_ct x, buried_ct x, reserved_ct x)"

definition tview :: "Tube \<Rightarrow> addr Heap \<times> addr Heap \<times> u64 \<times> u64 \<times> u64" where
  "tview x = (ready x, delay x, sview (stat x))"

definition qview where
  "qview s = (live_jobs s, brk s, (\<lambda>j. (core (job_st s j), heap_index (job_st s j))),
     (\<lambda>t. tview (tube_st s t)), lists s, ready_ct s, sview (global_stat s))"

lemma qviewD:
  assumes "qview s' = qview s"
  shows "live_jobs s' = live_jobs s" "brk s' = brk s" "core (job_st s' j) = core (job_st s j)"
    "heap_index (job_st s' j) = heap_index (job_st s j)" "ready (tube_st s' t) = ready (tube_st s t)"
    "delay (tube_st s' t) = delay (tube_st s t)" "lists s' = lists s" "ready_ct s' = ready_ct s"
    "sview (global_stat s') = sview (global_stat s)" "sview (stat (tube_st s' t)) = sview (stat (tube_st s t))"
  using assms by (auto simp: qview_def tview_def fun_eq_iff)

lemma coreD:
  assumes "core x = core y"
  shows "r_id x = r_id y" "r_pri x = r_pri y" "r_deadline_at x = r_deadline_at y" "r_state x = r_state y"
    "j_tube x = j_tube y" "reserver x = reserver y"
  using assms by (simp_all add: core_def)

section \<open>Containers\<close>

datatype place = PReady addr | PDelay addr | PBuried addr | PReserved addr

definition home :: "Job \<Rightarrow> place option" where
  "home x = (case r_state x of
      Ready \<Rightarrow> map_option PReady (j_tube x)
    | Delayed \<Rightarrow> map_option PDelay (j_tube x)
    | Buried \<Rightarrow> map_option PBuried (j_tube x)
    | Reserved \<Rightarrow> map_option PReserved (reserver x)
    | _ \<Rightarrow> None)"

primrec contents :: "server \<Rightarrow> place \<Rightarrow> addr set" where
  "contents s (PReady t) = set (heap_elems (ready (tube_st s t)))"
| "contents s (PDelay t) = set (heap_elems (delay (tube_st s t)))"
| "contents s (PBuried t) = set (jl_items (lists s) (LBuried t))"
| "contents s (PReserved c) = set (jl_items (lists s) (LReserved c))"

primrec hok :: "server \<Rightarrow> place \<Rightarrow> bool" where
  "hok s (PReady t) = jready.heap_ok (ready (tube_st s t)) s"
| "hok s (PDelay t) = jdelay.heap_ok (delay (tube_st s t)) s"
| "hok s (PBuried t) = True"
| "hok s (PReserved c) = True"

definition at_home :: "addr set \<Rightarrow> server \<Rightarrow> place \<Rightarrow> addr set" where
  "at_home X s p = {j \<in> live_jobs s - X. home (job_st s j) = Some p}"

definition places_ok :: "addr set \<Rightarrow> server \<Rightarrow> bool" where
  "places_ok X s \<longleftrightarrow>
     finite (live_jobs s) \<and> X \<subseteq> live_jobs s \<and> (\<forall>j \<in> live_jobs s. j < brk s) \<and>
     jl_ok (lists s) \<and> jl_items (lists s) LReplay = [] \<and>
     inj_on (ids s) {j \<in> live_jobs s. r_state (job_st s j) \<noteq> Copy} \<and>
     (\<forall>p. hok s p) \<and> (\<forall>p. contents s p = at_home X s p) \<and>
     (\<forall>j \<in> live_jobs s - X. r_state (job_st s j) \<in> {Ready, Delayed, Buried, Reserved} \<longrightarrow>
        home (job_st s j) \<noteq> None \<and> j_tube (job_st s j) \<noteq> None)"

lemma home_core: "core x = core y \<Longrightarrow> home x = home y"
  by (simp add: home_def core_def split: jstate.split)

lemma hok_cong:
  assumes "hok s p"
    and "\<And>t. p = PReady t \<Longrightarrow> ready (tube_st s' t) = ready (tube_st s t)"
    and "\<And>t. p = PDelay t \<Longrightarrow> delay (tube_st s' t) = delay (tube_st s t)"
    and "\<And>j. j \<in> contents s p \<Longrightarrow> core (job_st s' j) = core (job_st s j)"
    and "\<And>j. j \<in> contents s p \<Longrightarrow> heap_index (job_st s' j) = heap_index (job_st s j)"
  shows "hok s' p"
proof (cases p)
  case (PReady t)
  have "jready.heap_ok (ready (tube_st s t)) s'"
  proof (rule jready.heap_ok_cong)
    show "jready.heap_ok (ready (tube_st s t)) s" using assms(1) PReady by simp
    show "job_getpos s' x = job_getpos s x" if "x \<in> set (heap_elems (ready (tube_st s t)))" for x
      using assms(5) that PReady by simp
    show "job_pri_less s' x y = job_pri_less s x y"
      if "x \<in> set (heap_elems (ready (tube_st s t)))" "y \<in> set (heap_elems (ready (tube_st s t)))" for x y
      using coreD [OF assms(4) [of x]] coreD [OF assms(4) [of y]] that PReady by (simp add: job_pri_less_def)
  qed
  then show ?thesis using assms(2) PReady by simp
next
  case (PDelay t)
  have "jdelay.heap_ok (delay (tube_st s t)) s'"
  proof (rule jdelay.heap_ok_cong)
    show "jdelay.heap_ok (delay (tube_st s t)) s" using assms(1) PDelay by simp
    show "job_getpos s' x = job_getpos s x" if "x \<in> set (heap_elems (delay (tube_st s t)))" for x
      using assms(5) that PDelay by simp
    show "job_delay_less s' x y = job_delay_less s x y"
      if "x \<in> set (heap_elems (delay (tube_st s t)))" "y \<in> set (heap_elems (delay (tube_st s t)))" for x y
      using coreD [OF assms(4) [of x]] coreD [OF assms(4) [of y]] that PDelay by (simp add: job_delay_less_def)
  qed
  then show ?thesis using assms(3) PDelay by simp
qed simp_all

lemma contents_cong:
  assumes "\<And>t. p = PReady t \<Longrightarrow> ready (tube_st s' t) = ready (tube_st s t)"
    and "\<And>t. p = PDelay t \<Longrightarrow> delay (tube_st s' t) = delay (tube_st s t)"
    and "\<And>t. p = PBuried t \<Longrightarrow> jl_items (lists s') (LBuried t) = jl_items (lists s) (LBuried t)"
    and "\<And>c. p = PReserved c \<Longrightarrow> jl_items (lists s') (LReserved c) = jl_items (lists s) (LReserved c)"
  shows "contents s' p = contents s p"
  using assms by (cases p) simp_all

lemma places_okD:
  assumes "places_ok X s"
  shows "finite (live_jobs s)" "X \<subseteq> live_jobs s" "j \<in> live_jobs s \<Longrightarrow> j < brk s" "jl_ok (lists s)"
    "jl_items (lists s) LReplay = []" "inj_on (ids s) {j \<in> live_jobs s. r_state (job_st s j) \<noteq> Copy}"
    "hok s p" "contents s p = at_home X s p"
    "j \<in> live_jobs s \<Longrightarrow> j \<notin> X \<Longrightarrow> r_state (job_st s j) \<in> {Ready, Delayed, Buried, Reserved} \<Longrightarrow>
       home (job_st s j) \<noteq> None \<and> j_tube (job_st s j) \<noteq> None"
  using assms unfolding places_ok_def by blast+

text \<open>The invariant depends on the view only.\<close>

lemma places_view: 
  assumes "qview s' = qview s" "places_ok X s"
  shows "places_ok X s'"
proof -
  note v = qviewD [OF assms(1)] and ok = places_okD [OF assms(2)]
  have h: "home (job_st s' j) = home (job_st s j)" for j using home_core v(3) by metis
  have c: "contents s' p = contents s p" for p by (rule contents_cong) (simp_all add: v)
  have k: "hok s' p" for p using ok(7) by (rule hok_cong) (simp_all add: v)
  have ids: "ids s' = ids s" "r_state (job_st s' j) = r_state (job_st s j)" "j_tube (job_st s' j) = j_tube (job_st s j)" for j
    using coreD [OF v(3)] by (simp_all add: fun_eq_iff)
  have a: "at_home X s' p = at_home X s p" for p by (simp add: at_home_def v h)
  show ?thesis
    using assms(2) k unfolding places_ok_def by (auto simp: v(1,2,7) h c ids a)
qed

section \<open>Moving one job\<close>

primrec same_at :: "server \<Rightarrow> server \<Rightarrow> place \<Rightarrow> bool" where
  "same_at s s' (PReady t) \<longleftrightarrow> ready (tube_st s' t) = ready (tube_st s t)"
| "same_at s s' (PDelay t) \<longleftrightarrow> delay (tube_st s' t) = delay (tube_st s t)"
| "same_at s s' (PBuried t) \<longleftrightarrow> jl_items (lists s') (LBuried t) = jl_items (lists s) (LBuried t)"
| "same_at s s' (PReserved c) \<longleftrightarrow> jl_items (lists s') (LReserved c) = jl_items (lists s) (LReserved c)"

lemma same_contents: "same_at s s' p \<Longrightarrow> contents s' p = contents s p"
  by (cases p) simp_all

lemma same_hok:
  assumes "hok s p" "same_at s s' p"
    and "\<And>k. k \<in> contents s p \<Longrightarrow> core (job_st s' k) = core (job_st s k) \<and> heap_index (job_st s' k) = heap_index (job_st s k)"
  shows "hok s' p"
  using assms(1) by (rule hok_cong) (use assms(2,3) in auto)

lemma at_home_unique: "j \<in> at_home X s p \<Longrightarrow> j \<in> at_home X s q \<Longrightarrow> p = q"
  by (simp add: at_home_def)

text \<open>
  The three ways a job changes place: it is taken out of \<open>p\<close> and is in flight; it is put into \<open>p\<close>
  and is no longer in flight; it is changed while in flight.
\<close>

lemma places_leave:
  assumes ok: "places_ok X s" and j: "j \<in> live_jobs s" "j \<notin> X" "home (job_st s j) = Some p"
    and live: "live_jobs s' = live_jobs s" "brk s' = brk s"
    and core: "\<And>k. core (job_st s' k) = core (job_st s k)"
    and pos: "\<And>k. k \<notin> contents s p \<Longrightarrow> heap_index (job_st s' k) = heap_index (job_st s k)"
    and other: "\<And>q. q \<noteq> p \<Longrightarrow> same_at s s' q"
    and p: "contents s' p = contents s p - {j}" "hok s' p"
    and jl: "jl_ok (lists s')" "jl_items (lists s') LReplay = []"
  shows "places_ok (insert j X) s'"
proof -
  note d = places_okD [OF ok]
  have h: "home (job_st s' k) = home (job_st s k)" for k using home_core core by blast
  have f: "ids s' = ids s" "r_state (job_st s' k) = r_state (job_st s k)" "j_tube (job_st s' k) = j_tube (job_st s k)" for k
    using coreD [OF core] by (simp_all add: fun_eq_iff)
  have a: "at_home (insert j X) s' q = at_home X s q - {j}" for q
    by (auto simp: at_home_def live h)
  have c: "contents s' q = at_home (insert j X) s' q" for q
  proof (cases "q = p")
    case True
    then show ?thesis using p(1) d(8) a by simp
  next
    case False
    then have "j \<notin> at_home X s q" using j by (simp add: at_home_def)
    then show ?thesis using same_contents [OF other [OF False]] d(8) a by simp
  qed
  have k: "hok s' q" for q
  proof (cases "q = p")
    case False
    have "k \<notin> contents s p" if "k \<in> contents s q" for k
      using that False d(8) at_home_unique by blast
    then show ?thesis using same_hok [OF d(7) other [OF False]] core pos by blast
  qed (use p in simp)
  show ?thesis
    using d(1,2,3,6,9) j live jl c k unfolding places_ok_def by (auto simp: h f)
qed

lemma places_enter:
  assumes ok: "places_ok X s" and j: "j \<in> X" "home (job_st s' j) = Some p" "j_tube (job_st s' j) \<noteq> None"
    and idj: "r_id (job_st s' j) = r_id (job_st s j)" "r_state (job_st s j) \<noteq> Copy"
    and live: "live_jobs s' = live_jobs s" "brk s' = brk s"
    and core: "\<And>k. k \<noteq> j \<Longrightarrow> core (job_st s' k) = core (job_st s k)"
    and pos: "\<And>k. k \<noteq> j \<Longrightarrow> k \<notin> contents s p \<Longrightarrow> heap_index (job_st s' k) = heap_index (job_st s k)"
    and other: "\<And>q. q \<noteq> p \<Longrightarrow> same_at s s' q"
    and p: "contents s' p = insert j (contents s p)" "hok s' p"
    and jl: "jl_ok (lists s')" "jl_items (lists s') LReplay = []"
  shows "places_ok (X - {j}) s'"
proof -
  note d = places_okD [OF ok]
  have h: "home (job_st s' k) = home (job_st s k)" if "k \<noteq> j" for k using home_core core that by blast
  have f: "r_id (job_st s' k) = r_id (job_st s k)" "r_state (job_st s' k) = r_state (job_st s k)"
    "j_tube (job_st s' k) = j_tube (job_st s k)" if "k \<noteq> j" for k
    using coreD [OF core [OF that]] by simp_all
  have nc: "r_state (job_st s' j) \<noteq> Copy" using j(2) by (auto simp: home_def)
  have jX: "j \<in> live_jobs s" "j \<notin> contents s q" for q using j(1) d(2,8) by (auto simp: at_home_def)
  have hX: "home (job_st s' k) = home (job_st s k)" if "k \<notin> X" for k using h j(1) that by metis
  have a: "at_home (X - {j}) s' q = at_home X s q \<union> (if q = p then {j} else {})" for q
    using j jX by (auto simp: at_home_def live hX)
  have c: "contents s' q = at_home (X - {j}) s' q" for q
    using p(1) d(8) [of q] a [of q] same_contents [OF other [of q]] by (cases "q = p") auto
  have k: "hok s' q" for q
  proof (cases "q = p")
    case False
    have "k \<notin> contents s p \<and> k \<noteq> j" if "k \<in> contents s q" for k
      using that False d(8) at_home_unique jX by blast
    then show ?thesis using same_hok [OF d(7) other [OF False]] core pos by blast
  qed (use p in simp)
  have "r_state (job_st s' k) = Copy \<longleftrightarrow> r_state (job_st s k) = Copy" for k
    using f(2) nc idj(2) by (cases "k = j") auto
  then have st: "{k \<in> live_jobs s. r_state (job_st s' k) \<noteq> Copy} = {k \<in> live_jobs s. r_state (job_st s k) \<noteq> Copy}"
    by simp
  have "ids s' k = ids s k" for k using f idj by (cases "k = j") auto
  then have "inj_on (ids s') {k \<in> live_jobs s'. r_state (job_st s' k) \<noteq> Copy}"
    using d(6) live st by simp
  moreover have "home (job_st s' k) \<noteq> None \<and> j_tube (job_st s' k) \<noteq> None"
    if "k \<in> live_jobs s" "k \<notin> X - {j}" "r_state (job_st s' k) \<in> {Ready, Delayed, Buried, Reserved}" for k
    using that d(9) [of k] j h f by (cases "k = j") auto
  moreover have "\<forall>q. hok s' q" using k by blast
  ultimately show ?thesis
    using d(1,2,3) live jl c unfolding places_ok_def by auto
qed

lemma places_inflight:
  assumes ok: "places_ok X s" and j: "j \<in> X"
    and idj: "r_id (job_st s' j) = r_id (job_st s j)" "r_state (job_st s' j) = Copy \<longleftrightarrow> r_state (job_st s j) = Copy"
    and live: "live_jobs s' = live_jobs s" "brk s' = brk s" "lists s' = lists s"
    and core: "\<And>k. k \<noteq> j \<Longrightarrow> core (job_st s' k) = core (job_st s k)"
    and pos: "\<And>k. k \<noteq> j \<Longrightarrow> heap_index (job_st s' k) = heap_index (job_st s k)"
    and heaps: "\<And>t. ready (tube_st s' t) = ready (tube_st s t)" "\<And>t. delay (tube_st s' t) = delay (tube_st s t)"
  shows "places_ok X s'"
proof -
  note d = places_okD [OF ok]
  have h: "home (job_st s' k) = home (job_st s k)" if "k \<noteq> j" for k using home_core core that by blast
  have f: "r_id (job_st s' k) = r_id (job_st s k)" "r_state (job_st s' k) = r_state (job_st s k)"
    "j_tube (job_st s' k) = j_tube (job_st s k)" if "k \<noteq> j" for k
    using coreD [OF core [OF that]] by simp_all
  have same: "same_at s s' q" for q using heaps live by (cases q) simp_all
  have jX: "j \<notin> contents s q" for q using j d(8) by (auto simp: at_home_def)
  have hX: "home (job_st s' k) = home (job_st s k)" if "k \<notin> X" for k using h j that by metis
  have a: "at_home X s' q = at_home X s q" for q by (auto simp: at_home_def live hX)
  have k: "hok s' q" for q
    using same_hok [OF d(7) same] core pos jX by metis
  have "ids s' k = ids s k" for k using f idj by (cases "k = j") auto
  moreover have "r_state (job_st s' k) = Copy \<longleftrightarrow> r_state (job_st s k) = Copy" for k
    using f idj by (cases "k = j") auto
  ultimately have "inj_on (ids s') {k \<in> live_jobs s'. r_state (job_st s' k) \<noteq> Copy}"
    using d(6) live by simp
  moreover have "home (job_st s' k) \<noteq> None \<and> j_tube (job_st s' k) \<noteq> None"
    if "k \<in> live_jobs s" "k \<notin> X" "r_state (job_st s' k) \<in> {Ready, Delayed, Buried, Reserved}" for k
    using that d(9) [of k] j h f by (cases "k = j") auto
  moreover have "contents s' q = at_home X s' q" for q using d(8) same_contents [OF same] a by simp
  moreover have "\<forall>q. hok s' q" using k by blast
  ultimately show ?thesis
    using d(1-5) live unfolding places_ok_def by simp
qed

section \<open>Heap and list operations on the server\<close>

text \<open>What the callbacks of the job heaps and the allocator leave alone.\<close>

definition hview :: "server \<Rightarrow> server" where
  "hview s = s\<lparr>job_st := (\<lambda>j. (job_st s j)\<lparr>heap_index := 0\<rparr>), allocs := []\<rparr>"

lemma hview_setpos [simp]: "hview (job_setpos j k s) = hview s"
  by (simp add: hview_def job_setpos_def upd_job_def fun_eq_iff)

lemma hview_malloc [simp]: "hview (snd (malloc s)) = hview s"
  by (simp add: hview_def malloc_def split: list.split)

lemma hviewD:
  assumes "hview s' = hview s"
  shows "live_jobs s' = live_jobs s" "brk s' = brk s" "tube_st s' = tube_st s" "lists s' = lists s"
    "ready_ct s' = ready_ct s" "global_stat s' = global_stat s" "core (job_st s' j) = core (job_st s j)"
    "tubes s' = tubes s" "conn_st s' = conn_st s" "jobhash s' = jobhash s" "next_id s' = next_id s"
    "ticks s' = ticks s" "now s' = now s" "wal s' = wal s" "live_tubes s' = live_tubes s"
    "(job_st s' j)\<lparr>heap_index := 0\<rparr> = (job_st s j)\<lparr>heap_index := 0\<rparr>"
proof -
  have e: "job_st (hview s') j = job_st (hview s) j" using assms by simp
  then show "(job_st s' j)\<lparr>heap_index := 0\<rparr> = (job_st s j)\<lparr>heap_index := 0\<rparr>" by (simp add: hview_def)
  have "core ((job_st s' j)\<lparr>heap_index := 0\<rparr>) = core ((job_st s j)\<lparr>heap_index := 0\<rparr>)"
    using e by (simp add: hview_def)
  then show "core (job_st s' j) = core (job_st s j)" by (simp add: core_def)
  have x: "f (hview s') = f (hview s)" for f :: "server \<Rightarrow> 'x" using assms by simp
  show "live_jobs s' = live_jobs s" using x [of live_jobs] by (simp add: hview_def)
  show "brk s' = brk s" using x [of brk] by (simp add: hview_def)
  show "tube_st s' = tube_st s" using x [of tube_st] by (simp add: hview_def)
  show "lists s' = lists s" using x [of lists] by (simp add: hview_def)
  show "ready_ct s' = ready_ct s" using x [of ready_ct] by (simp add: hview_def)
  show "global_stat s' = global_stat s" using x [of global_stat] by (simp add: hview_def)
  show "tubes s' = tubes s" using x [of tubes] by (simp add: hview_def)
  show "conn_st s' = conn_st s" using x [of conn_st] by (simp add: hview_def)
  show "jobhash s' = jobhash s" using x [of jobhash] by (simp add: hview_def)
  show "next_id s' = next_id s" using x [of next_id] by (simp add: hview_def)
  show "ticks s' = ticks s" using x [of ticks] by (simp add: hview_def)
  show "now s' = now s" using x [of now] by (simp add: hview_def)
  show "wal s' = wal s" using x [of wal] by (simp add: hview_def)
  show "live_tubes s' = live_tubes s" using x [of live_tubes] by (simp add: hview_def)
qed

lemma heapinsert_hview:
  "heapinsert lt job_setpos malloc h s x = (r, h', s') \<Longrightarrow> hview s' = hview s"
  using heapinsert_frame [of hview job_setpos malloc lt h s x] by simp

lemma heapremove_hview:
  "heapremove lt job_setpos h s k = (r, h', s') \<Longrightarrow> hview s' = hview s"
  using heapremove_frame [of hview job_setpos lt h s k] by simp

text \<open>In both job heaps any two elements are comparable, so every element can be removed.\<close>

lemma heap_ids_distinct:
  assumes ok: "places_ok X s" and "x \<in> contents s p" "y \<in> contents s p" "x \<noteq> y"
  shows "r_id (job_st s x) \<noteq> r_id (job_st s y)"
proof -
  have "z \<in> {j \<in> live_jobs s. r_state (job_st s j) \<noteq> Copy}" if "z \<in> contents s p" for z
    using that places_okD(8) [OF ok, of p] by (auto simp: at_home_def home_def)
  then show ?thesis using places_okD(6) [OF ok] assms(2-4) unfolding inj_on_def by blast
qed

lemma same_at_tube:
  "tube_st s' = (tube_st s)(t := x) \<Longrightarrow> lists s' = lists s \<Longrightarrow> ready x = ready (tube_st s t) \<or> q \<noteq> PReady t \<Longrightarrow>
   delay x = delay (tube_st s t) \<or> q \<noteq> PDelay t \<Longrightarrow> same_at s s' q"
  by (cases q) auto

lemma in_contents:
  "places_ok X s \<Longrightarrow> j \<in> live_jobs s \<Longrightarrow> j \<notin> X \<Longrightarrow> home (job_st s j) = Some p \<Longrightarrow> j \<in> contents s p"
  by (simp add: places_okD(8) at_home_def)

lemma not_in_contents: "places_ok X s \<Longrightarrow> j \<in> X \<Longrightarrow> j \<notin> contents s p"
  by (simp add: places_okD(8) at_home_def)

text \<open>
  A tube has two heaps of jobs. \<open>job_heap\<close> is what they have in common: \<open>get\<close> and \<open>put\<close> reach the
  heap in the tube, \<open>pl\<close> is the place it is, and the order is total on jobs with different ids.
\<close>

locale job_heap = heap_callbacks lt job_setpos malloc job_getpos
  for lt :: "server \<Rightarrow> addr \<Rightarrow> addr \<Rightarrow> bool" +
  fixes get :: "Tube \<Rightarrow> addr Heap" and put :: "addr Heap \<Rightarrow> Tube \<Rightarrow> Tube" and pl :: "addr \<Rightarrow> place"
  assumes contents_pl: "contents s (pl t) = set (heap_elems (get (tube_st s t)))"
    and hok_pl: "hok s (pl t) \<longleftrightarrow> heap_ok (get (tube_st s t)) s"
    and total: "r_id (job_st s a) \<noteq> r_id (job_st s b) \<Longrightarrow> lt s a b \<or> lt s b a"
    and lt_fields: "r_id (job_st s' a) = r_id (job_st s a) \<Longrightarrow> r_id (job_st s' b) = r_id (job_st s b) \<Longrightarrow>
      r_pri (job_st s' a) = r_pri (job_st s a) \<Longrightarrow> r_pri (job_st s' b) = r_pri (job_st s b) \<Longrightarrow>
      r_deadline_at (job_st s' a) = r_deadline_at (job_st s a) \<Longrightarrow>
      r_deadline_at (job_st s' b) = r_deadline_at (job_st s b) \<Longrightarrow> lt s' a b = lt s a b"
    and get_put: "get (put h x) = h"
    and same_put: "tube_st s' = (tube_st s)(t := put h (tube_st s t)) \<Longrightarrow> lists s' = lists s \<Longrightarrow>
      q \<noteq> pl t \<Longrightarrow> same_at s s' q"
begin

lemma elem_removable:
  assumes ok: "places_ok X s" and j: "j \<in> contents s (pl t)"
  shows "removable (get (tube_st s t)) s (heap_index (job_st s j))"
    "heap_data (get (tube_st s t)) ! heap_index (job_st s j) = j"
proof -
  have h: "heap_ok (get (tube_st s t)) s" using places_okD(7) [OF ok, of "pl t"] hok_pl by simp
  have k: "heap_index (job_st s j) < heap_len (get (tube_st s t))"
    "heap_data (get (tube_st s t)) ! heap_index (job_st s j) = j"
    using heap_pos_elem [OF h, of j] j contents_pl by simp_all
  show "removable (get (tube_st s t)) s (heap_index (job_st s j))"
    using h k(1)
    by (rule total_removable) (use heap_ids_distinct [OF ok, of _ "pl t"] contents_pl total in simp)
  show "heap_data (get (tube_st s t)) ! heap_index (job_st s j) = j" using k by simp
qed

lemma heap_len_elems: "heap_ok h s \<Longrightarrow> heap_len h = size (mset (heap_elems h))"
  by (simp add: heap_elems_def heap_ok_def heap_wf_def min_absorb2)

lemma heap_ok_fields:
  assumes "heap_ok h s" "\<And>k. heap_index (job_st s' k) = heap_index (job_st s k) \<and> r_id (job_st s' k) = r_id (job_st s k) \<and>
    r_pri (job_st s' k) = r_pri (job_st s k) \<and> r_deadline_at (job_st s' k) = r_deadline_at (job_st s k)"
  shows "heap_ok h s'"
proof -
  have "lt s' x y = lt s x y" for x y by (rule lt_fields) (use assms(2) in simp_all)
  then show ?thesis using heap_ok_cong [OF assms(1), of s'] assms(2) by simp
qed

lemma remove_places:
  assumes ok: "places_ok X s" and j: "j \<in> live_jobs s" "j \<notin> X" and hm: "home (job_st s j) = Some (pl t)"
    and e: "heapremove lt job_setpos (get (tube_st s t)) s (heap_index (job_st s j)) = (r, h, s1)"
  shows "places_ok (insert j X) (upd_tube t (put h) s1)" "hview s1 = hview s"
    "heap_len (get (tube_st s t)) = Suc (heap_len h)"
proof -
  have jc: "j \<in> contents s (pl t)" using in_contents [OF ok j hm] .
  note rm = elem_removable [OF ok jc]
  have hk: "heap_ok (get (tube_st s t)) s" using places_okD(7) [OF ok, of "pl t"] hok_pl by simp
  note k = heapremove_ok [OF e hk rm(1)]
  show hv: "hview s1 = hview s" using heapremove_hview [OF e] .
  note v = hviewD [OF hv]
  let ?s' = "upd_tube t (put h) s1"
  have m: "mset (heap_elems h) = mset (heap_elems (get (tube_st s t))) - {#j#}" using k(3) rm(2) by simp
  have st: "set (heap_elems h) = set (heap_elems (get (tube_st s t))) - {j}"
    using mset_remove_set(1) [OF m heap_elems_distinct [OF hk]] .
  show "places_ok (insert j X) ?s'"
  proof (rule places_leave [OF ok j hm])
    show "heap_index (job_st ?s' x) = heap_index (job_st s x)" if "x \<notin> contents s (pl t)" for x
      using heapremove_outside [OF e _ rm(1), of x] hk that contents_pl by (simp add: heap_ok_def)
    show "same_at s ?s' q" if "q \<noteq> pl t" for q
      using that by (intro same_put [of _ _ t h]) (simp_all add: v)
    have "heap_ok h ?s'" using k(2) by (rule heap_ok_fields) simp
    then show "hok ?s' (pl t)" by (simp add: hok_pl get_put)
    show "jl_ok (lists ?s')" "jl_items (lists ?s') LReplay = []" using places_okD(4,5) [OF ok] v by simp_all
  qed (use v st contents_pl get_put in simp_all)
  have "add_mset j (mset (heap_elems h)) = mset (heap_elems (get (tube_st s t)))"
    using m jc contents_pl by simp
  then show "heap_len (get (tube_st s t)) = Suc (heap_len h)"
    using heap_len_elems [OF hk] heap_len_elems [OF k(2)] by (metis size_add_mset)
qed

lemma insert_places:
  assumes ok: "places_ok X s" and j: "j \<in> X" "j_tube (job_st s j) = Some t" "r_state (job_st s j) \<noteq> Copy"
    and hm: "home ((job_st s j)\<lparr>r_state := st\<rparr>) = Some (pl t)"
    and e: "heapinsert lt job_setpos malloc (get (tube_st s t)) s j = (True, h, s1)"
  shows "places_ok (X - {j}) (upd_job j (\<lambda>x. x\<lparr>r_state := st\<rparr>) (upd_tube t (put h) s1))"
    "hview s1 = hview s" "heap_len h = Suc (heap_len (get (tube_st s t)))"
proof -
  have hk: "heap_ok (get (tube_st s t)) s" using places_okD(7) [OF ok, of "pl t"] hok_pl by simp
  have jn: "j \<notin> set (heap_elems (get (tube_st s t)))" using not_in_contents [OF ok j(1), of "pl t"] contents_pl by simp
  note k = heapinsert_ok [OF e hk jn]
  show hv: "hview s1 = hview s" using heapinsert_hview [OF e] .
  note v = hviewD [OF hv]
  let ?s' = "upd_job j (\<lambda>x. x\<lparr>r_state := st\<rparr>) (upd_tube t (put h) s1)"
  have jt: "job_st ?s' k = (if k = j then (job_st s1 j)\<lparr>r_state := st\<rparr> else job_st s1 k)" for k
    by (simp add: upd_job_def)
  have vj: "(job_st s1 j)\<lparr>heap_index := 0\<rparr> = (job_st s j)\<lparr>heap_index := 0\<rparr>" using v(16) .
  have "core ((job_st s1 j)\<lparr>r_state := st\<rparr>) = core ((job_st s j)\<lparr>r_state := st\<rparr>)"
    using v(7) [of j] by (simp add: core_def)
  then have hm': "home (job_st ?s' j) = Some (pl t)"
    using hm home_core by (metis jt)
  have st: "set (heap_elems h) = insert j (set (heap_elems (get (tube_st s t))))"
    using mset_add_set [OF k(2)] .
  have tb: "tube_st ?s' = (tube_st s)(t := put h (tube_st s t))" "lists ?s' = lists s" "live_jobs ?s' = live_jobs s"
    "brk ?s' = brk s"
    by (simp_all add: upd_job_def v)
  show "places_ok (X - {j}) ?s'"
  proof (rule places_enter [OF ok j(1) hm'])
    show "heap_index (job_st ?s' x) = heap_index (job_st s x)" if "x \<noteq> j" "x \<notin> contents s (pl t)" for x
      using heapinsert_outside [OF e, of x] hk that contents_pl by (simp add: heap_ok_def jt)
    show "same_at s ?s' q" if "q \<noteq> pl t" for q
      using tb(1,2) that by (rule same_put)
    have "heap_ok h ?s'" using k(1) by (rule heap_ok_fields) (simp add: jt)
    then show "hok ?s' (pl t)" by (simp add: hok_pl get_put tb)
    show "contents ?s' (pl t) = insert j (contents s (pl t))" by (simp add: contents_pl tb get_put st)
  qed (use coreD [OF v(7) [of j]] j tb places_okD(4,5) [OF ok] v(7) in \<open>simp_all add: jt\<close>)
  show "heap_len h = Suc (heap_len (get (tube_st s t)))"
    using heap_len_elems [OF hk] heap_len_elems [OF k(1)] k(2) by simp
qed

lemma insert_fails:
  assumes "heapinsert lt job_setpos malloc h s j = (False, h', s1)"
  shows "h' = h" "s1 = s \<or> s1 = snd (malloc s)"
  using assms by (auto simp: heapinsert_def Let_def split: if_splits prod.splits bool.splits)

end

interpretation rq: job_heap job_pri_less ready "\<lambda>h x. x\<lparr>ready := h\<rparr>" PReady
  by unfold_locales (auto simp: job_pri_less_def split: if_splits intro: same_at_tube)

interpretation dq: job_heap job_delay_less delay "\<lambda>h x. x\<lparr>delay := h\<rparr>" PDelay
  by unfold_locales (auto simp: job_delay_less_def split: if_splits intro: same_at_tube)

text \<open>The lists.\<close>

fun list_of :: "place \<Rightarrow> lhead option" where
  "list_of (PBuried t) = Some (LBuried t)"
| "list_of (PReserved c) = Some (LReserved c)"
| "list_of _ = None"

lemma contents_list: "list_of p = Some h \<Longrightarrow> contents s p = set (jl_items (lists s) h)"
  by (cases p) auto

lemma list_of_inj: "list_of p = Some h \<Longrightarrow> list_of q = Some h \<Longrightarrow> p = q"
  by (cases p; cases q) auto

lemma same_at_list:
  assumes "\<And>t. ready (tube_st s' t) = ready (tube_st s t)" "\<And>t. delay (tube_st s' t) = delay (tube_st s t)"
    and "\<And>g. list_of q = Some g \<Longrightarrow> jl_items (lists s') g = jl_items (lists s) g"
  shows "same_at s s' q"
  using assms by (cases q) auto

lemma owner_home:
  assumes ok: "places_ok X s" and j: "j \<in> X"
  shows "jl_owner (lists s) j = None"
proof -
  have "j \<notin> set (jl_items (lists s) h)" for h
    using not_in_contents [OF ok j, of "PBuried t" for t] not_in_contents [OF ok j, of "PReserved c" for c]
      places_okD(5) [OF ok] by (cases h) auto
  then show ?thesis using places_okD(4) [OF ok] by (cases "jl_owner (lists s) j") (auto simp: jl_ok_def)
qed

lemma list_leave:
  assumes ok: "places_ok X s" and j: "j \<in> live_jobs s" "j \<notin> X" and hm: "home (job_st s j) = Some p"
    and h: "list_of p = Some h"
  obtains l where "list_remove j s = (True, s\<lparr>lists := l\<rparr>)" "places_ok (insert j X) (s\<lparr>lists := l\<rparr>)"
    "jl_items l = (jl_items (lists s))(h := remove1 j (jl_items (lists s) h))"
proof -
  have jl: "jl_ok (lists s)" using places_okD(4) [OF ok] .
  have jm: "j \<in> set (jl_items (lists s) h)" using in_contents [OF ok j hm] contents_list [OF h] by simp
  obtain b l where e: "jl_remove (lists s) j = (b, l)" by (cases "jl_remove (lists s) j")
  have l: "b" "jl_ok l" "jl_items l = (jl_items (lists s))(h := remove1 j (jl_items (lists s) h))"
    using jl.rep_remove_on [of "lists s" "jl_items (lists s)" j h] jl jm e by auto
  have "places_ok (insert j X) (s\<lparr>lists := l\<rparr>)"
  proof (rule places_leave [OF ok j hm])
    show "same_at s (s\<lparr>lists := l\<rparr>) q" if "q \<noteq> p" for q
      using that l(3) list_of_inj [OF h, of q] by (intro same_at_list) auto
    show "contents (s\<lparr>lists := l\<rparr>) p = contents s p - {j}"
      using l(3) jl contents_list [OF h] by (auto simp: jl_ok_def)
    show "hok (s\<lparr>lists := l\<rparr>) p" using h by (cases p) auto
    show "jl_items (lists (s\<lparr>lists := l\<rparr>)) LReplay = []"
      using l(3) places_okD(5) [OF ok] jm by (cases "h = LReplay") auto
  qed (use l in simp_all)
  then show thesis using that e l by (simp add: list_remove_def)
qed

lemma list_enter:
  assumes ok: "places_ok X s" and j: "j \<in> X" and h: "list_of p = Some h"
    and l: "lists s' = jl_insert (lists s) h j" and y: "job_st s' = (job_st s)(j := y)"
    and hm: "home y = Some p" "j_tube y \<noteq> None" "r_id y = r_id (job_st s j)" "r_state (job_st s j) \<noteq> Copy"
    and live: "live_jobs s' = live_jobs s" "brk s' = brk s"
    and heaps: "\<And>t. ready (tube_st s' t) = ready (tube_st s t)" "\<And>t. delay (tube_st s' t) = delay (tube_st s t)"
  shows "places_ok (X - {j}) s'" "jl_items (lists s') = (jl_items (lists s))(h := jl_items (lists s) h @ [j])"
proof -
  have jl: "jl_ok (lists s)" using places_okD(4) [OF ok] .
  have n: "j \<notin> set (jl_items (lists s) h')" for h'
    using owner_home [OF ok j] jl by (auto simp: jl_ok_def)
  have i: "jl_ok (lists s')" and it: "jl_items (lists s') = (jl_items (lists s))(h := jl_items (lists s) h @ [j])"
    using jl.rep_insert_new [of "lists s" "jl_items (lists s)" j h] jl n l by auto
  show "jl_items (lists s') = (jl_items (lists s))(h := jl_items (lists s) h @ [j])" using it .
  show "places_ok (X - {j}) s'"
  proof (rule places_enter [OF ok j, of s' p])
    show "same_at s s' q" if "q \<noteq> p" for q
      using that it list_of_inj [OF h, of q] heaps by (intro same_at_list) auto
    show "contents s' p = insert j (contents s p)" using it contents_list [OF h] by auto
    show "hok s' p" using h by (cases p) auto
    show "jl_items (lists s') LReplay = []"
      using it places_okD(5) [OF ok] h by (cases p) auto
  qed (use y hm live i in simp_all)
qed

section \<open>Counters\<close>

definition num :: "addr set \<Rightarrow> server \<Rightarrow> (Job \<Rightarrow> bool) \<Rightarrow> nat" where
  "num X s P = card {j \<in> live_jobs s - X. P (job_st s j)}"

definition is_ready :: "Job \<Rightarrow> bool" where "is_ready x \<longleftrightarrow> r_state x = Ready"

definition is_urgent :: "Job \<Rightarrow> bool" where "is_urgent x \<longleftrightarrow> r_state x = Ready \<and> r_pri x < URGENT_THRESHOLD"

definition is_buried :: "Job \<Rightarrow> bool" where "is_buried x \<longleftrightarrow> r_state x = Buried"

definition is_reserved :: "Job \<Rightarrow> bool" where "is_reserved x \<longleftrightarrow> r_state x = Reserved"

abbreviation in_tube :: "(Job \<Rightarrow> bool) \<Rightarrow> addr \<Rightarrow> Job \<Rightarrow> bool" where
  "in_tube P t \<equiv> \<lambda>x. P x \<and> j_tube x = Some t"

text \<open>
  \<open>off\<close> lists the tubes for which a decrement of \<open>reserved_ct\<close> is still to come: when a connection
  closes, the counter is decremented after the job has gone back to its queue.
\<close>

definition counts_ok :: "addr set \<Rightarrow> addr list \<Rightarrow> server \<Rightarrow> bool" where
  "counts_ok X off s \<longleftrightarrow>
     ready_ct s = of_nat (num X s is_ready) \<and>
     urgent_ct (global_stat s) = of_nat (num X s is_urgent) \<and>
     buried_ct (global_stat s) = of_nat (num X s is_buried) \<and>
     reserved_ct (global_stat s) = of_nat (num X s is_reserved + length off) \<and>
     (\<forall>t. urgent_ct (stat (tube_st s t)) = of_nat (num X s (in_tube is_urgent t))) \<and>
     (\<forall>t. buried_ct (stat (tube_st s t)) = of_nat (num X s (in_tube is_buried t))) \<and>
     (\<forall>t. reserved_ct (stat (tube_st s t)) = of_nat (num X s (in_tube is_reserved t) + count_list off t))"

lemmas pred_defs = is_ready_def is_urgent_def is_buried_def is_reserved_def

text \<open>The counted properties depend on the core of a job.\<close>

definition of_core :: "(Job \<Rightarrow> bool) \<Rightarrow> bool" where
  "of_core P \<longleftrightarrow> (\<forall>x y. core x = core y \<longrightarrow> P x = P y)"

lemma of_core_preds [simp]:
  "of_core is_ready" "of_core is_urgent" "of_core is_buried" "of_core is_reserved"
  by (auto simp: of_core_def core_def pred_defs)

lemma of_core_in_tube [simp]: "of_core P \<Longrightarrow> of_core (in_tube P t)"
  using coreD(5) unfolding of_core_def by metis

lemma num_cong:
  assumes "of_core P" "live_jobs s' = live_jobs s"
    and "\<And>k. k \<in> live_jobs s \<Longrightarrow> k \<notin> X \<Longrightarrow> core (job_st s' k) = core (job_st s k)"
  shows "num X s' P = num X s P"
proof -
  have "P (job_st s' k) = P (job_st s k)" if "k \<in> live_jobs s" "k \<notin> X" for k
    using assms(1) assms(3) [OF that] unfolding of_core_def by blast
  then have "{k \<in> live_jobs s' - X. P (job_st s' k)} = {k \<in> live_jobs s - X. P (job_st s k)}"
    using assms(2) by auto
  then show ?thesis by (simp add: num_def)
qed

lemma num_leave:
  assumes "finite (live_jobs s)" "j \<in> live_jobs s" "j \<notin> X"
  shows "num X s P = num (insert j X) s P + of_bool (P (job_st s j))"
proof -
  let ?A = "{k \<in> live_jobs s - insert j X. P (job_st s k)}"
  have "{k \<in> live_jobs s - X. P (job_st s k)} = ?A \<union> (if P (job_st s j) then {j} else {})"
    using assms by auto
  moreover have "finite ?A" "j \<notin> ?A" using assms by auto
  ultimately show ?thesis by (simp add: num_def)
qed

lemma num_enter:
  assumes "of_core P" "finite (live_jobs s)" "j \<in> X" "j \<in> live_jobs s" "live_jobs s' = live_jobs s"
    and "\<And>k. k \<noteq> j \<Longrightarrow> core (job_st s' k) = core (job_st s k)"
  shows "num (X - {j}) s' P = num X s P + of_bool (P (job_st s' j))"
proof -
  have "num (X - {j}) s' P = num (insert j (X - {j})) s' P + of_bool (P (job_st s' j))"
    using assms by (intro num_leave) auto
  moreover have "insert j (X - {j}) = X" using assms(3) by auto
  moreover have "num X s' P = num X s P"
  proof (rule num_cong [OF assms(1,5)])
    fix k assume "k \<notin> X"
    then show "core (job_st s' k) = core (job_st s k)" using assms(3,6) by metis
  qed
  ultimately show ?thesis by simp
qed

lemma counts_okD:
  assumes "counts_ok X off s"
  shows "ready_ct s = of_nat (num X s is_ready)"
    "urgent_ct (global_stat s) = of_nat (num X s is_urgent)"
    "buried_ct (global_stat s) = of_nat (num X s is_buried)"
    "reserved_ct (global_stat s) = of_nat (num X s is_reserved + length off)"
    "urgent_ct (stat (tube_st s t)) = of_nat (num X s (in_tube is_urgent t))"
    "buried_ct (stat (tube_st s t)) = of_nat (num X s (in_tube is_buried t))"
    "reserved_ct (stat (tube_st s t)) = of_nat (num X s (in_tube is_reserved t) + count_list off t)"
  using assms unfolding counts_ok_def by blast+

text \<open>
  A job leaves: the counters of its class go down by one. When \<open>late\<close>, the two counters of reserved
  jobs are left for later.
\<close>

lemma counts_leave:
  assumes fin: "finite (live_jobs s)" and ok: "counts_ok X off s" and j: "j \<in> live_jobs s" "j \<notin> X"
    and live: "live_jobs s' = live_jobs s" and core: "\<And>k. core (job_st s' k) = core (job_st s k)"
    and x: "x = job_st s j"
    and ctr: "ready_ct s' = ready_ct s - of_bool (is_ready x)"
      "urgent_ct (global_stat s') = urgent_ct (global_stat s) - of_bool (is_urgent x)"
      "buried_ct (global_stat s') = buried_ct (global_stat s) - of_bool (is_buried x)"
      "reserved_ct (global_stat s') = reserved_ct (global_stat s) - of_bool (is_reserved x \<and> \<not> late)"
    and tctr: "\<And>t. urgent_ct (stat (tube_st s' t)) = urgent_ct (stat (tube_st s t)) - of_bool (in_tube is_urgent t x)"
      "\<And>t. buried_ct (stat (tube_st s' t)) = buried_ct (stat (tube_st s t)) - of_bool (in_tube is_buried t x)"
      "\<And>t. reserved_ct (stat (tube_st s' t)) =
        reserved_ct (stat (tube_st s t)) - of_bool (in_tube is_reserved t x \<and> \<not> late)"
    and off': "off' = (if late \<and> is_reserved x then the (j_tube x) # off else off)"
    and tube: "j_tube x \<noteq> None"
  shows "counts_ok (insert j X) off' s'"
proof -
  have n: "num X s P = num (insert j X) s' P + of_bool (P x)" if "of_core P" for P
    using num_leave [OF fin j, of P] num_cong [OF that live core, of "insert j X"] x by simp
  note c = counts_okD [OF ok]
  show ?thesis
    unfolding counts_ok_def
  proof (intro conjI allI)
    show "reserved_ct (global_stat s') = of_nat (num (insert j X) s' is_reserved + length off')"
      using c(4) ctr(4) n [of is_reserved] off' by (cases late; cases "is_reserved x") simp_all
    show "reserved_ct (stat (tube_st s' t)) = of_nat (num (insert j X) s' (in_tube is_reserved t) + count_list off' t)" for t
      using c(7) [of t] tctr(3) [of t] n [of "in_tube is_reserved t"] off' tube by auto
  qed (simp_all add: c ctr tctr n)
qed

lemma counts_enter:
  assumes fin: "finite (live_jobs s)" and ok: "counts_ok X off s" and j: "j \<in> X" "j \<in> live_jobs s"
    and live: "live_jobs s' = live_jobs s" and core: "\<And>k. k \<noteq> j \<Longrightarrow> core (job_st s' k) = core (job_st s k)"
    and x: "x = job_st s' j"
    and ctr: "ready_ct s' = ready_ct s + of_bool (is_ready x)"
      "urgent_ct (global_stat s') = urgent_ct (global_stat s) + of_bool (is_urgent x)"
      "buried_ct (global_stat s') = buried_ct (global_stat s) + of_bool (is_buried x)"
      "reserved_ct (global_stat s') = reserved_ct (global_stat s) + of_bool (is_reserved x)"
    and tctr: "\<And>t. urgent_ct (stat (tube_st s' t)) = urgent_ct (stat (tube_st s t)) + of_bool (in_tube is_urgent t x)"
      "\<And>t. buried_ct (stat (tube_st s' t)) = buried_ct (stat (tube_st s t)) + of_bool (in_tube is_buried t x)"
      "\<And>t. reserved_ct (stat (tube_st s' t)) = reserved_ct (stat (tube_st s t)) + of_bool (in_tube is_reserved t x)"
  shows "counts_ok (X - {j}) off s'"
proof -
  have n: "num (X - {j}) s' P = num X s P + of_bool (P x)" if "of_core P" for P
    using num_enter [OF that fin j live core] x by simp
  note c = counts_okD [OF ok]
  show ?thesis
    unfolding counts_ok_def
    by (intro conjI allI) (simp_all add: c ctr tctr n)
qed

lemma counts_same:
  assumes ok: "counts_ok X off s" and live: "live_jobs s' = live_jobs s"
    and core: "\<And>k. k \<in> live_jobs s \<Longrightarrow> k \<notin> X \<Longrightarrow> core (job_st s' k) = core (job_st s k)"
    and ctr: "ready_ct s' = ready_ct s" "sview (global_stat s') = sview (global_stat s)"
      "\<And>t. sview (stat (tube_st s' t)) = sview (stat (tube_st s t))"
  shows "counts_ok X off s'"
proof -
  have n: "num X s' P = num X s P" if "of_core P" for P using num_cong [OF that live core] by simp
  have g: "urgent_ct (global_stat s') = urgent_ct (global_stat s)" "buried_ct (global_stat s') = buried_ct (global_stat s)"
    "reserved_ct (global_stat s') = reserved_ct (global_stat s)" using ctr(2) by (simp_all add: sview_def)
  have t: "urgent_ct (stat (tube_st s' t)) = urgent_ct (stat (tube_st s t))"
    "buried_ct (stat (tube_st s' t)) = buried_ct (stat (tube_st s t))"
    "reserved_ct (stat (tube_st s' t)) = reserved_ct (stat (tube_st s t))" for t
    using ctr(3) [of t] by (simp_all add: sview_def)
  show ?thesis
    unfolding counts_ok_def
    by (intro conjI allI) (simp_all add: counts_okD [OF ok] ctr g t n)
qed

lemma counts_view:
  assumes "qview s' = qview s" "counts_ok X off s"
  shows "counts_ok X off s'"
  using assms(2) by (rule counts_same) (simp_all add: qviewD [OF assms(1)])

lemma counts_pay:
  assumes ok: "counts_ok X (t # off) s" and live: "live_jobs s' = live_jobs s" and jobs: "job_st s' = job_st s"
    and ctr: "ready_ct s' = ready_ct s" "urgent_ct (global_stat s') = urgent_ct (global_stat s)"
      "buried_ct (global_stat s') = buried_ct (global_stat s)"
      "reserved_ct (global_stat s') = reserved_ct (global_stat s) - 1"
    and tctr: "\<And>u. urgent_ct (stat (tube_st s' u)) = urgent_ct (stat (tube_st s u))"
      "\<And>u. buried_ct (stat (tube_st s' u)) = buried_ct (stat (tube_st s u))"
      "\<And>u. reserved_ct (stat (tube_st s' u)) = reserved_ct (stat (tube_st s u)) - of_bool (u = t)"
  shows "counts_ok X off s'"
proof -
  have n: "num X s' P = num X s P" for P by (simp add: num_def live jobs)
  note c = counts_okD [OF ok]
  show ?thesis
    unfolding counts_ok_def
  proof (intro conjI allI)
    show "reserved_ct (stat (tube_st s' u)) = of_nat (num X s' (in_tube is_reserved u) + count_list off u)" for u
      using c(7) [of u] tctr(3) [of u] n by auto
  qed (simp_all add: c ctr tctr n)
qed

section \<open>The invariant\<close>

definition queue_ok :: "addr set \<Rightarrow> addr list \<Rightarrow> server \<Rightarrow> bool" where
  "queue_ok X off s \<longleftrightarrow> places_ok X s \<and> counts_ok X off s"

lemma queue_view: "qview s' = qview s \<Longrightarrow> queue_ok X off s \<Longrightarrow> queue_ok X off s'"
  unfolding queue_ok_def using places_view counts_view by blast

end
