(* ===== verification/Bean_Views.thy ===== *)
theory Bean_Views
  imports Bean_Queue
begin

text \<open>
  Views of the server: functions that forget some fields. An operation that only changes forgotten fields
  leaves the view alone. Three locales say which fields a view forgets (the environment; the log; the
  scheduling and the replies of the connections) and prove once, for every such view, that the operations
  on those fields leave it alone.
\<close>

section \<open>The environment\<close>

locale env_view =
  fixes v :: "server \<Rightarrow> 'v"
  assumes v_allocs: "v (s\<lparr>allocs := al\<rparr>) = v s"
    and v_sys: "v (s\<lparr>sys := sy\<rparr>) = v s"
    and v_ticks: "v (s\<lparr>ticks := ti, now := n\<rparr>) = v s"
begin

lemma env [simp]: "v (snd (malloc s)) = v s" "v (snd (syscall s)) = v s" "v (snd (nanoseconds s)) = v s"
  by (simp_all add: malloc_def syscall_def nanoseconds_def v_allocs v_sys v_ticks split: list.split)

lemma env_dest:
  "malloc s = (b, s') \<Longrightarrow> v s' = v s" "syscall s = (b, s') \<Longrightarrow> v s' = v s" "nanoseconds s = (t, s') \<Longrightarrow> v s' = v s"
  using env [of s] by simp_all

lemma view_fold: "(\<And>x s. v (f x s) = v s) \<Longrightarrow> v (fold f xs s) = v s"
  by (induction xs arbitrary: s) simp_all

end

section \<open>The log\<close>

locale log_view = env_view +
  assumes v_wal: "v (s\<lparr>wal := w\<rparr>) = v s"
    and v_file_st: "v (s\<lparr>file_st := fs\<rparr>) = v s"
    and v_file_brk: "v (s\<lparr>file_brk := n\<rparr>) = v s"
    and v_job_file: "v (upd_job j (\<lambda>x. x\<lparr>j_file := jf\<rparr>) s) = v s"
    and v_walresv: "v (upd_job j (\<lambda>x. x\<lparr>walresv := f x\<rparr>) s) = v s"
    and v_walused: "v (upd_job j (\<lambda>x. x\<lparr>walused := g x\<rparr>) s) = v s"
begin

lemma log_upds [simp]:
  "v (s\<lparr>wal := w\<rparr>) = v s" "v (upd_file a ff s) = v s" "v (upd_job j (\<lambda>x. x\<lparr>j_file := jf\<rparr>) s) = v s"
  "v (upd_job j (\<lambda>x. x\<lparr>walresv := f x\<rparr>) s) = v s" "v (upd_job j (\<lambda>x. x\<lparr>walused := g x\<rparr>) s) = v s"
  using v_wal v_file_st v_job_file v_walresv v_walused by (simp_all add: upd_file_def)

lemma v_walboth [simp]: "v (upd_job j (\<lambda>x. x\<lparr>walresv := f x, walused := g x\<rparr>) s) = v s"
proof -
  have eq: "upd_job j (\<lambda>x. x\<lparr>walresv := f x, walused := g x\<rparr>) s =
      upd_job j (\<lambda>x. x\<lparr>walused := g (job_st s j)\<rparr>) (upd_job j (\<lambda>x. x\<lparr>walresv := f x\<rparr>) s)"
    by (simp add: upd_job_def)
  show ?thesis unfolding eq by (simp only: log_upds)
qed

lemma v_new_file [simp]: "v (s\<lparr>file_brk := n, file_st := fs\<rparr>) = v s"
  using v_file_st [where s = "s\<lparr>file_brk := n\<rparr>" and fs = fs] v_file_brk [where s = s and n = n] by simp

lemma walgc [simp]: "v (walgc s) = v s"
  by (simp add: walgc_def Let_def)

lemma fileincref [simp]: "v (fileincref f s) = v s"
  by (simp add: fileincref_def split: option.split)

lemma filedecref [simp]: "v (filedecref f s) = v s"
  by (simp add: filedecref_def Let_def split: option.split)

lemma fileaddjob [simp]: "v (fileaddjob f j s) = v s"
  by (simp add: fileaddjob_def)

lemma filermjob [simp]: "v (filermjob f j s) = v s"
  by (simp add: filermjob_def Let_def split: option.split)

lemma filewopen [simp]: "v (filewopen f s) = v s"
  by (auto simp: filewopen_def split: prod.split bool.split dest!: env_dest)

lemma filewrite: "filewrite f j n s = (b, s') \<Longrightarrow> v s' = v s"
  by (auto simp: filewrite_def split: prod.splits bool.splits dest!: env_dest)

lemma filewrites: "filewrites f j ns s = (b, s') \<Longrightarrow> v s' = v s"
  by (induction f j ns s rule: filewrites.induct) (auto split: prod.splits bool.splits dest!: filewrite)

lemma filewrjobshort: "filewrjobshort f j s = (b, s') \<Longrightarrow> v s' = v s"
  by (auto simp: filewrjobshort_def simp del: filewrites.simps
      split: prod.splits bool.splits if_splits dest!: filewrites)

lemma filewrjobfull: "filewrjobfull f j s = (b, s') \<Longrightarrow> v s' = v s"
  by (auto simp: filewrjobfull_def Let_def simp del: filewrites.simps dest!: filewrites)

lemma filewclose [simp]: "v (filewclose f s) = v s"
  by (simp add: filewclose_def split: option.split)

lemma fileadd [simp]: "v (fileadd f s) = v s"
  by (simp add: fileadd_def)

lemma usenext: "usenext s = (b, s') \<Longrightarrow> v s' = v s"
  by (auto simp: usenext_def split: option.splits)

lemma makenextfile: "makenextfile s = (b, s') \<Longrightarrow> v s' = v s"
  by (auto simp: makenextfile_def Let_def split: prod.splits bool.splits if_splits dest!: env_dest)

lemma moveresv [simp]: "v (moveresv a b n s) = v s"
  by (simp add: moveresv_def)

lemma needfree: "needfree n s = (r, s') \<Longrightarrow> v s' = v s"
  by (auto simp: needfree_def split: if_splits prod.splits bool.splits dest!: makenextfile)

lemma balancerest: "balancerest k b n s = (r, s') \<Longrightarrow> v s' = v s"
proof (induction k arbitrary: b n s)
  case 0
  then show ?case by (cases b) auto
next
  case (Suc k)
  then show ?case
    by (cases b) (auto simp: Let_def split: if_splits prod.splits dest!: Suc.IH needfree)
qed

lemma balance_loop: "balance_loop k n s = (r, s') \<Longrightarrow> v s' = v s"
proof (induction k arbitrary: s)
  case (Suc k)
  have u: "v (snd (usenext s)) = v s" for s using usenext by (metis surj_pair snd_conv)
  show ?case
    using Suc.prems by (auto simp: Let_def u split: if_splits prod.splits dest!: Suc.IH needfree)
qed auto

lemma balance: "balance n s = (r, s') \<Longrightarrow> v s' = v s"
  by (auto simp: balance_def simp del: balance_loop.simps balancerest.simps
      split: prod.splits bool.splits dest!: balance_loop balancerest)

lemma reserve: "reserve n s = (r, s') \<Longrightarrow> v s' = v s"
  by (auto simp: reserve_def Let_def split: if_splits prod.splits bool.splits dest!: needfree balance)

lemma walresv:
  "walresvput j s = (z, s') \<Longrightarrow> v s' = v s" "walresvupdate s = (z, s') \<Longrightarrow> v s' = v s"
  "walresvmigrate j s = (z, s') \<Longrightarrow> v s' = v s"
  by (auto simp: walresvput_def walresvupdate_def walresvmigrate_def dest: reserve)

lemma walwrite: "walwrite j s = (r, s') \<Longrightarrow> v s' = v s"
  by (auto simp: walwrite_def Let_def split: if_splits prod.splits
      dest!: usenext filewrjobshort filewrjobfull)

lemma moveone [simp]: "v (moveone s) = v s"
proof -
  have w: "v (snd (walwrite j s)) = v s" for j s using walwrite by (metis surj_pair snd_conv)
  show ?thesis by (auto simp: moveone_def Let_def w split: list.split prod.split dest!: walresv(3))
qed

lemma walcompact [simp]: "v (walcompact s) = v s"
proof -
  have "v ((moveone ^^ n) s) = v s" for n by (induction n) simp_all
  then show ?thesis by (simp add: walcompact_def)
qed

lemma walmaint [simp]: "v (walmaint s) = v s"
  by (auto simp: walmaint_def walsync_def split: prod.split dest!: env_dest)

end

section \<open>Connections\<close>

text \<open>
  \<open>ctick\<close> forgets when a connection is to be looked at and what kind of client it is; \<open>cbase\<close> forgets its
  replies too and keeps the fields that belong to the client.
\<close>

definition ctick :: "Conn \<Rightarrow> Conn" where
  "ctick x = x\<lparr>type_producer := False, type_worker := False, type_waiting := False, c_next := None, tickat := 0, tickpos := 0,
     in_conns := False, soonest_job := None, c_rw := NUL, pending_timeout := 0\<rparr>"

definition cbase :: "Conn \<Rightarrow> Conn" where
  "cbase x = zero_conn\<lparr>sock_fd := sock_fd x, c_use := c_use x, halfclosed := halfclosed x, c_cmd := c_cmd x,
     cmd_len := cmd_len x, in_job_read := in_job_read x, in_job := in_job x, watch := watch x\<rparr>"

lemma ctick_cbase:
  assumes "ctick x = ctick y"
  shows "cbase x = cbase y"
proof -
  have "cbase (ctick z) = cbase z" for z by (simp add: ctick_def cbase_def)
  then show ?thesis using assms by metis
qed

locale tick_view = env_view +
  assumes v_tick: "ctick (g (conn_st s c)) = ctick (conn_st s c) \<Longrightarrow> v (upd_conn c g s) = v s"
    and v_conns: "v (s\<lparr>conns := cc\<rparr>) = v s"
    and v_epollq: "v (s\<lparr>epollq := e\<rparr>) = v s"
    and v_worker: "v (s\<lparr>cur_worker_ct := n\<rparr>) = v s"
    and v_producer: "v (s\<lparr>cur_producer_ct := n\<rparr>) = v s"
begin

lemma conn_upds [simp]:
  "v (s\<lparr>conns := cc\<rparr>) = v s" "v (s\<lparr>epollq := e\<rparr>) = v s" "v (s\<lparr>cur_worker_ct := n\<rparr>) = v s"
  "v (s\<lparr>cur_producer_ct := n\<rparr>) = v s"
  by (rule v_conns v_epollq v_worker v_producer)+

lemma conn_setpos [simp]: "v (conn_setpos c i s) = v s"
  by (simp add: conn_setpos_def v_tick ctick_def)

lemma conns_heap:
  "heapremove lt conn_setpos h s k = (r, h', s') \<Longrightarrow> v s' = v s"
  "heapinsert lt conn_setpos malloc h s c = (b, h', s') \<Longrightarrow> v s' = v s"
  using heapremove_frame [of v conn_setpos lt h s k] heapinsert_frame [of v conn_setpos malloc lt h s c] by simp_all

lemma soonest [simp]: "v (conn_set_soonestjob c j s) = v s"
  by (simp add: conn_set_soonestjob_def v_tick ctick_def split: option.split)

lemma connsoonestjob: "connsoonestjob c s = (j, s') \<Longrightarrow> v s' = v s"
  by (auto simp: connsoonestjob_def Let_def view_fold split: option.splits)

lemma conntickat: "conntickat c s = (t, s') \<Longrightarrow> v s' = v s"
  by (auto simp: conntickat_def Let_def split: if_splits prod.splits dest!: connsoonestjob env_dest(3))

lemma conns_remove [simp]: "v (conns_remove c s) = v s"
  by (auto simp: conns_remove_def v_tick ctick_def split: prod.split dest!: conns_heap)

lemma connsched [simp]: "v (connsched c s) = v s"
  by (auto simp: connsched_def Let_def v_tick ctick_def split: prod.split dest!: conns_heap conntickat)

lemma connset [simp]: "v (connsetproducer c s) = v s" "v (connsetworker c s) = v s"
  by (simp_all add: connsetproducer_def connsetworker_def v_tick ctick_def)

lemma conndeadlinesoon: "conndeadlinesoon c s = (b, s') \<Longrightarrow> v s' = v s"
  by (auto simp: conndeadlinesoon_def split: prod.splits option.splits dest!: connsoonestjob env_dest(3))

lemma epollq_adds [simp]: "v (epollq_add c rw s) = v s"
  by (simp add: epollq_add_def Let_def v_tick ctick_def)

end

locale sched_view = env_view +
  assumes v_conn: "cbase (g (conn_st s c)) = cbase (conn_st s c) \<Longrightarrow> v (upd_conn c g s) = v s"
    and v_conns': "v (s\<lparr>conns := cc\<rparr>) = v s"
    and v_epollq': "v (s\<lparr>epollq := e\<rparr>) = v s"
    and v_worker': "v (s\<lparr>cur_worker_ct := n\<rparr>) = v s"
    and v_producer': "v (s\<lparr>cur_producer_ct := n\<rparr>) = v s"

sublocale sched_view \<subseteq> tick_view
  by unfold_locales (blast intro: v_conn ctick_cbase, rule v_conns', rule v_epollq', rule v_worker', rule v_producer')

context sched_view
begin

lemma replies [simp]:
  "v (reply c line st s) = v s" "v (reply_msg c m s) = v s"
  "v (reply_line c st line s) = v s" "v (reply_job c j m s) = v s"
  by (simp_all add: reply_def reply_msg_def reply_line_def reply_job_def v_conn cbase_def)

end

text \<open>Who waits on a tube.\<close>

locale wait_view = tick_view +
  assumes v_waiting: "v (upd_tube t (\<lambda>x. x\<lparr>waiting_conns := w x\<rparr>) s) = v s"
    and v_waiting_ct: "v (upd_stat t (\<lambda>x. x\<lparr>waiting_ct := k x\<rparr>) s) = v s"
    and v_global_waiting: "v (s\<lparr>global_stat := (global_stat s)\<lparr>waiting_ct := m\<rparr>\<rparr>) = v s"
begin

lemma waiting_upds [simp]:
  "v (upd_tube t (\<lambda>x. x\<lparr>waiting_conns := w x\<rparr>) s) = v s" "v (upd_stat t (\<lambda>x. x\<lparr>waiting_ct := k x\<rparr>) s) = v s"
  "v (s\<lparr>global_stat := (global_stat s)\<lparr>waiting_ct := m\<rparr>\<rparr>) = v s"
  by (rule v_waiting v_waiting_ct v_global_waiting)+

lemma unwait [simp]: "v (unwait_tube c t s) = v s"
  by (simp add: unwait_tube_def)

lemma wait [simp]: "v (wait_tube c t s) = v s"
  by (auto simp: wait_tube_def Let_def split: prod.split dest!: ms_append_frame)

lemma waiting [simp]: "v (remove_waiting_conn c s) = v s" "v (enqueue_waiting_conn c s) = v s"
  unfolding remove_waiting_conn_def enqueue_waiting_conn_def Let_def
  by (simp_all add: view_fold v_tick ctick_def)

end

locale conn_view = sched_view +
  assumes v_waiting': "v (upd_tube t (\<lambda>x. x\<lparr>waiting_conns := w x\<rparr>) s) = v s"
    and v_waiting_ct': "v (upd_stat t (\<lambda>x. x\<lparr>waiting_ct := k x\<rparr>) s) = v s"
    and v_global_waiting': "v (s\<lparr>global_stat := (global_stat s)\<lparr>waiting_ct := m\<rparr>\<rparr>) = v s"

sublocale conn_view \<subseteq> wait_view
  by unfold_locales (rule v_waiting', rule v_waiting_ct', rule v_global_waiting')

context conn_view
begin

lemma waits [simp]: "v (wait_for_job c t s) = v s"
  by (simp add: wait_for_job_def Let_def v_conn cbase_def)

end

end
