(* ===== verification/Bean_Frames.thy ===== *)
theory Bean_Frames
  imports Bean_Inv Bean_Views
begin

text \<open>
  The parts of the server that do not touch the queues: the environment, the log, the scheduling of
  connections and the replies. None of them changes the view of the queues.
\<close>

section \<open>Single updates\<close>

lemma qview_upds [simp]:
  "qview (upd_conn c g s) = qview s" "qview (upd_file f h s) = qview s" "qview (s\<lparr>wal := w\<rparr>) = qview s"
  "qview (s\<lparr>file_brk := n\<rparr>) = qview s" "qview (s\<lparr>file_st := ff\<rparr>) = qview s" "qview (s\<lparr>conns := cc\<rparr>) = qview s"
  "qview (s\<lparr>epollq := e\<rparr>) = qview s" "qview (s\<lparr>allocs := as\<rparr>) = qview s" "qview (s\<lparr>sys := ss\<rparr>) = qview s"
  "qview (s\<lparr>ticks := ts\<rparr>) = qview s" "qview (s\<lparr>now := t\<rparr>) = qview s" "qview (s\<lparr>op_ct := oc\<rparr>) = qview s"
  "qview (s\<lparr>cur_worker_ct := wc\<rparr>) = qview s" "qview (s\<lparr>cur_producer_ct := pc\<rparr>) = qview s"
  "qview (s\<lparr>cur_conn_ct := wc\<rparr>) = qview s" "qview (s\<lparr>timeout_ct := tc\<rparr>) = qview s"
  "qview (s\<lparr>tubes := tb\<rparr>) = qview s" "qview (s\<lparr>live_tubes := lt\<rparr>) = qview s" "qview (s\<lparr>live_conns := lc\<rparr>) = qview s"
  by (simp_all add: qview_def upd_conn_def upd_file_def)

lemma qview_upd_job:
  "core (f (job_st s j)) = core (job_st s j) \<Longrightarrow> heap_index (f (job_st s j)) = heap_index (job_st s j) \<Longrightarrow>
   qview (upd_job j f s) = qview s"
  by (simp add: qview_def upd_job_def fun_eq_iff)

lemma qview_upd_tube: "tview (f (tube_st s t)) = tview (tube_st s t) \<Longrightarrow> qview (upd_tube t f s) = qview s"
  by (simp add: qview_def upd_tube_def fun_eq_iff)

lemma qview_global_waiting [simp]: "qview (s\<lparr>global_stat := (global_stat s)\<lparr>waiting_ct := n\<rparr>\<rparr>) = qview s"
  by (simp add: qview_def sview_def)

interpretation qv: log_view qview
  by unfold_locales (simp_all add: qview_upd_job core_def)

interpretation qc: conn_view qview
  by unfold_locales (simp_all add: upd_stat_def qview_upd_tube tview_def sview_def)

lemmas qview_nanoseconds = qv.env_dest(3)

lemmas qview_walresv = qv.walresv

lemmas qview_walwrite = qv.walwrite

section \<open>References to tubes\<close>

lemma qview_tube_refs [simp]: "qview (tube_iref t s) = qview s" "qview (tube_dref t s) = qview s"
proof -
  have f: "qview (tube_free t s) = qview s" for t s
    by (simp add: tube_free_def Let_def qview_upd_tube tview_def split: prod.split)
  show "qview (tube_iref t s) = qview s" "qview (tube_dref t s) = qview s"
    by (simp_all add: tube_iref_def tube_dref_def Let_def f qview_upd_tube tview_def split: option.split)
qed

lemma qview_on_watch [simp]: "qview (on_watch t i s) = qview s" "qview (on_ignore t i s) = qview s"
  by (simp_all add: on_watch_def on_ignore_def qview_upd_tube tview_def)

section \<open>Fields\<close>

lemma upd_job_fields [simp]:
  "brk (upd_job j f s) = brk s" "live_jobs (upd_job j f s) = live_jobs s"
  "tube_st (upd_job j f s) = tube_st s" "live_tubes (upd_job j f s) = live_tubes s"
  "conn_st (upd_job j f s) = conn_st s" "live_conns (upd_job j f s) = live_conns s"
  "file_st (upd_job j f s) = file_st s" "lists (upd_job j f s) = lists s"
  "jobhash (upd_job j f s) = jobhash s" "next_id (upd_job j f s) = next_id s"
  "tubes (upd_job j f s) = tubes s" "conns (upd_job j f s) = conns s" "wal (upd_job j f s) = wal s"
  "ready_ct (upd_job j f s) = ready_ct s" "global_stat (upd_job j f s) = global_stat s"
  "drain_mode (upd_job j f s) = drain_mode s"
  "job_data_size_limit (upd_job j f s) = job_data_size_limit s" "epollq (upd_job j f s) = epollq s"
  "allocs (upd_job j f s) = allocs s" "sys (upd_job j f s) = sys s"
  "ticks (upd_job j f s) = ticks s" "now (upd_job j f s) = now s"
  "job_st (upd_job j f s) = (job_st s)(j := f (job_st s j))"
  by (simp_all add: upd_job_def)

lemma upd_conn_fields [simp]:
  "brk (upd_conn c f s) = brk s" "job_st (upd_conn c f s) = job_st s"
  "live_jobs (upd_conn c f s) = live_jobs s" "tube_st (upd_conn c f s) = tube_st s"
  "live_tubes (upd_conn c f s) = live_tubes s" "live_conns (upd_conn c f s) = live_conns s"
  "file_st (upd_conn c f s) = file_st s" "lists (upd_conn c f s) = lists s"
  "jobhash (upd_conn c f s) = jobhash s" "next_id (upd_conn c f s) = next_id s"
  "tubes (upd_conn c f s) = tubes s" "conns (upd_conn c f s) = conns s"
  "wal (upd_conn c f s) = wal s" "ready_ct (upd_conn c f s) = ready_ct s"
  "global_stat (upd_conn c f s) = global_stat s" "drain_mode (upd_conn c f s) = drain_mode s"
  "job_data_size_limit (upd_conn c f s) = job_data_size_limit s"
  "epollq (upd_conn c f s) = epollq s" "allocs (upd_conn c f s) = allocs s"
  "sys (upd_conn c f s) = sys s" "ticks (upd_conn c f s) = ticks s" "now (upd_conn c f s) = now s"
  "conn_st (upd_conn c f s) = (conn_st s)(c := f (conn_st s c))"
  by (simp_all add: upd_conn_def)

lemma upd_stat_fields [simp]:
  "brk (upd_stat t f s) = brk s" "job_st (upd_stat t f s) = job_st s"
  "live_jobs (upd_stat t f s) = live_jobs s" "live_tubes (upd_stat t f s) = live_tubes s"
  "conn_st (upd_stat t f s) = conn_st s" "live_conns (upd_stat t f s) = live_conns s"
  "file_st (upd_stat t f s) = file_st s" "lists (upd_stat t f s) = lists s"
  "jobhash (upd_stat t f s) = jobhash s" "next_id (upd_stat t f s) = next_id s"
  "tubes (upd_stat t f s) = tubes s" "conns (upd_stat t f s) = conns s"
  "wal (upd_stat t f s) = wal s" "ready_ct (upd_stat t f s) = ready_ct s"
  "global_stat (upd_stat t f s) = global_stat s" "drain_mode (upd_stat t f s) = drain_mode s"
  "job_data_size_limit (upd_stat t f s) = job_data_size_limit s"
  "epollq (upd_stat t f s) = epollq s" "allocs (upd_stat t f s) = allocs s"
  "sys (upd_stat t f s) = sys s" "ticks (upd_stat t f s) = ticks s" "now (upd_stat t f s) = now s"
  "tube_st (upd_stat t f s) = (tube_st s)(t := (tube_st s t)\<lparr>stat := f (stat (tube_st s t))\<rparr>)"
  by (simp_all add: upd_stat_def upd_tube_def)

lemma upd_global_fields [simp]:
  "brk (upd_global f s) = brk s" "job_st (upd_global f s) = job_st s"
  "live_jobs (upd_global f s) = live_jobs s" "tube_st (upd_global f s) = tube_st s"
  "live_tubes (upd_global f s) = live_tubes s" "conn_st (upd_global f s) = conn_st s"
  "live_conns (upd_global f s) = live_conns s" "file_st (upd_global f s) = file_st s"
  "lists (upd_global f s) = lists s" "jobhash (upd_global f s) = jobhash s"
  "next_id (upd_global f s) = next_id s" "tubes (upd_global f s) = tubes s"
  "conns (upd_global f s) = conns s" "wal (upd_global f s) = wal s"
  "ready_ct (upd_global f s) = ready_ct s" "drain_mode (upd_global f s) = drain_mode s"
  "job_data_size_limit (upd_global f s) = job_data_size_limit s"
  "epollq (upd_global f s) = epollq s" "allocs (upd_global f s) = allocs s"
  "sys (upd_global f s) = sys s" "ticks (upd_global f s) = ticks s" "now (upd_global f s) = now s"
  "global_stat (upd_global f s) = f (global_stat s)"
  by (simp_all add: upd_global_def)

lemma list_insert_fields [simp]:
  "brk (list_insert h j s) = brk s" "job_st (list_insert h j s) = job_st s"
  "live_jobs (list_insert h j s) = live_jobs s" "tube_st (list_insert h j s) = tube_st s"
  "live_tubes (list_insert h j s) = live_tubes s" "conn_st (list_insert h j s) = conn_st s"
  "live_conns (list_insert h j s) = live_conns s" "file_st (list_insert h j s) = file_st s"
  "jobhash (list_insert h j s) = jobhash s" "next_id (list_insert h j s) = next_id s"
  "tubes (list_insert h j s) = tubes s" "conns (list_insert h j s) = conns s"
  "wal (list_insert h j s) = wal s" "ready_ct (list_insert h j s) = ready_ct s"
  "global_stat (list_insert h j s) = global_stat s" "drain_mode (list_insert h j s) = drain_mode s"
  "job_data_size_limit (list_insert h j s) = job_data_size_limit s"
  "epollq (list_insert h j s) = epollq s" "allocs (list_insert h j s) = allocs s"
  "sys (list_insert h j s) = sys s" "ticks (list_insert h j s) = ticks s"
  "now (list_insert h j s) = now s" "lists (list_insert h j s) = jl_insert (lists s) h j"
  by (simp_all add: list_insert_def)

lemma nanoseconds_fields [simp]:
  "brk (snd (nanoseconds s)) = brk s" "job_st (snd (nanoseconds s)) = job_st s"
  "live_jobs (snd (nanoseconds s)) = live_jobs s" "tube_st (snd (nanoseconds s)) = tube_st s"
  "live_tubes (snd (nanoseconds s)) = live_tubes s" "conn_st (snd (nanoseconds s)) = conn_st s"
  "live_conns (snd (nanoseconds s)) = live_conns s" "file_st (snd (nanoseconds s)) = file_st s"
  "lists (snd (nanoseconds s)) = lists s" "jobhash (snd (nanoseconds s)) = jobhash s"
  "next_id (snd (nanoseconds s)) = next_id s" "tubes (snd (nanoseconds s)) = tubes s"
  "conns (snd (nanoseconds s)) = conns s" "wal (snd (nanoseconds s)) = wal s"
  "ready_ct (snd (nanoseconds s)) = ready_ct s" "global_stat (snd (nanoseconds s)) = global_stat s"
  "drain_mode (snd (nanoseconds s)) = drain_mode s"
  "job_data_size_limit (snd (nanoseconds s)) = job_data_size_limit s"
  "epollq (snd (nanoseconds s)) = epollq s" "allocs (snd (nanoseconds s)) = allocs s"
  "sys (snd (nanoseconds s)) = sys s"
  by (simp_all add: nanoseconds_def split: list.split)

lemma soonest_fields [simp]:
  "brk (conn_set_soonestjob c j s) = brk s" "job_st (conn_set_soonestjob c j s) = job_st s"
  "live_jobs (conn_set_soonestjob c j s) = live_jobs s"
  "tube_st (conn_set_soonestjob c j s) = tube_st s"
  "live_tubes (conn_set_soonestjob c j s) = live_tubes s"
  "live_conns (conn_set_soonestjob c j s) = live_conns s"
  "file_st (conn_set_soonestjob c j s) = file_st s" "lists (conn_set_soonestjob c j s) = lists s"
  "jobhash (conn_set_soonestjob c j s) = jobhash s"
  "next_id (conn_set_soonestjob c j s) = next_id s" "tubes (conn_set_soonestjob c j s) = tubes s"
  "conns (conn_set_soonestjob c j s) = conns s" "wal (conn_set_soonestjob c j s) = wal s"
  "ready_ct (conn_set_soonestjob c j s) = ready_ct s"
  "global_stat (conn_set_soonestjob c j s) = global_stat s"
  "drain_mode (conn_set_soonestjob c j s) = drain_mode s"
  "job_data_size_limit (conn_set_soonestjob c j s) = job_data_size_limit s"
  "epollq (conn_set_soonestjob c j s) = epollq s" "allocs (conn_set_soonestjob c j s) = allocs s"
  "sys (conn_set_soonestjob c j s) = sys s" "ticks (conn_set_soonestjob c j s) = ticks s"
  "now (conn_set_soonestjob c j s) = now s"
  by (simp_all add: conn_set_soonestjob_def split: option.split)

section \<open>What connections leave alone\<close>

text \<open>
  \<open>kview\<close> forgets the connections, their scheduling, the waiting sets of the tubes and the
  environment. Scheduling and answering a connection changes nothing else.
\<close>

definition kview :: "server \<Rightarrow> server" where
  "kview s = s\<lparr>conn_st := (\<lambda>_. zero_conn), conns := empty_heap, epollq := None, allocs := [], ticks := [], now := 0,
     sys := [], cur_worker_ct := 0, cur_producer_ct := 0,
     global_stat := (global_stat s)\<lparr>waiting_ct := 0\<rparr>,
     tube_st := (\<lambda>t. (tube_st s t)\<lparr>waiting_conns := ms_init, stat := (stat (tube_st s t))\<lparr>waiting_ct := 0\<rparr>\<rparr>)\<rparr>"

lemma kviewD:
  assumes "kview s' = kview s"
  shows "job_st s' = job_st s" "live_jobs s' = live_jobs s" "tubes s' = tubes s" "jobhash s' = jobhash s"
    "next_id s' = next_id s" "wal s' = wal s" "file_st s' = file_st s" "lists s' = lists s" "brk s' = brk s"
    "live_tubes s' = live_tubes s" "ready_ct s' = ready_ct s" "live_conns s' = live_conns s"
    "drain_mode s' = drain_mode s" "job_data_size_limit s' = job_data_size_limit s"
proof -
  have x: "f (kview s') = f (kview s)" for f :: "server \<Rightarrow> 'x" using assms by simp
  show "job_st s' = job_st s" using x [of job_st] by (simp add: kview_def)
  show "live_jobs s' = live_jobs s" using x [of live_jobs] by (simp add: kview_def)
  show "tubes s' = tubes s" using x [of tubes] by (simp add: kview_def)
  show "jobhash s' = jobhash s" using x [of jobhash] by (simp add: kview_def)
  show "next_id s' = next_id s" using x [of next_id] by (simp add: kview_def)
  show "wal s' = wal s" using x [of wal] by (simp add: kview_def)
  show "file_st s' = file_st s" using x [of file_st] by (simp add: kview_def)
  show "lists s' = lists s" using x [of lists] by (simp add: kview_def)
  show "brk s' = brk s" using x [of brk] by (simp add: kview_def)
  show "live_tubes s' = live_tubes s" using x [of live_tubes] by (simp add: kview_def)
  show "ready_ct s' = ready_ct s" using x [of ready_ct] by (simp add: kview_def)
  show "live_conns s' = live_conns s" using x [of live_conns] by (simp add: kview_def)
  show "drain_mode s' = drain_mode s" using x [of drain_mode] by (simp add: kview_def)
  show "job_data_size_limit s' = job_data_size_limit s" using x [of job_data_size_limit] by (simp add: kview_def)
qed

lemma kview_tube:
  assumes "kview s' = kview s"
  shows "(tube_st s' t)\<lparr>waiting_conns := ms_init, stat := (stat (tube_st s' t))\<lparr>waiting_ct := 0\<rparr>\<rparr> =
    (tube_st s t)\<lparr>waiting_conns := ms_init, stat := (stat (tube_st s t))\<lparr>waiting_ct := 0\<rparr>\<rparr>"
proof -
  have "tube_st (kview s') t = tube_st (kview s) t" using assms by simp
  then show ?thesis by (simp add: kview_def)
qed

lemma kview_upd_conn [simp]: "kview (upd_conn c g s) = kview s"
  by (simp add: kview_def upd_conn_def)

interpretation kv: conn_view kview
  by unfold_locales (simp_all add: kview_def upd_conn_def upd_tube_def upd_stat_def fun_eq_iff)

end
