(* ===== verification/Bean_QueueInv.thy ===== *)
theory Bean_QueueInv
  imports Bean_Frames
begin

text \<open>
  Every operation on the queues preserves the invariant of \<open>Bean_Inv\<close>: what it does to the place of
  the job it handles and to the counters, and that handing out ready jobs ends.
\<close>

section \<open>Taking a job out\<close>

lemma queue_okD:
  assumes "queue_ok X off s"
  shows "places_ok X s" "counts_ok X off s" "finite (live_jobs s)"
  using assms places_okD(1) by (auto simp: queue_ok_def)

text \<open>The tube of a job that is in a queue.\<close>

lemma job_has_tube:
  assumes "queue_ok X off s" "j \<in> live_jobs s" "j \<notin> X" "r_state (job_st s j) \<in> {Ready, Delayed, Buried, Reserved}"
  obtains t where "j_tube (job_st s j) = Some t"
  using places_okD(9) [OF queue_okD(1) [OF assms(1)] assms(2,3,4)] by blast

text \<open>What taking a job out leaves alone; \<open>f\<close> is the change of the ready heaps' sizes.\<close>

definition unchanged :: "server \<Rightarrow> server \<Rightarrow> bool" where
  "unchanged s s' \<longleftrightarrow>
     (\<forall>k. core (job_st s' k) = core (job_st s k)) \<and> live_jobs s' = live_jobs s \<and> tubes s' = tubes s \<and>
     (\<forall>t. waiting_conns (tube_st s' t) = waiting_conns (tube_st s t)) \<and>
     (\<forall>t. pause (tube_st s' t) = pause (tube_st s t)) \<and> (\<forall>t. unpause_at (tube_st s' t) = unpause_at (tube_st s t)) \<and>
     conn_st s' = conn_st s \<and> wal s' = wal s \<and> jobhash s' = jobhash s \<and> next_id s' = next_id s \<and>
     (\<forall>k. r_ttr (job_st s' k) = r_ttr (job_st s k)) \<and> ticks s' = ticks s \<and> now s' = now s"

lemma remove_ready_ok:
  assumes ok: "queue_ok X off s" and j: "j \<in> live_jobs s" "j \<notin> X" "r_state (job_st s j) = Ready"
  obtains s' where "remove_ready_job (Some j) s = (Some j, s')" "queue_ok (insert j X) off s'" "unchanged s s'"
    "\<And>u. heap_len (ready (tube_st s' u)) = heap_len (ready (tube_st s u)) - of_bool (j_tube (job_st s j) = Some u)"
    "\<And>u. j_tube (job_st s j) = Some u \<Longrightarrow> 0 < heap_len (ready (tube_st s u))"
proof -
  obtain t where t: "j_tube (job_st s j) = Some t" using job_has_tube [OF ok j(1,2)] j(3) by auto
  obtain r h s1 where e: "heapremove job_pri_less job_setpos (ready (tube_st s t)) s (heap_index (job_st s j)) = (r, h, s1)"
    by (metis prod_cases3)
  have hm: "home (job_st s j) = Some (PReady t)" using j t by (simp add: home_def)
  note rm = rq.remove_places [OF queue_okD(1) [OF ok] j(1,2) hm e]
  note v = hviewD [OF rm(2)]
  define s2 where "s2 = (upd_tube t (\<lambda>x. x\<lparr>ready := h\<rparr>) s1)\<lparr>ready_ct := ready_ct s1 - 1\<rparr>"
  define s3 where "s3 = (if r_pri (job_st s j) < URGENT_THRESHOLD
    then upd_stat t (\<lambda>x. x\<lparr>urgent_ct := urgent_ct x - 1\<rparr>) (upd_global (\<lambda>x. x\<lparr>urgent_ct := urgent_ct x - 1\<rparr>) s2) else s2)"
  have c1: "r_pri (job_st s1 j) = r_pri (job_st s j)" "j_tube (job_st s1 j) = j_tube (job_st s j)"
    using coreD [OF v(7)] by auto
  have eq: "remove_ready_job (Some j) s = (Some j, s3)"
    using e j t c1 by (simp add: remove_ready_job_def ready_remove_def Let_def s2_def s3_def)
  have f: "job_st s3 = job_st s1" "live_jobs s3 = live_jobs s" "lists s3 = lists s" "brk s3 = brk s" "tubes s3 = tubes s"
    "conn_st s3 = conn_st s" "wal s3 = wal s" "jobhash s3 = jobhash s" "next_id s3 = next_id s"
    "ready_ct s3 = ready_ct s - 1" "ticks s3 = ticks s" "now s3 = now s"
    by (simp_all add: s3_def s2_def v)
  have tb: "ready (tube_st s3 u) = (if u = t then h else ready (tube_st s u))" "delay (tube_st s3 u) = delay (tube_st s u)"
    "waiting_conns (tube_st s3 u) = waiting_conns (tube_st s u)" "pause (tube_st s3 u) = pause (tube_st s u)"
    "unpause_at (tube_st s3 u) = unpause_at (tube_st s u)"
    "buried_ct (stat (tube_st s3 u)) = buried_ct (stat (tube_st s u))"
    "reserved_ct (stat (tube_st s3 u)) = reserved_ct (stat (tube_st s u))"
    "urgent_ct (stat (tube_st s3 u)) = urgent_ct (stat (tube_st s u)) - of_bool (r_pri (job_st s j) < URGENT_THRESHOLD \<and> u = t)" for u
    by (simp_all add: s3_def s2_def v)
  have gb: "buried_ct (global_stat s3) = buried_ct (global_stat s)" "reserved_ct (global_stat s3) = reserved_ct (global_stat s)"
    "urgent_ct (global_stat s3) = urgent_ct (global_stat s) - of_bool (r_pri (job_st s j) < URGENT_THRESHOLD)"
    by (simp_all add: s3_def s2_def v)
  have core: "core (job_st s3 k) = core (job_st s k)" for k using v(7) f(1) by simp
  have ttr: "r_ttr (job_st s3 k) = r_ttr (job_st s k)" for k
    using arg_cong [OF v(16) [of k], of r_ttr] f(1) by simp
  have "places_ok (insert j X) s3"
  proof (rule places_inflight [OF rm(1), of j])
    show "ready (tube_st s3 u) = ready (tube_st (upd_tube t (\<lambda>x. x\<lparr>ready := h\<rparr>) s1) u)"
      "delay (tube_st s3 u) = delay (tube_st (upd_tube t (\<lambda>x. x\<lparr>ready := h\<rparr>) s1) u)" for u
      by (simp_all add: tb v)
  qed (simp_all add: f v)
  moreover have "counts_ok (insert j X) off s3"
    by (rule counts_leave [OF queue_okD(3) [OF ok] queue_okD(2) [OF ok] j(1,2) f(2) core refl, where late = False])
      (use j t in \<open>auto simp: f tb gb pred_defs\<close>)
  moreover have "unchanged s s3" using core ttr by (simp add: unchanged_def f(2-) tb)
  ultimately show thesis
    using that eq rm(3) by (simp add: queue_ok_def tb t)
qed

lemma remove_delayed_ok:
  assumes ok: "queue_ok X off s" and j: "j \<in> live_jobs s" "j \<notin> X" "r_state (job_st s j) = Delayed"
  shows "queue_ok (insert j X) off (delay_remove j s)" "unchanged s (delay_remove j s)"
    "\<And>u. ready (tube_st (delay_remove j s) u) = ready (tube_st s u)"
    "\<And>u. heap_len (delay (tube_st (delay_remove j s) u)) =
      heap_len (delay (tube_st s u)) - of_bool (j_tube (job_st s j) = Some u)"
proof -
  obtain t where t: "j_tube (job_st s j) = Some t" using job_has_tube [OF ok j(1,2)] j(3) by auto
  obtain r h s1 where e: "heapremove job_delay_less job_setpos (delay (tube_st s t)) s (heap_index (job_st s j)) = (r, h, s1)"
    by (metis prod_cases3)
  have hm: "home (job_st s j) = Some (PDelay t)" using j t by (simp add: home_def)
  note rm = dq.remove_places [OF queue_okD(1) [OF ok] j(1,2) hm e]
  note v = hviewD [OF rm(2)]
  have eq: "delay_remove j s = upd_tube t (\<lambda>x. x\<lparr>delay := h\<rparr>) s1" using e t by (simp add: delay_remove_def)
  have ttr: "r_ttr (job_st s1 k) = r_ttr (job_st s k)" for k using arg_cong [OF v(16) [of k], of r_ttr] by simp
  have "counts_ok (insert j X) off (delay_remove j s)"
    unfolding eq
    by (rule counts_leave [OF queue_okD(3) [OF ok] queue_okD(2) [OF ok] j(1,2) _ _ refl, where late = False])
      (use j t v(7) in \<open>auto simp: v pred_defs\<close>)
  then show "queue_ok (insert j X) off (delay_remove j s)" using rm(1) eq by (simp add: queue_ok_def)
  show "unchanged s (delay_remove j s)" unfolding eq by (simp add: unchanged_def v(7) v ttr)
  show "ready (tube_st (delay_remove j s) u) = ready (tube_st s u)" for u by (simp add: eq v)
  show "heap_len (delay (tube_st (delay_remove j s) u)) =
      heap_len (delay (tube_st s u)) - of_bool (j_tube (job_st s j) = Some u)" for u
    using rm(3) by (simp add: eq v t)
qed

lemma remove_buried_ok:
  assumes ok: "queue_ok X off s" and j: "j \<in> live_jobs s" "j \<notin> X" "r_state (job_st s j) = Buried"
  obtains s' where "remove_buried_job (Some j) s = (Some j, s')" "queue_ok (insert j X) off s'" "unchanged s s'"
    "\<And>u. ready (tube_st s' u) = ready (tube_st s u)"
proof -
  obtain t where t: "j_tube (job_st s j) = Some t" using job_has_tube [OF ok j(1,2)] j(3) by auto
  have hm: "home (job_st s j) = Some (PBuried t)" using j t by (simp add: home_def)
  obtain l where l: "list_remove j s = (True, s\<lparr>lists := l\<rparr>)" "places_ok (insert j X) (s\<lparr>lists := l\<rparr>)"
    using list_leave [OF queue_okD(1) [OF ok] j(1,2) hm] by auto
  define s3 where "s3 = upd_stat t (\<lambda>x. x\<lparr>buried_ct := buried_ct x - 1\<rparr>)
    (upd_global (\<lambda>x. x\<lparr>buried_ct := buried_ct x - 1\<rparr>) (s\<lparr>lists := l\<rparr>))"
  have eq: "remove_buried_job (Some j) s = (Some j, s3)" using j l t by (simp add: remove_buried_job_def s3_def)
  have "places_ok (insert j X) s3"
    by (rule places_inflight [OF l(2), of j]) (simp_all add: s3_def)
  moreover have "counts_ok (insert j X) off s3"
    by (rule counts_leave [OF queue_okD(3) [OF ok] queue_okD(2) [OF ok] j(1,2) _ _ refl, where late = False])
      (use j t in \<open>auto simp: s3_def pred_defs\<close>)
  moreover have "unchanged s s3" by (simp add: unchanged_def s3_def)
  moreover have "ready (tube_st s3 u) = ready (tube_st s u)" for u by (simp add: s3_def)
  ultimately show thesis using that eq by (simp add: queue_ok_def)
qed

lemma remove_reserved_ok:
  assumes ok: "queue_ok X off s" and j: "j \<in> live_jobs s" "j \<notin> X" "r_state (job_st s j) = Reserved"
  obtains s' where "remove_this_reserved_job c j s = (Some j, s')" "queue_ok (insert j X) off s'"
    "\<And>k. core (job_st s' k) = (if k = j then core ((job_st s j)\<lparr>reserver := None\<rparr>) else core (job_st s k))"
    "live_jobs s' = live_jobs s" "jobhash s' = jobhash s" "wal s' = wal s" "next_id s' = next_id s" "tubes s' = tubes s"
proof -
  obtain t where t: "j_tube (job_st s j) = Some t" using job_has_tube [OF ok j(1,2)] j(3) by auto
  have "home (job_st s j) \<noteq> None" using places_okD(9) [OF queue_okD(1) [OF ok] j(1,2)] j(3) by simp
  then obtain c' where hm: "home (job_st s j) = Some (PReserved c')" using j by (auto simp: home_def)
  obtain l where l: "list_remove j s = (True, s\<lparr>lists := l\<rparr>)" "places_ok (insert j X) (s\<lparr>lists := l\<rparr>)"
    using list_leave [OF queue_okD(1) [OF ok] j(1,2) hm] by auto
  define s2 where "s2 = upd_stat t (\<lambda>x. x\<lparr>reserved_ct := reserved_ct x - 1\<rparr>)
    (upd_global (\<lambda>x. x\<lparr>reserved_ct := reserved_ct x - 1\<rparr>) (s\<lparr>lists := l\<rparr>))"
  define s3 where "s3 = upd_conn c (\<lambda>x. x\<lparr>soonest_job := None\<rparr>) (upd_job j (\<lambda>x. x\<lparr>reserver := None\<rparr>) s2)"
  have eq: "remove_this_reserved_job c j s = (Some j, s3)"
    using l t by (simp add: remove_this_reserved_job_def s3_def s2_def Let_def)
  have "places_ok (insert j X) s3"
    by (rule places_inflight [OF l(2), of j]) (simp_all add: s3_def s2_def)
  moreover have c2: "counts_ok (insert j X) off s2"
    by (rule counts_leave [OF queue_okD(3) [OF ok] queue_okD(2) [OF ok] j(1,2) _ _ refl, where late = False])
      (use j t in \<open>auto simp: s2_def pred_defs\<close>)
  have "counts_ok (insert j X) off s3"
    by (rule counts_same [OF c2]) (auto simp: s3_def)
  ultimately show thesis using that eq by (simp add: queue_ok_def s3_def s2_def)
qed

section \<open>Putting a job in\<close>

lemma bury_list_ok:
  assumes ok: "queue_ok X off s" and j: "j \<in> X" "j_tube (job_st s j) = Some t" "r_state (job_st s j) \<noteq> Copy"
  shows "queue_ok (X - {j}) off (bury_list j s)" "r_state (job_st (bury_list j s) j) = Buried"
    "jl_items (lists (bury_list j s)) = (jl_items (lists s))(LBuried t := jl_items (lists s) (LBuried t) @ [j])"
proof -
  let ?s' = "bury_list j s"
  note p = queue_okD(1) [OF ok]
  have jl: "j \<in> live_jobs s" using places_okD(2) [OF p] j(1) by auto
  have y: "job_st ?s' = (job_st s)(j := (job_st s j)\<lparr>r_state := Buried, reserver := None, r_bury_ct := r_bury_ct (job_st s j) + 1\<rparr>)"
    "lists ?s' = jl_insert (lists s) (LBuried t) j" "live_jobs ?s' = live_jobs s" "brk ?s' = brk s"
    using j by (simp_all add: bury_list_def Let_def)
  note le = list_enter [OF p j(1) _ y(2,1), of "PBuried t"]
  have "places_ok (X - {j}) ?s'"
    by (rule le(1)) (use j in \<open>auto simp: home_def y bury_list_def Let_def\<close>)
  moreover have "counts_ok (X - {j}) off ?s'"
    by (rule counts_enter [OF queue_okD(3) [OF ok] queue_okD(2) [OF ok] j(1) jl y(3) _ refl])
      (use j in \<open>auto simp: bury_list_def Let_def pred_defs\<close>)
  ultimately show "queue_ok (X - {j}) off ?s'" by (simp add: queue_ok_def)
  show "r_state (job_st ?s' j) = Buried" by (simp add: y)
  show "jl_items (lists ?s') = (jl_items (lists s))(LBuried t := jl_items (lists s) (LBuried t) @ [j])"
    by (rule le(2)) (use j in \<open>auto simp: home_def y bury_list_def Let_def\<close>)
qed

text \<open>
  The caller of \<open>conn_reserve_job\<close> has already incremented the global counter of reserved jobs.
\<close>

lemma conn_reserve_ok:
  assumes ok: "queue_ok X off s" and j: "j \<in> X" "j_tube (job_st s j) = Some t" "r_state (job_st s j) \<noteq> Copy"
    and s1: "qview s1 = qview (upd_global (\<lambda>x. x\<lparr>reserved_ct := reserved_ct x + 1\<rparr>) s)"
  shows "queue_ok (X - {j}) off (conn_reserve_job c j s1)"
    "r_state (job_st (conn_reserve_job c j s1) j) = Reserved"
    "reserver (job_st (conn_reserve_job c j s1) j) = Some c"
    "\<And>k. k \<noteq> j \<Longrightarrow> job_st (conn_reserve_job c j s1) k = job_st s1 k"
    "j_tube (job_st (conn_reserve_job c j s1) j) = Some t"
    "live_jobs (conn_reserve_job c j s1) = live_jobs s1" "tubes (conn_reserve_job c j s1) = tubes s1"
proof -
  let ?s' = "conn_reserve_job c j s1"
  note v = qviewD [OF s1]
  have v7: "lists s1 = lists s" "live_jobs s1 = live_jobs s" "brk s1 = brk s" "core (job_st s1 k) = core (job_st s k)"
    "heap_index (job_st s1 k) = heap_index (job_st s k)" "ready_ct s1 = ready_ct s" for k
    using v by simp_all
  have vt: "ready (tube_st s1 u) = ready (tube_st s u)" "delay (tube_st s1 u) = delay (tube_st s u)"
    "sview (stat (tube_st s1 u)) = sview (stat (tube_st s u))" for u
    using v(5,6,10) by simp_all
  have vs: "urgent_ct (stat (tube_st s1 u)) = urgent_ct (stat (tube_st s u))"
    "buried_ct (stat (tube_st s1 u)) = buried_ct (stat (tube_st s u))"
    "reserved_ct (stat (tube_st s1 u)) = reserved_ct (stat (tube_st s u))" for u
    using vt(3) [of u] by (simp_all add: sview_def)
  have vg: "urgent_ct (global_stat s1) = urgent_ct (global_stat s)" "buried_ct (global_stat s1) = buried_ct (global_stat s)"
    "reserved_ct (global_stat s1) = reserved_ct (global_stat s) + 1"
    using v(9) by (simp_all add: sview_def)
  have cj: "r_id (job_st s1 j) = r_id (job_st s j)" "j_tube (job_st s1 j) = Some t" "r_state (job_st s1 j) \<noteq> Copy"
    using coreD [OF v7(4) [of j]] j by simp_all
  define y where "y = (job_st s1 j)\<lparr>r_reserve_ct := r_reserve_ct (job_st s1 j) + 1,
    r_deadline_at := fst (nanoseconds (upd_job j (\<lambda>x. x\<lparr>r_reserve_ct := r_reserve_ct x + 1\<rparr>)
      (upd_stat t (\<lambda>x. x\<lparr>reserved_ct := reserved_ct x + 1\<rparr>) s1))) + r_ttr (job_st s1 j),
    r_state := Reserved, reserver := Some c\<rparr>"
  have f: "job_st ?s' = (job_st s1)(j := y)" "lists ?s' = jl_insert (lists s1) (LReserved c) j"
    "live_jobs ?s' = live_jobs s1" "brk ?s' = brk s1" "ready_ct ?s' = ready_ct s1" "global_stat ?s' = global_stat s1"
    "tube_st ?s' = (tube_st s1)(t := (tube_st s1 t)\<lparr>stat := (stat (tube_st s1 t))\<lparr>reserved_ct := reserved_ct (stat (tube_st s1 t)) + 1\<rparr>\<rparr>)"
    "tubes ?s' = tubes s1"
    using cj by (simp_all add: conn_reserve_job_def Let_def case_prod_beta y_def fun_eq_iff)
  have yf: "home y = Some (PReserved c)" "j_tube y = Some t" "r_id y = r_id (job_st s1 j)" "r_state y = Reserved"
    using cj by (simp_all add: y_def home_def)
  have p1: "places_ok X s1"
    by (rule places_inflight [OF queue_okD(1) [OF ok] j(1)]) (simp_all add: v7 vt coreD [OF v7(4)])
  have "places_ok (X - {j}) ?s'"
    by (rule list_enter(1) [OF p1 j(1) _ f(2,1), of "PReserved c"]) (use yf cj f in simp_all)
  moreover have "counts_ok (X - {j}) off ?s'"
  proof (rule counts_enter [OF queue_okD(3) [OF ok] queue_okD(2) [OF ok] j(1) _ _ _ refl])
    show "j \<in> live_jobs s" using places_okD(2) [OF queue_okD(1) [OF ok]] j(1) by auto
    show "core (job_st ?s' k) = core (job_st s k)" if "k \<noteq> j" for k using that f(1) v7(4) by simp
  qed (use yf in \<open>auto simp: f v7 vg vs pred_defs\<close>)
  ultimately show "queue_ok (X - {j}) off ?s'" by (simp add: queue_ok_def)
  show "r_state (job_st ?s' j) = Reserved" "reserver (job_st ?s' j) = Some c"
    "\<And>k. k \<noteq> j \<Longrightarrow> job_st ?s' k = job_st s1 k" "j_tube (job_st ?s' j) = Some t"
    "live_jobs ?s' = live_jobs s1" "tubes ?s' = tubes s1"
    using yf by (simp_all add: f y_def)
qed

text \<open>Detaching the reserver of a job in flight, and setting its deadline.\<close>

lemma inflight_upd_ok:
  assumes ok: "queue_ok X off s" and j: "j \<in> X"
    and f: "\<And>x. r_id (f x) = r_id x" "\<And>x. r_state (f x) = r_state x"
  shows "queue_ok X off (upd_job j f s)"
proof -
  have "places_ok X (upd_job j f s)"
    by (rule places_inflight [OF queue_okD(1) [OF ok] j]) (simp_all add: f)
  moreover have "counts_ok X off (upd_job j f s)"
    by (rule counts_same [OF queue_okD(2) [OF ok]]) (use j in auto)
  ultimately show ?thesis by (simp add: queue_ok_def)
qed

text \<open>What \<open>enqueue_job\<close> promises about the job it places and leaves alone about the others.\<close>

definition placed :: "addr \<Rightarrow> server \<Rightarrow> server \<Rightarrow> bool" where
  "placed j s s' \<longleftrightarrow>
     (\<forall>k. k \<noteq> j \<longrightarrow> core (job_st s' k) = core (job_st s k)) \<and> j_tube (job_st s' j) = j_tube (job_st s j) \<and>
     r_id (job_st s' j) = r_id (job_st s j) \<and> r_pri (job_st s' j) = r_pri (job_st s j) \<and>
     live_jobs s' = live_jobs s \<and> tubes s' = tubes s \<and>
     jobhash s' = jobhash s \<and> wal s' = wal s \<and> next_id s' = next_id s"

lemma ready_insert_ok:
  assumes ok: "queue_ok X off s" and j: "j \<in> X" "j_tube (job_st s j) = Some t" "r_state (job_st s j) \<noteq> Copy"
    and e: "place_job j 0 s = (b, s')"
  shows "queue_ok (if b then X - {j} else X) off s'"
    "r_state (job_st s' j) = (if b then Ready else r_state (job_st s j))" "placed j s s'"
proof -
  let ?s0 = "upd_job j (\<lambda>x. x\<lparr>reserver := None\<rparr>) s"
  have ok0: "queue_ok X off ?s0" using inflight_upd_ok [OF ok j(1)] by simp
  have jl: "j \<in> live_jobs s" using places_okD(2) [OF queue_okD(1) [OF ok]] j(1) by auto
  obtain r h s1 where i: "heapinsert job_pri_less job_setpos malloc (ready (tube_st ?s0 t)) ?s0 j = (r, h, s1)"
    by (metis prod_cases3)
  note v = hviewD [OF heapinsert_hview [OF i]]
  have jt: "j_tube (job_st ?s0 j) = Some t" "r_state (job_st ?s0 j) \<noteq> Copy" using j by simp_all
  have c1: "j_tube (job_st s1 j) = Some t" "r_id (job_st s1 j) = r_id (job_st s j)"
    "r_state (job_st s1 j) = r_state (job_st s j)" "r_pri (job_st s1 j) = r_pri (job_st s j)"
    using coreD [OF v(7) [of j]] j by simp_all
  have oth: "core (job_st s1 k) = core (job_st s k)" if "k \<noteq> j" for k using v(7) [of k] that by simp
  have "queue_ok (if b then X - {j} else X) off s' \<and>
    r_state (job_st s' j) = (if b then Ready else r_state (job_st s j)) \<and> placed j s s'"
  proof (cases r)
    case False
    then have h: "h = ready (tube_st s t)" "s1 = ?s0 \<or> s1 = snd (malloc ?s0)" using rq.insert_fails [of _ ?s0] i by auto
    have s': "b = False" "s' = upd_tube t (\<lambda>x. x\<lparr>ready := h\<rparr>) s1"
      using e i False j by (auto simp: place_job_def ready_insert_def Let_def)
    have "qview s' = qview s1" unfolding s' using h v(3) by (intro qview_upd_tube) (simp add: tview_def)
    also have "\<dots> = qview ?s0" using h(2) by auto
    finally have "queue_ok X off s'" using queue_view ok0 by blast
    then show ?thesis using s' oth c1 j by (simp add: placed_def v)
  next
    case True
    have i': "heapinsert job_pri_less job_setpos malloc (ready (tube_st ?s0 t)) ?s0 j = (True, h, s1)" using i True by simp
    have hm: "home ((job_st ?s0 j)\<lparr>r_state := Ready\<rparr>) = Some (PReady t)" using j by (simp add: home_def)
    note ins = rq.insert_places [OF queue_okD(1) [OF ok0] j(1) jt hm i']
    define s2 where "s2 = upd_job j (\<lambda>x. x\<lparr>r_state := Ready\<rparr>) (upd_tube t (\<lambda>x. x\<lparr>ready := h\<rparr>) s1)"
    define s3 where "s3 = s2\<lparr>ready_ct := ready_ct s2 + 1\<rparr>"
    have s': "b = True" "s' = (if r_pri (job_st s j) < URGENT_THRESHOLD
        then upd_stat t (\<lambda>x. x\<lparr>urgent_ct := urgent_ct x + 1\<rparr>) (upd_global (\<lambda>x. x\<lparr>urgent_ct := urgent_ct x + 1\<rparr>) s3) else s3)"
      using e i True j c1 by (auto simp: place_job_def ready_insert_def Let_def s3_def s2_def)
    have g: "job_st s' = (job_st s1)(j := (job_st s1 j)\<lparr>r_state := Ready\<rparr>)" "live_jobs s' = live_jobs s" "lists s' = lists s"
      "brk s' = brk s" "tubes s' = tubes s" "jobhash s' = jobhash s" "wal s' = wal s" "next_id s' = next_id s"
      "ready_ct s' = ready_ct s + 1"
      unfolding s'(2) by (simp_all add: s3_def s2_def v)
    have gt: "ready (tube_st s' u) = ready (tube_st s2 u)" "delay (tube_st s' u) = delay (tube_st s2 u)"
      "buried_ct (stat (tube_st s' u)) = buried_ct (stat (tube_st s u))"
      "reserved_ct (stat (tube_st s' u)) = reserved_ct (stat (tube_st s u))"
      "urgent_ct (stat (tube_st s' u)) = urgent_ct (stat (tube_st s u)) + of_bool (r_pri (job_st s j) < URGENT_THRESHOLD \<and> u = t)" for u
      unfolding s'(2) by (simp_all add: s3_def s2_def v)
    have gg: "buried_ct (global_stat s') = buried_ct (global_stat s)" "reserved_ct (global_stat s') = reserved_ct (global_stat s)"
      "urgent_ct (global_stat s') = urgent_ct (global_stat s) + of_bool (r_pri (job_st s j) < URGENT_THRESHOLD)"
      unfolding s'(2) by (simp_all add: s3_def s2_def v)
    have p2: "places_ok (X - {j}) s2" using ins(1) by (simp add: s2_def)
    have "hok s' p" for p
      using places_okD(7) [OF p2, of p] by (rule hok_cong) (simp_all add: gt g s2_def)
    moreover have "contents s' p = contents s2 p" for p
      by (rule contents_cong) (simp_all add: gt g s2_def v)
    moreover have "job_st s2 = job_st s'" "live_jobs s2 = live_jobs s'" "brk s2 = brk s'" "lists s2 = lists s'"
      by (simp_all add: g s2_def v)
    ultimately have "places_ok (X - {j}) s'"
      using p2 unfolding places_ok_def at_home_def by auto
    moreover have "counts_ok (X - {j}) off s'"
      by (rule counts_enter [OF queue_okD(3) [OF ok] queue_okD(2) [OF ok] j(1) jl g(2) _ refl])
        (use oth c1 in \<open>auto simp: g gt gg pred_defs\<close>)
    ultimately show ?thesis using s'(1) oth c1 j by (simp add: queue_ok_def placed_def g)
  qed
  then show "queue_ok (if b then X - {j} else X) off s'"
    "r_state (job_st s' j) = (if b then Ready else r_state (job_st s j))" "placed j s s'" by blast+
qed

lemma delay_insert_ok:
  assumes ok: "queue_ok X off s" and j: "j \<in> X" "j_tube (job_st s j) = Some t" "r_state (job_st s j) \<noteq> Copy"
    and d: "dly \<noteq> 0" and e: "place_job j dly s = (b, s')"
  shows "queue_ok (if b then X - {j} else X) off s'"
    "r_state (job_st s' j) = (if b then Delayed else r_state (job_st s j))" "placed j s s'"
proof -
  let ?s0 = "upd_job j (\<lambda>x. x\<lparr>reserver := None\<rparr>) s"
  obtain tm s1 where n: "nanoseconds ?s0 = (tm, s1)" by (cases "nanoseconds ?s0")
  have ns: "job_st s1 = job_st ?s0" "tube_st s1 = tube_st s" "live_jobs s1 = live_jobs s" "tubes s1 = tubes s"
    "jobhash s1 = jobhash s" "wal s1 = wal s" "next_id s1 = next_id s"
    using nanoseconds_fields [of ?s0] n by simp_all
  let ?s2 = "upd_job j (\<lambda>x. x\<lparr>r_deadline_at := tm + dly\<rparr>) s1"
  have "queue_ok X off ?s0" using inflight_upd_ok [OF ok j(1)] by simp
  then have "queue_ok X off s1" using queue_view qview_nanoseconds [OF n] by blast
  then have ok2: "queue_ok X off ?s2" using inflight_upd_ok j(1) by simp
  have jl: "j \<in> live_jobs ?s2" using places_okD(2) [OF queue_okD(1) [OF ok2]] j(1) by auto
  have jt: "j_tube (job_st ?s2 j) = Some t" "r_state (job_st ?s2 j) \<noteq> Copy" using j by (simp_all add: ns)
  obtain r h s3 where i: "heapinsert job_delay_less job_setpos malloc (delay (tube_st ?s2 t)) ?s2 j = (r, h, s3)"
    by (metis prod_cases3)
  note v = hviewD [OF heapinsert_hview [OF i]]
  have c3: "j_tube (job_st s3 j) = Some t" "r_id (job_st s3 j) = r_id (job_st s j)"
    "r_state (job_st s3 j) = r_state (job_st s j)" "r_pri (job_st s3 j) = r_pri (job_st s j)"
    using coreD [OF v(7) [of j]] j by (simp_all add: ns)
  have oth: "core (job_st s3 k) = core (job_st s k)" if "k \<noteq> j" for k using v(7) [of k] that by (simp add: ns)
  have "queue_ok (if b then X - {j} else X) off s' \<and>
    r_state (job_st s' j) = (if b then Delayed else r_state (job_st s j)) \<and> placed j s s'"
  proof (cases r)
    case False
    then have h: "h = delay (tube_st ?s2 t)" "s3 = ?s2 \<or> s3 = snd (malloc ?s2)" using dq.insert_fails [of _ ?s2] i by auto
    have s': "b = False" "s' = upd_tube t (\<lambda>x. x\<lparr>delay := h\<rparr>) s3"
      using e i False j d n by (auto simp: place_job_def delay_insert_def Let_def ns)
    have "qview s' = qview s3" unfolding s' using h v(3) by (intro qview_upd_tube) (simp add: tview_def)
    also have "\<dots> = qview ?s2" using h(2) by auto
    finally have "queue_ok X off s'" using queue_view ok2 by blast
    then show ?thesis using s' oth c3 j by (simp add: placed_def v ns)
  next
    case True
    have i': "heapinsert job_delay_less job_setpos malloc (delay (tube_st ?s2 t)) ?s2 j = (True, h, s3)" using i True by simp
    have hm: "home ((job_st ?s2 j)\<lparr>r_state := Delayed\<rparr>) = Some (PDelay t)" using j by (simp add: home_def ns)
    note ins = dq.insert_places [OF queue_okD(1) [OF ok2] j(1) jt hm i']
    have s': "b = True" "s' = upd_job j (\<lambda>x. x\<lparr>r_state := Delayed\<rparr>) (upd_tube t (\<lambda>x. x\<lparr>delay := h\<rparr>) s3)"
      using e i True j d n by (auto simp: place_job_def delay_insert_def Let_def ns)
    have "counts_ok (X - {j}) off s'"
      by (rule counts_enter [OF queue_okD(3) [OF ok2] queue_okD(2) [OF ok2] j(1) jl _ _ refl])
        (use v(7) in \<open>auto simp: s' v pred_defs\<close>)
    then show ?thesis using ins(1) s' oth c3 j by (simp add: queue_ok_def placed_def v ns)
  qed
  then show "queue_ok (if b then X - {j} else X) off s'"
    "r_state (job_st s' j) = (if b then Delayed else r_state (job_st s j))" "placed j s s'" by blast+
qed

lemma place_job_ok:
  assumes "queue_ok X off s" "j \<in> X" "j_tube (job_st s j) = Some t" "r_state (job_st s j) \<noteq> Copy"
    "place_job j dly s = (b, s')"
  shows "queue_ok (if b then X - {j} else X) off s'"
    "r_state (job_st s' j) = (if b then (if dly \<noteq> 0 then Delayed else Ready) else r_state (job_st s j))"
    "placed j s s'"
  using ready_insert_ok [OF assms(1-4), of b s'] delay_insert_ok [OF assms(1-4), of dly b s'] assms(5)
  by (cases "dly = 0"; simp)+

end
