(* ===== verification/Bean_Process.thy ===== *)
theory Bean_Process
  imports Bean_QueueInv
begin

text \<open>
  \<open>process_queue\<close>: which job \<open>next_awaited_job\<close> picks, that the loop keeps the invariant of the
  queues, and that it ends with no job left that somebody waits for.
\<close>

section \<open>The next awaited job\<close>

definition blocked :: "int \<Rightarrow> server \<Rightarrow> addr \<Rightarrow> bool" where
  "blocked nw s t \<longleftrightarrow> pause (tube_st s t) \<noteq> 0 \<and> unpause_at (tube_st s t) > nw"

definition eligible :: "int \<Rightarrow> server \<Rightarrow> addr \<Rightarrow> bool" where
  "eligible nw s t \<longleftrightarrow>
     \<not> blocked nw s t \<and> ms_items (waiting_conns (tube_st s t)) \<noteq> [] \<and> heap_len (ready (tube_st s t)) \<noteq> 0"

abbreviation root :: "server \<Rightarrow> addr \<Rightarrow> addr" where
  "root s t \<equiv> heap_data (ready (tube_st s t)) ! 0"

text \<open>The scan only ends pauses that have run out.\<close>

definition unpaused :: "int \<Rightarrow> server \<Rightarrow> server \<Rightarrow> bool" where
  "unpaused nw s s' \<longleftrightarrow> s' = s\<lparr>tube_st := tube_st s'\<rparr> \<and> (\<forall>t. blocked nw s' t = blocked nw s t) \<and>
     (\<forall>t. (tube_st s' t)\<lparr>pause := 0\<rparr> = (tube_st s t)\<lparr>pause := 0\<rparr>)"

lemma unpaused_refl: "unpaused nw s s"
  by (simp add: unpaused_def)

lemma unpausedD:
  assumes "unpaused nw s s'"
  shows "job_st s' = job_st s" "tubes s' = tubes s" "conn_st s' = conn_st s" "qview s' = qview s"
    "waiting_conns (tube_st s' t) = waiting_conns (tube_st s t)" "ready (tube_st s' t) = ready (tube_st s t)"
    "eligible nw s' t = eligible nw s t" "job_pri_less s' = job_pri_less s"
    "live_jobs s' = live_jobs s" "jobhash s' = jobhash s" "wal s' = wal s" "next_id s' = next_id s"
proof -
  have s': "s' = s\<lparr>tube_st := tube_st s'\<rparr>" and e: "\<And>t. (tube_st s' t)\<lparr>pause := 0\<rparr> = (tube_st s t)\<lparr>pause := 0\<rparr>"
    using assms unfolding unpaused_def by blast+
  have x: "f s' = f (s\<lparr>tube_st := tube_st s'\<rparr>)" for f :: "server \<Rightarrow> 'x" using s' by simp
  show j: "job_st s' = job_st s" using x [of job_st] by simp
  show "tubes s' = tubes s" using x [of tubes] by simp
  show "conn_st s' = conn_st s" using x [of conn_st] by simp
  show l: "live_jobs s' = live_jobs s" using x [of live_jobs] by simp
  show "jobhash s' = jobhash s" using x [of jobhash] by simp
  show "wal s' = wal s" using x [of wal] by simp
  show "next_id s' = next_id s" using x [of next_id] by simp
  have t: "waiting_conns (tube_st s' t) = waiting_conns (tube_st s t)" "ready (tube_st s' t) = ready (tube_st s t)"
    "delay (tube_st s' t) = delay (tube_st s t)" "stat (tube_st s' t) = stat (tube_st s t)" for t
    using arg_cong [OF e [of t], of waiting_conns] arg_cong [OF e [of t], of ready] arg_cong [OF e [of t], of delay]
      arg_cong [OF e [of t], of stat] by simp_all
  show "waiting_conns (tube_st s' t) = waiting_conns (tube_st s t)" "ready (tube_st s' t) = ready (tube_st s t)"
    using t by simp_all
  show "eligible nw s' t = eligible nw s t" using assms t by (simp add: eligible_def unpaused_def)
  show "job_pri_less s' = job_pri_less s" using j by (simp add: job_pri_less_def fun_eq_iff)
  show "qview s' = qview s"
    using x [of brk] x [of lists] x [of ready_ct] x [of global_stat] j l t by (simp add: qview_def tview_def)
qed

lemma awaited_step_ok:
  assumes "awaited_step nw t (j, s) = (j', s')"
  shows "unpaused nw s s'"
    "j' = (if eligible nw s t \<and> (j = None \<or> job_pri_less s (root s t) (the j)) then Some (root s t) else j)"
proof -
  let ?s1 = "if pause (tube_st s t) \<noteq> 0 then upd_tube t (\<lambda>x. x\<lparr>pause := 0\<rparr>) s else s"
  have "unpaused nw s s' \<and>
    j' = (if eligible nw s t \<and> (j = None \<or> job_pri_less s (root s t) (the j)) then Some (root s t) else j)"
  proof (cases "blocked nw s t")
    case True
    then show ?thesis
      using assms unpaused_refl by (auto simp: awaited_step_def blocked_def eligible_def)
  next
    case False
    have u: "unpaused nw s ?s1" using False by (auto simp: unpaused_def blocked_def upd_tube_def)
    have "(j', s') = (if eligible nw s t \<and> (j = None \<or> job_pri_less s (root s t) (the j)) then Some (root s t) else j, ?s1)"
      using assms False unfolding awaited_step_def Let_def prod.case eligible_def blocked_def
      by (simp only: unpausedD(5,6,8) [OF u] if_False not_False_eq_True simp_thms) (auto split: if_splits)
    then show ?thesis using u by simp
  qed
  then show "unpaused nw s s'"
    "j' = (if eligible nw s t \<and> (j = None \<or> job_pri_less s (root s t) (the j)) then Some (root s t) else j)"
    by blast+
qed

lemma unpaused_trans:
  assumes "unpaused nw s s1" "unpaused nw s1 s2"
  shows "unpaused nw s s2"
proof -
  have a: "s1 = s\<lparr>tube_st := tube_st s1\<rparr>" "s2 = s1\<lparr>tube_st := tube_st s2\<rparr>"
    using assms unfolding unpaused_def by blast+
  have "s2 = (s\<lparr>tube_st := tube_st s1\<rparr>)\<lparr>tube_st := tube_st s2\<rparr>"
    by (subst a(1) [symmetric]) (rule a(2))
  then have "s2 = s\<lparr>tube_st := tube_st s2\<rparr>" by simp
  then show ?thesis using assms by (simp add: unpaused_def)
qed

text \<open>
  The scan over the tubes: it finds a job exactly when some tube is eligible, and the job it finds is
  the root of an eligible tube than which no other eligible root is smaller.
\<close>

lemma awaited_fold:
  "fold (awaited_step nw) ts (j, s) = (j', s') \<Longrightarrow>
   unpaused nw s s' \<and>
   (case j' of
      None \<Rightarrow> j = None \<and> (\<forall>t \<in> set ts. \<not> eligible nw s t)
    | Some k \<Rightarrow> (j = Some k \<or> (\<exists>t \<in> set ts. eligible nw s t \<and> k = root s t)) \<and>
        (\<forall>t \<in> set ts. eligible nw s t \<longrightarrow> \<not> job_pri_less s (root s t) k) \<and>
        (\<forall>i. j = Some i \<longrightarrow> \<not> job_pri_less s i k))"
proof (induction ts arbitrary: j s)
  case Nil
  then show ?case
    using unpaused_refl heap_order.irrefl [OF heap_order_jobs(1)] by (auto split: option.split)
next
  case (Cons t ts)
  obtain j1 s1 where e: "awaited_step nw t (j, s) = (j1, s1)" by (cases "awaited_step nw t (j, s)")
  note st = awaited_step_ok [OF e]
  have IH: "unpaused nw s1 s'" "case j' of
      None \<Rightarrow> j1 = None \<and> (\<forall>t \<in> set ts. \<not> eligible nw s1 t)
    | Some k \<Rightarrow> (j1 = Some k \<or> (\<exists>t \<in> set ts. eligible nw s1 t \<and> k = root s1 t)) \<and>
        (\<forall>t \<in> set ts. eligible nw s1 t \<longrightarrow> \<not> job_pri_less s1 (root s1 t) k) \<and>
        (\<forall>i. j1 = Some i \<longrightarrow> \<not> job_pri_less s1 i k)"
    using Cons.IH [of j1 s1] Cons.prems e by simp_all
  note u = unpausedD(6-8) [OF st(1)]
  have nt: "\<not> job_pri_less s a b \<Longrightarrow> \<not> job_pri_less s b c \<Longrightarrow> \<not> job_pri_less s a c" for a b c
    using heap_order.notlt_trans [OF heap_order_jobs(1)] by blast
  show ?case
  proof (cases j')
    case None
    then show ?thesis
      using IH st(2) unpaused_trans [OF st(1)] by (auto simp: u split: if_splits)
  next
    case (Some k)
    have m: "\<not> job_pri_less s i k" if "j = Some i" for i
      using IH(2) Some st(2) that nt [of i "root s t" k] heap_order.asym [OF heap_order_jobs(1), of s "root s t" i]
      by (auto simp: u split: if_splits)
    moreover have "\<not> job_pri_less s (root s t) k" if "eligible nw s t"
      using IH(2) Some st(2) that nt [of "root s t" "the j" k] by (cases j) (auto simp: u split: if_splits)
    ultimately show ?thesis
      using IH Some st(2) unpaused_trans [OF st(1)] by (auto simp: u split: if_splits)
  qed
qed

lemma next_awaited_ok:
  assumes "next_awaited_job nw s = (j, s')"
  shows "unpaused nw s s'" "j = None \<longleftrightarrow> (\<forall>t \<in> set (ms_items (tubes s)). \<not> eligible nw s t)"
    "\<And>k. j = Some k \<Longrightarrow> \<exists>t \<in> set (ms_items (tubes s)). eligible nw s t \<and> k = root s t"
    "\<And>k t. j = Some k \<Longrightarrow> t \<in> set (ms_items (tubes s)) \<Longrightarrow> eligible nw s t \<Longrightarrow> \<not> job_pri_less s (root s t) k"
  using awaited_fold [OF assms [unfolded next_awaited_job_def]] by (auto split: option.splits)

section \<open>One hand-over\<close>

text \<open>
  What handing out jobs may change: ready jobs become reserved, nothing else happens to any job, and
  jobs in flight are untouched.
\<close>

definition handed :: "addr set \<Rightarrow> server \<Rightarrow> server \<Rightarrow> bool" where
  "handed X s s' \<longleftrightarrow>
     live_jobs s' = live_jobs s \<and> tubes s' = tubes s \<and> jobhash s' = jobhash s \<and> next_id s' = next_id s \<and> wal s' = wal s \<and>
     (\<forall>k. r_id (job_st s' k) = r_id (job_st s k) \<and> r_pri (job_st s' k) = r_pri (job_st s k) \<and>
        j_tube (job_st s' k) = j_tube (job_st s k)) \<and>
     (\<forall>k. k \<in> X \<or> r_state (job_st s k) \<noteq> Ready \<longrightarrow> core (job_st s' k) = core (job_st s k)) \<and>
     (\<forall>k. r_state (job_st s k) = Ready \<longrightarrow> r_state (job_st s' k) \<in> {Ready, Reserved})"

lemma handed_same:
  assumes "live_jobs s' = live_jobs s" "tubes s' = tubes s" "jobhash s' = jobhash s" "next_id s' = next_id s" "wal s' = wal s"
    and core: "\<And>k. core (job_st s' k) = core (job_st s k)"
  shows "handed X s s'"
  using assms(1-5) coreD [OF core] core by (auto simp: handed_def)

lemma handed_refl: "handed X s s"
  by (rule handed_same) simp_all

lemma handed_trans:
  assumes "handed X s s1" "handed X s1 s2"
  shows "handed X s s2"
proof -
  have "core (job_st s2 k) = core (job_st s k)" if "k \<in> X \<or> r_state (job_st s k) \<noteq> Ready" for k
  proof -
    have c: "core (job_st s1 k) = core (job_st s k)" using assms(1) that unfolding handed_def by blast
    then have "k \<in> X \<or> r_state (job_st s1 k) \<noteq> Ready" using that coreD(4) [OF c] by simp
    then show ?thesis using assms(2) c unfolding handed_def by metis
  qed
  moreover have "r_state (job_st s2 k) \<in> {Ready, Reserved}" if "r_state (job_st s k) = Ready" for k
  proof -
    have "r_state (job_st s1 k) \<in> {Ready, Reserved}" using assms(1) that unfolding handed_def by blast
    moreover have "r_state (job_st s2 k) = Reserved" if r: "r_state (job_st s1 k) = Reserved"
    proof -
      have "core (job_st s2 k) = core (job_st s1 k)" using assms(2) r unfolding handed_def by simp
      then show ?thesis using coreD(4) r by metis
    qed
    ultimately show ?thesis using assms(2) unfolding handed_def by blast
  qed
  ultimately show ?thesis using assms by (simp add: handed_def)
qed

lemma process_one_ok:
  assumes ok: "queue_ok X off s" and t: "eligible nw s t" and j: "j = root s t"
  shows "queue_ok X off (process_one j s)" "handed X s (process_one j s)"
    "\<And>u. heap_len (ready (tube_st (process_one j s) u)) = heap_len (ready (tube_st s u)) - of_bool (u = t)"
    "r_state (job_st (process_one j s) j) = Reserved"
proof -
  note p = queue_okD(1) [OF ok]
  have hk: "jready.heap_ok (ready (tube_st s t)) s" using places_okD(7) [OF p, of "PReady t"] by simp
  have "j \<in> contents s (PReady t)"
    using t j hk by (auto simp: eligible_def heap_elems_def jready.heap_ok_def heap_wf_def in_set_conv_nth)
  then have "j \<in> at_home X s (PReady t)" using places_okD(8) [OF p] by blast
  then have jh: "j \<in> live_jobs s" "j \<notin> X" "home (job_st s j) = Some (PReady t)" by (auto simp: at_home_def)
  then have js: "r_state (job_st s j) = Ready" "j_tube (job_st s j) = Some t"
    by (auto simp: home_def split: jstate.splits)
  obtain s1 where r: "remove_ready_job (Some j) s = (Some j, s1)" "queue_ok (insert j X) off s1" "unchanged s s1"
      "\<And>u. heap_len (ready (tube_st s1 u)) = heap_len (ready (tube_st s u)) - of_bool (j_tube (job_st s j) = Some u)"
    using remove_ready_ok [OF ok jh(1,2) js(1)] by metis
  have c1: "core (job_st s1 k) = core (job_st s k)" for k using r(3) by (simp add: unchanged_def)
  have jt: "j_tube (job_st s1 j) = Some t" "r_state (job_st s1 j) \<noteq> Copy" using coreD [OF c1 [of j]] js by simp_all
  have "ms_items (waiting_conns (tube_st s1 t)) \<noteq> []" using t r(3) by (simp add: eligible_def unchanged_def)
  then obtain c w u where tk: "ms_take None (waiting_conns (tube_st s1 t)) () = (Some c, w, u)"
    by (cases "ms_take None (waiting_conns (tube_st s1 t)) ()")
      (auto simp: ms_take_def Let_def split: prod.splits)
  define g :: "stats \<Rightarrow> stats" where "g = (\<lambda>x. x\<lparr>reserved_ct := reserved_ct x + 1\<rparr>)"
  define s3 where "s3 = upd_global g (upd_tube t (\<lambda>x. x\<lparr>waiting_conns := w\<rparr>) s1)"
  define s4 where "s4 = remove_waiting_conn c s3"
  have eq: "process_one j s = reply_job c j ''RESERVED'' (conn_reserve_job c j s4)"
    using r(1) jt tk by (simp add: process_one_def Let_def s3_def s4_def g_def)
  have s3': "s3 = upd_tube t (\<lambda>x. x\<lparr>waiting_conns := w\<rparr>) (upd_global g s1)"
    by (simp add: s3_def upd_global_def upd_tube_def)
  have q4: "qview s4 = qview (upd_global g s1)"
    by (simp add: s4_def s3' qview_upd_tube tview_def)
  have k4: "kview s4 = kview (upd_global g s1)" by (simp add: s4_def s3')
  note kv4 = kviewD [OF k4]
  note cr = conn_reserve_ok [OF r(2) insertI1 jt q4 [unfolded g_def], where c = c]
  have X: "insert j X - {j} = X" using jh(2) by auto
  let ?s5 = "conn_reserve_job c j s4"
  have qv: "qview (process_one j s) = qview ?s5" by (simp add: eq)
  note kv = kviewD [OF trans [OF arg_cong [OF eq, of kview] kv.replies(4)]]
  show "queue_ok X off (process_one j s)" using queue_view [OF qv] cr(1) X by simp
  have cr5: "jobhash ?s5 = jobhash s4" "next_id ?s5 = next_id s4" "wal ?s5 = wal s4"
    "ready (tube_st ?s5 u) = ready (tube_st s4 u)" for u
    by (simp_all add: conn_reserve_job_def Let_def case_prod_beta)
  have un: "live_jobs s1 = live_jobs s" "tubes s1 = tubes s" "jobhash s1 = jobhash s" "next_id s1 = next_id s" "wal s1 = wal s"
    using r(3) by (simp_all add: unchanged_def)
  have jb: "job_st (process_one j s) k = (if k = j then job_st ?s5 j else job_st s1 k)" for k
    using cr(4) [of k] kv kv4 by simp
  have pf: "r_id (job_st ?s5 j) = r_id (job_st s j)" "r_pri (job_st ?s5 j) = r_pri (job_st s j)"
    using coreD [OF c1 [of j]] kv4(1) by (simp_all add: conn_reserve_job_def Let_def case_prod_beta)
  show "r_state (job_st (process_one j s) j) = Reserved" using cr(2) jb by simp
  show "handed X s (process_one j s)"
    unfolding handed_def
  proof (intro conjI allI impI)
    fix k
    show "core (job_st (process_one j s) k) = core (job_st s k)" if "k \<in> X \<or> r_state (job_st s k) \<noteq> Ready"
      using that jh(2) js c1 jb by auto
    show "r_id (job_st (process_one j s) k) = r_id (job_st s k)" "r_pri (job_st (process_one j s) k) = r_pri (job_st s k)"
      "j_tube (job_st (process_one j s) k) = j_tube (job_st s k)"
      using coreD [OF c1 [of k]] pf cr(5) js jb by simp_all
    show "r_state (job_st (process_one j s) k) \<in> {Ready, Reserved}" if "r_state (job_st s k) = Ready"
      using coreD [OF c1 [of k]] that cr(2) jb by simp
  qed (use un kv kv4 cr cr5 in simp_all)
  show "heap_len (ready (tube_st (process_one j s) u)) = heap_len (ready (tube_st s u)) - of_bool (u = t)" for u
    using qviewD(5) [OF qv, of u] qviewD(5) [OF q4, of u] cr5(4) [of u] r(4) [of u] js by auto
qed

section \<open>The loop\<close>

lemma ready_total_less:
  assumes "t \<in> set (ms_items (tubes s))" "0 < heap_len (ready (tube_st s t))" "tubes s' = tubes s"
    and "\<And>u. heap_len (ready (tube_st s' u)) = heap_len (ready (tube_st s u)) - of_bool (u = t)"
  shows "ready_total s' < ready_total s"
proof -
  have "sum_list (map (\<lambda>u. heap_len (ready (tube_st s u)) - of_bool (u = t)) ts)
      < sum_list (map (\<lambda>u. heap_len (ready (tube_st s u))) ts)" if "t \<in> set ts" for ts
    using that
  proof (induction ts)
    case (Cons a as)
    have le: "sum_list (map (\<lambda>u. heap_len (ready (tube_st s u)) - of_bool (u = t)) as)
      \<le> sum_list (map (\<lambda>u. heap_len (ready (tube_st s u))) as)" by (rule sum_list_mono) simp
    show ?case
    proof (cases "a = t")
      case True
      then show ?thesis using le assms(2) by simp
    next
      case False
      then show ?thesis using Cons by simp
    qed
  qed simp
  then show ?thesis using assms(1,3,4) by (simp add: ready_total_def)
qed

lemma process_loop_ok:
  assumes "queue_ok X off s"
  shows "queue_ok X off (process_loop n nw s)" "handed X s (process_loop n nw s)"
    "ready_total s < n \<Longrightarrow> \<forall>t \<in> set (ms_items (tubes s)). \<not> eligible nw (process_loop n nw s) t"
    "ready_total s < n \<Longrightarrow> process_loop (n + m) nw s = process_loop n nw s"
proof -
  have "queue_ok X off (process_loop n nw s) \<and> handed X s (process_loop n nw s) \<and>
    (ready_total s < n \<longrightarrow> (\<forall>t \<in> set (ms_items (tubes s)). \<not> eligible nw (process_loop n nw s) t) \<and>
       process_loop (n + m) nw s = process_loop n nw s)"
    using assms
  proof (induction n arbitrary: s)
    case 0
    then show ?case by (simp add: handed_refl)
  next
    case (Suc n)
    obtain j s1 where e: "next_awaited_job nw s = (j, s1)" by (cases "next_awaited_job nw s")
    note na = next_awaited_ok [OF e]
    note u = unpausedD [OF na(1)]
    have ok1: "queue_ok X off s1" using queue_view [OF u(4)] Suc.prems by blast
    have h1: "handed X s s1" by (rule handed_same) (simp_all add: u)
    show ?case
    proof (cases j)
      case None
      then show ?thesis using e ok1 h1 na(2) u(7) by simp
    next
      case (Some k)
      obtain t where t: "t \<in> set (ms_items (tubes s))" "eligible nw s t" "k = root s t" using na(3) [OF Some] by blast
      have t1: "eligible nw s1 t" "k = root s1 t" using t u by simp_all
      note po = process_one_ok [OF ok1 t1]
      have tb: "tubes (process_one k s1) = tubes s" using po(2) u(2) by (simp add: handed_def)
      have "ready_total (process_one k s1) < ready_total s1"
        using t t1 u(2) tb po(3) by (intro ready_total_less [of t]) (simp_all add: eligible_def)
      moreover have "ready_total s1 = ready_total s" by (simp add: ready_total_def u)
      ultimately show ?thesis
        using Suc.IH [OF po(1)] e Some handed_trans [OF h1 handed_trans [OF po(2)]] tb by auto
    qed
  qed
  then show "queue_ok X off (process_loop n nw s)" "handed X s (process_loop n nw s)"
    "ready_total s < n \<Longrightarrow> \<forall>t \<in> set (ms_items (tubes s)). \<not> eligible nw (process_loop n nw s) t"
    "ready_total s < n \<Longrightarrow> process_loop (n + m) nw s = process_loop n nw s" by blast+
qed

lemma process_queue_ok:
  assumes "queue_ok X off s"
  shows "queue_ok X off (process_queue s)" "handed X s (process_queue s)"
proof -
  obtain nw s1 where n: "nanoseconds s = (nw, s1)" by (cases "nanoseconds s")
  have ok1: "queue_ok X off s1" using queue_view qview_nanoseconds [OF n] assms by blast
  have "handed X s s1" using nanoseconds_fields [of s] n by (intro handed_same) simp_all
  then show "queue_ok X off (process_queue s)" "handed X s (process_queue s)"
    using process_loop_ok(1,2) [OF ok1] handed_trans n unfolding process_queue_def
    by (auto simp del: process_loop.simps)
qed

end
