(* ===== verification/Bean_Reply.thy ===== *)
theory Bean_Reply
  imports Bean_Queue
begin

text \<open>
  The replies that carry a body: statistics and lists of tubes (\<open>prot.c\<close>). The body is formatted into
  a job that belongs to no queue, marked as a copy. What the statistics take from the operating system
  (process id, resource usage, host) and from the build (version) is a record of texts.
\<close>

section \<open>Formatting\<close>

definition fmt_int :: "int \<Rightarrow> string" where
  "fmt_int n = (if n < 0 then ''-'' @ fmt_dec (nat (- n)) else fmt_dec (nat n))"

abbreviation fmt_u :: "'a :: len word \<Rightarrow> string" where
  "fmt_u n \<equiv> fmt_dec (unat n)"

text \<open>Division of C integers, which rounds towards zero.\<close>

definition div_c :: "int \<Rightarrow> int \<Rightarrow> int" where
  "div_c a b = sgn a * sgn b * (\<bar>a\<bar> div \<bar>b\<bar>)"

abbreviation nl :: string where "nl \<equiv> [LF]"

definition yaml_line :: "string \<times> string \<Rightarrow> string" where
  "yaml_line kv = fst kv @ '': '' @ snd kv @ nl"

definition yaml :: "(string \<times> string) list \<Rightarrow> string" where
  "yaml kvs = ''---'' @ nl @ concat (map yaml_line kvs) @ crlf"

definition quoted :: "string \<Rightarrow> string" where
  "quoted t = [CHR 0x22] @ t @ [CHR 0x22]"

record sysinfo =
  si_pid :: string
  si_version :: string
  si_utime :: string
  si_stime :: string
  si_id :: string
  si_hostname :: string
  si_os :: string
  si_platform :: string

definition get_delayed_job_ct :: "server \<Rightarrow> u32" where
  "get_delayed_job_ct s = fold (\<lambda>t n. n + of_nat (heap_len (delay (tube_st s t)))) (ms_items (tubes s)) 0"

definition uptime :: "server \<Rightarrow> int \<times> server" where
  "uptime s = (case nanoseconds s of (t, s1) \<Rightarrow> (div_c (t - started_at s1) 1000000000 mod 2 ^ 32, s1))"

definition fmt_stats :: "sysinfo \<Rightarrow> server \<Rightarrow> string \<times> server" where
  "fmt_stats si s =
     (let g = global_stat s;
          w = wal s;
          whead = (case wal_files w of [] \<Rightarrow> 0 | f # _ \<Rightarrow> f_seq (file_st s f));
          wcur = (case wal_cur w of None \<Rightarrow> 0 | Some f \<Rightarrow> f_seq (file_st s f));
          (up, s1) = uptime s
      in (yaml
           [(''current-jobs-urgent'', fmt_u (urgent_ct g)), (''current-jobs-ready'', fmt_u (ready_ct s)),
            (''current-jobs-reserved'', fmt_u (reserved_ct g)), (''current-jobs-delayed'', fmt_u (get_delayed_job_ct s)),
            (''current-jobs-buried'', fmt_u (buried_ct g)), (''cmd-put'', fmt_u (op_ct s OP_PUT)),
            (''cmd-peek'', fmt_u (op_ct s OP_PEEKJOB)), (''cmd-peek-ready'', fmt_u (op_ct s OP_PEEK_READY)),
            (''cmd-peek-delayed'', fmt_u (op_ct s OP_PEEK_DELAYED)), (''cmd-peek-buried'', fmt_u (op_ct s OP_PEEK_BURIED)),
            (''cmd-reserve'', fmt_u (op_ct s OP_RESERVE)),
            (''cmd-reserve-with-timeout'', fmt_u (op_ct s OP_RESERVE_TIMEOUT)), (''cmd-delete'', fmt_u (op_ct s OP_DELETE)),
            (''cmd-release'', fmt_u (op_ct s OP_RELEASE)), (''cmd-use'', fmt_u (op_ct s OP_USE)),
            (''cmd-watch'', fmt_u (op_ct s OP_WATCH)), (''cmd-ignore'', fmt_u (op_ct s OP_IGNORE)),
            (''cmd-bury'', fmt_u (op_ct s OP_BURY)), (''cmd-kick'', fmt_u (op_ct s OP_KICK)),
            (''cmd-touch'', fmt_u (op_ct s OP_TOUCH)), (''cmd-stats'', fmt_u (op_ct s OP_STATS)),
            (''cmd-stats-job'', fmt_u (op_ct s OP_STATSJOB)), (''cmd-stats-tube'', fmt_u (op_ct s OP_STATS_TUBE)),
            (''cmd-list-tubes'', fmt_u (op_ct s OP_LIST_TUBES)),
            (''cmd-list-tube-used'', fmt_u (op_ct s OP_LIST_TUBE_USED)),
            (''cmd-list-tubes-watched'', fmt_u (op_ct s OP_LIST_TUBES_WATCHED)),
            (''cmd-pause-tube'', fmt_u (op_ct s OP_PAUSE_TUBE)), (''job-timeouts'', fmt_u (timeout_ct s)),
            (''total-jobs'', fmt_u (total_jobs_ct g)), (''max-job-size'', fmt_dec (job_data_size_limit s)),
            (''current-tubes'', fmt_dec (length (ms_items (tubes s)))),
            (''current-connections'', fmt_int (cur_conn_ct s mod 2 ^ 32)),
            (''current-producers'', fmt_int (cur_producer_ct s mod 2 ^ 32)),
            (''current-workers'', fmt_int (cur_worker_ct s mod 2 ^ 32)), (''current-waiting'', fmt_u (waiting_ct g)),
            (''total-connections'', fmt_u (tot_conn_ct s)), (''pid'', si_pid si), (''version'', quoted (si_version si)),
            (''rusage-utime'', si_utime si), (''rusage-stime'', si_stime si), (''uptime'', fmt_int up),
            (''binlog-oldest-index'', fmt_int whead), (''binlog-current-index'', fmt_int wcur),
            (''binlog-records-migrated'', fmt_int (nmig w)), (''binlog-records-written'', fmt_int (nrec w)),
            (''binlog-max-size'', fmt_int (filesize w)), (''draining'', if drain_mode s then ''true'' else ''false''),
            (''id'', si_id si), (''hostname'', quoted (si_hostname si)), (''os'', quoted (si_os si)),
            (''platform'', quoted (si_platform si))],
          s1))"

definition fmt_job_stats :: "addr \<Rightarrow> server \<Rightarrow> string \<times> server" where
  "fmt_job_stats j s =
     (let (t, s1) = nanoseconds s;
          x = job_st s1 j;
          time_left = (if r_state x = Reserved \<or> r_state x = Delayed
                       then div_c (r_deadline_at x - t) 1000000000 else 0);
          file = (case j_file x of None \<Rightarrow> 0 | Some f \<Rightarrow> f_seq (file_st s1 f))
      in (yaml
           [(''id'', fmt_u (r_id x)), (''tube'', quoted (t_name (tube_st s1 (the (j_tube x))))),
            (''state'', job_state x), (''pri'', fmt_u (r_pri x)),
            (''age'', fmt_int (div_c (t - r_created_at x) 1000000000)),
            (''delay'', fmt_int (div_c (r_delay x) 1000000000)), (''ttr'', fmt_int (div_c (r_ttr x) 1000000000)),
            (''time-left'', fmt_int time_left), (''file'', fmt_int file), (''reserves'', fmt_u (r_reserve_ct x)),
            (''timeouts'', fmt_u (r_timeout_ct x)), (''releases'', fmt_u (r_release_ct x)),
            (''buries'', fmt_u (r_bury_ct x)), (''kicks'', fmt_u (r_kick_ct x))],
          s1))"

text \<open>\<open>time_left\<close> is an unsigned variable printed as a signed one.\<close>

definition fmt_stats_tube :: "addr \<Rightarrow> server \<Rightarrow> string \<times> server" where
  "fmt_stats_tube t s =
     (let (time_left, s1) =
            (if pause (tube_st s t) > 0
             then case nanoseconds s of (nw, s') \<Rightarrow> (div_c (unpause_at (tube_st s t) - nw) 1000000000, s')
             else (0, s));
          x = tube_st s1 t;
          g = stat x
      in (yaml
           [(''name'', quoted (t_name x)), (''current-jobs-urgent'', fmt_u (urgent_ct g)),
            (''current-jobs-ready'', fmt_dec (heap_len (ready x))), (''current-jobs-reserved'', fmt_u (reserved_ct g)),
            (''current-jobs-delayed'', fmt_dec (heap_len (delay x))), (''current-jobs-buried'', fmt_u (buried_ct g)),
            (''total-jobs'', fmt_u (total_jobs_ct g)), (''current-using'', fmt_u (using_ct x)),
            (''current-watching'', fmt_u (watching_ct x)), (''current-waiting'', fmt_u (waiting_ct g)),
            (''cmd-delete'', fmt_u (total_delete_ct g)), (''cmd-pause-tube'', fmt_u (pause_ct g)),
            (''pause'', fmt_int (div_c (pause x) 1000000000 mod 2 ^ 64)), (''pause-time-left'', fmt_int time_left)],
          s1))"

section \<open>Replies with a body\<close>

definition do_stats :: "addr \<Rightarrow> (server \<Rightarrow> string \<times> server) \<Rightarrow> server \<Rightarrow> server" where
  "do_stats c fmt s =
     (let (txt0, s1) = fmt s;
          stats_len = int (length txt0) + 16;
          (jo, s2) = allocate_job stats_len s1;
          s3 = upd_conn c (\<lambda>x. x\<lparr>out_job := jo\<rparr>) s2
      in case jo of
           None \<Rightarrow> reply_msg c ''OUT_OF_MEMORY'' s3
         | Some j \<Rightarrow>
             let s4 = upd_job j (\<lambda>x. x\<lparr>r_state := Copy\<rparr>) s3;
                 (txt, s5) = fmt s4;
                 r = int (length txt);
                 s6 = upd_job j (\<lambda>x. x\<lparr>body := take (nat stats_len - 1) txt @ [NUL], r_body_size := r\<rparr>) s5
             in if r > stats_len then reply_msg c ''INTERNAL_ERROR'' s6
                else reply_line c STATE_SEND_JOB (''OK '' @ fmt_int (r - 2) @ crlf)
                       (upd_conn c (\<lambda>x. x\<lparr>out_job_sent := 0\<rparr>) s6))"

definition tube_list_text :: "string list \<Rightarrow> string" where
  "tube_list_text names = ''---'' @ nl @ concat (map (\<lambda>n. ''- '' @ n @ nl) names) @ crlf"

definition do_list_tubes :: "addr \<Rightarrow> addr Ms \<Rightarrow> server \<Rightarrow> server" where
  "do_list_tubes c l s =
     (let resp_z = fold (\<lambda>t z. z + 3 + length (t_name (tube_st s t))) (ms_items l) (6 :: nat);
          (jo, s1) = allocate_job (int resp_z) s;
          s2 = upd_conn c (\<lambda>x. x\<lparr>out_job := jo\<rparr>) s1
      in case jo of
           None \<Rightarrow> reply_msg c ''OUT_OF_MEMORY'' s2
         | Some j \<Rightarrow>
             let s3 = upd_job j (\<lambda>x. x\<lparr>r_state := Copy\<rparr>) s2;
                 s4 = upd_job j (\<lambda>x. x\<lparr>body := tube_list_text (map (\<lambda>t. t_name (tube_st s3 t)) (ms_items l))\<rparr>) s3;
                 s5 = upd_conn c (\<lambda>x. x\<lparr>out_job_sent := 0\<rparr>) s4
             in reply_line c STATE_SEND_JOB (''OK '' @ fmt_dec (resp_z - 2) @ crlf) s5)"

section \<open>Sizes\<close>

text \<open>The buffer of \<open>do_list_tubes\<close> is filled exactly.\<close>

lemma resp_z_fold:
  "fold (\<lambda>t z. z + 3 + length (f t)) ts z = z + sum_list (map (\<lambda>t. 3 + length (f t)) ts)"
  by (induction ts arbitrary: z) simp_all

lemma tube_list_text_length:
  "length (tube_list_text (map f ts)) = 6 + sum_list (map (\<lambda>t. 3 + length (f t)) ts)"
  by (induction ts) (simp_all add: tube_list_text_def)

lemma allocate_job_eq:
  assumes "allocate_job n s = (Some j, s')"
  shows "j = brk s" "job_st s' = (job_st s)(j := zero_job\<lparr>r_created_at := r_created_at (job_st s' j), r_body_size := n, body_at := j\<rparr>)"
    "tube_st s' = tube_st s" "live_jobs s' = insert j (live_jobs s)"
  using assms
  by (auto simp: allocate_job_def nanoseconds_def Let_def split: prod.splits bool.splits list.splits dest!: malloc_eqD)

end
