(* ===== verification/Bean_Dispatch.thy ===== *)
theory Bean_Dispatch
  imports Bean_Reply
begin

text \<open>
  The commands of the protocol (\<open>dispatch_cmd\<close> in \<open>prot.c\<close>) and the reading of the body of a \<open>put\<close>.

  \<open>dispatch_cmd\<close> puts a NUL in place of the carriage return that ends the line, so the C string it parses
  is the list of the first \<open>cmd_len - 2\<close> characters of the buffer; the bytes it overwrites are inside the
  prefix that \<open>fill_extra_data\<close> drops. Every case of its switch is one definition below, which takes that
  list as \<open>line\<close>. The printing of \<open>verbose\<close> mode is left out.
\<close>

section \<open>The body of a put\<close>

definition fill_extra_data :: "addr \<Rightarrow> server \<Rightarrow> server" where
  "fill_extra_data c s =
     (let x = conn_st s c
      in if sock_fd x = 0 then s
         else if cmd_len x = 0 then s
         else let extra_bytes = int (length (c_cmd x)) - int (cmd_len x);
                  (job_data_bytes, s1) =
                    (case in_job x of
                       Some j \<Rightarrow>
                         let n = min extra_bytes (r_body_size (job_st s j))
                         in (n, upd_conn c (\<lambda>y. y\<lparr>in_job_read := n\<rparr>)
                                  (upd_job j (\<lambda>y. y\<lparr>body := take (nat n) (drop (cmd_len x) (c_cmd x))
                                                          @ drop (nat n) (body y)\<rparr>) s))
                     | None \<Rightarrow>
                         if in_job_read x \<noteq> 0
                         then let n = min extra_bytes (in_job_read x)
                              in (n, upd_conn c (\<lambda>y. y\<lparr>in_job_read := in_job_read y - n\<rparr>) s)
                         else (0, s))
              in upd_conn c (\<lambda>y. y\<lparr>c_cmd := drop (cmd_len x + nat job_data_bytes) (c_cmd x), cmd_len := 0\<rparr>) s1)"

definition skip :: "addr \<Rightarrow> int \<Rightarrow> string \<Rightarrow> server \<Rightarrow> server" where
  "skip c n msg s =
     (let s1 = upd_conn c (\<lambda>x. x\<lparr>in_job := None, in_job_read := n\<rparr>) s;
          s2 = fill_extra_data c s1
      in if in_job_read (conn_st s2 c) = 0 then reply c (msg @ crlf) STATE_SEND_WORD s2
         else upd_conn c (\<lambda>x. x\<lparr>c_reply := msg @ crlf, reply_sent := 0, c_state := STATE_BITBUCKET\<rparr>) s2)"

definition enqueue_incoming_job :: "addr \<Rightarrow> server \<Rightarrow> server" where
  "enqueue_incoming_job c s =
     (let j = the (in_job (conn_st s c));
          s1 = upd_conn c (\<lambda>x. x\<lparr>in_job := None, in_job_read := 0\<rparr>) s
      in if take 2 (drop (nat (r_body_size (job_st s1 j) - 2)) (body (job_st s1 j))) \<noteq> crlf
         then reply_msg c ''EXPECTED_CRLF'' (job_free (Some j) s1)
         else if drain_mode s1 then reply_msg c ''DRAINING'' (job_free (Some j) s1)
         else if walresv (job_st s1 j) \<noteq> 0 then reply_msg c ''INTERNAL_ERROR'' s1
         else case walresvput j s1 of
                (z, s2) \<Rightarrow>
                  let s3 = upd_job j (\<lambda>x. x\<lparr>walresv := z\<rparr>) s2
                  in if z = 0 then reply_msg c ''OUT_OF_MEMORY'' s3
                     else case enqueue_job j (r_delay (job_st s3 j)) True s3 of
                            (r, s4) \<Rightarrow>
                              let s5 = upd_global (\<lambda>x. x\<lparr>total_jobs_ct := total_jobs_ct x + 1\<rparr>) s4;
                                  s6 = upd_stat (the (j_tube (job_st s5 j)))
                                         (\<lambda>x. x\<lparr>total_jobs_ct := total_jobs_ct x + 1\<rparr>) s5
                              in if r
                                 then reply_line c STATE_SEND_WORD
                                        (''INSERTED '' @ fmt_u (r_id (job_st s6 j)) @ crlf) s6
                                 else let s7 = snd (bury_job j False s6)
                                      in reply_line c STATE_SEND_WORD
                                           (''BURIED '' @ fmt_u (r_id (job_st s7 j)) @ crlf) s7)"

definition maybe_enqueue_incoming_job :: "addr \<Rightarrow> server \<Rightarrow> server" where
  "maybe_enqueue_incoming_job c s =
     (let j = the (in_job (conn_st s c))
      in if in_job_read (conn_st s c) = r_body_size (job_st s j) then enqueue_incoming_job c s
         else upd_conn c (\<lambda>x. x\<lparr>c_state := STATE_WANT_DATA\<rparr>) s)"

section \<open>Commands that make or show jobs\<close>

definition count_op :: "op \<Rightarrow> server \<Rightarrow> server" where
  "count_op p s = s\<lparr>op_ct := (op_ct s)(p := op_ct s p + 1)\<rparr>"

abbreviation arg_of :: "op \<Rightarrow> string \<Rightarrow> string" where
  "arg_of p line \<equiv> drop (length (op_names p)) line"

text \<open>The arguments of \<open>put\<close>: priority, delay, time to run, size, and the rest of the line.\<close>

definition read_put_args :: "string \<Rightarrow> (u32 \<times> int \<times> int \<times> u32 \<times> string) option" where
  "read_put_args buf =
     (case read_u32 False buf of
        None \<Rightarrow> None
      | Some (pri, delay_buf) \<Rightarrow>
          (case read_duration False delay_buf of
             None \<Rightarrow> None
           | Some (dly, ttr_buf) \<Rightarrow>
               (case read_duration False ttr_buf of
                  None \<Rightarrow> None
                | Some (ttr, size_buf) \<Rightarrow>
                    (case read_u32 False size_buf of
                       None \<Rightarrow> None
                     | Some (body_size, end_buf) \<Rightarrow> Some (pri, dly, ttr, body_size, end_buf)))))"

definition do_put :: "addr \<Rightarrow> string \<Rightarrow> server \<Rightarrow> server" where
  "do_put c line s =
     (case read_put_args (drop 4 line) of
        None \<Rightarrow> reply_msg c ''BAD_FORMAT'' s
      | Some (pri, dly, ttr, body_size, end_buf) \<Rightarrow>
          let s1 = count_op OP_PUT s
          in if unat body_size > job_data_size_limit s1 then skip c (uint body_size + 2) ''JOB_TOO_BIG'' s1
             else if end_buf \<noteq> [] then reply_msg c ''BAD_FORMAT'' s1
             else let s2 = connsetproducer c s1;
                      ttr' = (if ttr < 1000000000 then 1000000000 else ttr);
                      (jo, s3) = make_job pri dly ttr' (sint (body_size + 2)) (c_use (conn_st s2 c)) s2;
                      s4 = upd_conn c (\<lambda>x. x\<lparr>in_job := jo\<rparr>) s3
                  in if jo = None then skip c (uint (body_size + 2)) ''OUT_OF_MEMORY'' s4
                     else maybe_enqueue_incoming_job c (fill_extra_data c s4))"

text \<open>The end of all the peek commands: \<open>jp\<close> is the job to be shown.\<close>

definition peek_reply :: "addr \<Rightarrow> addr option \<Rightarrow> server \<Rightarrow> server" where
  "peek_reply c jp s =
     (case job_copy jp s of
        (None, s1) \<Rightarrow> reply_msg c ''NOT_FOUND'' s1
      | (Some j, s1) \<Rightarrow> reply_job c j ''FOUND'' s1)"

definition do_peek_ready :: "addr \<Rightarrow> string \<Rightarrow> server \<Rightarrow> server" where
  "do_peek_ready c line s =
     (if length line \<noteq> length (op_names OP_PEEK_READY) then reply_msg c ''BAD_FORMAT'' s
      else let s1 = count_op OP_PEEK_READY s;
               h = ready (tube_st s1 (the (c_use (conn_st s1 c))))
           in peek_reply c (if heap_len h \<noteq> 0 then Some (heap_data h ! 0) else None) s1)"

definition do_peek_delayed :: "addr \<Rightarrow> string \<Rightarrow> server \<Rightarrow> server" where
  "do_peek_delayed c line s =
     (if length line \<noteq> length (op_names OP_PEEK_DELAYED) then reply_msg c ''BAD_FORMAT'' s
      else let s1 = count_op OP_PEEK_DELAYED s;
               h = delay (tube_st s1 (the (c_use (conn_st s1 c))))
           in peek_reply c (if heap_len h \<noteq> 0 then Some (heap_data h ! 0) else None) s1)"

definition do_peek_buried :: "addr \<Rightarrow> string \<Rightarrow> server \<Rightarrow> server" where
  "do_peek_buried c line s =
     (if length line \<noteq> length (op_names OP_PEEK_BURIED) then reply_msg c ''BAD_FORMAT'' s
      else let s1 = count_op OP_PEEK_BURIED s;
               t = the (c_use (conn_st s1 c))
           in peek_reply c (if buried_job_p t s1 then Some (hd (jl_items (lists s1) (LBuried t))) else None) s1)"

definition do_peekjob :: "addr \<Rightarrow> string \<Rightarrow> server \<Rightarrow> server" where
  "do_peekjob c line s =
     (case read_u64 True (arg_of OP_PEEKJOB line) of
        None \<Rightarrow> reply_msg c ''BAD_FORMAT'' s
      | Some (n, _) \<Rightarrow>
          let s1 = count_op OP_PEEKJOB s in peek_reply c (find_job s1 n) s1)"

section \<open>Commands of the workers\<close>

definition do_reserve :: "op \<Rightarrow> int \<Rightarrow> addr \<Rightarrow> server \<Rightarrow> server" where
  "do_reserve p timeout c s =
     (let s1 = connsetworker c (count_op p s);
          (soon, s2) = conndeadlinesoon c s1
      in if soon \<and> \<not> conn_ready c s2 then reply_msg c ''DEADLINE_SOON'' s2
         else process_queue (wait_for_job c timeout s2))"

definition do_reserve_forever :: "addr \<Rightarrow> string \<Rightarrow> server \<Rightarrow> server" where
  "do_reserve_forever c line s =
     (if length line \<noteq> length (op_names OP_RESERVE) then reply_msg c ''BAD_FORMAT'' s
      else do_reserve OP_RESERVE (- 1) c s)"

definition do_reserve_timeout :: "addr \<Rightarrow> string \<Rightarrow> server \<Rightarrow> server" where
  "do_reserve_timeout c line s =
     (case read_u32 False (arg_of OP_RESERVE_TIMEOUT line) of
        None \<Rightarrow> reply_msg c ''BAD_FORMAT'' s
      | Some (utimeout, _) \<Rightarrow>
          if uint utimeout > 2 ^ 31 - 1 then reply_msg c ''BAD_FORMAT'' s
          else do_reserve OP_RESERVE_TIMEOUT (uint utimeout) c s)"

definition do_reserve_job :: "addr \<Rightarrow> string \<Rightarrow> server \<Rightarrow> server" where
  "do_reserve_job c line s =
     (case read_u64 True (arg_of OP_RESERVE_JOB line) of
        None \<Rightarrow> reply_msg c ''BAD_FORMAT'' s
      | Some (n, _) \<Rightarrow>
          let s1 = count_op OP_RESERVE_JOB s
          in case find_job s1 n of
               None \<Rightarrow> reply_msg c ''NOT_FOUND'' s1
             | Some j \<Rightarrow>
                 let st = r_state (job_st s1 j)
                 in if st = Reserved \<or> st = Invalid then reply_msg c ''NOT_FOUND'' s1
                    else if st = Copy then reply_msg c ''INTERNAL_ERROR'' s1
                    else let (jo, s2) = (if st = Ready then remove_ready_job (Some j) s1
                                         else if st = Buried then remove_buried_job (Some j) s1
                                         else remove_delayed_job (Some j) s1);
                             s3 = upd_global (\<lambda>x. x\<lparr>reserved_ct := reserved_ct x + 1\<rparr>) (connsetworker c s2)
                         in reply_job c (the jo) ''RESERVED'' (conn_reserve_job c (the jo) s3))"

definition do_delete :: "addr \<Rightarrow> string \<Rightarrow> server \<Rightarrow> server" where
  "do_delete c line s =
     (case read_u64 True (arg_of OP_DELETE line) of
        None \<Rightarrow> reply_msg c ''BAD_FORMAT'' s
      | Some (n, _) \<Rightarrow>
          let s1 = count_op OP_DELETE s;
              jf = find_job s1 n;
              (j1, s2) = remove_reserved_job c jf s1;
              (j2, s3) = (if j1 = None then remove_ready_job jf s2 else (j1, s2));
              (j3, s4) = (if j2 = None then remove_buried_job jf s3 else (j2, s3));
              (j4, s5) = (if j3 = None then remove_delayed_job jf s4 else (j3, s4))
          in case j4 of
               None \<Rightarrow> reply_msg c ''NOT_FOUND'' s5
             | Some j \<Rightarrow>
                 let s6 = upd_stat (the (j_tube (job_st s5 j)))
                            (\<lambda>x. x\<lparr>total_delete_ct := total_delete_ct x + 1\<rparr>) s5;
                     s7 = upd_job j (\<lambda>x. x\<lparr>r_state := Invalid\<rparr>) s6;
                     (r, s8) = walwrite j s7;
                     s9 = job_free (Some j) (walmaint s8)
                 in if \<not> r then reply_msg c ''INTERNAL_ERROR'' s9 else reply_msg c ''DELETED'' s9)"

definition do_release :: "addr \<Rightarrow> string \<Rightarrow> server \<Rightarrow> server" where
  "do_release c line s =
     (case (case read_u64 False (arg_of OP_RELEASE line) of
              None \<Rightarrow> None
            | Some (n, pri_buf) \<Rightarrow>
                (case read_u32 False pri_buf of
                   None \<Rightarrow> None
                 | Some (pri, delay_buf) \<Rightarrow>
                     map_option (\<lambda>(dly, _). (n, pri, dly)) (read_duration True delay_buf))) of
        None \<Rightarrow> reply_msg c ''BAD_FORMAT'' s
      | Some (n, pri, dly) \<Rightarrow>
          let s1 = count_op OP_RELEASE s
          in case remove_reserved_job c (find_job s1 n) s1 of
               (None, s2) \<Rightarrow> reply_msg c ''NOT_FOUND'' s2
             | (Some j, s2) \<Rightarrow>
                 let (z, s3) = (if dly \<noteq> 0 then walresvupdate s2 else (0, s2))
                 in if dly \<noteq> 0 \<and> z = 0 then reply_msg c ''OUT_OF_MEMORY'' s3
                    else let s4 = upd_job j (\<lambda>x. x\<lparr>walresv := walresv x + z\<rparr>) s3;
                             s5 = upd_job j (\<lambda>x. x\<lparr>r_pri := pri, r_delay := dly,
                                                   r_release_ct := r_release_ct x + 1\<rparr>) s4
                         in case enqueue_job j dly (dly \<noteq> 0) s5 of
                              (True, s6) \<Rightarrow> reply_msg c ''RELEASED'' s6
                            | (False, s6) \<Rightarrow> reply_msg c ''BURIED'' (snd (bury_job j False s6)))"

definition do_bury :: "addr \<Rightarrow> string \<Rightarrow> server \<Rightarrow> server" where
  "do_bury c line s =
     (case (case read_u64 False (arg_of OP_BURY line) of
              None \<Rightarrow> None
            | Some (n, pri_buf) \<Rightarrow> map_option (\<lambda>(pri, _). (n, pri)) (read_u32 True pri_buf)) of
        None \<Rightarrow> reply_msg c ''BAD_FORMAT'' s
      | Some (n, pri) \<Rightarrow>
          let s1 = count_op OP_BURY s
          in case remove_reserved_job c (find_job s1 n) s1 of
               (None, s2) \<Rightarrow> reply_msg c ''NOT_FOUND'' s2
             | (Some j, s2) \<Rightarrow>
                 (case bury_job j True (upd_job j (\<lambda>x. x\<lparr>r_pri := pri\<rparr>) s2) of
                    (False, s3) \<Rightarrow> reply_msg c ''INTERNAL_ERROR'' s3
                  | (True, s3) \<Rightarrow> reply_msg c ''BURIED'' s3))"

definition do_kick :: "addr \<Rightarrow> string \<Rightarrow> server \<Rightarrow> server" where
  "do_kick c line s =
     (case read_kick_count (arg_of OP_KICK line) of
        None \<Rightarrow> reply_msg c ''BAD_FORMAT'' s
      | Some cnt \<Rightarrow>
          let s1 = count_op OP_KICK s
          in case kick_jobs (the (c_use (conn_st s1 c))) cnt s1 of
               (i, s2) \<Rightarrow> reply_line c STATE_SEND_WORD (''KICKED '' @ fmt_dec i @ crlf) s2)"

definition do_kickjob :: "addr \<Rightarrow> string \<Rightarrow> server \<Rightarrow> server" where
  "do_kickjob c line s =
     (case read_u64 True (arg_of OP_KICKJOB line) of
        None \<Rightarrow> reply_msg c ''BAD_FORMAT'' s
      | Some (n, _) \<Rightarrow>
          let s1 = count_op OP_KICKJOB s
          in case find_job s1 n of
               None \<Rightarrow> reply_msg c ''NOT_FOUND'' s1
             | Some j \<Rightarrow>
                 let (b, s2) = (if r_state (job_st s1 j) = Buried then kick_buried_job j s1 else (False, s1));
                     (d, s3) = (if b then (True, s2)
                                else if r_state (job_st s2 j) = Delayed then kick_delayed_job j s2
                                else (False, s2))
                 in reply_msg c (if d then ''KICKED'' else ''NOT_FOUND'') s3)"

definition do_touch :: "addr \<Rightarrow> string \<Rightarrow> server \<Rightarrow> server" where
  "do_touch c line s =
     (case read_u64 True (arg_of OP_TOUCH line) of
        None \<Rightarrow> reply_msg c ''BAD_FORMAT'' s
      | Some (n, _) \<Rightarrow>
          let s1 = count_op OP_TOUCH s
          in case touch_job c (find_job s1 n) s1 of
               (True, s2) \<Rightarrow> reply_msg c ''TOUCHED'' s2
             | (False, s2) \<Rightarrow> reply_msg c ''NOT_FOUND'' s2)"

section \<open>Statistics and lists\<close>

definition do_stats_server :: "sysinfo \<Rightarrow> addr \<Rightarrow> string \<Rightarrow> server \<Rightarrow> server" where
  "do_stats_server si c line s =
     (if length line \<noteq> length (op_names OP_STATS) then reply_msg c ''BAD_FORMAT'' s
      else do_stats c (fmt_stats si) (count_op OP_STATS s))"

definition do_stats_job :: "addr \<Rightarrow> string \<Rightarrow> server \<Rightarrow> server" where
  "do_stats_job c line s =
     (case read_u64 True (arg_of OP_STATSJOB line) of
        None \<Rightarrow> reply_msg c ''BAD_FORMAT'' s
      | Some (n, _) \<Rightarrow>
          let s1 = count_op OP_STATSJOB s
          in case find_job s1 n of
               None \<Rightarrow> reply_msg c ''NOT_FOUND'' s1
             | Some j \<Rightarrow>
                 if j_tube (job_st s1 j) = None then reply_msg c ''INTERNAL_ERROR'' s1
                 else do_stats c (fmt_job_stats j) s1)"

abbreviation valid_name :: "string \<Rightarrow> bool" where
  "valid_name name \<equiv> is_valid_tube name (MAX_TUBE_NAME_LEN - 1)"

definition do_stats_tube :: "addr \<Rightarrow> string \<Rightarrow> server \<Rightarrow> server" where
  "do_stats_tube c line s =
     (let name = arg_of OP_STATS_TUBE line
      in if \<not> valid_name name then reply_msg c ''BAD_FORMAT'' s
         else let s1 = count_op OP_STATS_TUBE s
              in case tube_find (tubes s1) name s1 of
                   None \<Rightarrow> reply_msg c ''NOT_FOUND'' s1
                 | Some t \<Rightarrow> do_stats c (fmt_stats_tube t) s1)"

definition do_list_all_tubes :: "addr \<Rightarrow> string \<Rightarrow> server \<Rightarrow> server" where
  "do_list_all_tubes c line s =
     (if length line \<noteq> length (op_names OP_LIST_TUBES) then reply_msg c ''BAD_FORMAT'' s
      else let s1 = count_op OP_LIST_TUBES s in do_list_tubes c (tubes s1) s1)"

definition do_list_tube_used :: "addr \<Rightarrow> string \<Rightarrow> server \<Rightarrow> server" where
  "do_list_tube_used c line s =
     (if length line \<noteq> length (op_names OP_LIST_TUBE_USED) then reply_msg c ''BAD_FORMAT'' s
      else let s1 = count_op OP_LIST_TUBE_USED s
           in reply_line c STATE_SEND_WORD
                (''USING '' @ t_name (tube_st s1 (the (c_use (conn_st s1 c)))) @ crlf) s1)"

definition do_list_tubes_watched :: "addr \<Rightarrow> string \<Rightarrow> server \<Rightarrow> server" where
  "do_list_tubes_watched c line s =
     (if length line \<noteq> length (op_names OP_LIST_TUBES_WATCHED) then reply_msg c ''BAD_FORMAT'' s
      else let s1 = count_op OP_LIST_TUBES_WATCHED s in do_list_tubes c (watch (conn_st s1 c)) s1)"

section \<open>Tubes\<close>

definition do_use :: "addr \<Rightarrow> string \<Rightarrow> server \<Rightarrow> server" where
  "do_use c line s =
     (let name = arg_of OP_USE line
      in if \<not> valid_name name then reply_msg c ''BAD_FORMAT'' s
         else let s1 = count_op OP_USE s;
                  (tp, s2) = tube_find_or_make name s1;
                  s3 = tube_iref tp s2
              in case tp of
                   None \<Rightarrow> reply_msg c ''OUT_OF_MEMORY'' s3
                 | Some t \<Rightarrow>
                     let s4 = upd_tube (the (c_use (conn_st s3 c))) (\<lambda>x. x\<lparr>using_ct := using_ct x - 1\<rparr>) s3;
                         s5 = tube_dref (c_use (conn_st s4 c)) s4;
                         s6 = tube_iref (Some t) (upd_conn c (\<lambda>x. x\<lparr>c_use := Some t\<rparr>) s5);
                         s7 = tube_dref (Some t) s6;
                         s8 = upd_tube (the (c_use (conn_st s7 c))) (\<lambda>x. x\<lparr>using_ct := using_ct x + 1\<rparr>) s7
                     in reply_line c STATE_SEND_WORD
                          (''USING '' @ t_name (tube_st s8 (the (c_use (conn_st s8 c)))) @ crlf) s8)"

definition do_watch :: "addr \<Rightarrow> string \<Rightarrow> server \<Rightarrow> server" where
  "do_watch c line s =
     (let name = arg_of OP_WATCH line
      in if \<not> valid_name name then reply_msg c ''BAD_FORMAT'' s
         else let s1 = count_op OP_WATCH s;
                  (tp, s2) = tube_find_or_make name s1;
                  s3 = tube_iref tp s2
              in case tp of
                   None \<Rightarrow> reply_msg c ''OUT_OF_MEMORY'' s3
                 | Some t \<Rightarrow>
                     let (r, s4) = (if ms_contains (watch (conn_st s3 c)) t then (True, s3)
                                    else case ms_append (Some on_watch) malloc (watch (conn_st s3 c)) s3 t of
                                           (ok, w, s') \<Rightarrow> (ok, upd_conn c (\<lambda>x. x\<lparr>watch := w\<rparr>) s'));
                         s5 = tube_dref (Some t) s4
                     in if \<not> r then reply_msg c ''OUT_OF_MEMORY'' s5
                        else reply_line c STATE_SEND_WORD
                               (''WATCHING '' @ fmt_dec (length (ms_items (watch (conn_st s5 c)))) @ crlf) s5)"

definition do_ignore :: "addr \<Rightarrow> string \<Rightarrow> server \<Rightarrow> server" where
  "do_ignore c line s =
     (let name = arg_of OP_IGNORE line
      in if \<not> valid_name name then reply_msg c ''BAD_FORMAT'' s
         else let s1 = count_op OP_IGNORE s;
                  tp = tube_find (watch (conn_st s1 c)) name s1
              in if tp \<noteq> None \<and> length (ms_items (watch (conn_st s1 c))) < 2
                 then reply_msg c ''NOT_IGNORED'' s1
                 else let s2 = (case tp of
                                  None \<Rightarrow> s1
                                | Some t \<Rightarrow>
                                    (case ms_remove (Some on_ignore) (watch (conn_st s1 c)) s1 t of
                                       (_, w, s') \<Rightarrow> upd_conn c (\<lambda>x. x\<lparr>watch := w\<rparr>) s'))
                      in reply_line c STATE_SEND_WORD
                           (''WATCHING '' @ fmt_dec (length (ms_items (watch (conn_st s2 c)))) @ crlf) s2)"

definition do_pause_tube :: "addr \<Rightarrow> string \<Rightarrow> server \<Rightarrow> server" where
  "do_pause_tube c line s =
     (case (case read_tube_name (arg_of OP_PAUSE_TUBE line) of
              None \<Rightarrow> None
            | Some (nm, delay_buf) \<Rightarrow>
                map_option (\<lambda>(dly, _). (take (length nm - length delay_buf) nm, dly))
                  (read_duration True delay_buf)) of
        None \<Rightarrow> reply_msg c ''BAD_FORMAT'' s
      | Some (name, dly) \<Rightarrow>
          let s1 = count_op OP_PAUSE_TUBE s
          in if \<not> valid_name name then reply_msg c ''BAD_FORMAT'' s1
             else case tube_find (tubes s1) name s1 of
                    None \<Rightarrow> reply_msg c ''NOT_FOUND'' s1
                  | Some t \<Rightarrow>
                      let dly' = (if dly = 0 then 1 else dly);
                          (nw, s2) = nanoseconds s1;
                          s3 = upd_tube t (\<lambda>x. x\<lparr>unpause_at := nw + dly', pause := dly'\<rparr>) s2;
                          s4 = upd_stat t (\<lambda>x. x\<lparr>pause_ct := pause_ct x + 1\<rparr>) s3
                      in reply_line c STATE_SEND_WORD (''PAUSED'' @ crlf) s4)"

section \<open>The switch\<close>

definition run_cmd :: "sysinfo \<Rightarrow> op \<Rightarrow> addr \<Rightarrow> string \<Rightarrow> server \<Rightarrow> server" where
  "run_cmd si p c line s =
     (case p of
        OP_PUT \<Rightarrow> do_put c line s
      | OP_PEEK_READY \<Rightarrow> do_peek_ready c line s
      | OP_PEEK_DELAYED \<Rightarrow> do_peek_delayed c line s
      | OP_PEEK_BURIED \<Rightarrow> do_peek_buried c line s
      | OP_PEEKJOB \<Rightarrow> do_peekjob c line s
      | OP_RESERVE_TIMEOUT \<Rightarrow> do_reserve_timeout c line s
      | OP_RESERVE \<Rightarrow> do_reserve_forever c line s
      | OP_RESERVE_JOB \<Rightarrow> do_reserve_job c line s
      | OP_DELETE \<Rightarrow> do_delete c line s
      | OP_RELEASE \<Rightarrow> do_release c line s
      | OP_BURY \<Rightarrow> do_bury c line s
      | OP_KICK \<Rightarrow> do_kick c line s
      | OP_KICKJOB \<Rightarrow> do_kickjob c line s
      | OP_TOUCH \<Rightarrow> do_touch c line s
      | OP_STATS \<Rightarrow> do_stats_server si c line s
      | OP_STATSJOB \<Rightarrow> do_stats_job c line s
      | OP_STATS_TUBE \<Rightarrow> do_stats_tube c line s
      | OP_LIST_TUBES \<Rightarrow> do_list_all_tubes c line s
      | OP_LIST_TUBE_USED \<Rightarrow> do_list_tube_used c line s
      | OP_LIST_TUBES_WATCHED \<Rightarrow> do_list_tubes_watched c line s
      | OP_USE \<Rightarrow> do_use c line s
      | OP_WATCH \<Rightarrow> do_watch c line s
      | OP_IGNORE \<Rightarrow> do_ignore c line s
      | OP_QUIT \<Rightarrow> upd_conn c (\<lambda>x. x\<lparr>c_state := STATE_CLOSE\<rparr>) s
      | OP_PAUSE_TUBE \<Rightarrow> do_pause_tube c line s
      | OP_UNKNOWN \<Rightarrow> reply_msg c ''UNKNOWN_COMMAND'' s)"

definition dispatch_cmd :: "sysinfo \<Rightarrow> addr \<Rightarrow> server \<Rightarrow> server" where
  "dispatch_cmd si c s =
     (let line = take (cmd_len (conn_st s c) - 2) (c_cmd (conn_st s c))
      in if NUL \<in> set line then reply_msg c ''BAD_FORMAT'' s
         else run_cmd si (which_cmd line) c line s)"

end
