(* ===== verification/Bean_Server.thy ===== *)
theory Bean_Server
  imports Bean_Dispatch
begin

text \<open>
  The event handlers of \<open>prot.c\<close> and the loop of \<open>serv.c\<close>: reading and writing on a connection, time-outs,
  the periodic tick, new connections, start-up and the replay of the log.

  A call to \<open>read\<close>, \<open>write\<close> or \<open>writev\<close> takes its outcome from a value of type \<open>io\<close>: an error that only
  means "try again", any other error, or success with the bytes that are there to be read and the number of
  bytes the socket takes. Loops whose length depends on the state carry a bound computed from it.
\<close>

section \<open>Pending changes of the event filter\<close>

text \<open>The queue is a list linked through \<open>c_next\<close>; every call of \<open>sockwant\<close> is one system call.\<close>

fun rmconn_loop :: "nat \<Rightarrow> addr \<Rightarrow> addr option \<Rightarrow> server \<Rightarrow> server" where
  "rmconn_loop 0 c newhead s = s\<lparr>epollq := newhead\<rparr>"
| "rmconn_loop (Suc n) c newhead s =
     (case epollq s of
        None \<Rightarrow> s\<lparr>epollq := newhead\<rparr>
      | Some x \<Rightarrow>
          let s1 = upd_conn x (\<lambda>y. y\<lparr>c_next := None\<rparr>) (s\<lparr>epollq := c_next (conn_st s x)\<rparr>)
          in if x \<noteq> c then rmconn_loop n c (Some x) (upd_conn x (\<lambda>y. y\<lparr>c_next := newhead\<rparr>) s1)
             else rmconn_loop n c newhead s1)"

definition epollq_rmconn :: "addr \<Rightarrow> server \<Rightarrow> server" where
  "epollq_rmconn c s = rmconn_loop (2 * Suc (brk s)) c None s"

fun apply_loop :: "nat \<Rightarrow> server \<Rightarrow> server" where
  "apply_loop 0 s = s"
| "apply_loop (Suc n) s =
     (case epollq s of
        None \<Rightarrow> s
      | Some c \<Rightarrow>
          let s1 = upd_conn c (\<lambda>y. y\<lparr>c_next := None\<rparr>) (s\<lparr>epollq := c_next (conn_st s c)\<rparr>)
          in case syscall s1 of
               (True, s2) \<Rightarrow> apply_loop n s2
             | (False, s2) \<Rightarrow> apply_loop n (connclose c s2))"

definition epollq_apply :: "server \<Rightarrow> server" where
  "epollq_apply s = apply_loop (Suc (brk s) * Suc (length (sys s))) s"

section \<open>Time-outs\<close>

text \<open>
  The loop of \<open>conn_timeout\<close> reads the clock once per round; when the clock stands still, every round takes
  an expired job from the connection and no job it may get back has expired.
\<close>

fun timeout_loop :: "nat \<Rightarrow> addr \<Rightarrow> server \<Rightarrow> server" where
  "timeout_loop 0 c s = s"
| "timeout_loop (Suc n) c s =
     (case connsoonestjob c s of
        (None, s1) \<Rightarrow> s1
      | (Some j, s1) \<Rightarrow>
          (case nanoseconds s1 of
             (nw, s2) \<Rightarrow>
               if r_deadline_at (job_st s2 j) \<ge> nw then s2
               else let s3 = (if out_job (conn_st s2 c) = Some j
                              then case job_copy (Some j) s2 of
                                     (jo, s') \<Rightarrow> upd_conn c (\<lambda>x. x\<lparr>out_job := jo\<rparr>) s'
                              else s2);
                        s4 = s3\<lparr>timeout_ct := timeout_ct s3 + 1\<rparr>;
                        s5 = upd_job j (\<lambda>x. x\<lparr>r_timeout_ct := r_timeout_ct x + 1\<rparr>) s4;
                        (jo, s6) = remove_this_reserved_job c j s5;
                        (r, s7) = enqueue_job (the jo) 0 False s6;
                        s8 = (if r then s7 else snd (bury_job j False s7))
                    in timeout_loop n c (connsched c s8)))"

definition conn_timeout :: "addr \<Rightarrow> server \<Rightarrow> server" where
  "conn_timeout c s =
     (let (should_timeout, s1) = (if type_waiting (conn_st s c) then conndeadlinesoon c s else (False, s));
          s2 = timeout_loop (length (ticks s1) + length (jl_items (lists s1) (LReserved c)) + 2) c s1
      in if should_timeout then reply_msg c ''DEADLINE_SOON'' (remove_waiting_conn c s2)
         else if type_waiting (conn_st s2 c) \<and> pending_timeout (conn_st s2 c) \<ge> 0
         then reply_msg c ''TIMED_OUT''
                (remove_waiting_conn c (upd_conn c (\<lambda>x. x\<lparr>pending_timeout := - 1\<rparr>) s2))
         else s2)"

definition enter_drain_mode :: "server \<Rightarrow> server" where
  "enter_drain_mode s = s\<lparr>drain_mode := True\<rparr>"

section \<open>Input and output\<close>

datatype io = IO_again | IO_fail | IO_ok string nat

abbreviation BUCKET_BUF_SIZE :: int where "BUCKET_BUF_SIZE \<equiv> 1024"

definition check_err :: "addr \<Rightarrow> bool \<Rightarrow> server \<Rightarrow> server" where
  "check_err c again s = (if again then s else upd_conn c (\<lambda>x. x\<lparr>c_state := STATE_CLOSE\<rparr>) s)"

definition conn_want_command :: "addr \<Rightarrow> server \<Rightarrow> server" where
  "conn_want_command c s =
     (let s1 = epollq_add c CHR ''r'' s;
          s2 = (case out_job (conn_st s1 c) of
                  Some j \<Rightarrow> if r_state (job_st s1 j) = Copy then job_free (Some j) s1 else s1
                | None \<Rightarrow> s1)
      in upd_conn c (\<lambda>x. x\<lparr>out_job := None, reply_sent := 0, c_state := STATE_WANT_COMMAND\<rparr>) s2)"

text \<open>\<open>read\<close> into a buffer with room for \<open>room\<close> bytes; \<open>k\<close> goes on with the bytes read, at least one.\<close>

definition with_read :: "io \<Rightarrow> addr \<Rightarrow> int \<Rightarrow> (string \<Rightarrow> server \<Rightarrow> server) \<Rightarrow> server \<Rightarrow> server" where
  "with_read e c room k s =
     (case e of
        IO_again \<Rightarrow> check_err c True s
      | IO_fail \<Rightarrow> check_err c False s
      | IO_ok bs _ \<Rightarrow>
          let got = take (nat room) bs
          in if got = [] then upd_conn c (\<lambda>x. x\<lparr>c_state := STATE_CLOSE\<rparr>) s else k got s)"

text \<open>\<open>write\<close> of \<open>len\<close> bytes; \<open>k\<close> goes on with the number of bytes written, at least one.\<close>

definition with_write :: "io \<Rightarrow> addr \<Rightarrow> int \<Rightarrow> (int \<Rightarrow> server \<Rightarrow> server) \<Rightarrow> server \<Rightarrow> server" where
  "with_write e c len k s =
     (case e of
        IO_again \<Rightarrow> check_err c True s
      | IO_fail \<Rightarrow> check_err c False s
      | IO_ok _ n \<Rightarrow>
          let r = min (int n) len
          in if r = 0 then upd_conn c (\<lambda>x. x\<lparr>c_state := STATE_CLOSE\<rparr>) s else k r s)"

definition read_command :: "addr \<Rightarrow> string \<Rightarrow> server \<Rightarrow> server" where
  "read_command c got s =
     (let buf = c_cmd (conn_st s c) @ got;
          len = scan_line_end buf;
          s1 = upd_conn c (\<lambda>x. x\<lparr>c_cmd := buf, cmd_len := len\<rparr>) s
      in if len \<noteq> 0 then s1
         else if length buf = LINE_BUF_SIZE
         then upd_conn c (\<lambda>x. x\<lparr>c_cmd := [], c_state := STATE_WANT_ENDLINE\<rparr>) s1
         else s1)"

definition read_endline :: "addr \<Rightarrow> string \<Rightarrow> server \<Rightarrow> server" where
  "read_endline c got s =
     (let buf = c_cmd (conn_st s c) @ got;
          len = scan_line_end buf;
          s1 = upd_conn c (\<lambda>x. x\<lparr>c_cmd := buf, cmd_len := len\<rparr>) s
      in if len \<noteq> 0 then fill_extra_data c (reply_msg c ''BAD_FORMAT'' s1)
         else if length buf = LINE_BUF_SIZE then upd_conn c (\<lambda>x. x\<lparr>c_cmd := []\<rparr>) s1
         else s1)"

definition read_bucket :: "addr \<Rightarrow> string \<Rightarrow> server \<Rightarrow> server" where
  "read_bucket c got s =
     (let s1 = upd_conn c (\<lambda>x. x\<lparr>in_job_read := in_job_read x - int (length got)\<rparr>) s
      in if in_job_read (conn_st s1 c) = 0 then reply c (c_reply (conn_st s1 c)) STATE_SEND_WORD s1 else s1)"

definition read_body :: "addr \<Rightarrow> string \<Rightarrow> server \<Rightarrow> server" where
  "read_body c got s =
     (let j = the (in_job (conn_st s c));
          n = nat (in_job_read (conn_st s c));
          s1 = upd_job j (\<lambda>x. x\<lparr>body := take n (body x) @ got @ drop (n + length got) (body x)\<rparr>) s;
          s2 = upd_conn c (\<lambda>x. x\<lparr>in_job_read := in_job_read x + int (length got)\<rparr>) s1
      in maybe_enqueue_incoming_job c s2)"

definition wrote_word :: "addr \<Rightarrow> int \<Rightarrow> server \<Rightarrow> server" where
  "wrote_word c r s =
     (let s1 = upd_conn c (\<lambda>x. x\<lparr>reply_sent := reply_sent x + r\<rparr>) s
      in if reply_sent (conn_st s1 c) = int (length (c_reply (conn_st s1 c))) then conn_want_command c s1 else s1)"

text \<open>
  The bytes of the body that \<open>writev\<close> is offered in \<open>STATE_SEND_JOB\<close>. They are read through the pointer \<open>body\<close> of the job that is being
  sent; \<open>None\<close> means that this pointer leads into a freed allocation.
\<close>

definition sent_body :: "addr \<Rightarrow> server \<Rightarrow> string option" where
  "sent_body c s =
     (let j = the (out_job (conn_st s c));
          b = body_at (job_st s j);
          sent = out_job_sent (conn_st s c)
      in if b \<in> live_jobs s
         then Some (take (nat (r_body_size (job_st s j) - sent)) (drop (nat sent) (body (job_st s b))))
         else None)"

definition wrote_job :: "addr \<Rightarrow> int \<Rightarrow> server \<Rightarrow> server" where
  "wrote_job c r s =
     (let j = the (out_job (conn_st s c));
          reply_len = int (length (c_reply (conn_st s c)));
          s1 = upd_conn c (\<lambda>x. x\<lparr>reply_sent := reply_sent x + r\<rparr>) s;
          s2 = (if reply_sent (conn_st s1 c) \<ge> reply_len
                then upd_conn c (\<lambda>x. x\<lparr>out_job_sent := out_job_sent x + (reply_sent x - reply_len),
                                       reply_sent := reply_len\<rparr>) s1
                else s1)
      in if out_job_sent (conn_st s2 c) = r_body_size (job_st s2 j) then conn_want_command c s2 else s2)"

definition conn_process_io :: "io \<Rightarrow> addr \<Rightarrow> server \<Rightarrow> server" where
  "conn_process_io e c s =
     (let x = conn_st s c
      in case c_state x of
           STATE_WANT_COMMAND \<Rightarrow>
             with_read e c (int LINE_BUF_SIZE - int (length (c_cmd x))) (read_command c) s
         | STATE_WANT_ENDLINE \<Rightarrow>
             with_read e c (int LINE_BUF_SIZE - int (length (c_cmd x))) (read_endline c) s
         | STATE_BITBUCKET \<Rightarrow> with_read e c (min (in_job_read x) BUCKET_BUF_SIZE) (read_bucket c) s
         | STATE_WANT_DATA \<Rightarrow>
             with_read e c (r_body_size (job_st s (the (in_job x))) - in_job_read x) (read_body c) s
         | STATE_SEND_WORD \<Rightarrow>
             with_write e c (int (length (c_reply x)) - reply_sent x) (wrote_word c) s
         | STATE_SEND_JOB \<Rightarrow>
             with_write e c (int (length (c_reply x)) - reply_sent x
                             + (r_body_size (job_st s (the (out_job x))) - out_job_sent x)) (wrote_job c) s
         | STATE_WAIT \<Rightarrow>
             if halfclosed x
             then reply_msg c ''TIMED_OUT''
                    (remove_waiting_conn c (upd_conn c (\<lambda>y. y\<lparr>pending_timeout := - 1\<rparr>) s))
             else s
         | STATE_CLOSE \<Rightarrow> s)"

definition cmd_data_ready :: "addr \<Rightarrow> server \<Rightarrow> bool" where
  "cmd_data_ready c s \<longleftrightarrow>
     sock_fd (conn_st s c) \<noteq> 0 \<and> c_state (conn_st s c) = STATE_WANT_COMMAND \<and> c_cmd (conn_st s c) \<noteq> []"

text \<open>Every round takes at least the two bytes of a line end out of the buffer.\<close>

fun cmd_loop :: "nat \<Rightarrow> sysinfo \<Rightarrow> addr \<Rightarrow> server \<Rightarrow> server" where
  "cmd_loop 0 si c s = s"
| "cmd_loop (Suc n) si c s =
     (if \<not> cmd_data_ready c s then s
      else let len = scan_line_end (c_cmd (conn_st s c));
               s1 = upd_conn c (\<lambda>x. x\<lparr>cmd_len := len\<rparr>) s
           in if len = 0 then s1 else cmd_loop n si c (fill_extra_data c (dispatch_cmd si c s1)))"

definition h_conn :: "sysinfo \<Rightarrow> io \<Rightarrow> int \<Rightarrow> char \<Rightarrow> addr \<Rightarrow> server \<Rightarrow> server" where
  "h_conn si e fd which c s =
     (if fd \<noteq> sock_fd (conn_st s c) then epollq_apply (connclose c s)
      else let s1 = (if which = CHR ''h'' then upd_conn c (\<lambda>x. x\<lparr>halfclosed := True\<rparr>) s else s);
               s2 = conn_process_io e c s1;
               s3 = cmd_loop (Suc (length (c_cmd (conn_st s2 c)))) si c s2;
               s4 = (if c_state (conn_st s3 c) = STATE_CLOSE then connclose c (epollq_rmconn c s3) else s3)
           in epollq_apply s4)"

definition prothandle :: "sysinfo \<Rightarrow> io \<Rightarrow> addr \<Rightarrow> char \<Rightarrow> server \<Rightarrow> server" where
  "prothandle si e c ev s = h_conn si e (sock_fd (conn_st s c)) ev c s"

section \<open>The tick\<close>

definition delay_total :: "server \<Rightarrow> nat" where
  "delay_total s = sum_list (map (\<lambda>t. heap_len (delay (tube_st s t))) (ms_items (tubes s)))"

fun undelay_loop :: "nat \<Rightarrow> int \<Rightarrow> int \<Rightarrow> server \<Rightarrow> int \<times> server" where
  "undelay_loop 0 nw period s = (period, s)"
| "undelay_loop (Suc n) nw period s =
     (case soonest_delayed_job s of
        None \<Rightarrow> (period, s)
      | Some j \<Rightarrow>
          let d = r_deadline_at (job_st s j) - nw
          in if d > 0 then (min period d, s)
             else let (r, s2) = enqueue_job j 0 False (delay_remove j s)
                  in undelay_loop n nw period (if r then s2 else snd (bury_job j False s2)))"

definition unpause_step :: "int \<Rightarrow> addr \<Rightarrow> int \<times> server \<Rightarrow> int \<times> server" where
  "unpause_step nw t ps =
     (let (period, s) = ps;
          d = unpause_at (tube_st s t) - nw
      in if pause (tube_st s t) \<noteq> 0 \<and> d \<le> 0
         then (period, process_queue (upd_tube t (\<lambda>x. x\<lparr>pause := 0\<rparr>) s))
         else if d > 0 then (min period d, s)
         else (period, s))"

text \<open>
  A connection may be put back into \<open>srv.conns\<close> by its own time-out, so the number of rounds of this loop
  depends on the clock; the bound is an argument, and \<open>None\<close> means that it was too small.
\<close>

fun conns_loop :: "nat \<Rightarrow> int \<Rightarrow> int \<Rightarrow> server \<Rightarrow> (int \<times> server) option" where
  "conns_loop n nw period s =
     (if heap_len (conns s) = 0 then Some (period, s)
      else let c = heap_data (conns s) ! 0;
               d = tickat (conn_st s c) - nw
           in if d > 0 then Some (min period d, s)
              else case n of
                     0 \<Rightarrow> None
                   | Suc m \<Rightarrow>
                       (case heapremove conn_less conn_setpos (conns s) s 0 of
                          (_, h, s1) \<Rightarrow>
                            conns_loop m nw period
                              (conn_timeout c (upd_conn c (\<lambda>x. x\<lparr>in_conns := False\<rparr>) (s1\<lparr>conns := h\<rparr>)))))"

declare conns_loop.simps [simp del]

abbreviation hour :: int where "hour \<equiv> 3600000000000"

definition prottick :: "nat \<Rightarrow> server \<Rightarrow> (int \<times> server) option" where
  "prottick n s =
     (let (nw, s1) = nanoseconds s;
          (period, s2) = undelay_loop (Suc (delay_total s1)) nw hour s1;
          (period, s3) = fold (unpause_step nw) (ms_items (tubes s2)) (period, s2)
      in map_option (\<lambda>(period, s4). (period, epollq_apply s4)) (conns_loop n nw period s3))"

section \<open>New connections and start-up\<close>

text \<open>\<open>cfd\<close> is what \<open>accept\<close> returns, \<open>None\<close> for an error.\<close>

definition h_accept :: "int option \<Rightarrow> server \<Rightarrow> server" where
  "h_accept cfd s =
     (case cfd of
        None \<Rightarrow> epollq_apply s
      | Some fd \<Rightarrow>
          (case syscall s of
             (False, s1) \<Rightarrow> epollq_apply s1
           | (True, s1) \<Rightarrow>
               (case syscall s1 of
                  (False, s2) \<Rightarrow> epollq_apply s2
                | (True, s2) \<Rightarrow>
                    let d = the (default_tube s2)
                    in (case make_conn fd STATE_WANT_COMMAND d d s2 of
                          (None, s3) \<Rightarrow> epollq_apply s3
                        | (Some c, s3) \<Rightarrow>
                            let s4 = upd_conn c (\<lambda>x. x\<lparr>sock_fd := fd\<rparr>) s3
                            in epollq_apply (snd (syscall s4))))))"

text \<open>\<open>None\<close> is \<open>exit(50)\<close>. The instance id and the node name are part of \<open>sysinfo\<close>.\<close>

definition prot_init :: "server \<Rightarrow> server option" where
  "prot_init s =
     (let (t, s1) = nanoseconds s;
          s2 = s1\<lparr>started_at := t, op_ct := (\<lambda>_. 0)\<rparr>
      in case syscall s2 of
           (False, _) \<Rightarrow> None
         | (True, s3) \<Rightarrow>
             (case syscall s3 of
                (False, _) \<Rightarrow> None
              | (True, s4) \<Rightarrow>
                  (case syscall s4 of
                     (False, _) \<Rightarrow> None
                   | (True, s5) \<Rightarrow>
                       let s6 = s5\<lparr>tubes := ms_init\<rparr>;
                           (tp, s7) = tube_find_or_make ''default'' s6
                       in Some (tube_iref tp ((tube_dref (default_tube s7) s7)\<lparr>default_tube := tp\<rparr>)))))"

fun replay_loop :: "addr list \<Rightarrow> server \<Rightarrow> bool \<times> server" where
  "replay_loop [] s = (True, s)"
| "replay_loop (j # js) s =
     (let s1 = snd (list_remove j s)
      in case walresvupdate s1 of
           (z, s2) \<Rightarrow>
             if z = 0 then (False, s2)
             else case r_state (job_st s2 j) of
                    Buried \<Rightarrow> replay_loop js (snd (bury_job j False s2))
                  | Delayed \<Rightarrow>
                      (case nanoseconds s2 of
                         (t, s3) \<Rightarrow>
                           let dly = (if t < r_deadline_at (job_st s3 j) then r_deadline_at (job_st s3 j) - t else 0)
                           in replay_loop js (snd (enqueue_job j dly False s3)))
                  | _ \<Rightarrow> replay_loop js (snd (enqueue_job j 0 False s2)))"

definition prot_replay :: "server \<Rightarrow> bool \<times> server" where
  "prot_replay s = replay_loop (jl_items (lists s) LReplay) s"

end
