(* ===== verification/Bean_Side.thy ===== *)
theory Bean_Side
  imports Bean_Process Bean_Server
begin

text \<open>
  What the moves of jobs between queues leave alone beside the queues: identities, tubes and references.
  \<open>oview\<close> keeps, of every job, its id and tube, of every connection the fields that belong to the client
  (its tube, its watch set, its buffer, the job it is sending), and the registries; it forgets the queues,
  the scheduling, the log and the environment.
\<close>

section \<open>The view\<close>

definition jbase :: "Job \<Rightarrow> Job" where
  "jbase x = zero_job\<lparr>r_id := r_id x, j_tube := j_tube x\<rparr>"

definition oview :: "server \<Rightarrow> server" where
  "oview s = s\<lparr>job_st := (\<lambda>j. jbase (job_st s j)), tube_st := (\<lambda>_. zero_tube), conn_st := (\<lambda>c. cbase (conn_st s c)),
     file_st := (\<lambda>_. zero_file), file_brk := 0, wal := zero_wal, lists := \<lparr>jl_items = (\<lambda>_. []), jl_owner = (\<lambda>_. None)\<rparr>,
     conns := empty_heap, ready_ct := 0, timeout_ct := 0, op_ct := (\<lambda>_. 0), global_stat := zero_stats,
     cur_worker_ct := 0, cur_producer_ct := 0, epollq := None, allocs := [], sys := [], ticks := [], now := 0\<rparr>"

lemma oviewD:
  assumes "oview s' = oview s"
  shows "r_id (job_st s' j) = r_id (job_st s j)" "j_tube (job_st s' j) = j_tube (job_st s j)"
    "live_jobs s' = live_jobs s" "brk s' = brk s" "live_tubes s' = live_tubes s" "live_conns s' = live_conns s"
    "jobhash s' = jobhash s" "next_id s' = next_id s" "tubes s' = tubes s" "default_tube s' = default_tube s"
    "drain_mode s' = drain_mode s" "job_data_size_limit s' = job_data_size_limit s"
    "c_use (conn_st s' c) = c_use (conn_st s c)" "in_job (conn_st s' c) = in_job (conn_st s c)"
    "watch (conn_st s' c) = watch (conn_st s c)" "sock_fd (conn_st s' c) = sock_fd (conn_st s c)"
    "c_cmd (conn_st s' c) = c_cmd (conn_st s c)" "cmd_len (conn_st s' c) = cmd_len (conn_st s c)"
    "in_job_read (conn_st s' c) = in_job_read (conn_st s c)"
proof -
  note d = assms [unfolded oview_def]
  have j: "jbase (job_st s' j) = jbase (job_st s j)" using arg_cong [OF d, of "\<lambda>s. job_st s j"] by simp
  show "r_id (job_st s' j) = r_id (job_st s j)" "j_tube (job_st s' j) = j_tube (job_st s j)"
    using arg_cong [OF j, of r_id] arg_cong [OF j, of j_tube] by (simp_all add: jbase_def)
  have c: "cbase (conn_st s' c) = cbase (conn_st s c)" using arg_cong [OF d, of "\<lambda>s. conn_st s c"] by simp
  show "c_use (conn_st s' c) = c_use (conn_st s c)" "in_job (conn_st s' c) = in_job (conn_st s c)"
    "watch (conn_st s' c) = watch (conn_st s c)" "sock_fd (conn_st s' c) = sock_fd (conn_st s c)"
    "c_cmd (conn_st s' c) = c_cmd (conn_st s c)" "cmd_len (conn_st s' c) = cmd_len (conn_st s c)"
    "in_job_read (conn_st s' c) = in_job_read (conn_st s c)"
    using arg_cong [OF c, of c_use] arg_cong [OF c, of in_job] arg_cong [OF c, of watch] arg_cong [OF c, of sock_fd]
      arg_cong [OF c, of c_cmd] arg_cong [OF c, of cmd_len] arg_cong [OF c, of in_job_read]
    by (simp_all add: cbase_def)
  show "live_jobs s' = live_jobs s" "brk s' = brk s" "live_tubes s' = live_tubes s" "live_conns s' = live_conns s"
    "jobhash s' = jobhash s" "next_id s' = next_id s" "tubes s' = tubes s" "default_tube s' = default_tube s"
    "drain_mode s' = drain_mode s" "job_data_size_limit s' = job_data_size_limit s"
    using arg_cong [OF d, of live_jobs] arg_cong [OF d, of brk] arg_cong [OF d, of live_tubes]
      arg_cong [OF d, of live_conns] arg_cong [OF d, of jobhash] arg_cong [OF d, of next_id] arg_cong [OF d, of tubes]
      arg_cong [OF d, of default_tube] arg_cong [OF d, of drain_mode] arg_cong [OF d, of job_data_size_limit]
    by simp_all
qed

section \<open>Frames\<close>

lemma oview_upds [simp]:
  "oview (upd_tube t f s) = oview s" "oview (upd_stat t f' s) = oview s" "oview (upd_global f' s) = oview s"
  "oview (upd_file a ff s) = oview s" "oview (s\<lparr>wal := w\<rparr>) = oview s" "oview (s\<lparr>file_brk := n\<rparr>) = oview s"
  "oview (s\<lparr>file_st := fs\<rparr>) = oview s" "oview (s\<lparr>lists := l\<rparr>) = oview s" "oview (s\<lparr>conns := cc\<rparr>) = oview s"
  "oview (s\<lparr>ready_ct := rc\<rparr>) = oview s" "oview (s\<lparr>timeout_ct := rc\<rparr>) = oview s" "oview (s\<lparr>op_ct := oc\<rparr>) = oview s"
  "oview (s\<lparr>cur_worker_ct := wc\<rparr>) = oview s" "oview (s\<lparr>cur_producer_ct := wc\<rparr>) = oview s"
  "oview (s\<lparr>epollq := e\<rparr>) = oview s" "oview (s\<lparr>global_stat := g\<rparr>) = oview s"
  "oview (s\<lparr>ticks := ts\<rparr>) = oview s" "oview (s\<lparr>sys := ss\<rparr>) = oview s" "oview (s\<lparr>allocs := al\<rparr>) = oview s"
  by (simp_all add: oview_def upd_tube_def upd_stat_def upd_global_def upd_file_def)

lemma oview_upd_job: "jbase (f (job_st s j)) = jbase (job_st s j) \<Longrightarrow> oview (upd_job j f s) = oview s"
  by (simp add: oview_def upd_job_def fun_eq_iff)

lemma oview_upd_conn: "cbase (f (conn_st s c)) = cbase (conn_st s c) \<Longrightarrow> oview (upd_conn c f s) = oview s"
  by (simp add: oview_def upd_conn_def fun_eq_iff)

lemmas oview_upd = oview_upd_job oview_upd_conn jbase_def cbase_def

interpretation ol: log_view oview
  by unfold_locales (simp_all add: oview_upd, simp_all add: oview_def)

interpretation oc: conn_view oview
  by unfold_locales (simp_all add: oview_upd, simp_all add: oview_def)

lemma oview_setpos [simp]: "oview (job_setpos j i s) = oview s"
  by (simp add: job_setpos_def oview_upd)

lemma oview_heaps:
  "heapremove lt job_setpos h s k = (r, h', s') \<Longrightarrow> oview s' = oview s"
  "heapinsert lt job_setpos malloc h s c = (b, h', s') \<Longrightarrow> oview s' = oview s"
  using heapremove_frame [of oview job_setpos lt h s k] heapinsert_frame [of oview job_setpos malloc lt h s c] by simp_all

lemma oview_lists [simp]: "oview (list_insert h j s) = oview s" "oview (snd (list_remove j s)) = oview s"
  by (simp_all add: list_insert_def list_remove_def case_prod_beta)

lemma oview_list_remove: "list_remove j s = (b, s') \<Longrightarrow> oview s' = oview s"
  using oview_lists(2) [of j s] by simp

lemma oview_heap_moves [simp]: "oview (ready_remove j s) = oview s" "oview (delay_remove j s) = oview s"
  by (auto simp: ready_remove_def delay_remove_def Let_def split: prod.split dest!: oview_heaps)

lemma oview_heap_inserts:
  "ready_insert j s = (b, s') \<Longrightarrow> oview s' = oview s" "delay_insert j s = (b, s') \<Longrightarrow> oview s' = oview s"
  by (auto simp: ready_insert_def delay_insert_def Let_def split: prod.splits dest!: oview_heaps)

lemma oview_removes:
  "remove_ready_job jp s = (r, s') \<Longrightarrow> oview s' = oview s" "remove_buried_job jp s = (r, s') \<Longrightarrow> oview s' = oview s"
  "remove_delayed_job jp s = (r, s') \<Longrightarrow> oview s' = oview s"
  "remove_this_reserved_job c j s = (r, s') \<Longrightarrow> oview s' = oview s"
  "remove_reserved_job c jp s = (r, s') \<Longrightarrow> oview s' = oview s"
proof -
  show r: "remove_this_reserved_job c j s = (r, s') \<Longrightarrow> oview s' = oview s" for j
    by (auto simp: remove_this_reserved_job_def Let_def oview_upd split: prod.splits bool.splits dest!: oview_list_remove)
  show "remove_ready_job jp s = (r, s') \<Longrightarrow> oview s' = oview s" "remove_buried_job jp s = (r, s') \<Longrightarrow> oview s' = oview s"
    "remove_delayed_job jp s = (r, s') \<Longrightarrow> oview s' = oview s" "remove_reserved_job c jp s = (r, s') \<Longrightarrow> oview s' = oview s"
    by (auto simp: remove_ready_job_def remove_buried_job_def remove_delayed_job_def remove_reserved_job_def Let_def
        split: option.splits if_splits prod.splits bool.splits dest!: oview_list_remove r)
qed

lemma oview_place: "place_job j dly s = (b, s') \<Longrightarrow> oview s' = oview s"
  by (auto simp: place_job_def Let_def oview_upd split: if_splits prod.splits bool.splits
      dest!: oview_heap_inserts ol.env_dest(3))

lemma oview_reserve_job [simp]: "oview (conn_reserve_job c j s) = oview s"
  by (simp add: conn_reserve_job_def Let_def case_prod_beta oview_upd)

lemma oview_process_one [simp]: "oview (process_one j s) = oview s"
  by (auto simp: process_one_def Let_def split: prod.split option.split dest!: oview_removes)

lemma oview_awaited: "fold (awaited_step nw) ts (jo, s) = (jo', s') \<Longrightarrow> oview s' = oview s"
  by (induction ts arbitrary: jo s) (auto simp: awaited_step_def Let_def split: if_splits)

lemma oview_process_loop [simp]: "oview (process_loop n nw s) = oview s"
  by (induction n arbitrary: s)
    (auto simp: next_awaited_job_def split: prod.split option.split dest!: oview_awaited)

lemma oview_process_queue [simp]: "oview (process_queue s) = oview s"
  by (auto simp: process_queue_def simp del: process_loop.simps split: prod.split dest!: ol.env_dest(3))

lemma oview_enqueue_job: "enqueue_job j dly u s = (b, s') \<Longrightarrow> oview s' = oview s"
  by (auto simp: enqueue_job_def split: if_splits prod.splits bool.splits dest!: oview_place ol.walwrite)

lemma oview_bury_list [simp]: "oview (bury_list j s) = oview s"
  by (simp add: bury_list_def Let_def oview_upd)

lemma oview_bury_job: "bury_job j u s = (b, s') \<Longrightarrow> oview s' = oview s"
  by (auto simp: bury_job_def Let_def split: if_splits prod.splits bool.splits dest!: ol.walresv ol.walwrite)

lemma oview_snd [simp]:
  "oview (snd (bury_job j u s)) = oview s" "oview (snd (remove_buried_job jp s)) = oview s"
  "oview (snd (enqueue_job j d u s)) = oview s" "oview (snd (remove_this_reserved_job c j s)) = oview s"
  using oview_bury_job [OF prod.collapse [symmetric]] oview_removes(2,4) [OF prod.collapse [symmetric]]
    oview_enqueue_job [OF prod.collapse [symmetric]] by simp_all

lemma oview_kicks:
  "kick_buried_job j s = (b, s') \<Longrightarrow> oview s' = oview s" "kick_delayed_job j s = (b, s') \<Longrightarrow> oview s' = oview s"
  by (auto simp: kick_buried_job_def kick_delayed_job_def Let_def oview_upd split: if_splits prod.splits bool.splits
      dest!: ol.walresv oview_enqueue_job)

section \<open>Memoised jobs and waiting connections\<close>

text \<open>
  \<open>soonest_ok E\<close>: the job a connection remembers as its soonest is one it has reserved, except for the
  connections in \<open>E\<close>, which are being closed. \<open>waiters\<close>: the connections that wait on some tube.
\<close>

definition soonest_ok :: "addr set \<Rightarrow> server \<Rightarrow> bool" where
  "soonest_ok E s \<longleftrightarrow>
     (\<forall>c j. c \<notin> E \<longrightarrow> soonest_job (conn_st s c) = Some j \<longrightarrow> j \<in> set (jl_items (lists s) (LReserved c)))"

definition waiters :: "server \<Rightarrow> addr set" where
  "waiters s = (\<Union>t. set (ms_items (waiting_conns (tube_st s t))))"

text \<open>What scheduling and answering a connection does to the rest.\<close>

definition cframe :: "server \<Rightarrow> server \<Rightarrow> bool" where
  "cframe s s' \<longleftrightarrow> kview s' = kview s \<and> oview s' = oview s \<and> (\<forall>E. soonest_ok E s \<longrightarrow> soonest_ok E s') \<and> waiters s' \<subseteq> waiters s"

lemma cframe_refl [simp]: "cframe s s"
  by (simp add: cframe_def)

lemma cframe_trans: "cframe s s1 \<Longrightarrow> cframe s1 s2 \<Longrightarrow> cframe s s2"
  by (auto simp: cframe_def)

lemma cframe_same:
  assumes "kview s' = kview s" "oview s' = oview s" "waiters s' \<subseteq> waiters s"
    "\<And>c. soonest_job (conn_st s' c) = soonest_job (conn_st s c)"
  shows "cframe s s'"
  using assms kviewD(8) [OF assms(1)] by (auto simp: cframe_def soonest_ok_def)

lemma waiters_cong: "(\<And>t. waiting_conns (tube_st s' t) = waiting_conns (tube_st s t)) \<Longrightarrow> waiters s' = waiters s"
  by (simp add: waiters_def)

lemma waiters_upd_tube [simp]:
  "(\<And>x. waiting_conns (f x) = waiting_conns x) \<Longrightarrow> waiters (upd_tube t f s) = waiters s"
  by (rule waiters_cong) simp

lemma waiters_upds [simp]:
  "waiters (upd_conn c g s) = waiters s" "waiters (upd_job j f s) = waiters s" "waiters (upd_stat t h s) = waiters s"
  "waiters (upd_global h s) = waiters s" "waiters (s\<lparr>lists := l\<rparr>) = waiters s" "waiters (list_insert lh j s) = waiters s"
  "waiters (s\<lparr>global_stat := gs\<rparr>) = waiters s" "waiters (s\<lparr>ready_ct := rc\<rparr>) = waiters s"
  by (rule waiters_cong, simp)+

interpretation wv: sched_view waiters
  by unfold_locales (simp_all add: waiters_def)

lemma ms_remove_waiters:
  "set (ms_items (fst (snd (ms_remove None w () c)))) \<subseteq> set (ms_items w)"
proof -
  obtain ok w' u where e: "ms_remove None w () c = (ok, w', u)" by (rule prod_cases3)
  have "set_mset (mset (ms_items w')) \<subseteq> set_mset (mset (ms_items w))"
    using ms_remove_items(2) [OF e] by (auto dest: in_diffD)
  then show ?thesis by (simp add: e)
qed

lemma waiters_set:
  "waiters (upd_tube t (\<lambda>x. x\<lparr>waiting_conns := w x\<rparr>) s) \<subseteq> waiters s \<union> set (ms_items (w (tube_st s t)))"
  by (auto simp: waiters_def split: if_splits)

lemma waiters_tube: "set (ms_items (waiting_conns (tube_st s t))) \<subseteq> waiters s"
  by (auto simp: waiters_def)

lemma waiters_unwait: "waiters (unwait_tube c t s) \<subseteq> waiters s"
proof -
  let ?s = "upd_stat t (\<lambda>x. x\<lparr>waiting_ct := waiting_ct x - 1\<rparr>) s"
  have "set (ms_items (fst (snd (ms_remove None (waiting_conns (tube_st ?s t)) () c)))) \<subseteq> waiters ?s"
    using ms_remove_waiters waiters_tube by (rule order_trans)
  then have "waiters (unwait_tube c t s) \<subseteq> waiters ?s"
    using waiters_set [of t "\<lambda>x. fst (snd (ms_remove None (waiting_conns x) () c))" ?s]
    unfolding unwait_tube_def by blast
  then show ?thesis by simp
qed

lemma waiters_fold:
  assumes "\<And>x s. waiters (f x s) \<subseteq> A \<union> waiters s"
  shows "waiters (fold f xs s) \<subseteq> A \<union> waiters s"
proof (induction xs arbitrary: s)
  case (Cons x xs)
  then show ?case using assms [of x s] Cons.IH [of "f x s"] by auto
qed simp

lemma waiters_remove: "waiters (remove_waiting_conn c s) \<subseteq> waiters s"
proof -
  have "waiters (fold (unwait_tube c) ts s') \<subseteq> {} \<union> waiters s'" for ts s'
    by (rule waiters_fold) (use waiters_unwait in auto)
  then show ?thesis by (simp add: remove_waiting_conn_def Let_def) (metis waiters_upds(1,7))
qed

lemma waiters_wait: "waiters (wait_tube c t s) \<subseteq> {c} \<union> waiters s"
proof -
  let ?s = "upd_stat t (\<lambda>x. x\<lparr>waiting_ct := waiting_ct x + 1\<rparr>) s"
  obtain ok w s2 where e: "ms_append None malloc (waiting_conns (tube_st ?s t)) ?s c = (ok, w, s2)" by (rule prod_cases3)
  have "waiters s2 = waiters s" using ms_append_frame [OF e] by auto
  moreover have "set (ms_items w) \<subseteq> {c} \<union> waiters s"
    using ms_append_items(1) [OF e] waiters_tube [of s t] by (auto split: if_splits)
  ultimately have "waiters (upd_tube t (\<lambda>x. x\<lparr>waiting_conns := w\<rparr>) s2) \<subseteq> {c} \<union> waiters s"
    using waiters_set [of t "\<lambda>_. w" s2] by auto
  then show ?thesis using e by (simp add: wait_tube_def Let_def)
qed

lemma waiters_wait_for: "waiters (wait_for_job c n s) \<subseteq> {c} \<union> waiters s"
proof -
  have "waiters (fold (wait_tube c) ts s') \<subseteq> {c} \<union> waiters s'" for ts s'
    by (rule waiters_fold) (rule waiters_wait)
  then show ?thesis by (simp add: wait_for_job_def enqueue_waiting_conn_def Let_def) (metis waiters_upds(1,7))
qed

section \<open>Soonest jobs\<close>

lemma soonest_ok_cong:
  assumes "soonest_ok E s" "\<And>c. jl_items (lists s') (LReserved c) = jl_items (lists s) (LReserved c)"
    "\<And>c. soonest_job (conn_st s' c) = soonest_job (conn_st s c) \<or> soonest_job (conn_st s' c) = None"
  shows "soonest_ok E s'"
  unfolding soonest_ok_def
proof (intro allI impI)
  fix c j
  assume "c \<notin> E" "soonest_job (conn_st s' c) = Some j"
  then show "j \<in> set (jl_items (lists s') (LReserved c))"
    using assms(1) assms(2,3) [of c] by (auto simp: soonest_ok_def)
qed

text \<open>A view that keeps what \<open>soonest_ok\<close> reads, of one connection or of all.\<close>

definition sview_conn :: "server \<Rightarrow> (addr \<Rightarrow> addr list) \<times> (addr \<Rightarrow> addr option)" where
  "sview_conn s = (\<lambda>c. jl_items (lists s) (LReserved c), \<lambda>c. soonest_job (conn_st s c))"

lemma soonest_ok_view: "sview_conn s' = sview_conn s \<Longrightarrow> soonest_ok E s' = soonest_ok E s"
  by (simp add: soonest_ok_def sview_conn_def fun_eq_iff)

lemma sview_conn_upds [simp]:
  "soonest_job (g (conn_st s c)) = soonest_job (conn_st s c) \<Longrightarrow> sview_conn (upd_conn c g s) = sview_conn s"
  "sview_conn (upd_job j f s) = sview_conn s" "sview_conn (upd_tube t h s) = sview_conn s"
  "sview_conn (upd_stat t k s) = sview_conn s" "sview_conn (upd_global k s) = sview_conn s"
  "sview_conn (s\<lparr>conns := cc\<rparr>) = sview_conn s" "sview_conn (s\<lparr>epollq := e\<rparr>) = sview_conn s"
  "sview_conn (s\<lparr>ready_ct := rc\<rparr>) = sview_conn s" "sview_conn (s\<lparr>global_stat := gs\<rparr>) = sview_conn s"
  "sview_conn (s\<lparr>cur_worker_ct := n\<rparr>) = sview_conn s" "sview_conn (s\<lparr>cur_producer_ct := n\<rparr>) = sview_conn s"
  "sview_conn (s\<lparr>timeout_ct := rc\<rparr>) = sview_conn s" "sview_conn (s\<lparr>op_ct := oc\<rparr>) = sview_conn s"
  by (simp_all add: sview_conn_def fun_eq_iff upd_conn_def)

interpretation sv: log_view sview_conn
  by unfold_locales (simp_all add: sview_conn_def)

lemma sview_conn_setpos [simp]: "sview_conn (conn_setpos c i s) = sview_conn s" "sview_conn (job_setpos j i s) = sview_conn s"
  by (simp_all add: conn_setpos_def job_setpos_def)

lemma sview_heaps:
  "heapremove lt job_setpos h s k = (r, h', s') \<Longrightarrow> sview_conn s' = sview_conn s"
  "heapinsert lt job_setpos malloc h s c = (b, h', s') \<Longrightarrow> sview_conn s' = sview_conn s"
  "heapremove lt conn_setpos h s k = (r, h', s') \<Longrightarrow> sview_conn s' = sview_conn s"
  "heapinsert lt conn_setpos malloc h s c = (b, h', s') \<Longrightarrow> sview_conn s' = sview_conn s"
  using heapremove_frame [of sview_conn conn_setpos lt h s k] heapinsert_frame [of sview_conn conn_setpos malloc lt h s c]
    heapremove_frame [of sview_conn job_setpos lt h s k] heapinsert_frame [of sview_conn job_setpos malloc lt h s c]
  by simp_all

lemma soonest_set_ok:
  assumes "soonest_ok E s" "j \<in> set (jl_items (lists s) (LReserved c))"
  shows "soonest_ok E (conn_set_soonestjob c j s)"
  using assms by (auto simp: soonest_ok_def conn_set_soonestjob_def split: option.split)

lemma connsoonestjob_ok:
  assumes "connsoonestjob c s = (jo, s')" "soonest_ok E s"
  shows "soonest_ok E s'" "jo = Some j \<Longrightarrow> c \<notin> E \<Longrightarrow> j \<in> set (jl_items (lists s') (LReserved c))"
    "jo = soonest_job (conn_st s' c)"
proof -
  have f: "soonest_ok E (fold (conn_set_soonestjob c) js s)"
    if "set js \<subseteq> set (jl_items (lists s) (LReserved c))" "soonest_ok E s" for js s
    using that by (induction js arbitrary: s) (simp_all add: soonest_set_ok)
  show ok: "soonest_ok E s'"
    using assms f by (auto simp: connsoonestjob_def Let_def split: option.splits)
  show e: "jo = soonest_job (conn_st s' c)"
    using assms(1) by (auto simp: connsoonestjob_def Let_def split: option.splits)
  show "jo = Some j \<Longrightarrow> c \<notin> E \<Longrightarrow> j \<in> set (jl_items (lists s') (LReserved c))"
    using ok e by (auto simp: soonest_ok_def)
qed

lemma soonest_env: "soonest_ok E s \<Longrightarrow> nanoseconds s = (t, s') \<Longrightarrow> soonest_ok E s'"
  using soonest_ok_view [OF sv.env_dest(3)] by blast

lemma conntickat_ok: "conntickat c s = (t, s') \<Longrightarrow> soonest_ok E s \<Longrightarrow> soonest_ok E s'"
  by (auto simp: conntickat_def Let_def split: if_splits prod.splits
      dest!: connsoonestjob_ok(1) dest: soonest_env)

lemma soonest_upds:
  "soonest_job (g (conn_st s c)) = soonest_job (conn_st s c) \<Longrightarrow> soonest_ok E (upd_conn c g s) = soonest_ok E s"
  "soonest_ok E (s\<lparr>conns := cc\<rparr>) = soonest_ok E s" "soonest_ok E (s\<lparr>epollq := e\<rparr>) = soonest_ok E s"
  "soonest_ok E (s\<lparr>cur_worker_ct := n\<rparr>) = soonest_ok E s" "soonest_ok E (s\<lparr>cur_producer_ct := n\<rparr>) = soonest_ok E s"
  "soonest_ok E (s\<lparr>global_stat := gs\<rparr>) = soonest_ok E s" "soonest_ok E (upd_tube t h s) = soonest_ok E s"
  by (rule soonest_ok_view, simp)+

lemma soonest_conns_remove: "soonest_ok E (conns_remove c s) = soonest_ok E s"
  by (rule soonest_ok_view) (auto simp: conns_remove_def split: prod.split dest!: sview_heaps(3))

lemma connsched_ok:
  assumes "soonest_ok E s"
  shows "soonest_ok E (connsched c s)"
proof -
  let ?s1 = "if in_conns (conn_st s c) then conns_remove c s else s"
  obtain t s2 where e: "conntickat c ?s1 = (t, s2)" by (rule prod.exhaust)
  have "soonest_ok E s2" using conntickat_ok [OF e] assms by (simp add: soonest_conns_remove)
  then have s3: "soonest_ok E (upd_conn c (\<lambda>x. x\<lparr>tickat := t\<rparr>) s2)" by (simp add: soonest_upds)
  obtain b h s4 where h: "heapinsert conn_less conn_setpos malloc (conns s2) (upd_conn c (\<lambda>x. x\<lparr>tickat := t\<rparr>) s2) c = (b, h, s4)"
    by (rule prod_cases3)
  have "soonest_ok E s4" using s3 soonest_ok_view [OF sview_heaps(4) [OF h]] by blast
  then show ?thesis using e h s3 by (simp add: connsched_def Let_def soonest_upds)
qed


lemma epollq_add_ok: "soonest_ok E s \<Longrightarrow> soonest_ok E (epollq_add c rw s)"
  by (simp add: epollq_add_def Let_def soonest_upds connsched_ok)

lemma replies_ok:
  assumes "soonest_ok E s"
  shows "soonest_ok E (reply c line st s)" "soonest_ok E (reply_msg c m s)" "soonest_ok E (reply_line c st line s)"
    "soonest_ok E (reply_job c j m s)"
  using assms by (simp_all add: reply_def reply_msg_def reply_line_def reply_job_def soonest_upds epollq_add_ok)

lemma soonest_waiting:
  "soonest_ok E (remove_waiting_conn c s) = soonest_ok E s" "soonest_ok E (enqueue_waiting_conn c s) = soonest_ok E s"
proof -
  have u: "sview_conn (unwait_tube c t s) = sview_conn s" "sview_conn (wait_tube c t s) = sview_conn s" for t s
    by (auto simp: unwait_tube_def wait_tube_def Let_def split: prod.split dest!: ms_append_frame)
  have f: "soonest_ok E (fold (unwait_tube c) ts s) = soonest_ok E s" "soonest_ok E (fold (wait_tube c) ts s) = soonest_ok E s" for ts s
    by (rule soonest_ok_view, rule sv.view_fold, rule u)+
  show "soonest_ok E (remove_waiting_conn c s) = soonest_ok E s" "soonest_ok E (enqueue_waiting_conn c s) = soonest_ok E s"
    by (simp_all add: remove_waiting_conn_def enqueue_waiting_conn_def Let_def f soonest_upds)
qed

lemma conndeadlinesoon_ok: "conndeadlinesoon c s = (b, s') \<Longrightarrow> soonest_ok E s \<Longrightarrow> soonest_ok E s'"
  by (auto simp: conndeadlinesoon_def split: prod.splits option.splits
      dest: soonest_env intro: connsoonestjob_ok(1) [OF _ soonest_env])

lemmas soonest_oks = epollq_add_ok replies_ok connsched_ok soonest_waiting

section \<open>The frame of the connections\<close>

lemma cframe_replies [simp]:
  "cframe s (epollq_add c rw s)" "cframe s (reply c line st s)" "cframe s (reply_msg c m s)"
  "cframe s (reply_line c st line s)" "cframe s (reply_job c j m s)" "cframe s (connsched c s)"
  by (simp_all add: cframe_def soonest_oks)

lemma cframe_remove_waiting [simp]: "cframe s (remove_waiting_conn c s)"
  by (simp add: cframe_def soonest_oks waiters_remove)

lemma cframe_upd_conn:
  "cbase (g (conn_st s c)) = cbase (conn_st s c) \<Longrightarrow> soonest_job (g (conn_st s c)) \<in> {soonest_job (conn_st s c), None} \<Longrightarrow>
   cframe s (upd_conn c g s)"
  by (auto simp: cframe_def oview_upd_conn soonest_ok_def)

lemma cframe_connset [simp]: "cframe s (connsetworker c s)" "cframe s (connsetproducer c s)"
  by (simp_all add: cframe_def connsetworker_def connsetproducer_def soonest_upds oview_upd)

lemma cframe_deadlinesoon: "conndeadlinesoon c s = (b, s') \<Longrightarrow> cframe s s'"
  using kv.conndeadlinesoon oc.conndeadlinesoon wv.conndeadlinesoon conndeadlinesoon_ok
  unfolding cframe_def by blast

lemma cframe_soonestjob: "connsoonestjob c s = (b, s') \<Longrightarrow> cframe s s'"
  using kv.connsoonestjob oc.connsoonestjob wv.connsoonestjob connsoonestjob_ok(1)
  unfolding cframe_def by blast

lemma cframe_env: "malloc s = (b, s') \<Longrightarrow> cframe s s'" "syscall s = (b, s') \<Longrightarrow> cframe s s'"
  "nanoseconds s = (t, s') \<Longrightarrow> cframe s s'"
  using kv.env_dest ol.env_dest wv.env_dest soonest_ok_view [OF sv.env_dest(1)] soonest_ok_view [OF sv.env_dest(2)]
    soonest_ok_view [OF sv.env_dest(3)] unfolding cframe_def by auto

lemma kview_qview:
  assumes "kview s' = kview s"
  shows "qview s' = qview s"
proof -
  note k = kviewD [OF assms] and t = kview_tube [OF assms]
  have "tview (tube_st s' u) = tview (tube_st s u)" for u
    using arg_cong [OF t [of u], of ready] arg_cong [OF t [of u], of delay] arg_cong [OF t [of u], of "\<lambda>x. sview (stat x)"]
    by (simp add: tview_def sview_def)
  moreover have "sview (global_stat s') = sview (global_stat s)"
    using arg_cong [OF assms, of "\<lambda>s. sview (global_stat s)"] by (simp add: kview_def sview_def)
  ultimately show ?thesis using k by (simp add: qview_def)
qed

end
