(* ===== verification/Bean_Full.thy ===== *)
theory Bean_Full
  imports Bean_Side
begin

text \<open>
  The invariant of the whole server, with the log switched off: the queues (\<open>Bean_Inv\<close>), the hash table of
  jobs, the references between structures, the jobs that are being sent by clients, and the jobs that
  connections remember. Every move of a job between queues preserves it.
\<close>

section \<open>The invariant\<close>

text \<open>The connections in \<open>E\<close> are being closed; what they hold is not constrained.\<close>

definition hash_ok :: "server \<Rightarrow> bool" where
  "hash_ok s \<longleftrightarrow> ht_ok (ids s) (jobhash s) \<and> ht_load (jobhash s) \<and>
     ht_set (jobhash s) = {j \<in> live_jobs s. r_state (job_st s j) \<noteq> Copy} \<and>
     (\<forall>j \<in> live_jobs s. r_state (job_st s j) \<noteq> Copy \<longrightarrow> r_id (job_st s j) < next_id s)"

definition refs_ok :: "addr set \<Rightarrow> addr set \<Rightarrow> server \<Rightarrow> bool" where
  "refs_ok E X s \<longleftrightarrow>
     (\<forall>j \<in> live_jobs s. (\<forall>t. j_tube (job_st s j) = Some t \<longrightarrow> t < brk s) \<and>
        (\<forall>c. reserver (job_st s j) = Some c \<longrightarrow> c < brk s)) \<and>
     (\<forall>c \<in> waiters s. c < brk s) \<and> (\<forall>t \<in> set (ms_items (tubes s)). t < brk s) \<and>
     (\<forall>c \<in> live_conns s. c < brk s \<and> (c \<notin> E \<longrightarrow> (\<exists>t. c_use (conn_st s c) = Some t \<and> t < brk s))) \<and>
     (\<exists>d. default_tube s = Some d \<and> d < brk s) \<and>
     (\<forall>j \<in> X. r_state (job_st s j) \<noteq> Copy \<and> j_tube (job_st s j) \<noteq> None)"

text \<open>The job a client is sending is allocated, in no queue and sent by nobody else.\<close>

definition uploads_ok :: "addr set \<Rightarrow> addr set \<Rightarrow> server \<Rightarrow> bool" where
  "uploads_ok E X s \<longleftrightarrow>
     (\<forall>c j. c \<notin> E \<longrightarrow> in_job (conn_st s c) = Some j \<longrightarrow>
        j \<in> live_jobs s \<and> j \<notin> X \<and> r_state (job_st s j) = Invalid \<and> j_tube (job_st s j) \<noteq> None) \<and>
     (\<forall>c c' j. c \<notin> E \<longrightarrow> c' \<notin> E \<longrightarrow> in_job (conn_st s c) = Some j \<longrightarrow> in_job (conn_st s c') = Some j \<longrightarrow> c = c')"

definition sok :: "addr set \<Rightarrow> addr set \<Rightarrow> addr list \<Rightarrow> server \<Rightarrow> bool" where
  "sok E X off s \<longleftrightarrow> queue_ok X off s \<and> soonest_ok E s \<and> hash_ok s \<and> refs_ok E X s \<and> uploads_ok E X s \<and> \<not> wal_use (wal s)"

lemma sokD:
  assumes "sok E X off s"
  shows "queue_ok X off s" "soonest_ok E s" "hash_ok s" "refs_ok E X s" "uploads_ok E X s" "\<not> wal_use (wal s)"
  using assms by (simp_all add: sok_def)

lemma refs_okD:
  assumes "refs_ok E X s"
  shows "\<And>j t. j \<in> live_jobs s \<Longrightarrow> j_tube (job_st s j) = Some t \<Longrightarrow> t < brk s"
    "\<And>j c. j \<in> live_jobs s \<Longrightarrow> reserver (job_st s j) = Some c \<Longrightarrow> c < brk s"
    "\<And>c. c \<in> waiters s \<Longrightarrow> c < brk s" "\<And>t. t \<in> set (ms_items (tubes s)) \<Longrightarrow> t < brk s"
    "\<And>c. c \<in> live_conns s \<Longrightarrow> c < brk s" "\<And>c. c \<in> live_conns s \<Longrightarrow> c \<notin> E \<Longrightarrow> \<exists>t. c_use (conn_st s c) = Some t \<and> t < brk s"
    "\<exists>d. default_tube s = Some d \<and> d < brk s" "\<And>j. j \<in> X \<Longrightarrow> r_state (job_st s j) \<noteq> Copy"
    "\<And>j. j \<in> X \<Longrightarrow> \<exists>t. j_tube (job_st s j) = Some t"
  using assms unfolding refs_ok_def by blast+

section \<open>Moves\<close>

text \<open>States that a job does not leave while it moves between queues.\<close>

definition special :: "jstate \<Rightarrow> jstate option" where
  "special st = (if st = Invalid \<or> st = Copy then Some st else None)"

lemma special_core: "core x = core y \<Longrightarrow> special (r_state x) = special (r_state y)"
  by (simp add: core_def)

text \<open>
  A move between queues: identities and references are those of \<open>oview\<close>; a reserver that changes is dropped
  or is an allocated address; only jobs in flight lose a special state.
\<close>

definition moved :: "addr set \<Rightarrow> server \<Rightarrow> server \<Rightarrow> bool" where
  "moved X s s' \<longleftrightarrow> oview s' = oview s \<and> wal s' = wal s \<and> waiters s' \<subseteq> waiters s \<and>
     (\<forall>k. reserver (job_st s' k) = reserver (job_st s k) \<or> reserver (job_st s' k) = None \<or>
        (\<exists>c. reserver (job_st s' k) = Some c \<and> c < brk s)) \<and>
     (\<forall>k. special (r_state (job_st s' k)) = special (r_state (job_st s k)) \<or>
        k \<in> X \<and> r_state (job_st s' k) \<noteq> Copy)"

lemma movedI:
  assumes "oview s' = oview s" "wal s' = wal s" "waiters s' \<subseteq> waiters s"
    and "\<And>k. reserver (job_st s' k) = reserver (job_st s k) \<or> reserver (job_st s' k) = None \<or>
        (\<exists>c. reserver (job_st s' k) = Some c \<and> c < brk s)"
    and "\<And>k. special (r_state (job_st s' k)) = special (r_state (job_st s k)) \<or> k \<in> X \<and> r_state (job_st s' k) \<noteq> Copy"
  shows "moved X s s'"
  using assms by (simp add: moved_def)

lemma moved_core:
  assumes "oview s' = oview s" "wal s' = wal s" "waiters s' \<subseteq> waiters s" "\<And>k. core (job_st s' k) = core (job_st s k)"
  shows "moved X s s'"
  using assms coreD [OF assms(4)] by (intro movedI) (simp_all add: special_def)

lemma hash_ok_cong:
  assumes "hash_ok s" "oview s' = oview s"
    "\<And>k. k \<in> live_jobs s \<Longrightarrow> r_state (job_st s' k) = Copy \<longleftrightarrow> r_state (job_st s k) = Copy"
  shows "hash_ok s'"
proof -
  note o = oviewD [OF assms(2)]
  have i: "ids s' = ids s" by (simp add: fun_eq_iff o)
  show ?thesis using assms(1,3) unfolding hash_ok_def i o by auto
qed

lemma sok_move:
  assumes ok: "sok E X off s" and m: "moved X s s'" and q: "queue_ok X' off' s'" and so: "soonest_ok E s'"
    and X': "\<And>k. k \<in> X' \<Longrightarrow> k \<in> X \<or> special (r_state (job_st s k)) = None \<and> j_tube (job_st s k) \<noteq> None"
  shows "sok E X' off' s'"
proof -
  note o = oviewD [OF m [unfolded moved_def, THEN conjunct1]]
  note r = refs_okD [OF sokD(4) [OF ok]]
  have st: "special (r_state (job_st s' k)) = special (r_state (job_st s k)) \<or> k \<in> X \<and> r_state (job_st s' k) \<noteq> Copy" for k
    using m unfolding moved_def by blast
  have rs: "reserver (job_st s' k) = reserver (job_st s k) \<or> reserver (job_st s' k) = None \<or>
        (\<exists>c. reserver (job_st s' k) = Some c \<and> c < brk s)" for k
    using m unfolding moved_def by blast
  have cp: "r_state (job_st s' k) = Copy \<longleftrightarrow> r_state (job_st s k) = Copy" for k
    using st [of k] r(8) [of k] by (auto simp: special_def split: if_splits)
  have h: "hash_ok s'"
    using hash_ok_cong [OF sokD(3) [OF ok], of s'] m cp unfolding moved_def by blast
  have w: "waiters s' \<subseteq> waiters s" "wal s' = wal s" using m by (simp_all add: moved_def)
  have x': "r_state (job_st s' k) \<noteq> Copy \<and> j_tube (job_st s' k) \<noteq> None" if "k \<in> X'" for k
    using X' [OF that] r(8,9) [of k] cp [of k] o(2) [of k] by (auto simp: special_def split: if_splits)
  have "reserver (job_st s' j) = Some c \<Longrightarrow> c < brk s" if "j \<in> live_jobs s" for j c
    using rs [of j] r(2) [OF that, of c] by auto
  then have "refs_ok E X' s'"
    using r(1,3-7) w(1) x' unfolding refs_ok_def o by blast
  moreover have "j \<notin> X' \<and> r_state (job_st s' j) = Invalid" if "c \<notin> E" "in_job (conn_st s c) = Some j" for c j
  proof -
    have "j \<notin> X" "r_state (job_st s j) = Invalid" using sokD(5) [OF ok] that by (auto simp: uploads_ok_def)
    then show ?thesis using X' [of j] st [of j] by (auto simp: special_def split: if_splits)
  qed
  then have "uploads_ok E X' s'"
    using sokD(5) [OF ok] unfolding uploads_ok_def o by blast
  ultimately show ?thesis using q so h sokD(6) [OF ok] w(2) by (simp add: sok_def)
qed

lemma sok_cframe:
  assumes "sok E X off s" "cframe s s'"
  shows "sok E X off s'"
proof -
  have k: "kview s' = kview s" and o: "oview s' = oview s" and w: "waiters s' \<subseteq> waiters s" and so: "soonest_ok E s'"
    using assms sokD(2) [OF assms(1)] by (auto simp: cframe_def)
  have "moved X s s'" by (rule moved_core) (use kviewD [OF k] o w in simp_all)
  then show ?thesis
    by (rule sok_move [OF assms(1) _ queue_view [OF kview_qview [OF k] sokD(1) [OF assms(1)]] so]) simp
qed


section \<open>Single moves\<close>

subsection \<open>Frames of the moves\<close>

lemma waiters_setpos [simp]: "waiters (job_setpos j i s) = waiters s"
  by (simp add: job_setpos_def)

lemma waiters_heaps:
  "heapremove lt job_setpos h s k = (r, h', s') \<Longrightarrow> waiters s' = waiters s"
  "heapinsert lt job_setpos malloc h s c = (b, h', s') \<Longrightarrow> waiters s' = waiters s"
  using heapremove_frame [of waiters job_setpos lt h s k] heapinsert_frame [of waiters job_setpos malloc lt h s c] by simp_all

lemma view_heap_moves [simp]:
  "sview_conn (ready_remove j s) = sview_conn s" "sview_conn (delay_remove j s) = sview_conn s"
  "waiters (ready_remove j s) = waiters s" "waiters (delay_remove j s) = waiters s"
  by (simp_all add: ready_remove_def delay_remove_def Let_def case_prod_beta
      heapremove_frame [of sview_conn] heapremove_frame [of waiters])

lemma view_remove_ready:
  "remove_ready_job jp s = (r, s') \<Longrightarrow> sview_conn s' = sview_conn s"
  "remove_ready_job jp s = (r, s') \<Longrightarrow> waiters s' = waiters s"
  by (auto simp: remove_ready_job_def Let_def split: option.splits if_splits)

lemma view_place:
  "place_job j dly s = (b, s') \<Longrightarrow> sview_conn s' = sview_conn s"
  "place_job j dly s = (b, s') \<Longrightarrow> waiters s' = waiters s"
   apply (auto simp: place_job_def ready_insert_def delay_insert_def Let_def split: if_splits prod.splits bool.splits
      dest!: sview_heaps(2) sv.env_dest(3)) [1]
  apply (auto simp: place_job_def ready_insert_def delay_insert_def Let_def split: if_splits prod.splits bool.splits
      dest!: waiters_heaps(2) wv.env_dest(3))
  done

lemma waiters_bury [simp]: "waiters (bury_list j s) = waiters s"
  by (simp add: bury_list_def Let_def)

lemma waiters_list_remove: "list_remove j s = (b, s') \<Longrightarrow> waiters s' = waiters s"
  by (auto simp: list_remove_def split: prod.splits)

lemma waiters_removes:
  "remove_buried_job (Some j) s = (r, s') \<Longrightarrow> waiters s' = waiters s"
  "remove_this_reserved_job c j s = (r, s') \<Longrightarrow> waiters s' = waiters s"
proof -
  obtain b s1 where e: "list_remove j s = (b, s1)" by (rule prod.exhaust)
  note w = waiters_list_remove [OF e]
  have "waiters (snd (remove_buried_job (Some j) s)) = waiters s"
    "waiters (snd (remove_this_reserved_job c j s)) = waiters s"
    by (cases b; simp add: remove_buried_job_def remove_this_reserved_job_def e w Let_def)+
  then show "remove_buried_job (Some j) s = (r, s') \<Longrightarrow> waiters s' = waiters s"
    "remove_this_reserved_job c j s = (r, s') \<Longrightarrow> waiters s' = waiters s" by simp_all
qed

lemma soonest_bury: "soonest_ok E (bury_list j s) = soonest_ok E s"
  by (rule soonest_ok_view)
    (simp add: bury_list_def Let_def sview_conn_def jl_insert_def fun_eq_iff)

subsection \<open>Out of a queue\<close>

lemma sok_remove_ready:
  assumes ok: "sok E X off s" and j: "j \<in> live_jobs s" "j \<notin> X" "r_state (job_st s j) = Ready"
  obtains s' where "remove_ready_job (Some j) s = (Some j, s')" "sok E (insert j X) off s'"
    "\<And>k. core (job_st s' k) = core (job_st s k)"
proof -
  obtain s' where e: "remove_ready_job (Some j) s = (Some j, s')" "queue_ok (insert j X) off s'" "unchanged s s'"
    using remove_ready_ok [OF sokD(1) [OF ok] j] by metis
  have c: "core (job_st s' k) = core (job_st s k)" for k using e(3) by (simp add: unchanged_def)
  have t: "j_tube (job_st s j) \<noteq> None" using job_has_tube [OF sokD(1) [OF ok] j(1,2)] j(3) by auto
  have "moved X s s'"
    by (rule moved_core) (use e(3) c oview_removes(1) [OF e(1)] view_remove_ready(2) [OF e(1)] in \<open>simp_all add: unchanged_def\<close>)
  then have "sok E (insert j X) off s'"
    by (rule sok_move [OF ok _ e(2)])
      (use sokD(2) [OF ok] soonest_ok_view [OF view_remove_ready(1) [OF e(1)]] t j in \<open>auto simp: special_def\<close>)
  then show thesis using that e(1) c by blast
qed

lemma sok_remove_delayed:
  assumes ok: "sok E X off s" and j: "j \<in> live_jobs s" "j \<notin> X" "r_state (job_st s j) = Delayed"
  shows "sok E (insert j X) off (delay_remove j s)" "\<And>k. core (job_st (delay_remove j s) k) = core (job_st s k)"
proof -
  note e = remove_delayed_ok [OF sokD(1) [OF ok] j]
  show c: "core (job_st (delay_remove j s) k) = core (job_st s k)" for k using e(2) by (simp add: unchanged_def)
  have t: "j_tube (job_st s j) \<noteq> None" using job_has_tube [OF sokD(1) [OF ok] j(1,2)] j(3) by auto
  have "moved X s (delay_remove j s)"
    by (rule moved_core) (use e(2) c in \<open>simp_all add: unchanged_def\<close>)
  then show "sok E (insert j X) off (delay_remove j s)"
    by (rule sok_move [OF ok _ e(1)])
      (use sokD(2) [OF ok] soonest_ok_view [of "delay_remove j s" s] t j in \<open>auto simp: special_def\<close>)
qed

text \<open>The list a job is on.\<close>

lemma owner_of:
  assumes "queue_ok X off s" "j \<in> live_jobs s" "j \<notin> X" "home (job_st s j) = Some p" "list_of p = Some h"
  shows "jl_owner (lists s) j = Some h"
proof -
  have "j \<in> contents s p" using in_contents [OF queue_okD(1) [OF assms(1)] assms(2-4)] .
  then show ?thesis
    using places_okD(4) [OF queue_okD(1) [OF assms(1)]] contents_list [OF assms(5)] by (auto simp: jl_ok_def)
qed

lemma sok_remove_buried:
  assumes ok: "sok E X off s" and j: "j \<in> live_jobs s" "j \<notin> X" "r_state (job_st s j) = Buried"
  obtains s' where "remove_buried_job (Some j) s = (Some j, s')" "sok E (insert j X) off s'"
    "\<And>k. core (job_st s' k) = core (job_st s k)"
proof -
  obtain s' where e: "remove_buried_job (Some j) s = (Some j, s')" "queue_ok (insert j X) off s'" "unchanged s s'"
    using remove_buried_ok [OF sokD(1) [OF ok] j] by metis
  have c: "core (job_st s' k) = core (job_st s k)" for k using e(3) by (simp add: unchanged_def)
  obtain t where t: "j_tube (job_st s j) = Some t" using job_has_tube [OF sokD(1) [OF ok] j(1,2)] j(3) by auto
  have "jl_owner (lists s) j = Some (LBuried t)"
    by (rule owner_of [OF sokD(1) [OF ok] j(1,2)]) (use t j(3) in \<open>auto simp: home_def\<close>)
  then have "jl_items (lists s') (LReserved c) = jl_items (lists s) (LReserved c)" for c
    using e(1) j(3) by (auto simp: remove_buried_job_def list_remove_def jl_remove_def)
  then have so: "soonest_ok E s'"
    using e(3) by (intro soonest_ok_cong [OF sokD(2) [OF ok]]) (simp_all add: unchanged_def)
  have "moved X s s'"
    by (rule moved_core) (use e(3) c oview_removes(2) [OF e(1)] waiters_removes(1) [OF e(1)] in \<open>simp_all add: unchanged_def\<close>)
  then have "sok E (insert j X) off s'"
    by (rule sok_move [OF ok _ e(2) so]) (use t j in \<open>auto simp: special_def\<close>)
  then show thesis using that e(1) c by blast
qed

lemma sok_remove_reserved:
  assumes ok: "sok E X off s" and j: "j \<in> live_jobs s" "j \<notin> X" "r_state (job_st s j) = Reserved" "reserver (job_st s j) = Some c"
  obtains s' where "remove_this_reserved_job c j s = (Some j, s')" "sok E (insert j X) off s'"
    "\<And>k. core (job_st s' k) = (if k = j then core ((job_st s j)\<lparr>reserver := None\<rparr>) else core (job_st s k))"
proof -
  obtain s' where e: "remove_this_reserved_job c j s = (Some j, s')" "queue_ok (insert j X) off s'"
    "\<And>k. core (job_st s' k) = (if k = j then core ((job_st s j)\<lparr>reserver := None\<rparr>) else core (job_st s k))" "wal s' = wal s"
    using remove_reserved_ok [OF sokD(1) [OF ok] j(1-3), of c] by metis
  obtain t where t: "j_tube (job_st s j) = Some t" using job_has_tube [OF sokD(1) [OF ok] j(1,2)] j(3) by auto
  have ow: "jl_owner (lists s) j = Some (LReserved c)"
    by (rule owner_of [OF sokD(1) [OF ok] j(1,2)]) (use j(3,4) in \<open>auto simp: home_def\<close>)
  have so: "soonest_ok E s'"
    using sokD(2) [OF ok] e(1) ow
    by (auto simp: remove_this_reserved_job_def list_remove_def jl_remove_def soonest_ok_def Let_def)
  have rs: "reserver (job_st s' k) = (if k = j then None else reserver (job_st s k))"
    "r_state (job_st s' k) = r_state (job_st s k)" for k
    using coreD(4,6) [OF e(3) [of j, simplified]] coreD(4,6) [of "job_st s' k" "job_st s k"] e(3) [of k] by (auto split: if_splits)
  have "moved X s s'"
    by (rule movedI) (use e(4) oview_removes(4) [OF e(1)] waiters_removes(2) [OF e(1)] rs in simp_all)
  then have "sok E (insert j X) off s'"
    by (rule sok_move [OF ok _ e(2) so]) (use t j in \<open>auto simp: special_def\<close>)
  then show thesis using that e(1,3) by blast
qed


subsection \<open>In flight\<close>

lemma sok_inflight:
  assumes ok: "sok E X off s" and j: "j \<in> X" and f: "\<And>x. r_id (f x) = r_id x" "\<And>x. r_state (f x) = r_state x"
    "\<And>x. j_tube (f x) = j_tube x" "\<And>x. reserver (f x) \<in> {reserver x, None}"
  shows "sok E X off (upd_job j f s)"
proof -
  have "moved X s (upd_job j f s)"
    by (rule movedI) (use f in \<open>auto simp: oview_upd_job jbase_def\<close>)
  then show ?thesis
    by (rule sok_move [OF ok _ inflight_upd_ok [OF sokD(1) [OF ok] j f(1,2)]])
      (use soonest_ok_view [of "upd_job j f s" s] sokD(2) [OF ok] in auto)
qed

subsection \<open>Into a queue\<close>

lemma insert_core:
  "ready_insert j s = (b, s') \<Longrightarrow> core (job_st s' k) = core (job_st s k)"
  "delay_insert j s = (b, s') \<Longrightarrow> core (job_st s' k) = core (job_st s k)"
  using hviewD(7) [OF heapinsert_hview]
  by (auto simp: ready_insert_def delay_insert_def Let_def split: prod.splits)

lemma place_reserver:
  assumes "place_job j dly s = (b, s')"
  shows "reserver (job_st s' j) = None"
proof -
  obtain t s1 where n: "nanoseconds (upd_job j (\<lambda>x. x\<lparr>reserver := None\<rparr>) s) = (t, s1)" by (rule prod.exhaust)
  have s1: "job_st s1 = job_st (upd_job j (\<lambda>x. x\<lparr>reserver := None\<rparr>) s)"
    using nanoseconds_fields(2) [of "upd_job j (\<lambda>x. x\<lparr>reserver := None\<rparr>) s"] n by simp
  show ?thesis
    using assms
    by (auto simp: place_job_def Let_def n s1 split: if_splits prod.splits bool.splits
        dest!: insert_core(1) [where k = j, THEN coreD(6)] insert_core(2) [where k = j, THEN coreD(6)])
qed

lemma sok_place:
  assumes ok: "sok E X off s" and j: "j \<in> X" and e: "place_job j dly s = (b, s')"
  shows "sok E (if b then X - {j} else X) off s'"
    "r_state (job_st s' j) = (if b then if dly \<noteq> 0 then Delayed else Ready else r_state (job_st s j))" "placed j s s'"
proof -
  note r = refs_okD [OF sokD(4) [OF ok]]
  obtain t where t: "j_tube (job_st s j) = Some t" using r(9) [OF j] by blast
  note p = place_job_ok [OF sokD(1) [OF ok] j t r(8) [OF j] e]
  show "r_state (job_st s' j) = (if b then if dly \<noteq> 0 then Delayed else Ready else r_state (job_st s j))" "placed j s s'"
    using p(2,3) .
  have cr: "core (job_st s' k) = core (job_st s k)" if "k \<noteq> j" for k using p(3) that by (simp add: placed_def)
  have "moved X s s'"
  proof (rule movedI)
    show "reserver (job_st s' k) = reserver (job_st s k) \<or> reserver (job_st s' k) = None \<or>
        (\<exists>c. reserver (job_st s' k) = Some c \<and> c < brk s)" for k
      using coreD(6) [OF cr [of k]] place_reserver [OF e] by (cases "k = j") auto
    show "special (r_state (job_st s' k)) = special (r_state (job_st s k)) \<or> k \<in> X \<and> r_state (job_st s' k) \<noteq> Copy" for k
      using special_core [OF cr [of k]] p(2) r(8) [OF j] j by (cases "k = j") auto
  qed (use p(3) oview_place [OF e] view_place(2) [OF e] in \<open>simp_all add: placed_def\<close>)
  then show "sok E (if b then X - {j} else X) off s'"
    by (rule sok_move [OF ok _ p(1)]) (use sokD(2) [OF ok] soonest_ok_view [OF view_place(1) [OF e]] in \<open>auto split: if_splits\<close>)
qed

lemma sok_bury:
  assumes ok: "sok E X off s" and j: "j \<in> X"
  shows "sok E (X - {j}) off (bury_list j s)" "\<And>k. k \<noteq> j \<Longrightarrow> job_st (bury_list j s) k = job_st s k"
    "r_state (job_st (bury_list j s) j) = Buried"
proof -
  note r = refs_okD [OF sokD(4) [OF ok]]
  obtain t where t: "j_tube (job_st s j) = Some t" using r(9) [OF j] by blast
  note b = bury_list_ok [OF sokD(1) [OF ok] j t r(8) [OF j]]
  show "\<And>k. k \<noteq> j \<Longrightarrow> job_st (bury_list j s) k = job_st s k" "r_state (job_st (bury_list j s) j) = Buried"
    by (simp_all add: bury_list_def Let_def)
  have "moved X s (bury_list j s)"
    by (rule movedI, simp_all) (simp_all add: bury_list_def Let_def j)
  then show "sok E (X - {j}) off (bury_list j s)"
    by (rule sok_move [OF ok _ b(1)]) (use sokD(2) [OF ok] in \<open>auto simp: soonest_bury\<close>)
qed

text \<open>Into the list of a connection; the global counter has been incremented before.\<close>

lemma soonest_reserve:
  assumes "soonest_ok E s" "jl_owner (lists s) j = None"
  shows "soonest_ok E (conn_reserve_job c j s)"
proof -
  define s' where "s' = (let t = the (j_tube (job_st s j));
      s2 = upd_job j (\<lambda>x. x\<lparr>r_reserve_ct := r_reserve_ct x + 1\<rparr>)
             (upd_stat t (\<lambda>x. x\<lparr>reserved_ct := reserved_ct x + 1\<rparr>) s);
      s4 = upd_job j (\<lambda>x. x\<lparr>r_deadline_at := fst (nanoseconds s2) + r_ttr x, r_state := Reserved\<rparr>) (snd (nanoseconds s2))
    in upd_conn c (\<lambda>x. x\<lparr>pending_timeout := - 1\<rparr>) (upd_job j (\<lambda>x. x\<lparr>reserver := Some c\<rparr>) (list_insert (LReserved c) j s4)))"
  have e: "conn_reserve_job c j s = conn_set_soonestjob c j s'"
      "jl_items (lists s') = (jl_items (lists s))(LReserved c := jl_items (lists s) (LReserved c) @ [j])"
      "soonest_job (conn_st s' d) = soonest_job (conn_st s d)" for d
    using assms(2) by (simp_all add: conn_reserve_job_def s'_def Let_def case_prod_beta jl_insert_def)
  have "soonest_ok E s'" using assms(1) e(2,3) by (auto simp: soonest_ok_def)
  then show ?thesis using soonest_set_ok [of E s' j c] e(1,2) by simp
qed

lemma sok_reserve:
  assumes ok: "sok E X off s" and j: "j \<in> X" and c: "c < brk s"
    and s1: "cframe (upd_global (\<lambda>x. x\<lparr>reserved_ct := reserved_ct x + 1\<rparr>) s) s1"
  shows "sok E (X - {j}) off (conn_reserve_job c j s1)" "\<And>k. k \<noteq> j \<Longrightarrow> job_st (conn_reserve_job c j s1) k = job_st s k"
    "r_state (job_st (conn_reserve_job c j s1) j) = Reserved" "reserver (job_st (conn_reserve_job c j s1) j) = Some c"
    "moved X s (conn_reserve_job c j s1)"
proof -
  let ?g = "upd_global (\<lambda>x. x\<lparr>reserved_ct := reserved_ct x + 1\<rparr>) s" and ?s' = "conn_reserve_job c j s1"
  have f: "kview s1 = kview ?g" "oview s1 = oview s" "waiters s1 \<subseteq> waiters s"
    using s1 by (auto simp: cframe_def)
  note k = kviewD [OF f(1)]
  have so: "soonest_ok E s1" using s1 sokD(2) [OF ok] soonest_ok_view [of ?g s] by (auto simp: cframe_def)
  note r = refs_okD [OF sokD(4) [OF ok]]
  obtain t where t: "j_tube (job_st s j) = Some t" using r(9) [OF j] by blast
  note cr = conn_reserve_ok [OF sokD(1) [OF ok] j t r(8) [OF j] kview_qview [OF f(1)], where c = c]
  show jk: "\<And>k. k \<noteq> j \<Longrightarrow> job_st ?s' k = job_st s k" using cr(4) k(1) by simp
  show st: "r_state (job_st ?s' j) = Reserved" "reserver (job_st ?s' j) = Some c" using cr(2,3) by simp_all
  have wl: "wal ?s' = wal s" "waiters ?s' = waiters s1"
    using k(6) by (simp_all add: conn_reserve_job_def Let_def case_prod_beta)
  show m: "moved X s ?s'"
  proof (rule movedI)
    show "reserver (job_st ?s' k) = reserver (job_st s k) \<or> reserver (job_st ?s' k) = None \<or>
        (\<exists>c. reserver (job_st ?s' k) = Some c \<and> c < brk s)" for k
      using jk [of k] st(2) c by (cases "k = j") auto
    show "special (r_state (job_st ?s' k)) = special (r_state (job_st s k)) \<or> k \<in> X \<and> r_state (job_st ?s' k) \<noteq> Copy" for k
      using jk [of k] st(1) j by (cases "k = j") auto
  qed (use wl f in simp_all)
  have "jl_owner (lists s1) j = None" using owner_home [OF queue_okD(1) [OF sokD(1) [OF ok]] j] k(8) by simp
  then show "sok E (X - {j}) off ?s'"
    by (intro sok_move [OF ok m cr(1) soonest_reserve [OF so]]) auto
qed


section \<open>Handing out jobs\<close>

lemma take_waiters:
  assumes "ms_take None w () = (Some c, w', u)"
  shows "set (ms_items w') \<subseteq> set (ms_items w)" "c \<in> set (ms_items w)"
proof -
  have "ms_items w \<noteq> []" using assms by (auto simp: ms_take_def)
  note t = ms_take_cases(2) [OF assms this]
  show "c \<in> set (ms_items w)" using t by auto
  have "mset (ms_items w') = mset (ms_items w) - {#c#}" using t by auto
  then show "set (ms_items w') \<subseteq> set (ms_items w)" by (metis in_diffD set_mset_mset subsetI)
qed

lemma cframe_take:
  assumes "set (ms_items w) \<subseteq> set (ms_items (waiting_conns (tube_st s t)))"
  shows "cframe s (upd_tube t (\<lambda>x. x\<lparr>waiting_conns := w\<rparr>) s)"
  using assms waiters_set [of t "\<lambda>_. w" s] waiters_tube [of s t]
  by (auto simp: cframe_def soonest_upds(7))

lemma sok_process_one:
  assumes ok: "sok E X off s" and t: "eligible nw s t" and j: "j = root s t"
  shows "sok E X off (process_one j s)"
proof -
  note p = queue_okD(1) [OF sokD(1) [OF ok]]
  have hk: "jready.heap_ok (ready (tube_st s t)) s" using places_okD(7) [OF p, of "PReady t"] by simp
  have "j \<in> contents s (PReady t)"
    using t j hk by (auto simp: eligible_def heap_elems_def jready.heap_ok_def heap_wf_def in_set_conv_nth)
  then have "j \<in> at_home X s (PReady t)" using places_okD(8) [OF p] by blast
  then have jh: "j \<in> live_jobs s" "j \<notin> X" "r_state (job_st s j) = Ready" "j_tube (job_st s j) = Some t"
    by (auto simp: at_home_def home_def split: jstate.splits)
  obtain s1 where r: "remove_ready_job (Some j) s = (Some j, s1)" "sok E (insert j X) off s1" "\<And>k. core (job_st s1 k) = core (job_st s k)"
    using sok_remove_ready [OF ok jh(1-3)] by metis
  have t1: "j_tube (job_st s1 j) = Some t" using coreD(5) [OF r(3) [of j]] jh(4) by simp
  obtain co w u where tk: "ms_take None (waiting_conns (tube_st s1 t)) () = (co, w, u)" by (rule prod_cases3)
  define g :: "stats \<Rightarrow> stats" where "g = (\<lambda>x. x\<lparr>reserved_ct := reserved_ct x + 1\<rparr>)"
  have X: "insert j X - {j} = X" using jh(2) by auto
  show ?thesis
  proof (cases co)
    case None
    obtain s2 where r2: "remove_ready_job (Some j) s = (Some j, s2)" "unchanged s s2"
      using remove_ready_ok [OF sokD(1) [OF ok] jh(1-3)] by metis
    have "ms_items (waiting_conns (tube_st s1 t)) \<noteq> []" using t r(1) r2 by (simp add: eligible_def unchanged_def)
    then show ?thesis using tk None by (auto simp: ms_take_def Let_def split: prod.splits)
  next
    case (Some c)
    define s3 where "s3 = upd_global g (upd_tube t (\<lambda>x. x\<lparr>waiting_conns := w\<rparr>) s1)"
    have eq: "process_one j s = reply_job c j ''RESERVED'' (conn_reserve_job c j (remove_waiting_conn c s3))"
      using r(1) t1 tk Some by (simp add: process_one_def Let_def s3_def g_def)
    have s3': "s3 = upd_tube t (\<lambda>x. x\<lparr>waiting_conns := w\<rparr>) (upd_global g s1)"
      by (simp add: s3_def upd_global_def upd_tube_def)
    note tw = take_waiters [OF tk [unfolded Some]]
    have "cframe (upd_global g s1) s3" unfolding s3' by (rule cframe_take) (use tw in simp)
    then have cf: "cframe (upd_global g s1) (remove_waiting_conn c s3)" by (rule cframe_trans) simp
    have "c < brk s1" using refs_okD(3) [OF sokD(4) [OF r(2)]] waiters_tube [of s1 t] tw(2) by blast
    from sok_reserve(1) [OF r(2) insertI1 this cf [unfolded g_def]] X
    have "sok E X off (conn_reserve_job c j (remove_waiting_conn c s3))" by simp
    then show ?thesis unfolding eq by (rule sok_cframe) simp
  qed
qed

lemma sok_unpaused:
  assumes "sok E X off s" "unpaused nw s s'"
  shows "sok E X off s'"
proof -
  note u = unpausedD [OF assms(2)]
  have l: "lists s' = lists s" using u(4) by (rule qviewD(7))
  have "s' = s\<lparr>tube_st := tube_st s'\<rparr>" using assms(2) by (simp add: unpaused_def)
  then have "oview s' = oview (s\<lparr>tube_st := tube_st s'\<rparr>)" by (rule arg_cong)
  then have o: "oview s' = oview s" by (simp add: oview_def)
  have "moved X s s'"
    by (rule moved_core) (use u o in \<open>simp_all add: waiters_def\<close>)
  then show ?thesis
    by (rule sok_move [OF assms(1) _ queue_view [OF u(4) sokD(1) [OF assms(1)]]])
      (use sokD(2) [OF assms(1)] soonest_ok_view [of s' s] l u(3) in \<open>auto simp: sview_conn_def\<close>)
qed

lemma sok_process_loop: "sok E X off s \<Longrightarrow> sok E X off (process_loop n nw s)"
proof (induction n arbitrary: s)
  case (Suc n)
  obtain jo s1 where e: "next_awaited_job nw s = (jo, s1)" by (rule prod.exhaust)
  note na = next_awaited_ok [OF e]
  have ok1: "sok E X off s1" using sok_unpaused [OF Suc.prems na(1)] .
  show ?case
  proof (cases jo)
    case None
    then show ?thesis using e ok1 by simp
  next
    case (Some k)
    obtain t where t: "eligible nw s t" "k = root s t" using na(3) [OF Some] by blast
    then have "eligible nw s1 t" "k = root s1 t" using unpausedD(6,7) [OF na(1)] by simp_all
    then show ?thesis using Suc.IH [OF sok_process_one [OF ok1]] e Some by simp
  qed
qed simp

lemma sok_process_queue: "sok E X off s \<Longrightarrow> sok E X off (process_queue s)"
  unfolding process_queue_def
  by (simp del: process_loop.simps split: prod.split) (metis sok_process_loop sok_cframe cframe_env(3))

section \<open>Queueing and burying\<close>

lemma wal_off:
  assumes "\<not> wal_use (wal s)"
  shows "walwrite j s = (True, s)" "walmaint s = s" "reserve n s = (1, s)" "walresvupdate s = (1, s)" "walresvput j s = (1, s)"
  using assms by (simp_all add: walwrite_def walmaint_def reserve_def walresvupdate_def walresvput_def)

text \<open>What happened to the job and to the others; \<open>handed\<close> is the effect of \<open>process_queue\<close>.\<close>

lemma sok_enqueue:
  assumes ok: "sok E X off s" and j: "j \<in> X" and e: "enqueue_job j dly u s = (b, s')"
  shows "sok E (if b then X - {j} else X) off s'"
    "\<exists>s1. placed j s s1 \<and> (if b then handed (X - {j}) s1 s' \<and> r_state (job_st s1 j) = (if dly \<noteq> 0 then Delayed else Ready)
       else s' = s1 \<and> r_state (job_st s1 j) = r_state (job_st s j))"
proof -
  obtain c s1 where p: "place_job j dly s = (c, s1)" by (rule prod.exhaust)
  note pl = sok_place [OF ok j p]
  have w: "\<not> wal_use (wal s1)" using sokD(6) [OF ok] pl(3) by (simp add: placed_def)
  have b: "b = c" "s' = (if c then process_queue s1 else s1)"
    using e p by (cases c; simp add: enqueue_job_def wal_off [OF w] split: if_splits)+
  show "sok E (if b then X - {j} else X) off s'"
    using pl(1) sok_process_queue [of E "X - {j}" off s1] by (cases c) (simp_all add: b)
  show "\<exists>s1. placed j s s1 \<and> (if b then handed (X - {j}) s1 s' \<and> r_state (job_st s1 j) = (if dly \<noteq> 0 then Delayed else Ready)
       else s' = s1 \<and> r_state (job_st s1 j) = r_state (job_st s j))"
    using pl b process_queue_ok(2) [of "X - {j}" off s1] sokD(1) [of E "X - {j}" off s1]
    by (intro exI [of _ s1]) auto
qed

lemma sok_bury_job:
  assumes ok: "sok E X off s" and j: "j \<in> X"
  shows "fst (bury_job j u s)" "sok E (X - {j}) off (snd (bury_job j u s))" "r_state (job_st (snd (bury_job j u s)) j) = Buried"
    "\<And>k. k \<noteq> j \<Longrightarrow> core (job_st (snd (bury_job j u s)) k) = core (job_st s k)"
proof -
  define s1 where "s1 = (if u then upd_job j (\<lambda>x. x\<lparr>walresv := walresv x + 1\<rparr>) s else s)"
  have ok1: "sok E X off s1" using ok sok_inflight [OF ok j] by (simp add: s1_def)
  note b = sok_bury [OF ok1 j]
  have "bury_job j u s = (True, bury_list j s1)"
    using sokD(6) [OF ok] sokD(6) [OF b(1)] by (simp add: bury_job_def s1_def wal_off Let_def split: if_splits)
  then show "fst (bury_job j u s)" "sok E (X - {j}) off (snd (bury_job j u s))" "r_state (job_st (snd (bury_job j u s)) j) = Buried"
    "\<And>k. k \<noteq> j \<Longrightarrow> core (job_st (snd (bury_job j u s)) k) = core (job_st s k)"
    using b by (simp_all add: s1_def)
qed

end
