(* ===== verification/Bean_Alloc.thy ===== *)
theory Bean_Alloc
  imports Bean_Full
begin

text \<open>
  Allocation and release of jobs, tubes and connections, and the reference counts of tubes, under the
  invariant of the server.
\<close>

section \<open>Registries\<close>

text \<open>Changes that do not touch jobs or connections: names go out of the registry, waiting sets shrink.\<close>

definition rframe :: "server \<Rightarrow> server \<Rightarrow> bool" where
  "rframe s s' \<longleftrightarrow> qview s' = qview s \<and> job_st s' = job_st s \<and> jobhash s' = jobhash s \<and> next_id s' = next_id s \<and> wal s' = wal s \<and>
     conn_st s' = conn_st s \<and> live_conns s' = live_conns s \<and> default_tube s' = default_tube s \<and>
     waiters s' \<subseteq> waiters s \<and> set (ms_items (tubes s')) \<subseteq> set (ms_items (tubes s))"

lemma rframe_refl [simp]: "rframe s s"
  by (simp add: rframe_def)

lemma rframe_trans: "rframe s s1 \<Longrightarrow> rframe s1 s2 \<Longrightarrow> rframe s s2"
  by (auto simp: rframe_def)

lemma sok_rframe:
  assumes ok: "sok E X off s" and r: "rframe s s'"
  shows "sok E X off s'"
proof -
  have r': "qview s' = qview s" "jobhash s' = jobhash s" "next_id s' = next_id s" "wal s' = wal s" "conn_st s' = conn_st s"
    "live_conns s' = live_conns s" "default_tube s' = default_tube s" "waiters s' \<subseteq> waiters s"
    "set (ms_items (tubes s')) \<subseteq> set (ms_items (tubes s))"
    using r by (simp_all add: rframe_def)
  note v = qviewD [OF r'(1)] and c = coreD [OF qviewD(3) [OF r'(1)]]
  have "ids s' = ids s" by (simp add: fun_eq_iff c)
  then have "hash_ok s'" using sokD(3) [OF ok] by (simp add: hash_ok_def v(1) c r')
  moreover have "refs_ok E X s'"
    using sokD(4) [OF ok] subsetD [OF r'(8)] subsetD [OF r'(9)] unfolding refs_ok_def v(1,2) c r'(5-7) by blast
  moreover have "uploads_ok E X s'"
    using sokD(5) [OF ok] by (simp add: uploads_ok_def v(1) c r')
  moreover have "soonest_ok E s'" using sokD(2) [OF ok] by (simp add: soonest_ok_def r' v(7))
  ultimately show ?thesis
    using queue_view [OF r'(1) sokD(1) [OF ok]] sokD(6) [OF ok] r'(4) by (simp add: sok_def)
qed

lemma rframe_tube:
  assumes "\<And>x. tview (f x) = tview x" "\<And>x. set (ms_items (waiting_conns (f x))) \<subseteq> set (ms_items (waiting_conns x))"
  shows "rframe s (upd_tube t f s)"
proof -
  have "waiters (upd_tube t f s) \<subseteq> waiters s"
    using assms(2) [of "tube_st s t"] by (fastforce simp: waiters_def split: if_splits)
  then show ?thesis by (simp add: rframe_def qview_upd_tube assms(1)) (simp add: upd_tube_def)
qed

lemma rframe_tube_free: "rframe s (tube_free t s)"
proof -
  obtain b ts u where e: "ms_remove None (tubes s) () t = (b, ts, u)" by (rule prod_cases3)
  have "set_mset (mset (ms_items ts)) \<subseteq> set_mset (mset (ms_items (tubes s)))"
    using ms_remove_items(2) [OF e] by (auto dest: in_diffD)
  then have a: "rframe s (s\<lparr>tubes := ts\<rparr>)" by (auto simp: rframe_def waiters_def)
  have b: "rframe (s\<lparr>tubes := ts\<rparr>) (upd_tube t (\<lambda>x. x\<lparr>waiting_conns := fst (ms_clear None (waiting_conns x) ())\<rparr>) (s\<lparr>tubes := ts\<rparr>))"
    by (rule rframe_tube) (simp_all add: tview_def ms_clear_def ms_init_def case_prod_beta)
  show ?thesis
    using rframe_trans [OF a b] by (simp add: tube_free_def e Let_def rframe_def) (simp add: waiters_def)
qed

lemma rframe_refs [simp]: "rframe s (tube_iref tp s)" "rframe s (tube_dref tp s)"
proof -
  have u: "rframe s (upd_tube t (\<lambda>x. x\<lparr>refs := f x\<rparr>) s)" for t f
    by (rule rframe_tube) (simp_all add: tview_def)
  show "rframe s (tube_iref tp s)" "rframe s (tube_dref tp s)"
    using u rframe_trans [OF u rframe_tube_free] by (auto simp: tube_iref_def tube_dref_def Let_def split: option.split)
qed

lemma rframe_counts [simp]:
  "rframe s (upd_tube t (\<lambda>x. x\<lparr>using_ct := f x\<rparr>) s)" "rframe s (upd_tube t (\<lambda>x. x\<lparr>watching_ct := f x\<rparr>) s)"
  "rframe s (upd_tube t (\<lambda>x. x\<lparr>unpause_at := n, pause := m\<rparr>) s)" "rframe s (upd_tube t (\<lambda>x. x\<lparr>pause := m\<rparr>) s)"
  by (rule rframe_tube, simp_all add: tview_def)+

lemma rframe_stat:
  assumes "\<And>x. sview (f x) = sview x"
  shows "rframe s (upd_stat t f s)"
  unfolding upd_stat_def by (rule rframe_tube) (simp_all add: tview_def assms)

lemma rframe_global:
  assumes "\<And>x. sview (f x) = sview x"
  shows "rframe s (upd_global f s)"
  by (simp add: rframe_def qview_def assms) (simp add: upd_global_def)

lemma rframe_watch [simp]: "rframe s (on_watch t i s)" "rframe s (on_ignore t i s)"
  by (auto simp: on_watch_def on_ignore_def intro: rframe_trans [OF rframe_refs(1) rframe_counts(2)]
      rframe_trans [OF rframe_counts(2) rframe_refs(2)])

section \<open>Jobs come and go\<close>

text \<open>
  When jobs in a special state are allocated or freed, and all containers hold what they held, the
  queues are still well formed.
\<close>

lemma special_home: "special (r_state x) \<noteq> None \<Longrightarrow> home x = None"
  by (auto simp: special_def home_def split: if_splits)

lemma special_preds:
  assumes "special (r_state x) \<noteq> None"
  shows "\<not> is_ready x" "\<not> is_urgent x" "\<not> is_buried x" "\<not> is_reserved x"
  using assms by (auto simp: special_def pred_defs split: if_splits)

lemma queue_live:
  assumes q: "queue_ok X off s"
    and fin: "finite (live_jobs s')" "\<And>j. j \<in> live_jobs s' \<Longrightarrow> j < brk s'" "X \<subseteq> live_jobs s'"
    and jl: "jl_ok (lists s')" "jl_items (lists s') LReplay = []"
    and inj: "inj_on (ids s') {j \<in> live_jobs s'. r_state (job_st s' j) \<noteq> Copy}"
    and p: "\<And>p. hok s' p" "\<And>p. contents s' p = contents s p"
    and old: "\<And>k. k \<in> live_jobs s \<Longrightarrow> k \<in> live_jobs s' \<Longrightarrow> core (job_st s' k) = core (job_st s k)"
    and gone: "\<And>k. k \<in> live_jobs s \<Longrightarrow> k \<notin> live_jobs s' \<Longrightarrow> special (r_state (job_st s k)) \<noteq> None"
    and new: "\<And>k. k \<in> live_jobs s' \<Longrightarrow> k \<notin> live_jobs s \<Longrightarrow> special (r_state (job_st s' k)) \<noteq> None"
    and ctr: "ready_ct s' = ready_ct s" "sview (global_stat s') = sview (global_stat s)"
      "\<And>t. sview (stat (tube_st s' t)) = sview (stat (tube_st s t))"
  shows "queue_ok X off s'"
proof -
  note pl = queue_okD(1) [OF q] and ct = queue_okD(2) [OF q]
  have hm: "home (job_st s' k) = home (job_st s k)" if "k \<in> live_jobs s" "k \<in> live_jobs s'" for k
    using home_core [OF old [OF that]] .
  have ah: "at_home X s' q = at_home X s q" for q
    using hm special_home new gone unfolding at_home_def by (auto; metis option.distinct(1))
  have sp: "special (r_state (job_st s' k)) = None \<Longrightarrow> k \<in> live_jobs s' \<Longrightarrow> k \<in> live_jobs s" for k
    using new by blast
  have "home (job_st s' j) \<noteq> None \<and> j_tube (job_st s' j) \<noteq> None"
    if "j \<in> live_jobs s'" "j \<notin> X" "r_state (job_st s' j) \<in> {Ready, Delayed, Buried, Reserved}" for j
  proof -
    have l: "j \<in> live_jobs s" using sp [OF _ that(1)] that(3) by (auto simp: special_def)
    have "r_state (job_st s j) \<in> {Ready, Delayed, Buried, Reserved}" "j_tube (job_st s' j) = j_tube (job_st s j)"
      using that(3) coreD [OF old [OF l that(1)]] by auto
    then show ?thesis using places_okD(9) [OF pl l that(2)] hm [OF l that(1)] by simp
  qed
  then have "places_ok X s'"
    unfolding places_ok_def using fin jl inj p ah places_okD(8) [OF pl] by blast
  moreover have n: "num X s' P = num X s P"
    if P: "of_core P" "\<And>x. P x \<Longrightarrow> special (r_state x) = None" for P
  proof -
    have "{j \<in> live_jobs s' - X. P (job_st s' j)} = {j \<in> live_jobs s - X. P (job_st s j)}"
      using P(2) new gone P(1) [unfolded of_core_def] old by blast
    then show ?thesis by (simp add: num_def)
  qed
  have nn: "num X s' is_ready = num X s is_ready" "num X s' is_urgent = num X s is_urgent"
    "num X s' is_buried = num X s is_buried" "num X s' is_reserved = num X s is_reserved"
    "num X s' (in_tube is_urgent t) = num X s (in_tube is_urgent t)"
    "num X s' (in_tube is_buried t) = num X s (in_tube is_buried t)"
    "num X s' (in_tube is_reserved t) = num X s (in_tube is_reserved t)" for t
    by (rule n; use special_preds in \<open>auto simp: special_def\<close>)+
  have "counts_ok X off s'"
    using ct ctr(1,2) ctr(3) unfolding counts_ok_def nn by (simp add: sview_def)
  ultimately show ?thesis by (simp add: queue_ok_def)
qed


text \<open>The fields of a state that differs in \<open>allocs\<close> only.\<close>

lemma malloc_fields:
  assumes "s' = s \<or> s' = snd (malloc s)"
  shows "job_st s' = job_st s" "live_jobs s' = live_jobs s" "brk s' = brk s" "tube_st s' = tube_st s" "conn_st s' = conn_st s"
    "lists s' = lists s" "ready_ct s' = ready_ct s" "global_stat s' = global_stat s" "next_id s' = next_id s" "wal s' = wal s"
    "tubes s' = tubes s" "live_conns s' = live_conns s" "default_tube s' = default_tube s" "jobhash s' = jobhash s"
    "live_tubes s' = live_tubes s"
  using assms malloc_cases [of s] by auto

lemma job_free_eq:
  assumes st: "r_state (job_st s j) = Copy \<or> ht_ok (ids s) (jobhash s)"
  obtains s1 s3 h where "rframe s s1" "s3 = s1 \<or> s3 = snd (malloc s1)"
    "job_free (Some j) s = s3\<lparr>job_st := (job_st s)(j := (job_st s j)\<lparr>j_tube := None\<rparr>), jobhash := h, live_jobs := live_jobs s - {j}\<rparr>"
    "r_state (job_st s j) = Copy \<Longrightarrow> h = jobhash s"
    "r_state (job_st s j) \<noteq> Copy \<Longrightarrow> ht_ok (ids s) h \<and> ht_set h = ht_set (jobhash s) - {j} \<and> (ht_load (jobhash s) \<longrightarrow> ht_load h) \<and>
       all_jobs_used h \<le> all_jobs_used (jobhash s)"
proof -
  define s1 where "s1 = tube_dref (j_tube (job_st s j)) s"
  define f where "f = (\<lambda>t :: server. t\<lparr>job_st := (job_st s)(j := (job_st s j)\<lparr>j_tube := None\<rparr>)\<rparr>)"
  have r: "rframe s s1" by (simp add: s1_def)
  have v: "job_st s1 = job_st s" "jobhash s1 = jobhash s" "live_jobs s1 = live_jobs s"
    using r qviewD(1) [of s1 s] by (simp_all add: rframe_def)
  have f1: "tube_iref None (upd_job j (\<lambda>x. x\<lparr>j_tube := None\<rparr>) s1) = f s1"
    by (simp add: tube_iref_def upd_job_def f_def v)
  have mf: "snd (malloc (f s1)) = f (snd (malloc s1))" by (simp add: malloc_def f_def split: list.split)
  show thesis
  proof (cases "r_state (job_st s j) = Copy")
    case True
    have "job_free (Some j) s = s1\<lparr>job_st := (job_st s)(j := (job_st s j)\<lparr>j_tube := None\<rparr>), jobhash := jobhash s, live_jobs := live_jobs s - {j}\<rparr>"
      using True v f1 by (simp add: job_free_def Let_def s1_def [symmetric]) (simp add: f_def)
    then show thesis using that [OF r, of s1 "jobhash s"] True by simp
  next
    case False
    obtain h t where e: "job_hash_free (ids (f s1)) malloc j (jobhash (f s1), f s1) = (h, t)" by (rule prod.exhaust)
    have i: "ids (f s1) = ids s" "jobhash (f s1) = jobhash s" using v by (simp_all add: f_def fun_eq_iff)
    have ok: "ht_ok (ids s) (jobhash s)" using st False by blast
    note hf = job_hash_free_ok [OF ok e [unfolded i]]
    obtain s3 where s3: "s3 = s1 \<or> s3 = snd (malloc s1)" "t = f s3" using hf(3) mf by auto
    have "job_free (Some j) s = s3\<lparr>job_st := (job_st s)(j := (job_st s j)\<lparr>j_tube := None\<rparr>), jobhash := h, live_jobs := live_jobs s - {j}\<rparr>"
      using False v f1 e malloc_fields(2) [OF s3(1)]
      by (simp add: job_free_def Let_def s1_def [symmetric] hash_free_def s3(2)) (simp add: f_def v)
    then show thesis using that [OF r s3(1)] False hf by blast
  qed
qed


text \<open>Containers and heaps that a change of the special jobs leaves alone.\<close>

lemma hok_other:
  assumes ok: "queue_ok X off s" and t: "\<And>t. ready (tube_st s' t) = ready (tube_st s t)" "\<And>t. delay (tube_st s' t) = delay (tube_st s t)"
    and j: "\<And>k. k \<in> live_jobs s \<Longrightarrow> special (r_state (job_st s k)) = None \<Longrightarrow> job_st s' k = job_st s k"
    and l: "jl_items (lists s') = jl_items (lists s)"
  shows "hok s' p" "contents s' p = contents s p"
proof -
  show "contents s' p = contents s p" by (rule contents_cong) (simp_all add: t l)
  have m: "job_st s' k = job_st s k" if "k \<in> contents s p" for k
  proof -
    have "k \<in> live_jobs s" "home (job_st s k) = Some p"
      using that places_okD(8) [OF queue_okD(1) [OF ok], of p] by (auto simp: at_home_def)
    then show ?thesis using special_home [of "job_st s k"] j by (cases "special (r_state (job_st s k))") auto
  qed
  show "hok s' p" by (rule hok_cong [OF places_okD(7) [OF queue_okD(1) [OF ok], of p]]) (simp_all add: t m)
qed

lemma sok_job_free:
  assumes ok: "sok E X off s" and j: "j \<notin> X" and st: "r_state (job_st s j) = Copy \<or> r_state (job_st s j) = Invalid \<and> j \<in> live_jobs s"
    and up: "\<And>c. c \<notin> E \<Longrightarrow> in_job (conn_st s c) \<noteq> Some j"
  shows "sok E X off (job_free (Some j) s)" "conn_st (job_free (Some j) s) = conn_st s"
    "\<And>k. k \<noteq> j \<Longrightarrow> job_st (job_free (Some j) s) k = job_st s k" "live_jobs (job_free (Some j) s) = live_jobs s - {j}"
proof -
  let ?s' = "job_free (Some j) s"
  have hk: "ht_ok (ids s) (jobhash s)" "ht_load (jobhash s)"
    "ht_set (jobhash s) = {j \<in> live_jobs s. r_state (job_st s j) \<noteq> Copy}" using sokD(3) [OF ok] by (simp_all add: hash_ok_def)
  obtain s1 s3 h where e: "rframe s s1" "s3 = s1 \<or> s3 = snd (malloc s1)"
    "?s' = s3\<lparr>job_st := (job_st s)(j := (job_st s j)\<lparr>j_tube := None\<rparr>), jobhash := h, live_jobs := live_jobs s - {j}\<rparr>"
    "r_state (job_st s j) = Copy \<Longrightarrow> h = jobhash s"
    "r_state (job_st s j) \<noteq> Copy \<Longrightarrow> ht_ok (ids s) h \<and> ht_set h = ht_set (jobhash s) - {j} \<and> (ht_load (jobhash s) \<longrightarrow> ht_load h)"
    by (rule job_free_eq [OF disjI2 [OF hk(1)], of j]) blast
  have ok1: "sok E X off s1" by (rule sok_rframe [OF ok e(1)])
  have r: "job_st s1 = job_st s" "live_jobs s1 = live_jobs s" "conn_st s1 = conn_st s" "next_id s1 = next_id s"
    using e(1) qviewD(1) [of s1 s] by (simp_all add: rframe_def)
  note m = malloc_fields [OF e(2)]
  have f: "job_st ?s' = (job_st s)(j := (job_st s j)\<lparr>j_tube := None\<rparr>)" "jobhash ?s' = h" "live_jobs ?s' = live_jobs s - {j}"
    "conn_st ?s' = conn_st s" "brk ?s' = brk s1" "tube_st ?s' = tube_st s1" "lists ?s' = lists s1" "ready_ct ?s' = ready_ct s1"
    "global_stat ?s' = global_stat s1" "next_id ?s' = next_id s1" "wal ?s' = wal s1" "tubes ?s' = tubes s1"
    "live_conns ?s' = live_conns s1" "default_tube ?s' = default_tube s1"
    unfolding e(3) using m r by simp_all
  have w: "waiters ?s' = waiters s1" by (simp add: waiters_def f)
  show "conn_st ?s' = conn_st s" "\<And>k. k \<noteq> j \<Longrightarrow> job_st ?s' k = job_st s k" "live_jobs ?s' = live_jobs s - {j}"
    by (simp_all add: f)
  have sp: "special (r_state (job_st s j)) \<noteq> None" using st by (auto simp: special_def)
  note q = sokD(1) [OF ok1] and pl = queue_okD(1) [OF sokD(1) [OF ok1]]
  have "queue_ok X off ?s'"
  proof (rule queue_live [OF q])
    show "inj_on (ids ?s') {k \<in> live_jobs ?s'. r_state (job_st ?s' k) \<noteq> Copy}"
      using places_okD(6) [OF pl] by (auto simp: inj_on_def f r split: if_splits)
    show "hok ?s' p" "contents ?s' p = contents s1 p" for p
      by (rule hok_other [OF q]; use sp r in \<open>auto simp: f\<close>)+
    show "core (job_st ?s' k) = core (job_st s1 k)" if "k \<in> live_jobs s1" "k \<in> live_jobs ?s'" for k
      using that by (simp add: f r)
    show "special (r_state (job_st s1 k)) \<noteq> None" if "k \<in> live_jobs s1" "k \<notin> live_jobs ?s'" for k
      using that sp by (simp add: f r)
  qed (use places_okD(1-5) [OF pl] r j in \<open>auto simp: f\<close>)
  moreover have "hash_ok ?s'"
  proof -
    have i: "ids ?s' = ids s" by (simp add: f fun_eq_iff)
    have "ht_ok (ids s) h" "ht_load h" "ht_set h = {k \<in> live_jobs s - {j}. r_state (job_st s k) \<noteq> Copy}"
      using e(4,5) hk by (cases "r_state (job_st s j) = Copy"; auto)+
    then show ?thesis using sokD(3) [OF ok] unfolding hash_ok_def i by (auto simp: f r)
  qed
  moreover have "refs_ok E X ?s'"
  proof -
    have "\<And>k. k \<in> X \<Longrightarrow> k \<noteq> j" using j by blast
    then show ?thesis using sokD(4) [OF ok1] unfolding refs_ok_def w by (auto simp: f r)
  qed
  moreover have "uploads_ok E X ?s'"
    using sokD(5) [OF ok] up unfolding uploads_ok_def by (auto simp: f)
  moreover have "soonest_ok E ?s'" using sokD(2) [OF ok1] by (simp add: soonest_ok_def f r)
  ultimately show "sok E X off ?s'" using sokD(6) [OF ok1] f by (simp add: sok_def)
qed


section \<open>New jobs\<close>

lemma fresh_lists:
  assumes "queue_ok X off s"
  shows "brk s \<notin> set (jl_items (lists s) h)" "brk s \<notin> live_jobs s"
proof -
  note pl = queue_okD(1) [OF assms]
  show n: "brk s \<notin> live_jobs s" using places_okD(3) [OF pl, of "brk s"] by auto
  show "brk s \<notin> set (jl_items (lists s) h)"
    using places_okD(8) [OF pl, of "PBuried t" for t] places_okD(8) [OF pl, of "PReserved c" for c] places_okD(5) [OF pl] n
    by (cases h) (auto simp: at_home_def)
qed

lemma sok_new_job:
  assumes ok: "sok E X off s" and hash: "hash_ok s'"
    and f: "\<And>k. k \<noteq> brk s \<Longrightarrow> job_st s' k = job_st s k" "live_jobs s' = insert (brk s) (live_jobs s)" "brk s' = Suc (brk s)"
      "lists s' = jl_reset (lists s) (brk s)" "\<And>t. tview (tube_st s' t) = tview (tube_st s t)" "ready_ct s' = ready_ct s"
      "sview (global_stat s') = sview (global_stat s)"
    and c: "\<And>c. c_use (conn_st s' c) = c_use (conn_st s c)" "\<And>c. in_job (conn_st s' c) = in_job (conn_st s c)"
      "\<And>c. soonest_job (conn_st s' c) = soonest_job (conn_st s c)"
    and g: "waiters s' \<subseteq> waiters s" "set (ms_items (tubes s')) \<subseteq> set (ms_items (tubes s))" "live_conns s' = live_conns s"
      "default_tube s' = default_tube s" "wal s' = wal s"
    and x: "special (r_state (job_st s' (brk s))) \<noteq> None" "\<And>t. j_tube (job_st s' (brk s)) = Some t \<Longrightarrow> t < brk s"
      "\<And>d. reserver (job_st s' (brk s)) = Some d \<Longrightarrow> d < brk s"
  shows "sok E X off s'"
proof -
  note q = sokD(1) [OF ok] and pl = queue_okD(1) [OF sokD(1) [OF ok]]
  note fr = fresh_lists [OF q]
  have tv: "ready (tube_st s' t) = ready (tube_st s t)" "delay (tube_st s' t) = delay (tube_st s t)"
    "sview (stat (tube_st s' t)) = sview (stat (tube_st s t))" for t
    using f(5) [of t] by (simp_all add: tview_def)
  have jk: "job_st s' k = job_st s k" if "k \<in> live_jobs s" for k
    using f(1) [of k] fr(2) that by blast
  have jl: "jl_items (lists s') = jl_items (lists s)" by (simp add: f(4) jl_reset_def)
  have hk: "ht_ok (ids s') (jobhash s')" "ht_set (jobhash s') = {j \<in> live_jobs s'. r_state (job_st s' j) \<noteq> Copy}"
    using hash by (simp_all add: hash_ok_def)
  have "queue_ok X off s'"
  proof (rule queue_live [OF q])
    show "inj_on (ids s') {k \<in> live_jobs s'. r_state (job_st s' k) \<noteq> Copy}"
      using ht_unique [OF hk(1)] hk(2) by (auto intro!: inj_onI)
    show "hok s' p" "contents s' p = contents s p" for p
      using hok_other [OF q, of s' p] tv jk jl by blast+
    show "jl_ok (lists s')" using places_okD(4) [OF pl] fr(1) by (auto simp: jl_ok_def f jl_reset_def)
    show "core (job_st s' k) = core (job_st s k)" if "k \<in> live_jobs s" "k \<in> live_jobs s'" for k
      using jk [OF that(1)] by simp
    show "special (r_state (job_st s k)) \<noteq> None" if "k \<in> live_jobs s" "k \<notin> live_jobs s'" for k
      using that by (simp add: f)
    show "special (r_state (job_st s' k)) \<noteq> None" if "k \<in> live_jobs s'" "k \<notin> live_jobs s" for k
      using that x(1) by (auto simp: f)
  qed (use places_okD(1-3,5) [OF pl] tv f in \<open>auto simp: jl_reset_def less_Suc_eq\<close>)
  moreover have "refs_ok E X s'"
  proof -
    note r = refs_okD [OF sokD(4) [OF ok]]
    have b: "t < brk s \<Longrightarrow> t < brk s'" for t by (simp add: f)
    have j: "(\<forall>t. j_tube (job_st s' k) = Some t \<longrightarrow> t < brk s') \<and> (\<forall>d. reserver (job_st s' k) = Some d \<longrightarrow> d < brk s')"
      if "k \<in> live_jobs s'" for k
      using that x(2,3) r(1,2) [of k] f(1) [of k] b by (cases "k = brk s") (auto simp: f(2))
    have X: "r_state (job_st s' k) \<noteq> Copy \<and> j_tube (job_st s' k) \<noteq> None" if "k \<in> X" for k
      using r(8,9) [OF that] f(1) [of k] places_okD(2) [OF pl] fr(2) that by (cases "k = brk s") auto
    show ?thesis
      unfolding refs_ok_def c(1) g(3,4)
      using j X r(3-7) subsetD [OF g(1)] subsetD [OF g(2)] b by blast
  qed
  moreover have "uploads_ok E X s'"
    using sokD(5) [OF ok] fr(2) f(1) unfolding uploads_ok_def c(2) f(2)
    by (metis insert_iff)
  moreover have "soonest_ok E s'"
    using sokD(2) [OF ok] by (simp add: soonest_ok_def c f jl_reset_def)
  ultimately show ?thesis using hash sokD(6) [OF ok] g(5) by (simp add: sok_def)
qed


section \<open>What the invariant depends on\<close>

lemma sok_cong:
  assumes ok: "sok E X off s" and q: "qview s' = qview s" and h: "jobhash s' = jobhash s" "next_id s' = next_id s"
    and w: "wal s' = wal s" and wt: "\<And>c. c \<in> waiters s' \<Longrightarrow> c < brk s" "\<And>t. t \<in> set (ms_items (tubes s')) \<Longrightarrow> t < brk s"
    and c: "\<And>c. c \<notin> E' \<Longrightarrow> c \<notin> E \<and> soonest_job (conn_st s' c) \<in> {soonest_job (conn_st s c), None}"
      "\<And>c. c \<notin> E' \<Longrightarrow> in_job (conn_st s' c) \<in> {in_job (conn_st s c), None}"
      "\<And>c. c \<in> live_conns s' \<Longrightarrow> c \<in> live_conns s \<and> (c \<notin> E' \<longrightarrow> (\<exists>t. c_use (conn_st s' c) = Some t \<and> t < brk s))"
    and d: "default_tube s' = default_tube s"
  shows "sok E' X off s'"
proof -
  note v = qviewD [OF q] and k = coreD [OF qviewD(3) [OF q]]
  have "ids s' = ids s" by (simp add: fun_eq_iff k)
  then have "hash_ok s'" using sokD(3) [OF ok] by (simp add: hash_ok_def v(1) k h)
  moreover have "refs_ok E' X s'"
    unfolding refs_ok_def v(1,2) k d using refs_okD [OF sokD(4) [OF ok]] wt c(3) by blast
  moreover have "uploads_ok E' X s'"
    unfolding uploads_ok_def v(1) k
    using sokD(5) [OF ok, unfolded uploads_ok_def] c by (metis insertE option.distinct(1) singletonD)
  moreover have "soonest_ok E' s'"
    unfolding soonest_ok_def v(7)
    using sokD(2) [OF ok, unfolded soonest_ok_def] c(1) by (metis insertE option.distinct(1) singletonD)
  ultimately show ?thesis
    using queue_view [OF q sokD(1) [OF ok]] sokD(6) [OF ok] w by (simp add: sok_def)
qed

text \<open>Changes of one connection.\<close>

lemma sok_upd_conn:
  assumes "sok E X off s"
    "soonest_job (f (conn_st s c)) \<in> {soonest_job (conn_st s c), None}" "in_job (f (conn_st s c)) \<in> {in_job (conn_st s c), None}"
    "c_use (f (conn_st s c)) = c_use (conn_st s c) \<or> (\<exists>t. c_use (f (conn_st s c)) = Some t \<and> t < brk s)"
  shows "sok E X off (upd_conn c f s)"
proof (rule sok_cong [OF assms(1)])
  note r = refs_okD [OF sokD(4) [OF assms(1)]]
  show "d \<in> live_conns s \<and> (d \<notin> E \<longrightarrow> (\<exists>t. c_use (conn_st (upd_conn c f s) d) = Some t \<and> t < brk s))"
    if "d \<in> live_conns (upd_conn c f s)" for d
    using that r(6) [of d] assms(4) by (auto simp: upd_conn_def)
qed (use refs_okD [OF sokD(4) [OF assms(1)]] assms(2,3) in \<open>auto simp: qview_def upd_conn_def waiters_def\<close>)

lemma sok_close:
  assumes "sok E X off s"
  shows "sok (insert c E) X off s"
  by (rule sok_cong [OF assms]) (use refs_okD [OF sokD(4) [OF assms]] in auto)

text \<open>Connections in \<open>E\<close> are free to change.\<close>

lemma sok_upd_closing:
  assumes "sok E X off s" "c \<in> E"
  shows "sok E X off (upd_conn c f s)"
  by (rule sok_cong [OF assms(1)])
    (use refs_okD [OF sokD(4) [OF assms(1)]] assms(2) in \<open>auto simp: qview_def upd_conn_def waiters_def\<close>)

lemma sok_closed:
  assumes "sok (insert c E) X off s" "c \<notin> E" "soonest_job (conn_st s c) = None" "in_job (conn_st s c) = None"
  shows "sok E X off (s\<lparr>live_conns := live_conns s - {c}\<rparr>)"
proof -
  note r = refs_okD [OF sokD(4) [OF assms(1)]]
  have r': "refs_ok E X (s\<lparr>live_conns := live_conns s - {c}\<rparr>)"
    using r unfolding refs_ok_def by (auto simp: waiters_def)
  have h: "hash_ok (s\<lparr>live_conns := live_conns s - {c}\<rparr>)" using sokD(3) [OF assms(1)] by (simp add: hash_ok_def)
  have "uploads_ok E X (s\<lparr>live_conns := live_conns s - {c}\<rparr>)"
    using sokD(5) [OF assms(1)] assms(4) unfolding uploads_ok_def by (auto; metis option.distinct(1))
  moreover have "soonest_ok E (s\<lparr>live_conns := live_conns s - {c}\<rparr>)"
    using sokD(2) [OF assms(1)] assms(3) unfolding soonest_ok_def by (auto; metis option.distinct(1))
  ultimately show ?thesis
    using queue_view [of "s\<lparr>live_conns := live_conns s - {c}\<rparr>" s, OF _ sokD(1) [OF assms(1)]] sokD(6) [OF assms(1)] r' h
    by (simp add: sok_def qview_def)
qed

end
