(* ===== verification/Bean_New.thy ===== *)
theory Bean_New
  imports Bean_Alloc
begin

text \<open>
  New tubes, connections, jobs and copies of jobs under the invariant of the server.
\<close>

section \<open>Fresh addresses\<close>

text \<open>Nothing refers to the address that is allocated next.\<close>

lemma fresh_home:
  assumes ok: "sok E X off s" and j: "j \<in> live_jobs s"
  shows "home (job_st s j) \<noteq> Some (PReady (brk s))" "home (job_st s j) \<noteq> Some (PDelay (brk s))"
    "home (job_st s j) \<noteq> Some (PBuried (brk s))" "home (job_st s j) \<noteq> Some (PReserved (brk s))"
  using refs_okD(1,2) [OF sokD(4) [OF ok] j, of "brk s"] by (auto simp: home_def split: jstate.splits)

lemma fresh_places:
  assumes ok: "sok E X [] s"
  shows "contents s (PReady (brk s)) = {}" "contents s (PDelay (brk s)) = {}"
    "jl_items (lists s) (LBuried (brk s)) = []" "jl_items (lists s) (LReserved (brk s)) = []"
    "sview (stat (tube_st s (brk s))) = (0, 0, 0)"
proof -
  note pl = places_okD(8) [OF queue_okD(1) [OF sokD(1) [OF ok]]]
  have c: "contents s p = {}" if "\<And>j. j \<in> live_jobs s \<Longrightarrow> home (job_st s j) \<noteq> Some p" for p
    using that pl [of p] by (auto simp: at_home_def)
  show "contents s (PReady (brk s)) = {}" "contents s (PDelay (brk s)) = {}"
    using c fresh_home [OF ok] by blast+
  have "contents s (PBuried (brk s)) = {}" "contents s (PReserved (brk s)) = {}"
    using c fresh_home [OF ok] by blast+
  then show "jl_items (lists s) (LBuried (brk s)) = []" "jl_items (lists s) (LReserved (brk s)) = []" by simp_all
  have "num X s (in_tube P (brk s)) = 0" for P
    using refs_okD(1) [OF sokD(4) [OF ok], of _ "brk s"] by (auto simp: num_def intro!: card_eq_0_iff [THEN iffD2])
  then show "sview (stat (tube_st s (brk s))) = (0, 0, 0)"
    using counts_okD(5-7) [OF queue_okD(2) [OF sokD(1) [OF ok]], of "brk s"] by (simp add: sview_def)
qed

lemma empty_heaps_ok [simp]: "jready.heap_ok empty_heap s" "jdelay.heap_ok empty_heap s" "heap_elems empty_heap = []"
  by (simp_all add: jready.heap_ok_def jdelay.heap_ok_def heap_wf_def empty_heap_def heap_ordered_def
      jready.pos_ok_def jdelay.pos_ok_def heap_elems_def)

lemma sok_fresh:
  assumes ok: "sok E X [] s" and f: "job_st s' = job_st s" "live_jobs s' = live_jobs s" "brk s' = Suc (brk s)" "lists s' = lists s"
      "ready_ct s' = ready_ct s" "sview (global_stat s') = sview (global_stat s)"
      "jobhash s' = jobhash s" "next_id s' = next_id s" "wal s' = wal s" "default_tube s' = default_tube s"
    and t: "\<And>t. tview (tube_st s' t) = tview (tube_st s t) \<or> t = brk s \<and> tview (tube_st s' t) = tview zero_tube"
    and g: "\<And>c. c \<in> waiters s' \<Longrightarrow> c \<le> brk s" "\<And>u. u \<in> set (ms_items (tubes s')) \<Longrightarrow> u \<le> brk s"
    and c: "\<And>c. soonest_job (conn_st s' c) \<in> {soonest_job (conn_st s c), None}" "\<And>c. in_job (conn_st s' c) \<in> {in_job (conn_st s c), None}"
      "\<And>c. c \<in> live_conns s' \<Longrightarrow> c \<le> brk s \<and> (c \<notin> E \<longrightarrow> (\<exists>t. c_use (conn_st s' c) = Some t \<and> t \<le> brk s))"
  shows "sok E X [] s'"
proof -
  note q = sokD(1) [OF ok] and pl = queue_okD(1) [OF sokD(1) [OF ok]] and fr = fresh_places [OF ok]
  have tz: "tview zero_tube = (empty_heap, empty_heap, (0, 0, 0))" by (simp add: tview_def sview_def zero_tube_def zero_stats_def)
  have tv: "ready (tube_st s' t) = ready (tube_st s t) \<and> delay (tube_st s' t) = delay (tube_st s t) \<or>
      t = brk s \<and> ready (tube_st s' t) = empty_heap \<and> delay (tube_st s' t) = empty_heap" for t
    using t [of t] tz by (auto simp: tview_def)
  have sv: "sview (stat (tube_st s' t)) = sview (stat (tube_st s t))" for t
    using t [of t] tz fr(5) by (auto simp: tview_def)
  have pc: "contents s' (PReady t) = contents s (PReady t)" "contents s' (PDelay t) = contents s (PDelay t)"
    "hok s' (PReady t)" "hok s' (PDelay t)" for t
  proof -
    have "contents s' (PReady t) = contents s (PReady t) \<and> contents s' (PDelay t) = contents s (PDelay t) \<and>
      hok s' (PReady t) \<and> hok s' (PDelay t)"
    proof (cases "ready (tube_st s' t) = ready (tube_st s t) \<and> delay (tube_st s' t) = delay (tube_st s t)")
    case True
    have h: "hok s' p" if "p = PReady t \<or> p = PDelay t" for p
      by (rule hok_cong [OF places_okD(7) [OF pl, of p]]) (use True that f in auto)
    show ?thesis using True h [of "PReady t"] h [of "PDelay t"] by simp
  next
    case False
    then show ?thesis using tv [of t] fr(1,2) by auto
    qed
    then show "contents s' (PReady t) = contents s (PReady t)" "contents s' (PDelay t) = contents s (PDelay t)"
      "hok s' (PReady t)" "hok s' (PDelay t)" by blast+
  qed
  have cn: "contents s' p = contents s p" and hk: "hok s' p" for p
    using pc by (cases p; simp add: f)+
  have "queue_ok X [] s'"
  proof (rule queue_live [OF q])
    show "j < brk s'" if "j \<in> live_jobs s'" for j using that places_okD(3) [OF pl, of j] by (simp add: f)
  qed (simp_all add: f cn hk sv places_okD(1,2,4,5,6) [OF pl])
  moreover have "hash_ok s'" using sokD(3) [OF ok] by (simp add: hash_ok_def f)
  moreover have "refs_ok E X s'"
  proof -
    note r = refs_okD [OF sokD(4) [OF ok]]
    have "\<And>a. a < brk s \<Longrightarrow> a < Suc (brk s)" "\<And>a. a \<le> brk s \<Longrightarrow> a < Suc (brk s)" by auto
    then show ?thesis unfolding refs_ok_def f using r(1,2,7-9) g c(3) by blast
  qed
  moreover have "uploads_ok E X s'"
  proof -
    have "in_job (conn_st s c) = Some j" if "in_job (conn_st s' c) = Some j" for c j using c(2) [of c] that by auto
    then show ?thesis using sokD(5) [OF ok] unfolding uploads_ok_def f by blast
  qed
  moreover have "soonest_ok E s'"
    using c(1) f(4) by (intro soonest_ok_cong [OF sokD(2) [OF ok]]) auto
  ultimately show ?thesis using sokD(6) [OF ok] f by (simp add: sok_def)
qed

section \<open>Tubes\<close>

lemma sok_upd_lists:
  assumes "sok E X [] s" "h = LBuried (brk s) \<or> h = LReserved (brk s)"
  shows "(jl_items (lists s))(h := []) = jl_items (lists s)"
  using assms(2) fresh_places(3,4) [OF assms(1)] by (auto simp: fun_eq_iff)

lemma sok_malloc: "sok E X off s \<Longrightarrow> malloc s = (b, s') \<Longrightarrow> sok E X off s'"
  using sok_cframe cframe_env(1) by blast

lemma sok_make_tube:
  assumes ok: "sok E X [] s" and e: "make_tube name s = (tp, s')"
  shows "sok E X [] s'" "tp = Some t \<Longrightarrow> t < brk s' \<and> t = brk s" "conn_st s' = conn_st s" "live_conns s' = live_conns s"
proof -
  obtain b s1 where m: "malloc s = (b, s1)" by (rule prod.exhaust)
  note ok1 = sok_malloc [OF ok m]
  have s1: "brk s1 = brk s" "conn_st s1 = conn_st s" "live_conns s1 = live_conns s" using m by (auto dest!: malloc_eqD)
  note r = refs_okD [OF sokD(4) [OF ok1]]
  have "sok E X [] s' \<and> conn_st s' = conn_st s1 \<and> live_conns s' = live_conns s1"
  proof (cases b)
    case True
    have l: "(lists s1)\<lparr>jl_items := (jl_items (lists s1))(LBuried (brk s1) := [])\<rparr> = lists s1"
      using sok_upd_lists [OF ok1] by simp
    have s': "s' = s1\<lparr>brk := Suc (brk s1), tube_st := (tube_st s1)(brk s1 := zero_tube\<lparr>t_name := take (MAX_TUBE_NAME_LEN - 1) name\<rparr>),
        live_tubes := insert (brk s1) (live_tubes s1)\<rparr>"
      using e m True by (simp add: make_tube_def Let_def l)
    have w: "waiters s' \<subseteq> waiters s1" by (auto simp: s' waiters_def zero_tube_def ms_init_def split: if_splits)
    have "sok E X [] s'"
    proof (rule sok_fresh [OF ok1])
      show "c \<le> brk s1" if "c \<in> waiters s'" for c using that w r(3) [of c] by auto
      show "c \<le> brk s1 \<and> (c \<notin> E \<longrightarrow> (\<exists>t. c_use (conn_st s' c) = Some t \<and> t \<le> brk s1))" if "c \<in> live_conns s'" for c
        using that r(5,6) [of c] by (force simp: s')
      show "u \<le> brk s1" if "u \<in> set (ms_items (tubes s'))" for u using that r(4) [of u] by (auto simp: s')
    qed (auto simp: s' tview_def)
    then show ?thesis by (simp add: s')
  next
    case False
    then show ?thesis using e m ok1 by (simp add: make_tube_def)
  qed
  then show "sok E X [] s'" "conn_st s' = conn_st s" "live_conns s' = live_conns s" using s1 by simp_all
  show "tp = Some t \<Longrightarrow> t < brk s' \<and> t = brk s" using make_tube_new [of name s t s'] e by simp
qed

lemma sok_tubes:
  assumes "sok E X off s" "\<And>t. t \<in> set (ms_items ts) \<Longrightarrow> t < brk s"
  shows "sok E X off (s\<lparr>tubes := ts\<rparr>)"
  by (rule sok_cong [OF assms(1)])
    (use refs_okD [OF sokD(4) [OF assms(1)]] assms(2) in \<open>auto simp: qview_def waiters_def\<close>)

lemma sok_find_or_make:
  assumes ok: "sok E X [] s" and e: "tube_find_or_make name s = (tp, s')"
  shows "sok E X [] s'" "tp = Some t \<Longrightarrow> t < brk s'" "conn_st s' = conn_st s" "live_conns s' = live_conns s"
proof -
  have "sok E X [] s' \<and> (tp = Some t \<longrightarrow> t < brk s') \<and> conn_st s' = conn_st s \<and> live_conns s' = live_conns s"
  proof (cases "tube_find (tubes s) name s")
    case (Some u)
    then have "u \<in> set (ms_items (tubes s))" by (auto simp: tube_find_def find_Some_iff)
    then show ?thesis using e Some ok refs_okD(4) [OF sokD(4) [OF ok]] by (auto simp: tube_find_or_make_def)
  next
    case None
    obtain up s1 where m: "make_tube name s = (up, s1)" by (rule prod.exhaust)
    note mt = sok_make_tube [OF ok m]
    show ?thesis
    proof (cases up)
      case None
      then show ?thesis using e m mt \<open>tube_find (tubes s) name s = None\<close>
        by (simp add: tube_find_or_make_def make_and_insert_tube_def)
    next
      case (Some u)
      obtain b ts s2 where a: "ms_append None malloc (tubes s1) s1 u = (b, ts, s2)" by (rule prod_cases3)
      have s2: "sok E X [] s2" "brk s2 = brk s1" "conn_st s2 = conn_st s1" "live_conns s2 = live_conns s1"
        using ms_append_frame [OF a] mt(1) by (auto intro: sok_malloc [OF mt(1) prod.collapse [symmetric]])
      have ts: "t < brk s2" if "t \<in> set (ms_items ts)" for t
        using that ms_append_items(1) [OF a] refs_okD(4) [OF sokD(4) [OF mt(1)]] mt(2) Some s2 by (auto split: if_splits)
      note ok2 = sok_tubes [OF s2(1) ts]
      have r: "rframe (s2\<lparr>tubes := ts\<rparr>) (tube_dref (Some u) (s2\<lparr>tubes := ts\<rparr>))" by simp
      have "(tp = None \<and> s' = tube_dref (Some u) (s2\<lparr>tubes := ts\<rparr>)) \<or> (tp = Some u \<and> s' = s2\<lparr>tubes := ts\<rparr>)"
        using e m a Some \<open>tube_find (tubes s) name s = None\<close>
        by (auto simp: tube_find_or_make_def make_and_insert_tube_def split: if_splits)
      then show ?thesis
        using ok2 sok_rframe [OF ok2 r] r s2 mt Some by (auto simp: rframe_def)
    qed
  qed
  then show "sok E X [] s'" "tp = Some t \<Longrightarrow> t < brk s'" "conn_st s' = conn_st s" "live_conns s' = live_conns s" by simp_all
qed


section \<open>Jobs\<close>

text \<open>The state with the job \<open>x\<close> at the next address.\<close>

definition new_job :: "Job \<Rightarrow> server \<Rightarrow> server" where
  "new_job x s = s\<lparr>brk := Suc (brk s), job_st := (job_st s)(brk s := x), live_jobs := insert (brk s) (live_jobs s),
     lists := jl_reset (lists s) (brk s)\<rparr>"

lemma new_job_fields [simp]:
  "brk (new_job x s) = Suc (brk s)" "job_st (new_job x s) = (job_st s)(brk s := x)" "live_jobs (new_job x s) = insert (brk s) (live_jobs s)"
  "lists (new_job x s) = jl_reset (lists s) (brk s)" "tube_st (new_job x s) = tube_st s" "conn_st (new_job x s) = conn_st s"
  "jobhash (new_job x s) = jobhash s" "next_id (new_job x s) = next_id s" "wal (new_job x s) = wal s" "tubes (new_job x s) = tubes s"
  "live_conns (new_job x s) = live_conns s" "default_tube (new_job x s) = default_tube s" "ready_ct (new_job x s) = ready_ct s"
  "global_stat (new_job x s) = global_stat s"
  by (simp_all add: new_job_def)

lemma new_job_upd:
  "j = brk s \<Longrightarrow> upd_job j f (new_job x s) = new_job (f x) s" "upd_job j f (upd_conn c g s) = upd_conn c g (upd_job j f s)"
  by (simp_all add: new_job_def upd_job_def upd_conn_def)

lemma allocate_cases:
  assumes "allocate_job n s = (jo, s')"
  obtains "jo = None" "cframe s s'" "conn_st s' = conn_st s"
  | s2 t where "jo = Some (brk s2)" "cframe s s2" "conn_st s2 = conn_st s" "job_st s2 = job_st s" "tube_st s2 = tube_st s"
      "s' = new_job (zero_job\<lparr>r_created_at := t, r_body_size := n, body_at := brk s2\<rparr>) s2"
proof -
  obtain b s1 where m: "malloc s = (b, s1)" by (rule prod.exhaust)
  obtain t s2 where n: "nanoseconds s1 = (t, s2)" by (rule prod.exhaust)
  have m1: "conn_st s1 = conn_st s" "job_st s1 = job_st s" "tube_st s1 = tube_st s" "brk s2 = brk s1"
    "conn_st s2 = conn_st s1" "job_st s2 = job_st s1" "tube_st s2 = tube_st s1"
    using malloc_frame [of s] m nanoseconds_fields [of s1] n by simp_all
  show thesis
  proof (cases b)
    case True
    have "jo = Some (brk s2)" "s' = new_job (zero_job\<lparr>r_created_at := t, r_body_size := n, body_at := brk s2\<rparr>) s2"
      using assms m n m1 True by (simp_all add: allocate_job_def Let_def new_job_def)
    then show thesis using that(2) [of s2 t] cframe_trans [OF cframe_env(1) [OF m] cframe_env(3) [OF n]] m1 by simp
  next
    case False
    then show thesis using that(1) assms m m1 cframe_env(1) [OF m] by (simp add: allocate_job_def)
  qed
qed

lemma ht_ok_ids: "ht_ok f h \<Longrightarrow> (\<And>j. j \<in> ht_set h \<Longrightarrow> g j = f j) \<Longrightarrow> ht_ok g h"
  unfolding ht_ok_def ht_set_iff by metis

lemma sok_copy:
  assumes ok: "sok E X off s" and x: "r_state x = Copy" "\<And>t. j_tube x = Some t \<Longrightarrow> t < brk s" "\<And>d. reserver x = Some d \<Longrightarrow> d < brk s"
  shows "sok E X off (new_job x s)"
proof (rule sok_new_job [OF ok])
  have n: "brk s \<notin> live_jobs s" by (rule fresh_lists(2) [OF sokD(1) [OF ok]])
  have h: "ht_set (jobhash s) = {j \<in> live_jobs s. r_state (job_st s j) \<noteq> Copy}" "ht_ok (ids s) (jobhash s)"
    using sokD(3) [OF ok] by (simp_all add: hash_ok_def)
  have "ht_ok (ids (new_job x s)) (jobhash s)"
    by (rule ht_ok_ids [OF h(2)]) (use h(1) n in auto)
  then show "hash_ok (new_job x s)"
    using sokD(3) [OF ok] x(1) n by (auto simp: hash_ok_def)
qed (use x in \<open>simp_all add: special_def waiters_def\<close>)

text \<open>Fields of a job that the invariant does not read.\<close>

lemma sok_upd_job_other:
  assumes "sok E X off s" "core (f (job_st s j)) = core (job_st s j)" "heap_index (f (job_st s j)) = heap_index (job_st s j)"
  shows "sok E X off (upd_job j f s)"
proof (rule sok_cong [OF assms(1)])
  show "qview (upd_job j f s) = qview s" using assms(2,3) by (auto simp: qview_def)
qed (use refs_okD [OF sokD(4) [OF assms(1)]] in \<open>auto simp: upd_job_def waiters_def\<close>)


text \<open>Room for \<open>n\<close> more jobs: the table of jobs is not at its largest usable size and the ids do not wrap.\<close>

definition room :: "nat \<Rightarrow> server \<Rightarrow> bool" where
  "room n s \<longleftrightarrow> all_jobs_used (jobhash s) + n \<le> primes ! 17 * 4 \<and> unat (next_id s) + n < 2 ^ 64"

lemma room_oview: "oview s' = oview s \<Longrightarrow> room n s' = room n s"
  by (simp add: room_def oviewD(7,8) [of s' s])

lemma room_less: "room (Suc n) s \<Longrightarrow> room n s"
  by (simp add: room_def)

lemma word_suc_room:
  fixes w :: u64
  assumes "unat w + Suc n < 2 ^ 64"
  shows "unat (w + 1) = unat w + 1" "w < w + 1"
proof -
  show u: "unat (w + 1) = unat w + 1" using assms by (simp add: unat_word_ariths)
  show "w < w + 1" using u by (simp add: word_less_nat_alt)
qed

lemma sok_store:
  assumes ok: "sok E X off s" and room: "room (Suc n) s" and x: "r_id x = next_id s" "r_state x = Invalid"
    and s3: "s3 = (new_job x s)\<lparr>next_id := next_id s + 1\<rparr>" and e: "store_job (ids s3) malloc (brk s) (jobhash s3, s3) = (h, s4)"
    and y: "r_id y = r_id x" "r_state y = Invalid" "reserver y = None" "\<And>t. j_tube y = Some t \<Longrightarrow> t < brk s"
  shows "sok E X off (s4\<lparr>jobhash := h, job_st := (job_st s4)(brk s := y)\<rparr>)" "room n (s4\<lparr>jobhash := h\<rparr>)"
    "conn_st s4 = conn_st s" "live_conns s4 = live_conns s" "job_st s4 = (job_st s)(brk s := x)"
    "live_jobs s4 = insert (brk s) (live_jobs s)" "brk s4 = Suc (brk s)"
proof -
  have fr: "brk s \<notin> live_jobs s" by (rule fresh_lists(2) [OF sokD(1) [OF ok]])
  have hk: "ht_ok (ids s) (jobhash s)" "ht_load (jobhash s)" "ht_set (jobhash s) = {j \<in> live_jobs s. r_state (job_st s j) \<noteq> Copy}"
    "\<And>j. j \<in> ht_set (jobhash s) \<Longrightarrow> r_id (job_st s j) < next_id s" using sokD(3) [OF ok] by (auto simp: hash_ok_def)
  have i: "ids s3 j = (if j = brk s then next_id s else ids s j)" for j by (simp add: s3 x)
  have h3: "ht_ok (ids s3) (jobhash s)" by (rule ht_ok_ids [OF hk(1)]) (use hk(3) fr in \<open>auto simp: s3\<close>)
  have new: "ids s3 j \<noteq> ids s3 (brk s)" if "j \<in> ht_set (jobhash s)" for j
    using hk(4) [OF that] that hk(3) fr i [of j] i [of "brk s"] by (auto split: if_splits)
  have rm: "ht_room (jobhash s)" "unat (next_id s) + Suc n < 2 ^ 64"
    using room by (simp_all add: room_def ht_room_def)
  have e': "store_job (ids s3) malloc (brk s) (jobhash s, s3) = (h, s4)" using e by (simp add: s3)
  note so = store_job_ok [OF h3 new rm(1) hk(2) e']
  note m = malloc_fields [OF so(4)]
  show f: "conn_st s4 = conn_st s" "live_conns s4 = live_conns s" "job_st s4 = (job_st s)(brk s := x)"
    "live_jobs s4 = insert (brk s) (live_jobs s)" "brk s4 = Suc (brk s)"
    by (simp_all add: m s3)
  show "room n (s4\<lparr>jobhash := h\<rparr>)"
    using room so(3) word_suc_room(1) [OF rm(2)] by (simp add: room_def m s3)
  let ?s' = "s4\<lparr>jobhash := h, job_st := (job_st s4)(brk s := y)\<rparr>"
  show "sok E X off ?s'"
  proof (rule sok_new_job [OF ok])
    have id3: "ids ?s' = ids s3" by (auto simp: fun_eq_iff m s3 y x)
    have "r_id (job_st ?s' j) < next_id ?s'" if "j \<in> live_jobs ?s'" "r_state (job_st ?s' j) \<noteq> Copy" for j
    proof (cases "j = brk s")
      case True
      then show ?thesis using word_suc_room(2) [OF rm(2)] y(1) x(1) by (simp add: m s3)
    next
      case False
      then have "r_id (job_st s j) < next_id s" using that hk(3) hk(4) [of j] by (simp add: f)
      then show ?thesis using word_suc_room(2) [OF rm(2)] False by (simp add: m s3)
    qed
    then show "hash_ok ?s'"
      unfolding hash_ok_def id3 using so hk(3) y fr by (auto simp: m s3)
  qed (use y in \<open>simp_all add: m s3 special_def waiters_def\<close>)
qed

lemma sok_make_job:
  assumes ok: "sok E X off s" and room: "room (Suc n) s" and t: "t < brk s" and e: "make_job pri dly ttr bsize (Some t) s = (jo, s')"
  shows "sok E X off s'" "room n s'" "conn_st s' = conn_st s" "live_conns s' = live_conns s"
    "\<And>j. jo = Some j \<Longrightarrow> j \<in> live_jobs s' \<and> r_state (job_st s' j) = Invalid \<and> j_tube (job_st s' j) = Some t \<and>
       r_id (job_st s' j) = next_id s \<and> (\<forall>c. c \<notin> E \<longrightarrow> in_job (conn_st s c) \<noteq> Some j) \<and> j \<notin> X"
proof -
  obtain ao s1 where a: "allocate_job bsize s = (ao, s1)" by (rule prod.exhaust)
  have "sok E X off s' \<and> room n s' \<and> conn_st s' = conn_st s \<and> live_conns s' = live_conns s \<and>
    (\<forall>j. jo = Some j \<longrightarrow> j \<in> live_jobs s' \<and> r_state (job_st s' j) = Invalid \<and> j_tube (job_st s' j) = Some t \<and>
       r_id (job_st s' j) = next_id s \<and> (\<forall>c. c \<notin> E \<longrightarrow> in_job (conn_st s c) \<noteq> Some j) \<and> j \<notin> X)"
  proof (rule allocate_cases [OF a])
    assume n: "ao = None" "cframe s s1" "conn_st s1 = conn_st s"
    have "oview s1 = oview s" using n(2) by (simp add: cframe_def)
    then show ?thesis
      using e a n sok_cframe [OF ok n(2)] room_less [OF room] room_oview [of s1 s n] oviewD(6) [of s1 s]
      by (simp add: make_job_def make_job_with_id_def)
  next
    fix s2 tm
    assume n: "ao = Some (brk s2)" "cframe s s2" "conn_st s2 = conn_st s" "job_st s2 = job_st s"
      "s1 = new_job (zero_job\<lparr>r_created_at := tm, r_body_size := bsize, body_at := brk s2\<rparr>) s2"
    have o: "oview s2 = oview s" using n(2) by (simp add: cframe_def)
    note ok2 = sok_cframe [OF ok n(2)]
    have rm: "room (Suc n) s2" using room room_oview [OF o] by simp
    define x where "x = zero_job\<lparr>r_created_at := tm, r_body_size := bsize, body_at := brk s2, r_id := next_id s2, r_pri := pri, r_delay := dly, r_ttr := ttr\<rparr>"
    define s3 where "s3 = (new_job x s2)\<lparr>next_id := next_id s2 + 1\<rparr>"
    obtain h s4 where st: "store_job (ids s3) malloc (brk s2) (jobhash s3, s3) = (h, s4)" by (rule prod.exhaust)
    define y where "y = x\<lparr>j_tube := Some t\<rparr>"
    have x3: "upd_job (brk s2) (\<lambda>x. x\<lparr>r_pri := pri, r_delay := dly, r_ttr := ttr\<rparr>)
        ((upd_job (brk s2) (\<lambda>x. x\<lparr>r_id := next_id s1\<rparr>) s1)\<lparr>next_id := next_id s1 + 1\<rparr>) = s3"
      by (simp add: n(5) s3_def x_def upd_job_def new_job_def)
    have p: "r_id x = next_id s2" "r_state x = Invalid" "r_id y = r_id x" "r_state y = Invalid" "reserver y = None"
      "\<And>u. j_tube y = Some u \<Longrightarrow> u < brk s2"
      using t oviewD(4) [OF o] by (simp_all add: x_def y_def zero_job_def)
    note ss = sok_store [OF ok2 rm p(1,2) s3_def st p(3-6)]
    have xt: "j_tube x = None" by (simp add: x_def zero_job_def)
    let ?s5 = "s4\<lparr>jobhash := h, job_st := (job_st s4)(brk s2 := y)\<rparr>"
    have s': "jo = Some (brk s2)" "s' = tube_iref (Some t) ?s5"
      using e [unfolded make_job_def make_job_with_id_def a n(1) prod.case option.case Let_def simp_thms if_False x3 st] ss(5) xt
      by (simp_all add: tube_dref_def upd_job_def y_def)
    have r: "rframe ?s5 s'" by (simp add: s')
    have rj: "job_st s' = job_st ?s5" "live_jobs s' = live_jobs s4" "conn_st s' = conn_st s4" "live_conns s' = live_conns s4"
      "jobhash s' = h" "next_id s' = next_id s4"
      using r qviewD(1) [of s' ?s5] by (simp_all add: rframe_def)
    have fr: "brk s2 \<notin> live_jobs s2" by (rule fresh_lists(2) [OF sokD(1) [OF ok2]])
    have up: "in_job (conn_st s c) \<noteq> Some (brk s2)" if "c \<notin> E" for c
      using sokD(5) [OF ok2] fr that n(3) by (auto simp: uploads_ok_def)
    have nX: "brk s2 \<notin> X" using fr places_okD(2) [OF queue_okD(1) [OF sokD(1) [OF ok2]]] by blast
    have "room n s'" using ss(2) by (simp add: room_def rj)
    then show ?thesis
      using s'(1) sok_rframe [OF ss(1) r] ss(3-6) rj n(3) oviewD(6,8) [OF o] up nX p by (simp add: y_def)
  qed
  then show "sok E X off s'" "room n s'" "conn_st s' = conn_st s" "live_conns s' = live_conns s"
    "\<And>j. jo = Some j \<Longrightarrow> j \<in> live_jobs s' \<and> r_state (job_st s' j) = Invalid \<and> j_tube (job_st s' j) = Some t \<and>
       r_id (job_st s' j) = next_id s \<and> (\<forall>c. c \<notin> E \<longrightarrow> in_job (conn_st s c) \<noteq> Some j) \<and> j \<notin> X"
    by blast+
qed


lemma sok_job_copy:
  assumes ok: "sok E X off s" and j: "j \<in> live_jobs s" and e: "job_copy (Some j) s = (jo, s')"
  shows "sok E X off s'" "\<And>n. room n s' = room n s" "conn_st s' = conn_st s" "live_conns s' = live_conns s"
    "\<And>k. k \<in> live_jobs s \<Longrightarrow> k \<in> live_jobs s' \<and> job_st s' k = job_st s k" "jl_items (lists s') = jl_items (lists s)"
    "\<And>k. jo = Some k \<Longrightarrow> r_state (job_st s' k) = Copy \<and> k \<in> live_jobs s' \<and> k \<notin> live_jobs s"
    "\<And>k. jo = Some k \<Longrightarrow> job_st s' k = (job_st s j)\<lparr>j_file := None, r_state := Copy\<rparr>"
proof -
  obtain b s1 where m: "malloc s = (b, s1)" by (rule prod.exhaust)
  note ok1 = sok_malloc [OF ok m]
  have s1: "brk s1 = brk s" "conn_st s1 = conn_st s" "live_conns s1 = live_conns s" "job_st s1 = job_st s" "live_jobs s1 = live_jobs s"
    "lists s1 = lists s" "jobhash s1 = jobhash s" "next_id s1 = next_id s"
    using malloc_frame [of s] m by simp_all
  have fr: "brk s \<notin> live_jobs s" by (rule fresh_lists(2) [OF sokD(1) [OF ok]])
  note r = refs_okD(1,2) [OF sokD(4) [OF ok] j]
  have "sok E X off s' \<and> (\<forall>n. room n s' = room n s) \<and> conn_st s' = conn_st s \<and> live_conns s' = live_conns s \<and>
    (\<forall>k. k \<in> live_jobs s \<longrightarrow> k \<in> live_jobs s' \<and> job_st s' k = job_st s k) \<and> jl_items (lists s') = jl_items (lists s) \<and>
    (\<forall>k. jo = Some k \<longrightarrow> r_state (job_st s' k) = Copy \<and> k \<in> live_jobs s' \<and> k \<notin> live_jobs s) \<and>
    (\<forall>k. jo = Some k \<longrightarrow> job_st s' k = (job_st s j)\<lparr>j_file := None, r_state := Copy\<rparr>)"
  proof (cases b)
    case False
    have "jo = None" "s' = s1" using e m False by (simp_all add: job_copy_def)
    then show ?thesis using ok1 s1 by (simp add: room_def)
  next
    case True
    define x where "x = (job_st s j)\<lparr>j_file := None, r_state := Copy\<rparr>"
    have jn: "j \<noteq> brk s" using j fr by blast
    have s': "s' = tube_iref (j_tube (job_st s j)) (new_job x s1)" "jo = Some (brk s)"
      using e m True jn s1
      by (simp_all add: job_copy_def Let_def new_job_def [symmetric] new_job_upd tube_dref_def)
        (auto simp: tube_iref_def upd_tube_def upd_job_def new_job_def x_def split: option.split)
    have rf: "rframe (new_job x s1) s'" by (simp add: s')
    have ok2: "sok E X off (new_job x s1)" by (rule sok_copy [OF ok1]) (use r s1 in \<open>auto simp: x_def\<close>)
    have f: "job_st s' = job_st (new_job x s1)" "live_jobs s' = live_jobs (new_job x s1)" "conn_st s' = conn_st s" "live_conns s' = live_conns s"
      "jobhash s' = jobhash s" "next_id s' = next_id s" "lists s' = jl_reset (lists s) (brk s)"
      using rf qviewD(1,7) [of s' "new_job x s1"] s1 by (simp_all add: rframe_def)
    show ?thesis
      using sok_rframe [OF ok2 rf] f s1 s'(2) fr by (auto simp: room_def x_def jl_reset_def)
  qed
  then show "sok E X off s'" "\<And>n. room n s' = room n s" "conn_st s' = conn_st s" "live_conns s' = live_conns s"
    "\<And>k. k \<in> live_jobs s \<Longrightarrow> k \<in> live_jobs s' \<and> job_st s' k = job_st s k" "jl_items (lists s') = jl_items (lists s)"
    "\<And>k. jo = Some k \<Longrightarrow> r_state (job_st s' k) = Copy \<and> k \<in> live_jobs s' \<and> k \<notin> live_jobs s"
    "\<And>k. jo = Some k \<Longrightarrow> job_st s' k = (job_st s j)\<lparr>j_file := None, r_state := Copy\<rparr>"
    by blast+
qed

section \<open>Connections\<close>

lemma sok_open:
  assumes "sok (insert c E) X off s" "soonest_job (conn_st s c) = None" "in_job (conn_st s c) = None"
    "c \<in> live_conns s \<Longrightarrow> \<exists>t. c_use (conn_st s c) = Some t \<and> t < brk s"
  shows "sok E X off s"
proof -
  note r = refs_okD [OF sokD(4) [OF assms(1)]]
  have "refs_ok E X s" using r assms(4) unfolding refs_ok_def by blast
  moreover have "uploads_ok E X s"
    using sokD(5) [OF assms(1)] assms(3) unfolding uploads_ok_def by (metis insert_iff option.distinct(1))
  moreover have "soonest_ok E s"
    using sokD(2) [OF assms(1)] assms(2) unfolding soonest_ok_def by (metis insert_iff option.distinct(1))
  ultimately show ?thesis using assms(1) by (simp add: sok_def)
qed

text \<open>\<open>ms_append\<close> and \<open>ms_remove\<close> on a watch set, with their callbacks.\<close>

lemma rframe_malloc: "rframe s (snd (malloc s))"
proof -
  note mf = malloc_fields [OF disjI2 [OF refl], of s]
  have "qview (snd (malloc s)) = qview s" by (simp add: qview_def mf)
  then show ?thesis by (simp add: rframe_def mf)
qed

lemma rframe_watch_append:
  assumes "ms_append (Some on_watch) malloc w s t = (b, w', s')"
  shows "rframe s s'"
proof (rule ms_append_cases [of "Some on_watch" malloc w s t])
  fix s1 c
  assume e: "ms_append (Some on_watch) malloc w s t =
      (True, w\<lparr>ms_items := ms_items w @ [t], ms_cap := c\<rparr>, ms_event (Some on_watch) t (length (ms_items w)) s1)"
    and s1: "s1 = s \<or> s1 = snd (malloc s)"
  have "rframe s s1" using s1 rframe_malloc by auto
  moreover have "s' = on_watch t (length (ms_items w)) s1" using assms e by (simp add: ms_event_def)
  ultimately show ?thesis using rframe_trans rframe_watch(1) by blast
next
  assume "ms_append (Some on_watch) malloc w s t = (False, w, snd (malloc s))"
  then show ?thesis using assms rframe_malloc by simp
qed

lemma rframe_delete: "ms_delete (Some on_ignore) w s i = (b, w', s') \<Longrightarrow> rframe s s'"
  by (auto simp: ms_delete_def ms_event_def Let_def split: if_splits)

lemma rframe_watch_remove: "ms_remove (Some on_ignore) w s t = (b, w', s') \<Longrightarrow> rframe s s'"
  by (auto simp: ms_remove_def split: option.splits dest!: rframe_delete)

lemma rframe_clear: "ms_clear (Some on_ignore) w s = (w', s') \<Longrightarrow> rframe s s'"
proof -
  have "rframe s (snd (ms_clear_loop cb w s))" if "cb = Some on_ignore" for cb
    using that
  proof (induction cb w s rule: ms_clear_loop.induct)
    case (1 cb a s)
    obtain b a' s1 where d: "ms_delete cb a s 0 = (b, a', s1)" by (rule prod_cases3)
    have r: "rframe s s1" using rframe_delete d 1(2) by blast
    show ?case
    proof (cases b)
      case True
      then have "rframe s1 (snd (ms_clear_loop cb a' s1))" using 1(1) [OF d [symmetric] _ refl 1(2)] by simp
      then show ?thesis using rframe_trans [OF r] d True by (simp add: ms_clear_loop.simps [of cb a s])
    qed (use r d in \<open>simp add: ms_clear_loop.simps [of cb a s]\<close>)
  qed
  then show "ms_clear (Some on_ignore) w s = (w', s') \<Longrightarrow> rframe s s'"
    by (metis (no_types, lifting) case_prod_beta ms_clear_def prod.inject prod.collapse)
qed


lemma rframe_fields:
  assumes "rframe s s'"
  shows "job_st s' = job_st s" "jobhash s' = jobhash s" "next_id s' = next_id s" "wal s' = wal s" "conn_st s' = conn_st s"
    "live_conns s' = live_conns s" "default_tube s' = default_tube s" "live_jobs s' = live_jobs s" "brk s' = brk s" "lists s' = lists s"
    "\<And>n. room n s' = room n s"
  using assms qviewD(1,2,7) [of s' s] by (simp_all add: rframe_def room_def)

lemma rframe_conn_cts: "rframe s (s\<lparr>cur_conn_ct := n, tot_conn_ct := m\<rparr>)" "rframe s (s\<lparr>cur_conn_ct := n\<rparr>)"
  "rframe s (s\<lparr>cur_producer_ct := n\<rparr>)" "rframe s (s\<lparr>cur_worker_ct := n\<rparr>)" "rframe s (s\<lparr>timeout_ct := rc\<rparr>)" "rframe s (s\<lparr>op_ct := oc\<rparr>)"
  "rframe s (s\<lparr>sys := sy\<rparr>)"
  by (simp_all add: rframe_def qview_def waiters_def)

lemma sok_make_conn:
  assumes ok: "sok {} X [] s" and t: "use < brk s" and e: "make_conn fd st use wt s = (co, s')"
  shows "sok {} X [] s'" "room n s' = room n s" "live_conns s' = live_conns s \<union> set_option co"
proof -
  obtain b s1 where m: "malloc s = (b, s1)" by (rule prod.exhaust)
  note ok1 = sok_malloc [OF ok m]
  have s1: "brk s1 = brk s" "live_conns s1 = live_conns s" "jobhash s1 = jobhash s" "next_id s1 = next_id s"
    using malloc_frame [of s] m by simp_all
  note r = refs_okD [OF sokD(4) [OF ok1]]
  define c where "c = brk s1"
  define s2 where "s2 = s1\<lparr>brk := c + 1, conn_st := (conn_st s1)(c := zero_conn), live_conns := insert c (live_conns s1)\<rparr>"
  have cl: "c \<notin> live_conns s1" using r(5) [of c] by (auto simp: c_def)
  have ok2: "sok {c} X [] s2"
  proof (rule sok_fresh [OF sok_close [OF ok1]])
    show "d \<le> brk s1 \<and> (d \<notin> {c} \<longrightarrow> (\<exists>t. c_use (conn_st s2 d) = Some t \<and> t \<le> brk s1))" if "d \<in> live_conns s2" for d
      using that r(5,6) [of d] by (cases "d = c") (force simp: s2_def c_def)+
    show "d \<le> brk s1" if "d \<in> waiters s2" for d using that r(3) [of d] by (auto simp: s2_def waiters_def)
    show "u \<le> brk s1" if "u \<in> set (ms_items (tubes s2))" for u using that r(4) [of u] by (auto simp: s2_def)
  qed (auto simp: s2_def c_def zero_conn_def)
  obtain a w s3 where ap: "ms_append (Some on_watch) malloc (watch (conn_st s2 c)) s2 wt = (a, w, s3)" by (rule prod_cases3)
  have ap': "ms_append (Some on_watch) malloc (watch zero_conn) (s1\<lparr>brk := Suc (brk s1), conn_st := (conn_st s1)(brk s1 := zero_conn),
      live_conns := insert (brk s1) (live_conns s1)\<rparr>) wt = (a, w, s3)"
    using ap by (simp add: s2_def c_def)
  have r3: "rframe s2 s3" by (rule rframe_watch_append [OF ap])
  note f3 = rframe_fields [OF r3] and ok3 = sok_rframe [OF ok2 r3]
  have z: "conn_st s3 c = zero_conn" by (simp add: f3 s2_def)
  have "sok {} X [] s' \<and> room n s' = room n s \<and> live_conns s' = live_conns s \<union> set_option co"
  proof (cases b)
    case False
    then show ?thesis using e m ok1 s1 by (simp add: make_conn_def room_def)
  next
    case bT: True
    show ?thesis
    proof (cases a)
      case False
      have "co = None" "s' = s3\<lparr>live_conns := live_conns s3 - {c}\<rparr>"
        using e m bT ap' False by (simp_all add: make_conn_def Let_def c_def)
      moreover have "sok {} X [] (s3\<lparr>live_conns := live_conns s3 - {c}\<rparr>)"
        by (rule sok_closed [OF ok3]) (simp_all add: z zero_conn_def)
      ultimately show ?thesis using f3 s1 cl by (auto simp: s2_def room_def)
    next
      case True
      define s4 where "s4 = upd_conn c (\<lambda>x. x\<lparr>watch := w\<rparr>) s3"
      define s5 where "s5 = tube_iref (Some use) (upd_conn c (\<lambda>x. x\<lparr>c_use := Some use\<rparr>) s4)"
      define s7 where "s7 = upd_tube use (\<lambda>x. x\<lparr>using_ct := using_ct x + 1\<rparr>) s5"
      define s8 where "s8 = upd_conn c (\<lambda>x. x\<lparr>c_state := st, pending_timeout := - 1, tickpos := 0, in_conns := False\<rparr>) s7"
      have ok5: "sok {c} X [] (upd_conn c (\<lambda>x. x\<lparr>c_use := Some use\<rparr>) s4)"
        unfolding s4_def by (intro sok_upd_closing ok3) simp_all
      have r7: "rframe (upd_conn c (\<lambda>x. x\<lparr>c_use := Some use\<rparr>) s4) s7"
        unfolding s7_def s5_def by (rule rframe_trans [OF rframe_refs(1) rframe_counts(1)])
      note f7 = rframe_fields [OF r7]
      have ok8: "sok {c} X [] s8" unfolding s8_def by (rule sok_upd_closing [OF sok_rframe [OF ok5 r7]]) simp
      have u: "c_use (conn_st s8 c) = Some use" "soonest_job (conn_st s8 c) = None" "in_job (conn_st s8 c) = None"
        by (simp_all add: s8_def f7 s4_def z zero_conn_def)
      have f8: "lists s8 = lists s1" "brk s8 = Suc (brk s1)" "live_conns s8 = insert c (live_conns s1)"
        "jobhash s8 = jobhash s1" "next_id s8 = next_id s1"
        using f7 f3 by (simp_all add: s8_def s4_def s2_def c_def upd_conn_def)
      have l: "(lists s8)\<lparr>jl_items := (jl_items (lists s8))(LReserved c := [])\<rparr> = lists s8"
        using sok_upd_lists [OF ok1, of "LReserved c"] f8 by (simp add: c_def)
      have ok9: "sok {} X [] s8" by (rule sok_open [OF ok8]) (use u t s1 f8 in auto)
      have cu: "c_use (conn_st s4 c) = None" and dr: "tube_dref None u = u" for u by (simp_all add: s4_def z zero_conn_def tube_dref_def)
      have mT: "malloc s = (True, s1)" and apT: "ms_append (Some on_watch) malloc (watch (conn_st s2 c)) s2 wt = (True, w, s3)"
        using m bT ap True by simp_all
      have "co = Some c" "s' = s8\<lparr>cur_conn_ct := cur_conn_ct s8 + 1, tot_conn_ct := tot_conn_ct s8 + 1\<rparr>"
        using e [unfolded make_conn_def mT prod.case bool.case Let_def, folded c_def, folded s2_def, unfolded apT prod.case bool.case, folded s4_def,
            unfolded cu dr, folded s5_def, folded s7_def, folded s8_def, unfolded l] by simp_all
      then show ?thesis
        using sok_rframe [OF ok9 rframe_conn_cts(1)] s1 f8 by (simp add: room_def)
    qed
  qed
  then show "sok {} X [] s'" "room n s' = room n s" "live_conns s' = live_conns s \<union> set_option co" by blast+
qed

end
