(* ===== verification/Bean_Moves.thy ===== *)
theory Bean_Moves
  imports Bean_New
begin

text \<open>
  The compound moves of jobs under the invariant of the server: requeueing, kicking, deleting, enqueueing
  an uploaded job and closing a connection.
\<close>

section \<open>Requeueing\<close>

text \<open>A job in flight is enqueued, or buried when that fails.\<close>

lemma sok_requeue:
  assumes ok: "sok E X off s" and j: "j \<in> X" and e: "enqueue_job j dly u s = (r, s2)"
  shows "sok E (X - {j}) off (if r then s2 else snd (bury_job j False s2))"
proof (cases r)
  case True
  then show ?thesis using sok_enqueue(1) [OF ok j e] by simp
next
  case False
  then have "sok E X off s2" using sok_enqueue(1) [OF ok j e] by simp
  then show ?thesis using sok_bury_job(2) [OF _ j] False by simp
qed

lemma sok_walresv: "sok E X off s \<Longrightarrow> sok E X off (upd_job j (\<lambda>x. x\<lparr>walresv := f x\<rparr>) s)"
  by (rule sok_upd_job_other) (simp_all add: core_def)

lemma oview_walresv [simp]: "oview (upd_job j (\<lambda>x. x\<lparr>walresv := f x\<rparr>) s) = oview s"
  by (simp add: oview_upd)

lemma live_conns_oview: "oview s' = oview s \<Longrightarrow> live_conns s' = live_conns s"
  by (rule oviewD)

section \<open>Kicking\<close>

lemma insert_minus: "j \<notin> X \<Longrightarrow> insert j X - {j} = X"
  by auto

lemma sok_kick_buried:
  assumes ok: "sok E X off s" and j: "j \<in> live_jobs s" "j \<notin> X" "r_state (job_st s j) = Buried" and e: "kick_buried_job j s = (b, s')"
  shows "sok E X off s'"
proof -
  define s2 where "s2 = upd_job j (\<lambda>x. x\<lparr>walresv := walresv x + 1\<rparr>) s"
  have ok2: "sok E X off s2" unfolding s2_def by (rule sok_walresv [OF ok])
  have j2: "j \<in> live_jobs s2" "r_state (job_st s2 j) = Buried" using j by (simp_all add: s2_def upd_job_def)
  obtain s3 where s3: "remove_buried_job (Some j) s2 = (Some j, s3)" "sok E (insert j X) off s3"
    using sok_remove_buried [OF ok2 j2(1) j(2) j2(2)] by metis
  define s4 where "s4 = upd_job j (\<lambda>x. x\<lparr>r_kick_ct := r_kick_ct x + 1\<rparr>) s3"
  have ok4: "sok E (insert j X) off s4" unfolding s4_def by (rule sok_inflight [OF s3(2)]) simp_all
  obtain r s5 where q: "enqueue_job j 0 True s4 = (r, s5)" by (rule prod.exhaust)
  have "s' = (if r then s5 else snd (bury_job j False s5))"
    using e wal_off(4) [OF sokD(6) [OF ok]] s3(1) q
    by (auto simp: kick_buried_job_def Let_def s2_def s4_def split: if_splits)
  then show ?thesis using sok_requeue [OF ok4 insertI1 q] insert_minus [OF j(2)] by simp
qed

lemma sok_kick_delayed:
  assumes ok: "sok E X off s" and j: "j \<in> live_jobs s" "j \<notin> X" "r_state (job_st s j) = Delayed" and e: "kick_delayed_job j s = (b, s')"
  shows "sok E X off s'"
proof -
  define s2 where "s2 = upd_job j (\<lambda>x. x\<lparr>walresv := walresv x + 1\<rparr>) s"
  have ok2: "sok E X off s2" unfolding s2_def by (rule sok_walresv [OF ok])
  have j2: "j \<in> live_jobs s2" "r_state (job_st s2 j) = Delayed" using j by (simp_all add: s2_def upd_job_def)
  define s4 where "s4 = upd_job j (\<lambda>x. x\<lparr>r_kick_ct := r_kick_ct x + 1\<rparr>) (delay_remove j s2)"
  have ok4: "sok E (insert j X) off s4" unfolding s4_def
    by (rule sok_inflight [OF sok_remove_delayed(1) [OF ok2 j2(1) j(2) j2(2)]]) simp_all
  obtain r s5 where q: "enqueue_job j 0 True s4 = (r, s5)" by (rule prod.exhaust)
  obtain r' s6 where q': "enqueue_job j (r_delay (job_st s5 j)) False s5 = (r', s6)" by (rule prod.exhaust)
  have s': "s' = (if r then s5 else if r' then s6 else snd (bury_job j False s6))"
    using e wal_off(4) [OF sokD(6) [OF ok]] q q'
    by (auto simp: kick_delayed_job_def Let_def s2_def s4_def split: if_splits)
  have ok5: "sok E (if r then insert j X - {j} else insert j X) off s5" by (rule sok_enqueue(1) [OF ok4 insertI1 q])
  show ?thesis
  proof (cases r)
    case True
    then show ?thesis using ok5 s' insert_minus [OF j(2)] by simp
  next
    case False
    then show ?thesis using sok_requeue [OF _ insertI1 q', of E X off] ok5 s' insert_minus [OF j(2)] by simp
  qed
qed

lemma buried_head:
  assumes ok: "sok E X off s" and b: "buried_job_p t s"
  shows "hd (jl_items (lists s) (LBuried t)) \<in> live_jobs s" "hd (jl_items (lists s) (LBuried t)) \<notin> X"
    "r_state (job_st s (hd (jl_items (lists s) (LBuried t)))) = Buried"
proof -
  have "hd (jl_items (lists s) (LBuried t)) \<in> contents s (PBuried t)"
    using b by (simp add: buried_job_p_def jl_is_empty_def)
  then have "hd (jl_items (lists s) (LBuried t)) \<in> at_home X s (PBuried t)"
    using places_okD(8) [OF queue_okD(1) [OF sokD(1) [OF ok]]] by blast
  then show "hd (jl_items (lists s) (LBuried t)) \<in> live_jobs s" "hd (jl_items (lists s) (LBuried t)) \<notin> X"
    "r_state (job_st s (hd (jl_items (lists s) (LBuried t)))) = Buried"
    by (auto simp: at_home_def home_def split: jstate.splits)
qed

lemma delayed_root:
  assumes ok: "sok E X off s" and b: "0 < heap_len (delay (tube_st s t))"
  shows "heap_data (delay (tube_st s t)) ! 0 \<in> live_jobs s" "heap_data (delay (tube_st s t)) ! 0 \<notin> X"
    "r_state (job_st s (heap_data (delay (tube_st s t)) ! 0)) = Delayed" "j_tube (job_st s (heap_data (delay (tube_st s t)) ! 0)) = Some t"
proof -
  have "jdelay.heap_ok (delay (tube_st s t)) s" using places_okD(7) [OF queue_okD(1) [OF sokD(1) [OF ok]], of "PDelay t"] by simp
  then have "heap_data (delay (tube_st s t)) ! 0 \<in> contents s (PDelay t)"
    using b by (auto simp: heap_elems_def jdelay.heap_ok_def heap_wf_def in_set_conv_nth)
  then have "heap_data (delay (tube_st s t)) ! 0 \<in> at_home X s (PDelay t)"
    using places_okD(8) [OF queue_okD(1) [OF sokD(1) [OF ok]]] by blast
  then show "heap_data (delay (tube_st s t)) ! 0 \<in> live_jobs s" "heap_data (delay (tube_st s t)) ! 0 \<notin> X"
    "r_state (job_st s (heap_data (delay (tube_st s t)) ! 0)) = Delayed" "j_tube (job_st s (heap_data (delay (tube_st s t)) ! 0)) = Some t"
    by (auto simp: at_home_def home_def split: jstate.splits)
qed

lemma sok_kick_buried_jobs: "sok E X off s \<Longrightarrow> sok E X off (snd (kick_buried_jobs m t s))"
proof (induction m arbitrary: s)
  case (Suc m)
  show ?case
  proof (cases "buried_job_p t s")
    case True
    note h = buried_head [OF Suc.prems True]
    have "sok E X off (snd (kick_buried_job (hd (jl_items (lists s) (LBuried t))) s))"
      using sok_kick_buried [OF Suc.prems h prod.collapse [symmetric]] .
    then show ?thesis using Suc.IH True by (simp add: case_prod_beta)
  qed (use Suc.prems in simp)
qed simp

lemma sok_kick_delayed_jobs: "sok E X off s \<Longrightarrow> sok E X off (snd (kick_delayed_jobs m t s))"
proof (induction m arbitrary: s)
  case (Suc m)
  show ?case
  proof (cases "heap_len (delay (tube_st s t)) > 0")
    case True
    note h = delayed_root(1-3) [OF Suc.prems True]
    have "sok E X off (snd (kick_delayed_job (heap_data (delay (tube_st s t)) ! 0) s))"
      using sok_kick_delayed [OF Suc.prems h prod.collapse [symmetric]] .
    then show ?thesis using Suc.IH True by (simp add: case_prod_beta)
  qed (use Suc.prems in simp)
qed simp

lemma sok_kick_jobs: "sok E X off s \<Longrightarrow> sok E X off (snd (kick_jobs t n s))"
  using sok_kick_buried_jobs sok_kick_delayed_jobs by (simp add: kick_jobs_def)

lemma oview_kick_snd [simp]: "oview (snd (kick_buried_job j s)) = oview s" "oview (snd (kick_delayed_job j s)) = oview s"
  using oview_kicks(1) [OF prod.collapse [symmetric]] oview_kicks(2) [OF prod.collapse [symmetric]] .

lemma oview_kick_jobs [simp]: "oview (snd (kick_jobs t n s)) = oview s"
proof -
  have "oview (snd (kick_buried_jobs m t s)) = oview s" for m by (induction m arbitrary: s) (simp_all add: case_prod_beta)
  moreover have "oview (snd (kick_delayed_jobs m t s)) = oview s" for m by (induction m arbitrary: s) (simp_all add: case_prod_beta)
  ultimately show ?thesis by (simp add: kick_jobs_def)
qed

section \<open>Uploads and deletion\<close>

text \<open>A complete upload becomes a job in flight.\<close>

lemma sok_take_upload:
  assumes ok: "sok E X off s" and j: "j \<in> live_jobs s" "r_state (job_st s j) = Invalid" "j_tube (job_st s j) = Some t"
    and up: "\<And>c. c \<notin> E \<Longrightarrow> in_job (conn_st s c) \<noteq> Some j"
  shows "sok E (insert j X) off s"
proof (cases "j \<in> X")
  case True
  then show ?thesis using ok by (simp add: insert_absorb)
next
  case False
  note q = sokD(1) [OF ok] and pl = queue_okD(1) [OF sokD(1) [OF ok]]
  have h: "home (job_st s j) = None" by (simp add: home_def j)
  have ah: "at_home (insert j X) s p = at_home X s p" for p using h by (auto simp: at_home_def)
  have "places_ok (insert j X) s"
    using pl j(1) unfolding places_ok_def ah by blast
  moreover have "num (insert j X) s P = num X s P" if "\<not> P (job_st s j)" for P
    using num_leave [OF queue_okD(3) [OF q] j(1) False, of P] that by simp
  then have "counts_ok (insert j X) off s"
    using queue_okD(2) [OF q] j(2) by (simp add: counts_ok_def pred_defs)
  ultimately have "queue_ok (insert j X) off s" by (simp add: queue_ok_def)
  moreover have "refs_ok E (insert j X) s" using sokD(4) [OF ok] j unfolding refs_ok_def by auto
  moreover have "uploads_ok E (insert j X) s" using sokD(5) [OF ok] up unfolding uploads_ok_def by blast
  ultimately show ?thesis using ok by (simp add: sok_def)
qed

text \<open>A job in flight is marked invalid before it is freed.\<close>

lemma sok_invalidate:
  assumes ok: "sok E X off s" and j: "j \<in> X"
  shows "sok E (X - {j}) off (upd_job j (\<lambda>x. x\<lparr>r_state := Invalid\<rparr>) s)"
proof -
  let ?s = "upd_job j (\<lambda>x. x\<lparr>r_state := Invalid\<rparr>) s"
  note q = sokD(1) [OF ok] and pl = queue_okD(1) [OF sokD(1) [OF ok]] and r = refs_okD [OF sokD(4) [OF ok]]
  have jl: "j \<in> live_jobs s" using places_okD(2) [OF pl] j by blast
  have nc: "r_state (job_st s j) \<noteq> Copy" by (rule r(8) [OF j])
  have hj: "home (job_st ?s j) = None" by (simp add: home_def)
  have ah: "at_home (X - {j}) ?s p = at_home X s p" for p
    using hj j by (auto simp: at_home_def upd_job_def)
  have ct: "contents ?s p = contents s p" for p by (rule contents_cong) simp_all
  have nj: "j \<notin> contents s p" for p using places_okD(8) [OF pl, of p] j by (auto simp: at_home_def)
  have hk: "hok ?s p" for p
    by (rule hok_cong [OF places_okD(7) [OF pl, of p]]) (use nj [of p] in auto)
  have st: "{k \<in> live_jobs s. r_state (job_st ?s k) \<noteq> Copy} = {k \<in> live_jobs s. r_state (job_st s k) \<noteq> Copy}"
    using nc by auto
  have i: "ids ?s = ids s" by (auto simp: fun_eq_iff)
  have "inj_on (ids ?s) {k \<in> live_jobs ?s. r_state (job_st ?s k) \<noteq> Copy}"
    unfolding i using places_okD(6) [OF pl] st by simp
  then have "places_ok (X - {j}) ?s"
    using pl ah ct hk unfolding places_ok_def by (auto simp: home_def split: if_splits)
  moreover have "counts_ok (X - {j}) off ?s"
    by (rule counts_enter [OF queue_okD(3) [OF q] queue_okD(2) [OF q] j jl, where x = "job_st ?s j"]) (simp_all add: pred_defs upd_job_def)
  ultimately have "queue_ok (X - {j}) off ?s" by (simp add: queue_ok_def)
  moreover have "hash_ok ?s" by (rule hash_ok_cong [OF sokD(3) [OF ok]]) (use nc in \<open>auto simp: oview_upd\<close>)
  moreover have "refs_ok E (X - {j}) ?s" using sokD(4) [OF ok] unfolding refs_ok_def by (auto simp: waiters_def upd_job_def)
  moreover have "uploads_ok E (X - {j}) ?s"
    using sokD(5) [OF ok] unfolding uploads_ok_def by (auto simp: upd_job_def)
  moreover have "soonest_ok E ?s" using sokD(2) [OF ok] soonest_ok_view [of ?s s] by simp
  ultimately show ?thesis using sokD(6) [OF ok] by (simp add: sok_def)
qed


section \<open>Closing a connection\<close>

text \<open>
  A reserved job leaves the list of a connection that is being closed; the counters of reserved jobs are
  decremented only after it has been requeued.
\<close>

lemma sok_leave_late:
  assumes ok: "sok E X off s" and c: "c \<in> E" and j: "j \<in> live_jobs s" "j \<notin> X" "r_state (job_st s j) = Reserved"
    "reserver (job_st s j) = Some c" "j_tube (job_st s j) = Some t"
  shows "sok E (insert j X) (t # off) (snd (list_remove j s))"
proof -
  note q = sokD(1) [OF ok] and pl = queue_okD(1) [OF sokD(1) [OF ok]]
  have hm: "home (job_st s j) = Some (PReserved c)" using j by (simp add: home_def)
  obtain l where l: "list_remove j s = (True, s\<lparr>lists := l\<rparr>)" "places_ok (insert j X) (s\<lparr>lists := l\<rparr>)"
    using list_leave [OF pl j(1,2) hm] by auto
  have "counts_ok (insert j X) (t # off) (s\<lparr>lists := l\<rparr>)"
    by (rule counts_leave [OF queue_okD(3) [OF q] queue_okD(2) [OF q] j(1,2) _ _ refl, where late = True])
      (use j in \<open>auto simp: pred_defs\<close>)
  then have q1: "queue_ok (insert j X) (t # off) (s\<lparr>lists := l\<rparr>)" using l(2) by (simp add: queue_ok_def)
  have "jl_owner (lists s) j = Some (LReserved c)" by (rule owner_of [OF q j(1,2) hm]) simp
  then have l': "jl_items l = (jl_items (lists s))(LReserved c := remove1 j (jl_items (lists s) (LReserved c)))"
    using arg_cong [OF l(1), of "\<lambda>p. jl_items (lists (snd p))"] by (simp add: list_remove_def jl_remove_def)
  have so: "soonest_ok E (s\<lparr>lists := l\<rparr>)"
    using sokD(2) [OF ok] c unfolding soonest_ok_def by (auto simp: l')
  have "moved X s (s\<lparr>lists := l\<rparr>)" by (rule moved_core) simp_all
  then have "sok E (insert j X) (t # off) (s\<lparr>lists := l\<rparr>)"
    by (rule sok_move [OF ok _ q1 so]) (use j in \<open>auto simp: special_def\<close>)
  then show ?thesis using l(1) by simp
qed

lemma sok_pay:
  assumes ok: "sok E X (t # off) s"
  shows "sok E X off (upd_stat t (\<lambda>x. x\<lparr>reserved_ct := reserved_ct x - 1\<rparr>) (upd_global (\<lambda>x. x\<lparr>reserved_ct := reserved_ct x - 1\<rparr>) s))"
    (is "sok E X off ?s")
proof -
  note q = sokD(1) [OF ok]
  have ct: "counts_ok X off ?s"
    by (rule counts_pay [OF queue_okD(2) [OF q]]) (auto simp: upd_stat_def upd_global_def upd_tube_def)
  have "hok ?s p" for p
    by (rule hok_cong [OF places_okD(7) [OF queue_okD(1) [OF q]]]) (auto simp: upd_stat_def)
  moreover have "contents ?s p = contents s p" for p by (rule contents_cong) (auto simp: upd_stat_def)
  moreover have "at_home X ?s p = at_home X s p" for p by (simp add: at_home_def)
  ultimately have "places_ok X ?s" using queue_okD(1) [OF q] unfolding places_ok_def by auto
  then have q1: "queue_ok X off ?s" using ct by (simp add: queue_ok_def)
  have "moved X s ?s" by (rule moved_core) simp_all
  then show ?thesis by (rule sok_move [OF ok _ q1]) (use sokD(2) [OF ok] soonest_ok_view [of ?s s] in auto)
qed

lemma reserved_head:
  assumes ok: "sok E X off s" and l: "jl_items (lists s) (LReserved c) = j # js"
  obtains t where "j \<in> live_jobs s" "j \<notin> X" "r_state (job_st s j) = Reserved" "reserver (job_st s j) = Some c"
    "j_tube (job_st s j) = Some t"
proof -
  have "j \<in> contents s (PReserved c)" using l by simp
  then have "j \<in> at_home X s (PReserved c)" using places_okD(8) [OF queue_okD(1) [OF sokD(1) [OF ok]]] by blast
  then have a: "j \<in> live_jobs s" "j \<notin> X" "r_state (job_st s j) = Reserved" "reserver (job_st s j) = Some c"
    by (auto simp: at_home_def home_def split: jstate.splits)
  then show thesis using that job_has_tube [OF sokD(1) [OF ok] a(1,2)] by auto
qed

lemma sok_enqueue_reserved_loop:
  "sok E X off s \<Longrightarrow> c \<in> E \<Longrightarrow> sok E X off (enqueue_reserved_loop n c s) \<and> oview (enqueue_reserved_loop n c s) = oview s \<and>
     (soonest_job (conn_st s c) = None \<or> n \<noteq> 0 \<and> jl_items (lists s) (LReserved c) \<noteq> [] \<longrightarrow>
        soonest_job (conn_st (enqueue_reserved_loop n c s) c) = None)"
proof (induction n arbitrary: s)
  case (Suc n)
  show ?case
  proof (cases "jl_items (lists s) (LReserved c)")
    case Nil
    then show ?thesis using Suc.prems by simp
  next
    case (Cons j js)
    obtain t where j: "j \<in> live_jobs s" "j \<notin> X" "r_state (job_st s j) = Reserved" "reserver (job_st s j) = Some c"
      "j_tube (job_st s j) = Some t" using reserved_head [OF Suc.prems(1) Cons] .
    define s1 where "s1 = snd (list_remove j s)"
    obtain r s2 where q: "enqueue_job j 0 False s1 = (r, s2)" by (rule prod.exhaust)
    define s3 where "s3 = (if r then s2 else snd (bury_job j False s2))"
    define s5 where "s5 = upd_stat t (\<lambda>x. x\<lparr>reserved_ct := reserved_ct x - 1\<rparr>) (upd_global (\<lambda>x. x\<lparr>reserved_ct := reserved_ct x - 1\<rparr>) s3)"
    define s6 where "s6 = upd_conn c (\<lambda>x. x\<lparr>soonest_job := None\<rparr>) s5"
    have ok1: "sok E (insert j X) (t # off) s1" unfolding s1_def by (rule sok_leave_late [OF Suc.prems j])
    have "sok E X (t # off) s3" using sok_requeue [OF ok1 insertI1 q] insert_minus [OF j(2)] by (simp add: s3_def)
    then have ok5: "sok E X off s5" unfolding s5_def by (rule sok_pay)
    have ok6: "sok E X off s6" unfolding s6_def by (rule sok_upd_closing [OF ok5 Suc.prems(2)])
    have "oview s2 = oview s1" by (rule oview_enqueue_job [OF q])
    then have o3: "oview s3 = oview s" by (simp add: s3_def s1_def)
    then have o6: "oview s6 = oview s" by (simp add: s6_def s5_def oview_upd)
    have t3: "j_tube (job_st s3 j) = Some t" using oviewD(2) [OF o3] j(5) by simp
    have e: "enqueue_reserved_loop (Suc n) c s = enqueue_reserved_loop n c s6"
      using Cons q t3 by (simp add: Let_def s1_def [symmetric] s3_def [symmetric] s5_def s6_def)
    have "soonest_job (conn_st s6 c) = None" by (simp add: s6_def)
    then show ?thesis using Suc.IH [OF ok6 Suc.prems(2)] o6 e by simp
  qed
qed simp


text \<open>
  Closing: the job that was being sent is freed, a copy that was being received is freed, the reserved
  jobs go back to their queues, and nothing refers to the connection any more.
\<close>

lemma sok_conns_remove: "sok E X off s \<Longrightarrow> sok E X off (conns_remove c s)"
  by (erule sok_cframe) (simp add: cframe_def soonest_conns_remove)

lemma conns_remove_conn [simp]:
  "soonest_job (conn_st (conns_remove c s) d) = soonest_job (conn_st s d)" "in_job (conn_st (conns_remove c s) d) = in_job (conn_st s d)"
proof -
  have "sview_conn (conns_remove c s) = sview_conn s"
    by (auto simp: conns_remove_def split: prod.split dest!: sview_heaps(3))
  then show "soonest_job (conn_st (conns_remove c s) d) = soonest_job (conn_st s d)" by (simp add: sview_conn_def fun_eq_iff)
  show "in_job (conn_st (conns_remove c s) d) = in_job (conn_st s d)" using oviewD(14) [OF oc.conns_remove] .
qed

lemma job_free_None [simp]: "job_free None s = s"
  by (simp add: job_free_def)

lemma room_job_free:
  assumes "hash_ok s" "room n s"
  shows "room n (job_free jp s)" "live_conns (job_free jp s) = live_conns s" "next_id (job_free jp s) = next_id s"
proof -
  have "room n (job_free jp s) \<and> live_conns (job_free jp s) = live_conns s \<and> next_id (job_free jp s) = next_id s"
  proof (cases jp)
    case (Some j)
    have h: "ht_ok (ids s) (jobhash s)" using assms(1) by (simp add: hash_ok_def)
    obtain s1 s3 h where e: "rframe s s1" "s3 = s1 \<or> s3 = snd (malloc s1)"
      "job_free (Some j) s = s3\<lparr>job_st := (job_st s)(j := (job_st s j)\<lparr>j_tube := None\<rparr>), jobhash := h, live_jobs := live_jobs s - {j}\<rparr>"
      "r_state (job_st s j) = Copy \<Longrightarrow> h = jobhash s"
      "r_state (job_st s j) \<noteq> Copy \<Longrightarrow> all_jobs_used h \<le> all_jobs_used (jobhash s)"
      by (rule job_free_eq [OF disjI2 [OF h], of j]) blast
    note m = malloc_fields [OF e(2)] and r = rframe_fields [OF e(1)]
    have "all_jobs_used h \<le> all_jobs_used (jobhash s)" using e(4,5) by (cases "r_state (job_st s j) = Copy") auto
    then show ?thesis using assms(2) m r by (simp add: Some e(3) room_def)
  qed (use assms in simp)
  then show "room n (job_free jp s)" "live_conns (job_free jp s) = live_conns s" "next_id (job_free jp s) = next_id s" by blast+
qed

text \<open>A copy that a connection no longer sends.\<close>

lemma sok_free_copy:
  assumes ok: "sok E X off s" and j: "r_state (job_st s j) = Copy"
  shows "sok E X off (job_free (Some j) s)" "conn_st (job_free (Some j) s) = conn_st s"
proof -
  have X: "j \<notin> X" using refs_okD(8) [OF sokD(4) [OF ok]] j by blast
  have up: "in_job (conn_st s c) \<noteq> Some j" if "c \<notin> E" for c
    using sokD(5) [OF ok] that j by (auto simp: uploads_ok_def)
  show "sok E X off (job_free (Some j) s)" "conn_st (job_free (Some j) s) = conn_st s"
    using sok_job_free(1,2) [OF ok X _ up] j by simp_all
qed


lemma sview_job_free:
  assumes "hash_ok s"
  shows "sview_conn (job_free jp s) = sview_conn s"
proof (cases jp)
  case (Some j)
  have h: "ht_ok (ids s) (jobhash s)" using assms by (simp add: hash_ok_def)
  obtain s1 s3 h where e: "rframe s s1" "s3 = s1 \<or> s3 = snd (malloc s1)"
    "job_free (Some j) s = s3\<lparr>job_st := (job_st s)(j := (job_st s j)\<lparr>j_tube := None\<rparr>), jobhash := h, live_jobs := live_jobs s - {j}\<rparr>"
    by (rule job_free_eq [OF disjI2 [OF h], of j]) blast
  show ?thesis
    using malloc_fields(5,6) [OF e(2)] rframe_fields(5,10) [OF e(1)] by (simp add: Some e(3) sview_conn_def)
qed simp

text \<open>The first part of \<open>connclose\<close>: what the connection was sending and receiving.\<close>

definition close_jobs :: "addr \<Rightarrow> server \<Rightarrow> server" where
  "close_jobs c s =
     (let s0 = snd (syscall s);
          s1 = job_free (in_job (conn_st s0 c)) s0;
          s2 = (case out_job (conn_st s1 c) of
                  Some j \<Rightarrow> if r_state (job_st s1 j) = Copy then job_free (Some j) s1 else s1
                | None \<Rightarrow> s1)
      in upd_conn c (\<lambda>x. x\<lparr>in_job := None, out_job := None, in_job_read := 0\<rparr>) s2)"

lemma sok_close_jobs:
  assumes ok: "sok {} X off s" and rm: "room n s"
  shows "sok {c} X off (close_jobs c s)" "room n (close_jobs c s)" "live_conns (close_jobs c s) = live_conns s"
    "sview_conn (close_jobs c s) = sview_conn s" "in_job (conn_st (close_jobs c s) c) = None"
proof -
  define s0 where "s0 = snd (syscall s)"
  have cf: "cframe s s0" unfolding s0_def using cframe_env(2) [OF prod.collapse [symmetric]] .
  have o: "oview s0 = oview s" using cf by (simp add: cframe_def)
  have ok0: "sok {} X off s0" by (rule sok_cframe [OF ok cf])
  define s1 where "s1 = job_free (in_job (conn_st s0 c)) s0"
  have s1: "sok {c} X off s1 \<and> conn_st s1 = conn_st s0"
  proof (cases "in_job (conn_st s0 c)")
    case None
    then show ?thesis using sok_close [OF ok0] by (simp add: s1_def)
  next
    case (Some j)
    have u: "j \<in> live_jobs s0" "j \<notin> X" "r_state (job_st s0 j) = Invalid" "\<And>d. d \<noteq> c \<Longrightarrow> in_job (conn_st s0 d) \<noteq> Some j"
      using sokD(5) [OF ok0] Some unfolding uploads_ok_def by blast+
    show ?thesis using sok_job_free(1,2) [OF sok_close [OF ok0] u(2), of c] u Some by (simp add: s1_def)
  qed
  have r1: "room n s1" "live_conns s1 = live_conns s0" "sview_conn s1 = sview_conn s0"
    using room_job_free [OF sokD(3) [OF ok0], of n "in_job (conn_st s0 c)"] rm room_oview [OF o] sview_job_free [OF sokD(3) [OF ok0]]
    by (simp_all add: s1_def)
  define s2 where "s2 = (case out_job (conn_st s1 c) of
                  Some j \<Rightarrow> if r_state (job_st s1 j) = Copy then job_free (Some j) s1 else s1 | None \<Rightarrow> s1)"
  have s2: "sok {c} X off s2 \<and> room n s2 \<and> live_conns s2 = live_conns s1 \<and> sview_conn s2 = sview_conn s1"
    using s1 r1(1) sok_free_copy(1) [of "{c}" X off s1] room_job_free(1,2) [OF sokD(3), of "{c}" X off s1 n] sview_job_free [OF sokD(3), of "{c}" X off s1]
    by (auto simp: s2_def split: option.split)
  have e: "close_jobs c s = upd_conn c (\<lambda>x. x\<lparr>in_job := None, out_job := None, in_job_read := 0\<rparr>) s2"
    unfolding close_jobs_def Let_def s0_def [symmetric] s1_def [symmetric] s2_def [symmetric] ..
  show "sok {c} X off (close_jobs c s)" unfolding e by (rule sok_upd_closing) (use s2 in simp_all)
  have "sview_conn s0 = sview_conn s" by (simp add: s0_def)
  then show "sview_conn (close_jobs c s) = sview_conn s" using s2 r1 by (simp add: e)
  show "room n (close_jobs c s)" "live_conns (close_jobs c s) = live_conns s" "in_job (conn_st (close_jobs c s) c) = None"
    using s2 r1(2) oviewD(6) [OF o] by (simp_all add: e room_def upd_conn_def)
qed

lemma sok_connclose:
  assumes ok: "sok {} X off s" and rm: "room n s"
  shows "sok {} X off (connclose c s)" "room n (connclose c s)" "live_conns (connclose c s) = live_conns s - {c}"
proof -
  define s3 where "s3 = close_jobs c s"
  note c3 = sok_close_jobs [OF ok rm, of c, folded s3_def]
  define s4 where "s4 = (if type_producer (conn_st s3 c) then s3\<lparr>cur_producer_ct := cur_producer_ct s3 - 1\<rparr> else s3)"
  define s5 where "s5 = (if type_worker (conn_st s4 c) then s4\<lparr>cur_worker_ct := cur_worker_ct s4 - 1\<rparr> else s4)"
  define s6 where "s6 = s5\<lparr>cur_conn_ct := cur_conn_ct s5 - 1\<rparr>"
  have r6: "rframe s3 s6"
    unfolding s6_def s5_def s4_def
    by (auto intro!: rframe_trans [OF _ rframe_conn_cts(2)] rframe_trans [OF _ rframe_conn_cts(4)] rframe_conn_cts(3,4))
  note f6 = rframe_fields [OF r6] and ok6 = sok_rframe [OF c3(1) r6]
  have v6: "sview_conn s6 = sview_conn s" using c3(4) f6(5,10) by (simp add: sview_conn_def)
  define s7 where "s7 = remove_waiting_conn c s6"
  have cf7: "cframe s6 s7" by (simp add: s7_def)
  have o7: "oview s7 = oview s6" using cf7 by (simp add: cframe_def)
  have ok7: "sok {c} X off s7" by (rule sok_cframe [OF ok6 cf7])
  have so7: "soonest_ok {} s7"
    using sokD(2) [OF ok] soonest_ok_view [OF v6] cf7 by (simp add: cframe_def)
  define s8 where "s8 = (if has_reserved_job c s7 then enqueue_reserved_jobs c s7 else s7)"
  have s8: "sok {c} X off s8 \<and> oview s8 = oview s7 \<and> soonest_job (conn_st s8 c) = None"
  proof (cases "has_reserved_job c s7")
    case True
    then show ?thesis
      using sok_enqueue_reserved_loop [OF ok7, of c "length (jl_items (lists s7) (LReserved c))"]
      by (simp add: s8_def enqueue_reserved_jobs_def has_reserved_job_def jl_is_empty_def)
  next
    case False
    then have "jl_items (lists s7) (LReserved c) = []" by (simp add: has_reserved_job_def jl_is_empty_def)
    then have "soonest_job (conn_st s7 c) \<noteq> Some j" for j using so7 unfolding soonest_ok_def by fastforce
    then have "soonest_job (conn_st s7 c) = None" by (cases "soonest_job (conn_st s7 c)") auto
    then show ?thesis using False ok7 by (simp add: s8_def)
  qed
  have i8: "in_job (conn_st s8 c) = None" using s8 oviewD(14) [of s8 s6 c] o7 f6(5) c3(5) by simp
  obtain w s9 where cl: "ms_clear (Some on_ignore) (watch (conn_st s8 c)) s8 = (w, s9)" by (rule prod.exhaust)
  have r9: "rframe s8 s9" by (rule rframe_clear [OF cl])
  define s10 where "s10 = upd_conn c (\<lambda>x. x\<lparr>watch := w\<rparr>) s9"
  have ok10: "sok {c} X off s10" unfolding s10_def by (rule sok_upd_closing [OF sok_rframe [OF _ r9]]) (use s8 in simp_all)
  define s11 where "s11 = upd_tube (the (c_use (conn_st s10 c))) (\<lambda>x. x\<lparr>using_ct := using_ct x - 1\<rparr>) s10"
  define s12 where "s12 = tube_dref (c_use (conn_st s11 c)) s11"
  have r12: "rframe s10 s12" unfolding s12_def s11_def by (rule rframe_trans [OF rframe_counts(1) rframe_refs(2)])
  define s13 where "s13 = upd_conn c (\<lambda>x. x\<lparr>c_use := None\<rparr>) s12"
  have ok13: "sok {c} X off s13" unfolding s13_def by (rule sok_upd_closing [OF sok_rframe [OF ok10 r12]]) simp
  define s14 where "s14 = (if in_conns (conn_st s13 c) then conns_remove c s13 else s13)"
  have ok14: "sok {c} X off s14" using ok13 sok_conns_remove by (simp add: s14_def)
  have e: "connclose c s = s14\<lparr>live_conns := live_conns s14 - {c}\<rparr>"
    unfolding connclose_def Let_def close_jobs_def [unfolded Let_def, symmetric] s3_def [symmetric] s4_def [symmetric]
      s5_def [symmetric] s6_def [symmetric] s7_def [symmetric] s8_def [symmetric] cl prod.case s10_def [symmetric]
      s11_def [symmetric] s12_def [symmetric] tube_iref_def option.case s13_def [symmetric] s14_def [symmetric] ..
  have n: "soonest_job (conn_st s14 c) = None" "in_job (conn_st s14 c) = None"
    using s8 i8 rframe_fields(5) [OF r9] rframe_fields(5) [OF r12] by (simp_all add: s14_def s13_def s10_def)
  show "sok {} X off (connclose c s)" unfolding e by (rule sok_closed [OF ok14 _ n]) simp
  have "oview s14 = oview s13" by (simp add: s14_def)
  note o14 = oviewD(6,7,8) [OF this] and o8 = oviewD(6,7,8) [of s8 s6]
  have "live_conns s14 = live_conns s" "jobhash s14 = jobhash s3" "next_id s14 = next_id s3"
    using o14 rframe_fields(2,3,6) [OF r12] rframe_fields(2,3,6) [OF r9] s8 o7 o8 f6(2,3,6) c3(3)
    by (simp_all add: s13_def s10_def upd_conn_def)
  then show "room n (connclose c s)" "live_conns (connclose c s) = live_conns s - {c}"
    using c3(2) by (simp_all add: e room_def)
qed

end
