(* ===== verification/Bean_Commands.thy ===== *)
theory Bean_Commands
  imports Bean_Moves
begin

text \<open>
  Every command of the protocol preserves the invariant of the server, whatever its arguments: each
  definition of \<open>Bean_Dispatch\<close> keeps \<open>cok\<close>, which says that the server is well formed with no job in flight,
  that there is room for more jobs, and that the connection the command came from is open.
\<close>

section \<open>The invariant between commands\<close>

definition cok :: "nat \<Rightarrow> addr \<Rightarrow> server \<Rightarrow> bool" where
  "cok n c s \<longleftrightarrow> sok {} {} [] s \<and> room n s \<and> c \<in> live_conns s"

lemma cokD:
  assumes "cok n c s"
  shows "sok {} {} [] s" "room n s" "c \<in> live_conns s" "c < brk s" "\<exists>t. c_use (conn_st s c) = Some t \<and> t < brk s"
  using assms refs_okD(5,6) [OF sokD(4), of "{}" "{}" "[]" s c] by (auto simp: cok_def)

lemma cok_oview: "sok {} {} [] s' \<Longrightarrow> oview s' = oview s \<Longrightarrow> cok n c s \<Longrightarrow> cok n c s'"
  using oviewD(6) [of s' s] room_oview [of s' s] by (simp add: cok_def)

lemma cok_cframe:
  assumes "cok n c s" "cframe s s'"
  shows "cok n c s'"
proof (rule cok_oview [OF _ _ assms(1)])
  show "sok {} {} [] s'" by (rule sok_cframe [OF cokD(1) [OF assms(1)] assms(2)])
  show "oview s' = oview s" using assms(2) by (simp add: cframe_def)
qed

lemma cok_rframe: "cok n c s \<Longrightarrow> rframe s s' \<Longrightarrow> cok n c s'"
  using sok_rframe rframe_fields(6,11) unfolding cok_def by blast

lemma cok_replies [simp]:
  assumes "cok n c s"
  shows "cok n c (reply d line st s)" "cok n c (reply_msg d m s)" "cok n c (reply_line d st line s)" "cok n c (reply_job d j m s)"
    "cok n c (connsetworker d s)" "cok n c (connsetproducer d s)" "cok n c (remove_waiting_conn d s)" "cok n c (connsched d s)"
    "cok n c (epollq_add d rw s)"
  by (rule cok_cframe [OF assms], simp)+

lemma cok_upd_conn:
  assumes "cok n c s"
    "soonest_job (f (conn_st s d)) \<in> {soonest_job (conn_st s d), None}" "in_job (f (conn_st s d)) \<in> {in_job (conn_st s d), None}"
    "c_use (f (conn_st s d)) = c_use (conn_st s d) \<or> (\<exists>t. c_use (f (conn_st s d)) = Some t \<and> t < brk s)"
  shows "cok n c (upd_conn d f s)"
  using sok_upd_conn [OF cokD(1) [OF assms(1)], of f d] assms by (simp add: cok_def room_def upd_conn_def)

lemma cok_upd_job_other:
  assumes "cok n c s" "core (f (job_st s j)) = core (job_st s j)" "heap_index (f (job_st s j)) = heap_index (job_st s j)"
  shows "cok n c (upd_job j f s)"
  using sok_upd_job_other [OF cokD(1) [OF assms(1)], of f j] assms by (simp add: cok_def room_def upd_job_def)

lemma cok_count_op [simp]: "cok n c s \<Longrightarrow> cok n c (count_op p s)"
  unfolding count_op_def by (erule cok_rframe) (rule rframe_conn_cts)

lemma count_op_fields [simp]:
  "conn_st (count_op p s) = conn_st s" "job_st (count_op p s) = job_st s" "tube_st (count_op p s) = tube_st s" "tubes (count_op p s) = tubes s"
  "live_jobs (count_op p s) = live_jobs s" "lists (count_op p s) = lists s" "jobhash (count_op p s) = jobhash s" "brk (count_op p s) = brk s"
  "job_data_size_limit (count_op p s) = job_data_size_limit s" "oview (count_op p s) = oview s"
  by (simp_all add: count_op_def)

lemma cok_process_queue: "cok n c s \<Longrightarrow> cok n c (process_queue s)"
  using cok_oview [OF sok_process_queue [OF cokD(1) [of n c s]] oview_process_queue] by simp

section \<open>Finding jobs\<close>

lemma find_job_live:
  assumes "sok E X off s" "find_job s k = Some j"
  shows "j \<in> live_jobs s" "r_state (job_st s j) \<noteq> Copy" "r_id (job_st s j) = k"
  using assms job_find_iff [of "ids s" "jobhash s" k j] sokD(3) [OF assms(1)] by (auto simp: find_job_def hash_ok_def)

lemma ready_root:
  assumes ok: "sok E X off s" and b: "heap_len (ready (tube_st s t)) \<noteq> 0"
  shows "heap_data (ready (tube_st s t)) ! 0 \<in> live_jobs s" "r_state (job_st s (heap_data (ready (tube_st s t)) ! 0)) = Ready"
proof -
  have "jready.heap_ok (ready (tube_st s t)) s" using places_okD(7) [OF queue_okD(1) [OF sokD(1) [OF ok]], of "PReady t"] by simp
  then have "heap_data (ready (tube_st s t)) ! 0 \<in> contents s (PReady t)"
    using b by (auto simp: heap_elems_def jready.heap_ok_def heap_wf_def in_set_conv_nth)
  then have "heap_data (ready (tube_st s t)) ! 0 \<in> at_home X s (PReady t)"
    using places_okD(8) [OF queue_okD(1) [OF sokD(1) [OF ok]]] by blast
  then show "heap_data (ready (tube_st s t)) ! 0 \<in> live_jobs s" "r_state (job_st s (heap_data (ready (tube_st s t)) ! 0)) = Ready"
    by (auto simp: at_home_def home_def split: jstate.splits)
qed

section \<open>The body of a put\<close>

lemma cok_fill [simp]:
  assumes "cok n c s"
  shows "cok n c (fill_extra_data d s)"
proof (cases "sock_fd (conn_st s d) = 0 \<or> cmd_len (conn_st s d) = 0")
  case True
  then show ?thesis using assms by (auto simp: fill_extra_data_def Let_def)
next
  case False
  define s1 where "s1 = snd (case in_job (conn_st s d) of
       Some j \<Rightarrow>
         let k = min (int (length (c_cmd (conn_st s d))) - int (cmd_len (conn_st s d))) (r_body_size (job_st s j))
         in (k, upd_conn d (\<lambda>y. y\<lparr>in_job_read := k\<rparr>)
                  (upd_job j (\<lambda>y. y\<lparr>body := take (nat k) (drop (cmd_len (conn_st s d)) (c_cmd (conn_st s d))) @ drop (nat k) (body y)\<rparr>) s))
     | None \<Rightarrow>
         if in_job_read (conn_st s d) \<noteq> 0
         then let k = min (int (length (c_cmd (conn_st s d))) - int (cmd_len (conn_st s d))) (in_job_read (conn_st s d))
              in (k, upd_conn d (\<lambda>y. y\<lparr>in_job_read := in_job_read y - k\<rparr>) s)
         else (0, s))"
  have "cok n c s1"
    unfolding s1_def using assms
    by (auto simp: Let_def core_def split: option.split intro!: cok_upd_conn cok_upd_job_other)
  moreover obtain k where "fill_extra_data d s = upd_conn d (\<lambda>y. y\<lparr>c_cmd := drop k (c_cmd (conn_st s d)), cmd_len := 0\<rparr>) s1"
    using False by (simp add: fill_extra_data_def s1_def Let_def case_prod_beta)
  ultimately show ?thesis by (simp add: cok_upd_conn)
qed

lemma fill_in_job [simp]: "in_job (conn_st (fill_extra_data d s) c) = in_job (conn_st s c)"
  by (simp add: fill_extra_data_def Let_def case_prod_beta split: option.split)

lemma cok_skip [simp]:
  assumes "cok n c s"
  shows "cok n c (skip d k msg s)"
proof -
  have "cok n c (fill_extra_data d (upd_conn d (\<lambda>x. x\<lparr>in_job := None, in_job_read := k\<rparr>) s))"
    by (rule cok_fill, rule cok_upd_conn [OF assms]) simp_all
  then show ?thesis by (simp add: skip_def Let_def cok_upd_conn)
qed


lemma cok_job_free:
  assumes "cok n c s" "j \<in> live_jobs s" "r_state (job_st s j) = Invalid" "\<And>d. in_job (conn_st s d) \<noteq> Some j"
  shows "cok n c (job_free (Some j) s)"
  using sok_job_free(1) [OF cokD(1) [OF assms(1)], of j] room_job_free [OF sokD(3) [OF cokD(1) [OF assms(1)]], of n "Some j"] assms
  by (simp add: cok_def)

lemma upload_of:
  assumes "sok {} {} [] s" "in_job (conn_st s c) = Some j"
  obtains t where "j \<in> live_jobs s" "r_state (job_st s j) = Invalid" "j_tube (job_st s j) = Some t" "\<And>d. d \<noteq> c \<Longrightarrow> in_job (conn_st s d) \<noteq> Some j"
  using sokD(5) [OF assms(1)] assms(2) unfolding uploads_ok_def by blast

lemma rframe_total_jobs:
  "rframe s (upd_stat t (\<lambda>x. x\<lparr>total_jobs_ct := f x\<rparr>) (upd_global (\<lambda>x. x\<lparr>total_jobs_ct := g x\<rparr>) s))"
  "rframe s (upd_stat t (\<lambda>x. x\<lparr>total_delete_ct := f x\<rparr>) s)" "rframe s (upd_stat t (\<lambda>x. x\<lparr>pause_ct := f x\<rparr>) s)"
  by (rule rframe_trans [OF rframe_global rframe_stat] rframe_stat, simp_all add: sview_def)+

lemma oview_total_jobs [simp]:
  "oview (upd_stat t (\<lambda>x. x\<lparr>total_jobs_ct := f x\<rparr>) (upd_global (\<lambda>x. x\<lparr>total_jobs_ct := g x\<rparr>) s)) = oview s"
  by simp

lemma cok_enqueue_incoming:
  assumes ok: "cok n c s" and j: "in_job (conn_st s d) = Some j"
  shows "cok n c (enqueue_incoming_job d s)"
proof -
  obtain t where u: "j \<in> live_jobs s" "r_state (job_st s j) = Invalid" "j_tube (job_st s j) = Some t"
    "\<And>e. e \<noteq> d \<Longrightarrow> in_job (conn_st s e) \<noteq> Some j" by (rule upload_of [OF cokD(1) [OF ok] j]) blast
  define s1 where "s1 = upd_conn d (\<lambda>x. x\<lparr>in_job := None, in_job_read := 0\<rparr>) s"
  have ok1: "cok n c s1" unfolding s1_def by (rule cok_upd_conn [OF ok]) simp_all
  have f1: "job_st s1 = job_st s" "live_jobs s1 = live_jobs s" "in_job (conn_st s1 e) \<noteq> Some j" for e
    using u(4) by (auto simp: s1_def upd_conn_def)
  have free: "cok n c (reply_msg d m (job_free (Some j) s1))" for m
    by (rule cok_replies, rule cok_job_free [OF ok1]) (use u f1 in auto)
  define s3 where "s3 = upd_job j (\<lambda>x. x\<lparr>walresv := 1\<rparr>) s1"
  have ok3: "cok n c s3" unfolding s3_def by (rule cok_upd_job_other [OF ok1]) (simp_all add: core_def)
  have "sok {} {j} [] s3"
    by (rule sok_take_upload [OF cokD(1) [OF ok3]]) (use u f1 in \<open>simp_all add: s3_def upd_job_def\<close>)
  note ok4 = this
  obtain r s4 where q: "enqueue_job j (r_delay (job_st s3 j)) True s3 = (r, s4)" by (rule prod.exhaust)
  define s6 where "s6 = upd_stat (the (j_tube (job_st s4 j))) (\<lambda>x. x\<lparr>total_jobs_ct := total_jobs_ct x + 1\<rparr>)
      (upd_global (\<lambda>x. x\<lparr>total_jobs_ct := total_jobs_ct x + 1\<rparr>) s4)"
  have e4: "sok {} (if r then {} else {j}) [] s4" using sok_enqueue(1) [OF ok4 singletonI q] by (cases r) simp_all
  have e6: "sok {} (if r then {} else {j}) [] s6" unfolding s6_def by (rule sok_rframe [OF e4 rframe_total_jobs(1)])
  have o6: "oview s6 = oview s3" using oview_enqueue_job [OF q] by (simp add: s6_def)
  have "sok {} {} [] (snd (bury_job j False s6))" if "\<not> r" using sok_bury_job(2) [of "{}" "{j}" "[]" s6 j False] e6 that by simp
  then have fin: "cok n c (if r then s6 else snd (bury_job j False s6))"
    using cok_oview [OF _ _ ok3, of s6] cok_oview [OF _ _ ok3, of "snd (bury_job j False s6)"] e6 o6 by (cases r) simp_all
  have w: "walresvput j s1 = (1, s1)" by (rule wal_off [OF sokD(6) [OF cokD(1) [OF ok1]]])
  have g: "job_st (upd_global g s4) = job_st s4" for g by (simp add: upd_global_def)
  show ?thesis
    unfolding enqueue_incoming_job_def Let_def j option.sel s1_def [symmetric] w prod.case s3_def [symmetric] q g s6_def [symmetric]
    using free ok1 fin by (auto split: if_splits)
qed

lemma cok_maybe_enqueue:
  assumes "cok n c s" "in_job (conn_st s d) = Some j"
  shows "cok n c (maybe_enqueue_incoming_job d s)"
  using cok_enqueue_incoming [OF assms] cok_upd_conn [OF assms(1)] by (simp add: maybe_enqueue_incoming_job_def Let_def)

text \<open>A new job starts its upload.\<close>

lemma sok_start_upload:
  assumes ok: "sok {} X off s" and j: "j \<in> live_jobs s" "r_state (job_st s j) = Invalid" "j_tube (job_st s j) = Some t" "j \<notin> X"
    and up: "\<And>d. in_job (conn_st s d) \<noteq> Some j"
  shows "sok {} X off (upd_conn c (\<lambda>x. x\<lparr>in_job := Some j\<rparr>) s)"
proof -
  let ?s = "upd_conn c (\<lambda>x. x\<lparr>in_job := Some j\<rparr>) s"
  have q: "qview ?s = qview s" by (simp add: qview_def upd_conn_def)
  have "hash_ok ?s" using sokD(3) [OF ok] by (simp add: hash_ok_def upd_conn_def)
  moreover have "refs_ok {} X ?s" using sokD(4) [OF ok] unfolding refs_ok_def by (auto simp: upd_conn_def waiters_def)
  moreover have "uploads_ok {} X ?s"
    using sokD(5) [OF ok] up j unfolding uploads_ok_def by (auto simp: upd_conn_def split: if_splits)
  moreover have "soonest_ok {} ?s" using sokD(2) [OF ok] soonest_ok_view [of ?s s] by simp
  ultimately show ?thesis using queue_view [OF q sokD(1) [OF ok]] sokD(6) [OF ok] by (simp add: sok_def)
qed

lemma cok_put:
  assumes ok: "cok (Suc n) c s"
  shows "cok n c (do_put c line s)"
proof -
  have okn: "cok n c s" using ok room_less by (auto simp: cok_def)
  show ?thesis
  proof (cases "read_put_args (drop 4 line)")
    case None
    then show ?thesis using okn by (simp add: do_put_def)
  next
    case (Some a)
    obtain pri dly ttr body_size end_buf where a: "a = (pri, dly, ttr, body_size, end_buf)" by (metis prod_cases5)
    define s2 where "s2 = connsetproducer c (count_op OP_PUT s)"
    define ttr' where "ttr' = (if ttr < 1000000000 then 1000000000 else ttr)"
    have ok2: "cok (Suc n) c s2" using ok by (simp add: s2_def)
    obtain t where t: "c_use (conn_st s2 c) = Some t" "t < brk s2" using cokD(5) [OF ok2] by blast
    obtain jo s3 where m: "make_job pri dly ttr' (sint (body_size + 2)) (c_use (conn_st s2 c)) s2 = (jo, s3)" by (rule prod.exhaust)
    note mj = sok_make_job [OF cokD(1,2) [OF ok2] t(2) m [unfolded t(1)]]
    have ok3: "cok n c s3" using mj(1,2,4) cokD(3) [OF ok2] by (simp add: cok_def)
    define s4 where "s4 = upd_conn c (\<lambda>x. x\<lparr>in_job := jo\<rparr>) s3"
    have ok4: "cok n c s4"
    proof (cases jo)
      case None
      then show ?thesis unfolding s4_def using cok_upd_conn [OF ok3] by simp
    next
      case (Some j)
      have "sok {} {} [] s4" unfolding s4_def Some
        by (rule sok_start_upload [OF mj(1)]) (use mj(3,5) Some in auto)
      then show ?thesis using ok3 by (simp add: cok_def s4_def room_def upd_conn_def)
    qed
    have fin: "cok n c (maybe_enqueue_incoming_job c (fill_extra_data c s4))" if "jo = Some j" for j
      by (rule cok_maybe_enqueue [of _ _ _ _ j]) (use ok4 that in \<open>simp_all add: s4_def\<close>)
    show ?thesis
      unfolding do_put_def Some a option.case prod.case Let_def s2_def [symmetric] ttr'_def [symmetric] m s4_def [symmetric]
      using okn ok4 fin by (auto split: if_splits)
  qed
qed


section \<open>Peeking\<close>

lemma cok_peek_reply:
  assumes ok: "cok n c s" and j: "\<And>j. jp = Some j \<Longrightarrow> j \<in> live_jobs s"
  shows "cok n c (peek_reply d jp s)"
proof (cases jp)
  case None
  then show ?thesis using ok by (simp add: peek_reply_def job_copy_def)
next
  case (Some j)
  obtain jo s1 where e: "job_copy (Some j) s = (jo, s1)" by (rule prod.exhaust)
  note jc = sok_job_copy [OF cokD(1) [OF ok] j [OF Some] e]
  have "cok n c s1" using jc(1,2,4) ok by (simp add: cok_def)
  then show ?thesis using Some e by (simp add: peek_reply_def split: option.split)
qed

lemma cok_peeks:
  assumes ok: "cok n c s"
  shows "cok n c (do_peek_ready c line s)" "cok n c (do_peek_delayed c line s)" "cok n c (do_peek_buried c line s)"
    "cok n c (do_peekjob c line s)"
proof -
  have ok1: "cok n c (count_op p s)" for p using ok by simp
  show "cok n c (do_peek_ready c line s)" "cok n c (do_peek_delayed c line s)" "cok n c (do_peek_buried c line s)"
    "cok n c (do_peekjob c line s)"
    unfolding do_peek_ready_def do_peek_delayed_def do_peek_buried_def do_peekjob_def Let_def
    using ok ready_root(1) [OF cokD(1) [OF ok]] delayed_root(1) [OF cokD(1) [OF ok]]
      buried_head(1) [OF cokD(1) [OF ok1 [of OP_PEEK_BURIED]]] find_job_live(1) [OF cokD(1) [OF ok1 [of OP_PEEKJOB]]]
    by (auto intro!: cok_peek_reply split: option.split prod.split if_splits)
qed

section \<open>Reserving\<close>

lemma wait_tube_conns [simp]: "conn_st (wait_tube c t s) = conn_st s"
  by (auto simp: wait_tube_def Let_def split: prod.split dest!: ms_append_frame)

lemma enqueue_waiting_conns: "conn_st (enqueue_waiting_conn c s) = (conn_st s)(c := (conn_st s c)\<lparr>type_waiting := True\<rparr>)"
proof -
  have "conn_st (fold (wait_tube c) ts u) = conn_st u" for ts u by (induction ts arbitrary: u) simp_all
  then show ?thesis by (simp add: enqueue_waiting_conn_def Let_def)
qed

lemma cok_enqueue_waiting:
  assumes ok: "cok n c s" and d: "d < brk s"
  shows "cok n c (enqueue_waiting_conn d s)"
proof (rule cok_oview [OF _ _ ok])
  let ?s = "enqueue_waiting_conn d s"
  have w: "waiters ?s \<subseteq> {d} \<union> waiters s"
  proof -
    have "waiters (fold (wait_tube d) ts s') \<subseteq> {d} \<union> waiters s'" for ts s'
      by (rule waiters_fold) (rule waiters_wait)
    then show ?thesis by (simp add: enqueue_waiting_conn_def Let_def) (metis waiters_upds(1,7))
  qed
  show o: "oview ?s = oview s" by simp
  note r = refs_okD [OF sokD(4) [OF cokD(1) [OF ok]]]
  show "sok {} {} [] ?s"
  proof (rule sok_cong [OF cokD(1) [OF ok]])
    show "qview ?s = qview s" by simp
    show "wal ?s = wal s" using kviewD(6) [of ?s s] by simp
    show "e < brk s" if "e \<in> waiters ?s" for e using that w r(3) d by auto
    show "u < brk s" if "u \<in> set (ms_items (tubes ?s))" for u using that r(4) oviewD(9) [OF o] by simp
    show "e \<in> live_conns s \<and> (e \<notin> {} \<longrightarrow> (\<exists>t. c_use (conn_st ?s e) = Some t \<and> t < brk s))" if "e \<in> live_conns ?s" for e
      using that r(6) [of e] oviewD(6,13) [OF o] by simp
  qed (use oviewD [OF o] in \<open>simp_all add: enqueue_waiting_conns\<close>)
qed

lemma cok_wait_for_job:
  assumes ok: "cok n c s" and d: "d < brk s"
  shows "cok n c (wait_for_job d timeout s)"
proof -
  have "cok n c (upd_conn d (\<lambda>x. x\<lparr>c_state := STATE_WAIT\<rparr>) s)" using ok by (simp add: cok_upd_conn)
  then have "cok n c (enqueue_waiting_conn d (upd_conn d (\<lambda>x. x\<lparr>c_state := STATE_WAIT\<rparr>) s))"
    by (rule cok_enqueue_waiting) (use d in \<open>simp add: upd_conn_def\<close>)
  then show ?thesis by (simp add: wait_for_job_def Let_def cok_upd_conn)
qed

lemma cok_do_reserve:
  assumes ok: "cok n c s"
  shows "cok n c (do_reserve p timeout c s)"
proof -
  define s1 where "s1 = connsetworker c (count_op p s)"
  have ok1: "cok n c s1" using ok by (simp add: s1_def)
  obtain b s2 where e: "conndeadlinesoon c s1 = (b, s2)" by (rule prod.exhaust)
  have ok2: "cok n c s2" by (rule cok_cframe [OF ok1 cframe_deadlinesoon [OF e]])
  have "cok n c (process_queue (wait_for_job c timeout s2))"
    by (rule cok_process_queue [OF cok_wait_for_job [OF ok2 cokD(4) [OF ok2]]])
  then show ?thesis using ok2 e by (simp add: do_reserve_def Let_def s1_def [symmetric])
qed

lemma cok_reserves:
  assumes ok: "cok n c s"
  shows "cok n c (do_reserve_forever c line s)" "cok n c (do_reserve_timeout c line s)"
  using ok cok_do_reserve [OF ok] by (auto simp: do_reserve_forever_def do_reserve_timeout_def split: option.split)

text \<open>A job is taken out of the queue its state names.\<close>

lemma sok_remove_any:
  assumes ok: "sok E X off s" and j: "j \<in> live_jobs s" "j \<notin> X" "r_state (job_st s j) \<in> {Ready, Buried, Delayed}"
  obtains s' where "(if r_state (job_st s j) = Ready then remove_ready_job (Some j) s
      else if r_state (job_st s j) = Buried then remove_buried_job (Some j) s else remove_delayed_job (Some j) s) = (Some j, s')"
    "sok E (insert j X) off s'" "oview s' = oview s"
proof -
  consider "r_state (job_st s j) = Ready" | "r_state (job_st s j) = Buried" | "r_state (job_st s j) = Delayed" using j(3) by blast
  then show thesis
  proof cases
    case 1
    obtain s' where "remove_ready_job (Some j) s = (Some j, s')" "sok E (insert j X) off s'"
      using sok_remove_ready [OF ok j(1,2) 1] by metis
    then show thesis using that 1 oview_removes(1) by simp
  next
    case 2
    obtain s' where "remove_buried_job (Some j) s = (Some j, s')" "sok E (insert j X) off s'"
      using sok_remove_buried [OF ok j(1,2) 2] by metis
    then show thesis using that 2 oview_removes(2) by simp
  next
    case 3
    then show thesis using that [of "delay_remove j s"] sok_remove_delayed(1) [OF ok j(1,2) 3] by (simp add: remove_delayed_job_def)
  qed
qed

lemma cok_reserve_job:
  assumes ok: "cok n c s"
  shows "cok n c (do_reserve_job c line s)"
proof (cases "read_u64 True (arg_of OP_RESERVE_JOB line)")
  case None
  then show ?thesis using ok by (simp add: do_reserve_job_def)
next
  case (Some a)
  obtain k rest where a: "a = (k, rest)" by (rule prod.exhaust)
  define s1 where "s1 = count_op OP_RESERVE_JOB s"
  have ok1: "cok n c s1" using ok by (simp add: s1_def)
  show ?thesis
  proof (cases "find_job s1 k")
    case None
    then show ?thesis using Some a ok1 by (simp add: do_reserve_job_def Let_def s1_def [symmetric])
  next
    case f: (Some j)
    note fl = find_job_live [OF cokD(1) [OF ok1] f]
    show ?thesis
    proof (cases "r_state (job_st s1 j) \<in> {Ready, Buried, Delayed}")
      case False
      then have "r_state (job_st s1 j) = Reserved \<or> r_state (job_st s1 j) = Invalid"
        using fl(2) by (cases "r_state (job_st s1 j)") auto
      then show ?thesis using Some a f ok1 by (auto simp: do_reserve_job_def Let_def s1_def [symmetric])
    next
      case True
      obtain s2 where r: "(if r_state (job_st s1 j) = Ready then remove_ready_job (Some j) s1
          else if r_state (job_st s1 j) = Buried then remove_buried_job (Some j) s1 else remove_delayed_job (Some j) s1) = (Some j, s2)"
        "sok {} {j} [] s2" "oview s2 = oview s1"
        using sok_remove_any [OF cokD(1) [OF ok1] fl(1) _ True] by auto
      define s3 where "s3 = connsetworker c s2"
      have ok3: "sok {} {j} [] s3" unfolding s3_def by (rule sok_cframe [OF r(2)]) simp
      have o3: "oview s3 = oview s1" using r(3) by (simp add: s3_def)
      have "c < brk s3" using cokD(4) [OF ok1] oviewD(4) [OF o3] by simp
      note rs = sok_reserve(1) [OF ok3 singletonI this cframe_refl]
      have "cok n c (conn_reserve_job c j (upd_global (\<lambda>x. x\<lparr>reserved_ct := reserved_ct x + 1\<rparr>) s3))"
        by (rule cok_oview [OF _ _ ok1]) (use rs o3 in simp_all)
      then show ?thesis
        using Some a f True r(1) fl(2)
        by (auto simp: do_reserve_job_def Let_def s1_def [symmetric] s3_def [symmetric])
    qed
  qed
qed


section \<open>Deleting, releasing, burying\<close>

lemma remove_reserved_cases:
  assumes ok: "sok E X off s" and X: "X = {}" and jf: "\<And>j. jp = Some j \<Longrightarrow> j \<in> live_jobs s"
  obtains "remove_reserved_job c jp s = (None, s)" "\<And>j. jp = Some j \<Longrightarrow> \<not> (r_state (job_st s j) = Reserved \<and> reserver (job_st s j) = Some c)"
  | j s' where "jp = Some j" "remove_reserved_job c jp s = (Some j, s')" "sok E {j} off s'" "oview s' = oview s" "r_state (job_st s j) = Reserved"
proof (cases "is_job_reserved_by_conn c jp s")
  case False
  then show thesis using that(1) by (cases jp) (auto simp: remove_reserved_job_def is_job_reserved_by_conn_def)
next
  case True
  then obtain j where j: "jp = Some j" "r_state (job_st s j) = Reserved" "reserver (job_st s j) = Some c"
    by (auto simp: is_job_reserved_by_conn_def split: option.splits)
  obtain s' where s': "remove_this_reserved_job c j s = (Some j, s')" "sok E (insert j X) off s'"
    using sok_remove_reserved [OF ok jf [OF j(1)] _ j(2,3)] X by auto
  then show thesis using that(2) [of j s'] j True X oview_removes(4) [OF s'(1)] by (simp add: remove_reserved_job_def)
qed

text \<open>The search of \<open>delete\<close> through the queues.\<close>

definition take_job :: "addr \<Rightarrow> addr option \<Rightarrow> server \<Rightarrow> addr option \<times> server" where
  "take_job c jf s =
     (let (j1, s2) = remove_reserved_job c jf s;
          (j2, s3) = (if j1 = None then remove_ready_job jf s2 else (j1, s2));
          (j3, s4) = (if j2 = None then remove_buried_job jf s3 else (j2, s3))
      in (if j3 = None then remove_delayed_job jf s4 else (j3, s4)))"

lemma take_job_cases:
  assumes ok: "sok E {} off s" and jf: "\<And>j. jp = Some j \<Longrightarrow> j \<in> live_jobs s"
  obtains "take_job c jp s = (None, s)" "\<And>j. jp = Some j \<Longrightarrow> r_state (job_st s j) \<notin> {Ready, Buried, Delayed}"
      "\<And>j. jp = Some j \<Longrightarrow> \<not> (r_state (job_st s j) = Reserved \<and> reserver (job_st s j) = Some c)"
  | j s' where "jp = Some j" "take_job c jp s = (Some j, s')" "sok E {j} off s'" "oview s' = oview s"
proof (rule remove_reserved_cases [OF ok refl jf, where c = c])
  assume n: "remove_reserved_job c jp s = (None, s)" and o: "\<And>j. jp = Some j \<Longrightarrow> \<not> (r_state (job_st s j) = Reserved \<and> reserver (job_st s j) = Some c)"
  show thesis
  proof (cases jp)
    case None
    then show thesis using that(1) n o by (simp add: take_job_def remove_ready_job_def remove_buried_job_def remove_delayed_job_def)
  next
    case (Some j)
    have k: "remove_ready_job (Some j) s = (None, s)" if "r_state (job_st s j) \<noteq> Ready" using that by (simp add: remove_ready_job_def)
    have b: "remove_buried_job (Some j) s = (None, s)" if "r_state (job_st s j) \<noteq> Buried" using that by (simp add: remove_buried_job_def)
    have d: "remove_delayed_job (Some j) s = (None, s)" if "r_state (job_st s j) \<noteq> Delayed" using that by (simp add: remove_delayed_job_def)
    show thesis
    proof (cases "r_state (job_st s j) \<in> {Ready, Buried, Delayed}")
      case True
      obtain s' where "(if r_state (job_st s j) = Ready then remove_ready_job (Some j) s
          else if r_state (job_st s j) = Buried then remove_buried_job (Some j) s else remove_delayed_job (Some j) s) = (Some j, s')"
        "sok E {j} off s'" "oview s' = oview s" using sok_remove_any [OF ok jf [OF Some] _ True] by auto
      then show thesis using that(2) [of j s'] Some n k b True by (auto simp: take_job_def split: if_splits)
    next
      case False
      then show thesis using that(1) Some n o k b d by (auto simp: take_job_def)
    qed
  qed
next
  fix j s'
  assume "jp = Some j" "remove_reserved_job c jp s = (Some j, s')" "sok E {j} off s'" "oview s' = oview s"
  then show thesis using that(2) [of j s'] by (simp add: take_job_def)
qed (use jf in blast)

lemma live_jobs_inflight: "sok E X off s \<Longrightarrow> j \<in> X \<Longrightarrow> j \<in> live_jobs s"
  using places_okD(2) [OF queue_okD(1) [OF sokD(1)]] by blast

lemma no_upload_inflight: "sok {} X off s \<Longrightarrow> j \<in> X \<Longrightarrow> in_job (conn_st s d) \<noteq> Some j"
  using sokD(5) unfolding uploads_ok_def by blast

lemma do_delete_take:
  assumes "read_u64 True (arg_of OP_DELETE line) = Some (k, rest)" and s1: "s1 = count_op OP_DELETE s"
  shows "do_delete c line s = (case take_job c (find_job s1 k) s1 of
      (None, s5) \<Rightarrow> reply_msg c ''NOT_FOUND'' s5
    | (Some j, s5) \<Rightarrow>
        let s6 = upd_stat (the (j_tube (job_st s5 j))) (\<lambda>x. x\<lparr>total_delete_ct := total_delete_ct x + 1\<rparr>) s5;
            s7 = upd_job j (\<lambda>x. x\<lparr>r_state := Invalid\<rparr>) s6;
            (r, s8) = walwrite j s7;
            s9 = job_free (Some j) (walmaint s8)
        in if \<not> r then reply_msg c ''INTERNAL_ERROR'' s9 else reply_msg c ''DELETED'' s9)"
  unfolding do_delete_def assms(1) option.case prod.case Let_def s1 [symmetric] take_job_def
  by (simp add: case_prod_beta split: option.split)

lemma cok_delete:
  assumes ok: "cok n c s"
  shows "cok n c (do_delete c line s)"
proof (cases "read_u64 True (arg_of OP_DELETE line)")
  case None
  then show ?thesis using ok by (simp add: do_delete_def)
next
  case (Some a)
  obtain k rest where a: "a = (k, rest)" by (rule prod.exhaust)
  define s1 where "s1 = count_op OP_DELETE s"
  have ok1: "cok n c s1" using ok by (simp add: s1_def)
  note e = do_delete_take [OF Some [unfolded a] s1_def, of c]
  show ?thesis
  proof (rule take_job_cases [OF cokD(1) [OF ok1], of "find_job s1 k" c])
    show "j \<in> live_jobs s1" if "find_job s1 k = Some j" for j by (rule find_job_live(1) [OF cokD(1) [OF ok1] that])
    assume "take_job c (find_job s1 k) s1 = (None, s1)"
    then show ?thesis using e ok1 by simp
  next
    fix j s5
    assume t: "take_job c (find_job s1 k) s1 = (Some j, s5)" "sok {} {j} [] s5" "oview s5 = oview s1"
    define s6 where "s6 = upd_stat (the (j_tube (job_st s5 j))) (\<lambda>x. x\<lparr>total_delete_ct := total_delete_ct x + 1\<rparr>) s5"
    have ok6: "sok {} {j} [] s6" unfolding s6_def by (rule sok_rframe [OF t(2) rframe_total_jobs(2)])
    define s7 where "s7 = upd_job j (\<lambda>x. x\<lparr>r_state := Invalid\<rparr>) s6"
    have ok7: "sok {} {} [] s7" using sok_invalidate [OF ok6 singletonI] by (simp add: s7_def)
    have w: "walwrite j s7 = (True, s7)" "walmaint s7 = s7" by (rule wal_off [OF sokD(6) [OF ok7]])+
    have c7: "cok n c s7" by (rule cok_oview [OF ok7 _ ok1]) (use t(3) in \<open>simp add: s7_def s6_def oview_upd\<close>)
    have "cok n c (job_free (Some j) s7)"
      by (rule cok_job_free [OF c7])
        (use live_jobs_inflight [OF ok6 singletonI] no_upload_inflight [OF ok6 singletonI] in \<open>simp_all add: s7_def upd_job_def\<close>)
    then show ?thesis unfolding e t(1) Let_def option.case prod.case s6_def [symmetric] s7_def [symmetric] w by simp
  qed
qed

lemma cok_release:
  assumes ok: "cok n c s"
  shows "cok n c (do_release c line s)"
proof (cases "case read_u64 False (arg_of OP_RELEASE line) of None \<Rightarrow> None
      | Some (n, pri_buf) \<Rightarrow> (case read_u32 False pri_buf of None \<Rightarrow> None
         | Some (pri, delay_buf) \<Rightarrow> map_option (\<lambda>(dly, _). (n, pri, dly)) (read_duration True delay_buf))")
  case None
  then show ?thesis using ok by (simp add: do_release_def)
next
  case (Some a)
  obtain k pri dly where a: "a = (k, pri, dly)" by (rule prod_cases3)
  define s1 where "s1 = count_op OP_RELEASE s"
  have ok1: "cok n c s1" using ok by (simp add: s1_def)
  show ?thesis
  proof (rule remove_reserved_cases [OF cokD(1) [OF ok1] refl, of "find_job s1 k" c])
    show "j \<in> live_jobs s1" if "find_job s1 k = Some j" for j by (rule find_job_live(1) [OF cokD(1) [OF ok1] that])
    assume "remove_reserved_job c (find_job s1 k) s1 = (None, s1)"
    then show ?thesis using Some a ok1 by (simp add: do_release_def Let_def s1_def [symmetric])
  next
    fix j s2
    assume t: "remove_reserved_job c (find_job s1 k) s1 = (Some j, s2)" "sok {} {j} [] s2" "oview s2 = oview s1"
    define z :: int where "z = (if dly \<noteq> 0 then 1 else 0)"
    have w: "(if dly \<noteq> 0 then walresvupdate s2 else (0, s2)) = (z, s2)"
      using wal_off(4) [OF sokD(6) [OF t(2)]] by (simp add: z_def)
    define s5 where "s5 = upd_job j (\<lambda>x. x\<lparr>r_pri := pri, r_delay := dly, r_release_ct := r_release_ct x + 1\<rparr>)
        (upd_job j (\<lambda>x. x\<lparr>walresv := walresv x + z\<rparr>) s2)"
    have ok5: "sok {} {j} [] s5" unfolding s5_def by (intro sok_inflight t(2)) simp_all
    have o5: "oview s5 = oview s1" using t(3) by (simp add: s5_def oview_upd)
    obtain r s6 where q: "enqueue_job j dly (dly \<noteq> 0) s5 = (r, s6)" by (rule prod.exhaust)
    have ok6: "sok {} {} [] (if r then s6 else snd (bury_job j False s6))" using sok_requeue [OF ok5 singletonI q] by simp
    have "oview s6 = oview s5" by (rule oview_enqueue_job [OF q])
    then have fin: "cok n c (if r then s6 else snd (bury_job j False s6))"
      using cok_oview [OF ok6 _ ok1] o5 by simp
    show ?thesis
      unfolding do_release_def Some a option.case prod.case Let_def s1_def [symmetric] t(1) w s5_def [symmetric] q
      using fin by (cases r) (simp_all add: z_def)
  qed
qed

lemma cok_bury:
  assumes ok: "cok n c s"
  shows "cok n c (do_bury c line s)"
proof (cases "case read_u64 False (arg_of OP_BURY line) of None \<Rightarrow> None
      | Some (n, pri_buf) \<Rightarrow> map_option (\<lambda>(pri, _). (n, pri)) (read_u32 True pri_buf)")
  case None
  then show ?thesis using ok by (simp add: do_bury_def)
next
  case (Some a)
  obtain k pri where a: "a = (k, pri)" by (rule prod.exhaust)
  define s1 where "s1 = count_op OP_BURY s"
  have ok1: "cok n c s1" using ok by (simp add: s1_def)
  show ?thesis
  proof (rule remove_reserved_cases [OF cokD(1) [OF ok1] refl, of "find_job s1 k" c])
    show "j \<in> live_jobs s1" if "find_job s1 k = Some j" for j by (rule find_job_live(1) [OF cokD(1) [OF ok1] that])
    assume "remove_reserved_job c (find_job s1 k) s1 = (None, s1)"
    then show ?thesis using Some a ok1 by (simp add: do_bury_def Let_def s1_def [symmetric])
  next
    fix j s2
    assume t: "remove_reserved_job c (find_job s1 k) s1 = (Some j, s2)" "sok {} {j} [] s2" "oview s2 = oview s1"
    have ok3: "sok {} {j} [] (upd_job j (\<lambda>x. x\<lparr>r_pri := pri\<rparr>) s2)" by (intro sok_inflight t(2)) simp_all
    obtain b s3 where q: "bury_job j True (upd_job j (\<lambda>x. x\<lparr>r_pri := pri\<rparr>) s2) = (b, s3)" by (rule prod.exhaust)
    have "cok n c s3"
      by (rule cok_oview [OF _ _ ok1]) (use sok_bury_job(2) [OF ok3 singletonI, of True] q t(3) oview_bury_job [OF q] in \<open>simp_all add: oview_upd\<close>)
    then show ?thesis using Some a t(1) q by (auto simp: do_bury_def Let_def s1_def [symmetric] split: bool.split)
  qed
qed

end
