(* ===== verification/Bean_Run.thy ===== *)
theory Bean_Run
  imports Bean_Commands
begin

text \<open>The commands that kick and touch jobs, show statistics and manage tubes, and the switch of \<open>dispatch_cmd\<close>.\<close>

section \<open>Kicking and touching\<close>

lemma cok_kick:
  assumes ok: "cok n c s"
  shows "cok n c (do_kick c line s)"
proof -
  have "cok n c (snd (kick_jobs t k (count_op OP_KICK s)))" for t k
    by (rule cok_oview [OF sok_kick_jobs [OF cokD(1)], of n c]) (use ok in simp_all)
  then show ?thesis using ok by (simp add: do_kick_def Let_def case_prod_beta split: option.split)
qed

lemma cok_kickjob:
  assumes ok: "cok n c s"
  shows "cok n c (do_kickjob c line s)"
proof (cases "read_u64 True (arg_of OP_KICKJOB line)")
  case None
  then show ?thesis using ok by (simp add: do_kickjob_def)
next
  case (Some a)
  obtain k rest where a: "a = (k, rest)" by (rule prod.exhaust)
  define s1 where "s1 = count_op OP_KICKJOB s"
  have ok1: "cok n c s1" using ok by (simp add: s1_def)
  show ?thesis
  proof (cases "find_job s1 k")
    case None
    then show ?thesis using Some a ok1 by (simp add: do_kickjob_def Let_def s1_def [symmetric])
  next
    case f: (Some j)
    note fl = find_job_live(1) [OF cokD(1) [OF ok1] f]
    obtain b s2 where kb: "(if r_state (job_st s1 j) = Buried then kick_buried_job j s1 else (False, s1)) = (b, s2)" by (rule prod.exhaust)
    have o2: "oview s2 = oview s1" using kb oview_kicks(1) by (auto split: if_splits)
    have "sok {} {} [] s2" using kb sok_kick_buried [OF cokD(1) [OF ok1] fl] cokD(1) [OF ok1] by (auto split: if_splits)
    then have ok2: "cok n c s2" by (rule cok_oview [OF _ o2 ok1])
    obtain d s3 where kd: "(if b then (True, s2) else if r_state (job_st s2 j) = Delayed then kick_delayed_job j s2 else (False, s2)) = (d, s3)"
      by (rule prod.exhaust)
    have o3: "oview s3 = oview s2" using kd oview_kicks(2) by (auto split: if_splits)
    have l2: "j \<in> live_jobs s2" using fl oviewD(3) [OF o2] by simp
    have "sok {} {} [] s3" using kd sok_kick_delayed [OF cokD(1) [OF ok2] l2] cokD(1) [OF ok2] by (auto split: if_splits)
    then have "cok n c s3" by (rule cok_oview [OF _ o3 ok2])
    then show ?thesis
      unfolding do_kickjob_def Some a option.case prod.case Let_def s1_def [symmetric] f kb kd by simp
  qed
qed

text \<open>The deadline of a reserved job is not read by any heap.\<close>

lemma sok_touch:
  assumes ok: "sok E X off s" and j: "j \<in> live_jobs s" "r_state (job_st s j) = Reserved"
  shows "sok E X off (upd_job j (\<lambda>x. x\<lparr>r_deadline_at := f x\<rparr>) s)"
proof -
  let ?s = "upd_job j (\<lambda>x. x\<lparr>r_deadline_at := f x\<rparr>) s"
  note q = sokD(1) [OF ok] and pl = queue_okD(1) [OF sokD(1) [OF ok]]
  have ct: "contents ?s p = contents s p" for p by (rule contents_cong) simp_all
  have hm: "home (job_st ?s k) = home (job_st s k)" for k by (simp add: home_def split: jstate.split)
  have nj: "j \<notin> contents s p" if "p = PReady t \<or> p = PDelay t" for p t
    using places_okD(8) [OF pl, of p] j that by (auto simp: at_home_def home_def)
  have hk: "hok ?s p" for p
  proof (cases "\<exists>t. p = PReady t \<or> p = PDelay t")
    case True
    then have "j \<notin> contents s p" using nj by blast
    then show ?thesis by (intro hok_cong [OF places_okD(7) [OF pl, of p]]) auto
  qed (cases p; simp)
  have st: "r_state (job_st ?s k) = r_state (job_st s k)" "j_tube (job_st ?s k) = j_tube (job_st s k)"
    "r_id (job_st ?s k) = r_id (job_st s k)" "r_pri (job_st ?s k) = r_pri (job_st s k)" for k by simp_all
  have i: "ids ?s = ids s" by (simp add: fun_eq_iff)
  have "places_ok X ?s"
    using pl ct hk unfolding places_ok_def at_home_def hm st i by (auto simp: upd_job_def)
  moreover have n: "num X ?s P = num X s P" if "\<And>k. P (job_st ?s k) = P (job_st s k)" for P
    unfolding num_def that by (simp add: upd_job_def)
  have "counts_ok X off ?s"
    using queue_okD(2) [OF q] unfolding counts_ok_def
    by (subst n, simp add: pred_defs)+ (simp add: upd_job_def)
  ultimately have q': "queue_ok X off ?s" by (simp add: queue_ok_def)
  have "moved X s ?s" by (rule movedI) (simp_all add: oview_upd)
  then show ?thesis by (rule sok_move [OF ok _ q']) (use sokD(2) [OF ok] soonest_ok_view [of ?s s] in auto)
qed

lemma cok_touch:
  assumes ok: "cok n c s"
  shows "cok n c (do_touch c line s)"
proof (cases "read_u64 True (arg_of OP_TOUCH line)")
  case None
  then show ?thesis using ok by (simp add: do_touch_def)
next
  case (Some a)
  obtain k rest where a: "a = (k, rest)" by (rule prod.exhaust)
  define s1 where "s1 = count_op OP_TOUCH s"
  have ok1: "cok n c s1" using ok by (simp add: s1_def)
  obtain b s2 where t: "touch_job c (find_job s1 k) s1 = (b, s2)" by (rule prod.exhaust)
  have "cok n c s2"
  proof (cases "is_job_reserved_by_conn c (find_job s1 k) s1")
    case False
    then show ?thesis using t ok1 by (simp add: touch_job_def)
  next
    case True
    then obtain j where j: "find_job s1 k = Some j" "r_state (job_st s1 j) = Reserved"
      by (auto simp: is_job_reserved_by_conn_def split: option.splits)
    obtain tm s' where nn: "nanoseconds s1 = (tm, s')" by (rule prod.exhaust)
    have ok': "cok n c s'" by (rule cok_cframe [OF ok1 cframe_env(3) [OF nn]])
    have f': "job_st s' = job_st s1" "live_jobs s' = live_jobs s1" using nanoseconds_fields(2,3) [of s1] nn by simp_all
    have "sok {} {} [] (upd_job j (\<lambda>x. x\<lparr>r_deadline_at := tm + r_ttr x\<rparr>) s')"
      by (rule sok_touch [OF cokD(1) [OF ok']]) (use j find_job_live(1) [OF cokD(1) [OF ok1] j(1)] f' in simp_all)
    then have "cok n c (upd_job j (\<lambda>x. x\<lparr>r_deadline_at := tm + r_ttr x\<rparr>) s')"
      by (rule cok_oview [OF _ _ ok']) (simp add: oview_upd)
    then show ?thesis using t True j nn by (auto simp: touch_job_def cok_upd_conn)
  qed
  then show ?thesis using Some a t by (auto simp: do_touch_def Let_def s1_def [symmetric] split: bool.split)
qed


section \<open>Statistics and lists\<close>

text \<open>The formatting functions only read the clock.\<close>

lemma cframe_nanoseconds [simp]: "cframe s (snd (nanoseconds s))"
  using cframe_env(3) [OF prod.collapse [symmetric]] .

lemma fmt_cframe [simp]:
  "cframe s (snd (fmt_stats si s))" "cframe s (snd (fmt_job_stats j s))" "cframe s (snd (fmt_stats_tube t s))"
  by (simp_all add: fmt_stats_def uptime_def fmt_job_stats_def fmt_stats_tube_def Let_def case_prod_beta)

lemma sok_new_copy:
  assumes ok: "cok n c s" and x: "r_state x = Copy" "j_tube x = None" "reserver x = None"
  shows "cok n c (new_job x s)"
  using sok_copy [OF cokD(1) [OF ok], of x] x ok by (simp add: cok_def room_def)

lemma cok_do_stats:
  assumes ok: "cok n c s" and fmt: "\<And>s. cframe s (snd (fmt s))"
  shows "cok n c (do_stats d fmt s)"
proof -
  obtain txt0 s1 where f1: "fmt s = (txt0, s1)" by (rule prod.exhaust)
  have ok1: "cok n c s1" using cok_cframe [OF ok fmt] f1 by simp
  obtain jo s2 where al: "allocate_job (int (length txt0) + 16) s1 = (jo, s2)" by (rule prod.exhaust)
  show ?thesis
  proof (rule allocate_cases [OF al])
    assume n: "jo = None" "cframe s1 s2"
    then show ?thesis using f1 al cok_upd_conn [OF cok_cframe [OF ok1 n(2)]] by (simp add: do_stats_def)
  next
    fix s2' t
    assume n: "jo = Some (brk s2')" "cframe s1 s2'" "s2 = new_job (zero_job\<lparr>r_created_at := t, r_body_size := int (length txt0) + 16, body_at := brk s2'\<rparr>) s2'"
    define s4 where "s4 = upd_job (brk s2') (\<lambda>x. x\<lparr>r_state := Copy\<rparr>) (upd_conn d (\<lambda>x. x\<lparr>out_job := jo\<rparr>) s2)"
    have "s4 = upd_conn d (\<lambda>x. x\<lparr>out_job := jo\<rparr>) (new_job (zero_job\<lparr>r_created_at := t, r_body_size := int (length txt0) + 16, body_at := brk s2', r_state := Copy\<rparr>) s2')"
      by (simp add: s4_def new_job_upd n(3))
    moreover have "cok n c (new_job (zero_job\<lparr>r_created_at := t, r_body_size := int (length txt0) + 16, body_at := brk s2', r_state := Copy\<rparr>) s2')"
      by (rule sok_new_copy [OF cok_cframe [OF ok1 n(2)]]) (simp_all add: zero_job_def)
    ultimately have ok4: "cok n c s4" by (simp add: cok_upd_conn)
    obtain tx s5 where f5: "fmt s4 = (tx, s5)" by (rule prod.exhaust)
    have ok5: "cok n c s5" using cok_cframe [OF ok4 fmt] f5 by simp
    have ok6: "cok n c (upd_job j (\<lambda>x. x\<lparr>body := b, r_body_size := r\<rparr>) s5)" for j b r
      by (rule cok_upd_job_other [OF ok5]) (simp_all add: core_def)
    show ?thesis
      unfolding do_stats_def f1 prod.case Let_def al option.case n(1)
      using ok6 f5 by (simp add: s4_def [unfolded n(1), symmetric] cok_upd_conn)
  qed
qed

lemma cok_list_tubes:
  assumes ok: "cok n c s"
  shows "cok n c (do_list_tubes d l s)"
proof -
  define z where "z = fold (\<lambda>t z. z + 3 + length (t_name (tube_st s t))) (ms_items l) (6 :: nat)"
  obtain jo s1 where al: "allocate_job (int z) s = (jo, s1)" by (rule prod.exhaust)
  show ?thesis
  proof (rule allocate_cases [OF al])
    assume n: "jo = None" "cframe s s1"
    then show ?thesis using al cok_upd_conn [OF cok_cframe [OF ok n(2)]] by (simp add: do_list_tubes_def z_def)
  next
    fix s2 t
    assume n: "jo = Some (brk s2)" "cframe s s2" "s1 = new_job (zero_job\<lparr>r_created_at := t, r_body_size := int z, body_at := brk s2\<rparr>) s2"
    define s3 where "s3 = upd_job (brk s2) (\<lambda>x. x\<lparr>r_state := Copy\<rparr>) (upd_conn d (\<lambda>x. x\<lparr>out_job := jo\<rparr>) s1)"
    have "s3 = upd_conn d (\<lambda>x. x\<lparr>out_job := jo\<rparr>) (new_job (zero_job\<lparr>r_created_at := t, r_body_size := int z, body_at := brk s2, r_state := Copy\<rparr>) s2)"
      by (simp add: s3_def new_job_upd n(3))
    moreover have "cok n c (new_job (zero_job\<lparr>r_created_at := t, r_body_size := int z, body_at := brk s2, r_state := Copy\<rparr>) s2)"
      by (rule sok_new_copy [OF cok_cframe [OF ok n(2)]]) (simp_all add: zero_job_def)
    ultimately have ok3: "cok n c s3" by (simp add: cok_upd_conn)
    have ok4: "cok n c (upd_job j (\<lambda>x. x\<lparr>body := b\<rparr>) s3)" for j b
      by (rule cok_upd_job_other [OF ok3]) (simp_all add: core_def)
    show ?thesis
      unfolding do_list_tubes_def Let_def z_def [symmetric] al prod.case option.case n(1)
      using ok4 by (simp add: s3_def [unfolded n(1), symmetric] cok_upd_conn)
  qed
qed

lemma cok_stats_cmds:
  assumes ok: "cok n c s"
  shows "cok n c (do_stats_server si c line s)" "cok n c (do_stats_job c line s)" "cok n c (do_stats_tube c line s)"
    "cok n c (do_list_all_tubes c line s)" "cok n c (do_list_tube_used c line s)" "cok n c (do_list_tubes_watched c line s)"
  unfolding do_stats_server_def do_stats_job_def do_stats_tube_def do_list_all_tubes_def do_list_tube_used_def
    do_list_tubes_watched_def Let_def
  using ok by (auto intro!: cok_do_stats cok_list_tubes split: option.split)


section \<open>Tubes\<close>

lemma find_or_make_hash: "tube_find_or_make name s = (tp, s') \<Longrightarrow> jobhash s' = jobhash s \<and> next_id s' = next_id s"
proof -
  have mt: "jobhash s1 = jobhash s \<and> next_id s1 = next_id s" if "make_tube name s = (up, s1)" for up s1
    using that by (auto simp: make_tube_def Let_def split: prod.splits bool.splits dest!: malloc_eqD)
  have "jobhash s' = jobhash s \<and> next_id s' = next_id s" if a: "make_and_insert_tube name s = (tp, s')"
  proof -
    obtain up s1 where m1: "make_tube name s = (up, s1)" by (rule prod.exhaust)
    show ?thesis
    proof (cases up)
      case None
      then show ?thesis using a m1 mt [OF m1] by (simp add: make_and_insert_tube_def)
    next
      case (Some u)
      obtain b ts s2 where ap: "ms_append None malloc (tubes s1) s1 u = (b, ts, s2)" by (rule prod_cases3)
      have s2: "jobhash s2 = jobhash s1" "next_id s2 = next_id s1" using ms_append_frame [OF ap] by auto
      have "s' = tube_dref (Some u) (s2\<lparr>tubes := ts\<rparr>) \<or> s' = s2\<lparr>tubes := ts\<rparr>"
        using a m1 Some ap by (auto simp: make_and_insert_tube_def split: if_splits)
      then show ?thesis using mt [OF m1] s2 rframe_fields(2,3) [OF rframe_refs(2), of "Some u" "s2\<lparr>tubes := ts\<rparr>"] by auto
    qed
  qed
  then show "tube_find_or_make name s = (tp, s') \<Longrightarrow> jobhash s' = jobhash s \<and> next_id s' = next_id s"
    by (auto simp: tube_find_or_make_def split: option.splits)
qed

lemma cok_find_or_make:
  assumes ok: "cok n c s" and e: "tube_find_or_make name s = (tp, s')"
  shows "cok n c s'" "\<And>t. tp = Some t \<Longrightarrow> t < brk s'" "conn_st s' = conn_st s"
proof -
  note m = sok_find_or_make [OF cokD(1) [OF ok] e]
  show "cok n c s'" using m(1,4) ok find_or_make_hash [OF e] by (simp add: cok_def room_def)
  show "\<And>t. tp = Some t \<Longrightarrow> t < brk s'" "conn_st s' = conn_st s" using m(2,3) by simp_all
qed

lemma cok_use:
  assumes ok: "cok n c s"
  shows "cok n c (do_use c line s)"
proof -
  let ?name = "arg_of OP_USE line"
  define s1 where "s1 = count_op OP_USE s"
  have ok1: "cok n c s1" using ok by (simp add: s1_def)
  obtain tp s2 where fm: "tube_find_or_make ?name s1 = (tp, s2)" by (rule prod.exhaust)
  note m = cok_find_or_make [OF ok1 fm]
  have r3: "rframe s2 (tube_iref tp s2)" by simp
  define s3 where "s3 = tube_iref tp s2"
  have ok3: "cok n c s3" unfolding s3_def by (rule cok_rframe [OF m(1) r3])
  have "cok n c (do_use c line s)" if t: "tp = Some t" "valid_name ?name" for t
  proof -
    define s5 where "s5 = tube_dref (c_use (conn_st s3 c)) (upd_tube (the (c_use (conn_st s3 c))) (\<lambda>x. x\<lparr>using_ct := using_ct x - 1\<rparr>) s3)"
    have r5: "rframe s3 s5" unfolding s5_def by (rule rframe_trans [OF rframe_counts(1) rframe_refs(2)])
    have t5: "t < brk s5" using m(2) [OF t(1)] rframe_fields(9) [OF r5] rframe_fields(9) [OF r3] by (simp add: s3_def)
    have ok6: "cok n c (upd_conn c (\<lambda>x. x\<lparr>c_use := Some t\<rparr>) s5)"
      by (rule cok_upd_conn [OF cok_rframe [OF ok3 r5]]) (use t5 in simp_all)
    define s7 where "s7 = tube_dref (Some t) (tube_iref (Some t) (upd_conn c (\<lambda>x. x\<lparr>c_use := Some t\<rparr>) s5))"
    have r7: "rframe (upd_conn c (\<lambda>x. x\<lparr>c_use := Some t\<rparr>) s5) s7"
      unfolding s7_def by (rule rframe_trans [OF rframe_refs(1) rframe_refs(2)])
    have "cok n c (upd_tube u (\<lambda>x. x\<lparr>using_ct := using_ct x + 1\<rparr>) s7)" for u
      by (rule cok_rframe [OF cok_rframe [OF ok6 r7] rframe_counts(1)])
    then show ?thesis
      using t fm by (simp add: do_use_def Let_def s1_def [symmetric] s3_def [unfolded t(1), symmetric] s5_def [symmetric] s7_def [symmetric])
  qed
  then show ?thesis
    using ok ok3 [unfolded s3_def] fm by (cases tp) (auto simp: do_use_def Let_def s1_def [symmetric])
qed

lemma cok_watch:
  assumes ok: "cok n c s"
  shows "cok n c (do_watch c line s)"
proof -
  let ?name = "arg_of OP_WATCH line"
  define s1 where "s1 = count_op OP_WATCH s"
  have ok1: "cok n c s1" using ok by (simp add: s1_def)
  obtain tp s2 where fm: "tube_find_or_make ?name s1 = (tp, s2)" by (rule prod.exhaust)
  define s3 where "s3 = tube_iref tp s2"
  have ok3: "cok n c s3" unfolding s3_def by (rule cok_rframe [OF cok_find_or_make(1) [OF ok1 fm] rframe_refs(1)])
  have "cok n c (do_watch c line s)" if t: "tp = Some t" "valid_name ?name" for t
  proof -
    obtain b w s' where ap: "ms_append (Some on_watch) malloc (watch (conn_st s3 c)) s3 t = (b, w, s')" by (rule prod_cases3)
    have "cok n c (upd_conn c (\<lambda>x. x\<lparr>watch := w\<rparr>) s')"
      by (rule cok_upd_conn [OF cok_rframe [OF ok3 rframe_watch_append [OF ap]]]) simp_all
    then have "cok n c (tube_dref (Some t) s3)" "cok n c (tube_dref (Some t) (upd_conn c (\<lambda>x. x\<lparr>watch := w\<rparr>) s'))"
      using cok_rframe [OF _ rframe_refs(2)] ok3 by blast+
    then show ?thesis
      using t fm by (simp add: do_watch_def Let_def s1_def [symmetric] s3_def [unfolded t(1), symmetric] ap)
  qed
  then show ?thesis
    using ok ok3 [unfolded s3_def] fm by (cases tp) (auto simp: do_watch_def Let_def s1_def [symmetric])
qed

lemma cok_ignore:
  assumes ok: "cok n c s"
  shows "cok n c (do_ignore c line s)"
proof -
  have ok1: "cok n c (count_op OP_IGNORE s)" using ok by simp
  have rm: "cok n c (upd_conn c (\<lambda>x. x\<lparr>watch := w\<rparr>) s')"
    if "ms_remove (Some on_ignore) (watch (conn_st s c)) (count_op OP_IGNORE s) t = (b, w, s')" for b w s' t
    by (rule cok_upd_conn [OF cok_rframe [OF ok1 rframe_watch_remove [OF that]]]) simp_all
  show ?thesis
    unfolding do_ignore_def Let_def using ok ok1 rm by (auto split: option.split prod.split)
qed

lemma cok_pause_tube:
  assumes ok: "cok n c s"
  shows "cok n c (do_pause_tube c line s)"
proof -
  define s1 where "s1 = count_op OP_PAUSE_TUBE s"
  have ok1: "cok n c s1" using ok by (simp add: s1_def)
  have "cok n c (upd_stat t (\<lambda>x. x\<lparr>pause_ct := pause_ct x + 1\<rparr>) (upd_tube t (\<lambda>x. x\<lparr>unpause_at := a, pause := b\<rparr>) (snd (nanoseconds s1))))" for t a b
    by (rule cok_rframe [OF cok_rframe [OF cok_cframe [OF ok1 cframe_nanoseconds] rframe_counts(3)] rframe_total_jobs(3)])
  then show ?thesis
    using ok ok1
    by (auto simp: do_pause_tube_def Let_def s1_def [symmetric] case_prod_beta split: option.split)
qed

section \<open>The switch\<close>

lemma cok_quit: "cok n c s \<Longrightarrow> cok n c (upd_conn c (\<lambda>x. x\<lparr>c_state := STATE_CLOSE\<rparr>) s)"
  by (simp add: cok_upd_conn)

lemma cok_less: "cok (Suc n) c s \<Longrightarrow> cok n c s"
  using room_less by (auto simp: cok_def)

lemma cok_run_cmd:
  assumes ok: "cok (Suc n) c s"
  shows "cok n c (run_cmd si p c line s)"
  using cok_put [OF ok] cok_peeks [OF cok_less [OF ok]] cok_reserves [OF cok_less [OF ok]] cok_reserve_job [OF cok_less [OF ok]]
    cok_delete [OF cok_less [OF ok]] cok_release [OF cok_less [OF ok]] cok_bury [OF cok_less [OF ok]] cok_kick [OF cok_less [OF ok]]
    cok_kickjob [OF cok_less [OF ok]] cok_touch [OF cok_less [OF ok]] cok_stats_cmds [OF cok_less [OF ok]] cok_use [OF cok_less [OF ok]]
    cok_watch [OF cok_less [OF ok]] cok_ignore [OF cok_less [OF ok]] cok_pause_tube [OF cok_less [OF ok]] cok_quit [OF cok_less [OF ok]]
    cok_replies(2) [OF cok_less [OF ok]]
  unfolding run_cmd_def by (cases p) simp_all

lemma cok_dispatch:
  assumes ok: "cok (Suc n) c s"
  shows "cok n c (dispatch_cmd si c s)"
  using cok_run_cmd [OF ok] cok_less [OF ok] by (simp add: dispatch_cmd_def Let_def)

end
