(* ===== verification/Bean_Calm.thy ===== *)
theory Bean_Calm
  imports Bean_Run
begin

text \<open>
  Which operations touch a connection that is sending a job. A connection in state \<open>STATE_WANT_DATA\<close> has a
  job to write into (\<open>conn_good\<close>), so the pointer that \<open>conn_process_io\<close> follows is never null. An operation is
  calm when it leaves every connection's upload alone, except that it may end a connection's wait for data.
\<close>

section \<open>Calm steps\<close>

definition ubase :: "Conn \<Rightarrow> addr option \<times> int \<times> string \<times> nat \<times> int" where
  "ubase x = (in_job x, in_job_read x, c_cmd x, cmd_len x, sock_fd x)"

definition ustat :: "server \<Rightarrow> addr set \<times> (addr \<Rightarrow> bool \<times> addr option \<times> int \<times> string \<times> nat \<times> int)" where
  "ustat s = (live_conns s, \<lambda>c. (c_state (conn_st s c) = STATE_WANT_DATA, ubase (conn_st s c)))"

definition calm :: "server \<Rightarrow> server \<Rightarrow> bool" where
  "calm s s' \<longleftrightarrow> live_conns s' = live_conns s \<and> (\<forall>c. ubase (conn_st s' c) = ubase (conn_st s c) \<and>
     (c_state (conn_st s' c) = STATE_WANT_DATA \<longrightarrow> c_state (conn_st s c) = STATE_WANT_DATA))"

text \<open>The command buffer of a connection is never overrun.\<close>

definition conn_good :: "Conn \<Rightarrow> bool" where
  "conn_good x \<longleftrightarrow> (c_state x = STATE_WANT_DATA \<longrightarrow> in_job x \<noteq> None) \<and> length (c_cmd x) \<le> LINE_BUF_SIZE"

definition conns_good :: "server \<Rightarrow> bool" where
  "conns_good s \<longleftrightarrow> (\<forall>c \<in> live_conns s. conn_good (conn_st s c))"

lemma calm_refl [simp]: "calm s s"
  by (simp add: calm_def)

lemma calm_trans: "calm s s1 \<Longrightarrow> calm s1 s2 \<Longrightarrow> calm s s2"
  by (simp add: calm_def)

lemma calm_same: "ustat s' = ustat s \<Longrightarrow> calm s s'"
  by (simp add: calm_def ustat_def fun_eq_iff)

lemma calm_eq: "ustat s1 = ustat s \<Longrightarrow> calm s1 s2 = calm s s2"
  by (simp add: calm_def ustat_def fun_eq_iff)

lemma calm_eq': "ustat s2 = ustat s1 \<Longrightarrow> calm s s2 = calm s s1"
  by (simp add: calm_def ustat_def fun_eq_iff)

lemma calmD:
  assumes "calm s s'"
  shows "in_job (conn_st s' c) = in_job (conn_st s c)" "in_job_read (conn_st s' c) = in_job_read (conn_st s c)"
    "c_cmd (conn_st s' c) = c_cmd (conn_st s c)" "cmd_len (conn_st s' c) = cmd_len (conn_st s c)" "sock_fd (conn_st s' c) = sock_fd (conn_st s c)"
    "c_state (conn_st s' c) = STATE_WANT_DATA \<Longrightarrow> c_state (conn_st s c) = STATE_WANT_DATA"
    "live_conns s' = live_conns s"
  using assms by (simp_all add: calm_def ubase_def)

lemma conn_good_calm: "calm s s' \<Longrightarrow> conn_good (conn_st s c) \<Longrightarrow> conn_good (conn_st s' c)"
  using calmD(1,3,6) [of s s' c] by (auto simp: conn_good_def)

lemma ustat_conn_st: "conn_st s' = conn_st s \<Longrightarrow> live_conns s' = live_conns s \<Longrightarrow> ustat s' = ustat s"
  by (simp add: ustat_def fun_eq_iff)

section \<open>Operations that leave the uploads alone\<close>

lemma ustat_upds [simp]:
  "ustat (upd_tube t f s) = ustat s" "ustat (upd_stat t f' s) = ustat s" "ustat (upd_global f' s) = ustat s"
  "ustat (upd_file a ff s) = ustat s" "ustat (upd_job j jf s) = ustat s" "ustat (s\<lparr>lists := l\<rparr>) = ustat s"
  "ustat (s\<lparr>ready_ct := rc\<rparr>) = ustat s" "ustat (s\<lparr>timeout_ct := rc\<rparr>) = ustat s" "ustat (count_op p s) = ustat s"
  "ustat (s\<lparr>tubes := ts\<rparr>) = ustat s" "ustat (s\<lparr>jobhash := h\<rparr>) = ustat s" "ustat (s\<lparr>live_jobs := lj\<rparr>) = ustat s"
  "ustat (s\<lparr>job_st := js\<rparr>) = ustat s" "ustat (s\<lparr>brk := n\<rparr>) = ustat s" "ustat (s\<lparr>next_id := k\<rparr>) = ustat s"
  by (rule ustat_conn_st; simp add: upd_file_def upd_stat_def upd_tube_def upd_global_def upd_job_def count_op_def)+

lemma ustat_upd_conn [simp]:
  "c_state (f (conn_st s c)) = c_state (conn_st s c) \<Longrightarrow> ubase (f (conn_st s c)) = ubase (conn_st s c) \<Longrightarrow> ustat (upd_conn c f s) = ustat s"
  by (simp add: ustat_def fun_eq_iff)

lemma ubase_upds [simp]:
  "ubase (x\<lparr>soonest_job := a1\<rparr>) = ubase x" "ubase (x\<lparr>out_job := a2\<rparr>) = ubase x" "ubase (x\<lparr>out_job_sent := a3\<rparr>) = ubase x"
  "ubase (x\<lparr>pending_timeout := a4\<rparr>) = ubase x" "ubase (x\<lparr>watch := a5\<rparr>) = ubase x" "ubase (x\<lparr>c_use := a6\<rparr>) = ubase x"
  "ubase (x\<lparr>c_state := st\<rparr>) = ubase x" "ubase (x\<lparr>c_reply := a7\<rparr>) = ubase x" "ubase (x\<lparr>reply_sent := a8\<rparr>) = ubase x"
  "ubase (x\<lparr>halfclosed := a9\<rparr>) = ubase x" "ubase (x\<lparr>c_next := b1\<rparr>) = ubase x" "ubase (x\<lparr>in_conns := b2\<rparr>) = ubase x"
  "ubase (x\<lparr>tickat := b3\<rparr>) = ubase x"
  by (simp_all add: ubase_def)

lemma ctick_ustat: "ctick x = ctick y \<Longrightarrow> c_state x = c_state y \<and> ubase x = ubase y"
proof -
  assume e: "ctick x = ctick y"
  have "c_state (ctick z) = c_state z" "ubase (ctick z) = ubase z" for z by (simp_all add: ctick_def ubase_def)
  then show ?thesis using e by metis
qed

interpretation ul: log_view ustat
  by unfold_locales (simp_all, simp_all add: ustat_def)

lemma ustat_tick: "ctick (g (conn_st s c)) = ctick (conn_st s c) \<Longrightarrow> ustat (upd_conn c g s) = ustat s"
  using ctick_ustat [of "g (conn_st s c)" "conn_st s c"] by simp

interpretation uw: wait_view ustat
  by (unfold_locales, rule ustat_tick) (simp_all, simp_all add: ustat_def)

lemma ustat_setpos [simp]: "ustat (job_setpos j i s) = ustat s"
  by (simp add: job_setpos_def)

lemma ustat_heaps:
  "heapremove lt job_setpos h s k = (r, h', s') \<Longrightarrow> ustat s' = ustat s"
  "heapinsert lt job_setpos malloc h s c = (b, h', s') \<Longrightarrow> ustat s' = ustat s"
  using heapremove_frame [of ustat job_setpos lt h s k] heapinsert_frame [of ustat job_setpos malloc lt h s c] by simp_all

lemma ustat_lists [simp]: "ustat (list_insert h j s) = ustat s" "ustat (snd (list_remove j s)) = ustat s"
  by (simp_all add: list_insert_def list_remove_def case_prod_beta)

lemma ustat_list_remove: "list_remove j s = (b, s') \<Longrightarrow> ustat s' = ustat s"
  using ustat_lists(2) [of j s] by simp

lemma ustat_heap_moves [simp]: "ustat (ready_remove j s) = ustat s" "ustat (delay_remove j s) = ustat s"
  by (auto simp: ready_remove_def delay_remove_def Let_def split: prod.split dest!: ustat_heaps)

lemma ustat_heap_inserts:
  "ready_insert j s = (b, s') \<Longrightarrow> ustat s' = ustat s" "delay_insert j s = (b, s') \<Longrightarrow> ustat s' = ustat s"
  by (auto simp: ready_insert_def delay_insert_def Let_def split: prod.splits dest!: ustat_heaps)

lemma ustat_removes:
  "remove_ready_job jp s = (r, s') \<Longrightarrow> ustat s' = ustat s" "remove_buried_job jp s = (r, s') \<Longrightarrow> ustat s' = ustat s"
  "remove_delayed_job jp s = (r, s') \<Longrightarrow> ustat s' = ustat s" "remove_this_reserved_job c j s = (r, s') \<Longrightarrow> ustat s' = ustat s"
  "remove_reserved_job c jp s = (r, s') \<Longrightarrow> ustat s' = ustat s"
proof -
  show r: "remove_this_reserved_job c j s = (r, s') \<Longrightarrow> ustat s' = ustat s" for j
    by (auto simp: remove_this_reserved_job_def Let_def split: prod.splits bool.splits dest!: ustat_list_remove)
  show "remove_ready_job jp s = (r, s') \<Longrightarrow> ustat s' = ustat s" "remove_buried_job jp s = (r, s') \<Longrightarrow> ustat s' = ustat s"
    "remove_delayed_job jp s = (r, s') \<Longrightarrow> ustat s' = ustat s" "remove_reserved_job c jp s = (r, s') \<Longrightarrow> ustat s' = ustat s"
    by (auto simp: remove_ready_job_def remove_buried_job_def remove_delayed_job_def remove_reserved_job_def Let_def
        split: option.splits if_splits prod.splits bool.splits dest!: ustat_list_remove r)
qed

lemma ustat_place: "place_job j dly s = (b, s') \<Longrightarrow> ustat s' = ustat s"
  by (auto simp: place_job_def Let_def split: if_splits prod.splits bool.splits
      dest!: ustat_heap_inserts ul.env_dest(3))

lemma ustat_reserve_job [simp]: "ustat (conn_reserve_job c j s) = ustat s"
  by (simp add: conn_reserve_job_def Let_def case_prod_beta)

lemma ustat_bury [simp]: "ustat (bury_list j s) = ustat s"
  by (simp add: bury_list_def Let_def)

lemma ustat_bury_job: "bury_job j u s = (b, s') \<Longrightarrow> ustat s' = ustat s"
  by (auto simp: bury_job_def Let_def split: if_splits prod.splits bool.splits dest!: ul.walresv ul.walwrite)

lemma ustat_bury_snd [simp]: "ustat (snd (bury_job j u s)) = ustat s"
  using ustat_bury_job [OF prod.collapse [symmetric]] .

lemma ustat_awaited: "fold (awaited_step nw) ts (jo, s) = (jo', s') \<Longrightarrow> ustat s' = ustat s"
  by (induction ts arbitrary: jo s) (auto simp: awaited_step_def Let_def split: if_splits)

section \<open>Answers\<close>

lemma calm_upd_conn:
  "c_state (f (conn_st s c)) \<noteq> STATE_WANT_DATA \<Longrightarrow> ubase (f (conn_st s c)) = ubase (conn_st s c) \<Longrightarrow> calm s (upd_conn c f s)"
  by (simp add: calm_def)

lemma calm_reply [simp]: "st \<noteq> STATE_WANT_DATA \<Longrightarrow> calm s (reply c line st s)"
  unfolding reply_def by (rule calm_trans [OF calm_same calm_upd_conn]) simp_all

lemma calm_replies [simp]: "calm s (reply_msg c m s)" "st \<noteq> STATE_WANT_DATA \<Longrightarrow> calm s (reply_line c st line s)" "calm s (reply_job c j m s)"
proof -
  show m: "calm s (reply_msg c m s)" for m s by (simp add: reply_msg_def)
  show l: "st \<noteq> STATE_WANT_DATA \<Longrightarrow> calm s (reply_line c st line s)" for st line s by (simp add: reply_line_def m)
  have "calm s (upd_conn c (\<lambda>x. x\<lparr>out_job := Some j, out_job_sent := 0\<rparr>) s)" by (rule calm_same) simp
  then show "calm s (reply_job c j m s)" unfolding reply_job_def by (rule calm_trans [OF _ l]) simp
qed

text \<open>Handing out jobs.\<close>

lemma calm_process_one: "calm s (process_one j s)"
proof -
  obtain r s1 where e: "remove_ready_job (Some j) s = (r, s1)" by (rule prod.exhaust)
  have u: "ustat s1 = ustat s" by (rule ustat_removes(1) [OF e])
  show ?thesis
  proof (cases r)
    case None
    then show ?thesis using e u by (simp add: process_one_def calm_same)
  next
    case (Some k)
    let ?t = "the (j_tube (job_st s1 k))"
    obtain co w x where t: "ms_take None (waiting_conns (tube_st s1 ?t)) () = (co, w, x)" by (rule prod_cases3)
    show ?thesis
    proof (cases co)
      case None
      then show ?thesis using e t Some u by (simp add: process_one_def Let_def calm_same)
    next
      case (Some c)
      let ?s5 = "conn_reserve_job c k (remove_waiting_conn c (upd_global (\<lambda>x. x\<lparr>reserved_ct := reserved_ct x + 1\<rparr>)
          (upd_tube ?t (\<lambda>x. x\<lparr>waiting_conns := w\<rparr>) s1)))"
      have "ustat ?s5 = ustat s" using u by simp
      then have "calm s (reply_job c k ''RESERVED'' ?s5)" by (rule calm_trans [OF calm_same calm_replies(3)])
      then show ?thesis using e t Some \<open>r = Some k\<close> by (simp add: process_one_def Let_def)
    qed
  qed
qed

lemma calm_process_loop: "calm s (process_loop n nw s)"
proof (induction n arbitrary: s)
  case (Suc n)
  obtain jo s1 where e: "next_awaited_job nw s = (jo, s1)" by (rule prod.exhaust)
  have u: "calm s s1" using ustat_awaited [OF e [unfolded next_awaited_job_def]] by (rule calm_same)
  show ?case
  proof (cases jo)
    case (Some j)
    have "calm s (process_loop n nw (process_one j s1))" using calm_trans [OF u calm_trans [OF calm_process_one Suc.IH]] .
    then show ?thesis using e Some by simp
  qed (use e u in simp)
qed simp

lemma calm_process_queue [simp]: "calm s (process_queue s)"
proof -
  obtain nw s1 where e: "nanoseconds s = (nw, s1)" by (rule prod.exhaust)
  show ?thesis
    unfolding process_queue_def e prod.case by (rule calm_trans [OF calm_same [OF ul.env_dest(3) [OF e]] calm_process_loop])
qed

lemma calm_enqueue:
  assumes "enqueue_job j dly u s = (b, s')"
  shows "calm s s'"
proof -
  obtain r s1 where p: "place_job j dly s = (r, s1)" by (rule prod.exhaust)
  obtain r2 s2 where w: "walwrite j s1 = (r2, s2)" by (rule prod.exhaust)
  have u1: "ustat s1 = ustat s" by (rule ustat_place [OF p])
  have u2: "ustat s2 = ustat s" using ul.walwrite [OF w] u1 by simp
  have "ustat (walmaint s2) = ustat s" using u2 by simp
  then have "calm s (process_queue (walmaint s2))" "calm s (process_queue s1)"
    using calm_trans [OF calm_same calm_process_queue] u1 by blast+
  moreover have "calm s s1" "calm s s2" using calm_same u1 u2 by blast+
  ultimately show ?thesis
    using assms by (auto simp: enqueue_job_def p w split: if_splits bool.splits)
qed

lemma calm_requeue: "enqueue_job j dly u s = (r, s2) \<Longrightarrow> calm s (if r then s2 else snd (bury_job j False s2))"
  using calm_enqueue [of j dly u s r s2] calm_trans [OF _ calm_same [OF ustat_bury_snd], of s s2 j False] by simp

lemma calm_kick_buried [simp]: "calm s (snd (kick_buried_job j s))"
proof -
  obtain z s1 where w: "walresvupdate s = (z, s1)" by (rule prod.exhaust)
  have u1: "ustat s1 = ustat s" by (rule ul.walresv(2) [OF w])
  let ?s4 = "upd_job j (\<lambda>x. x\<lparr>r_kick_ct := r_kick_ct x + 1\<rparr>)
      (snd (remove_buried_job (Some j) (upd_job j (\<lambda>x. x\<lparr>walresv := walresv x + z\<rparr>) s1)))"
  have "ustat ?s4 = ustat s" using u1 ustat_removes(2) [OF prod.collapse [symmetric]] by simp
  moreover obtain r s5 where q: "enqueue_job j 0 True ?s4 = (r, s5)" by (rule prod.exhaust)
  ultimately have "calm s (if r then s5 else snd (bury_job j False s5))" using calm_requeue [OF q] calm_eq by blast
  then show ?thesis using w q u1 by (cases r) (simp_all add: kick_buried_job_def Let_def calm_same)
qed

lemma calm_kick_delayed [simp]: "calm s (snd (kick_delayed_job j s))"
proof -
  obtain z s1 where w: "walresvupdate s = (z, s1)" by (rule prod.exhaust)
  have u1: "ustat s1 = ustat s" by (rule ul.walresv(2) [OF w])
  let ?s4 = "upd_job j (\<lambda>x. x\<lparr>r_kick_ct := r_kick_ct x + 1\<rparr>) (delay_remove j (upd_job j (\<lambda>x. x\<lparr>walresv := walresv x + z\<rparr>) s1))"
  have u4: "ustat ?s4 = ustat s" using u1 by simp
  obtain r s5 where q: "enqueue_job j 0 True ?s4 = (r, s5)" by (rule prod.exhaust)
  have c5: "calm s s5" using calm_enqueue [OF q] calm_eq [OF u4] by blast
  obtain r' s6 where q': "enqueue_job j (r_delay (job_st s5 j)) False s5 = (r', s6)" by (rule prod.exhaust)
  have "calm s (if r' then s6 else snd (bury_job j False s6))" by (rule calm_trans [OF c5 calm_requeue [OF q']])
  then show ?thesis using w q q' c5 u1 by (cases r; cases r') (simp_all add: kick_delayed_job_def Let_def calm_same)
qed

lemma calm_kick_jobs [simp]: "calm s (snd (kick_jobs t n s))"
proof -
  have "calm s (snd (kick_buried_jobs m t s))" for m
    by (induction m arbitrary: s) (auto simp: case_prod_beta intro: calm_trans [OF calm_kick_buried])
  moreover have "calm s (snd (kick_delayed_jobs m t s))" for m
    by (induction m arbitrary: s) (auto simp: case_prod_beta intro: calm_trans [OF calm_kick_delayed])
  ultimately show ?thesis by (simp add: kick_jobs_def)
qed


section \<open>Allocation\<close>

lemma store_frame:
  assumes "\<And>s. f (snd (malloc s)) = f s"
  shows "f (snd (store_job_n n ky malloc j hs)) = f (snd hs)"
    "f (snd (rehash_with (store_job_n n ky malloc) malloc up hs)) = f (snd hs)"
proof -
  have fd: "(\<And>j hs. f (snd (g j hs)) = f (snd hs)) \<Longrightarrow> f (snd (fold g js hs)) = f (snd hs)" for g js hs
    by (induction js arbitrary: hs) simp_all
  have rh: "(\<And>j hs. f (snd (g j hs)) = f (snd hs)) \<Longrightarrow> f (snd (rehash_with g malloc up hs)) = f (snd hs)" for g hs up
    by (simp add: rehash_with_def Let_def fd case_prod_beta assms split: bool.split)
  show st: "f (snd (store_job_n n ky malloc j hs)) = f (snd hs)" for n j hs
    by (induction n arbitrary: j hs) (simp_all add: Let_def rh)
  show "f (snd (rehash_with (store_job_n n ky malloc) malloc up hs)) = f (snd hs)" by (rule rh [OF st])
qed

lemma ustat_rframe: "rframe s s' \<Longrightarrow> ustat s' = ustat s"
  using rframe_fields(5,6) [of s s'] by (simp add: ustat_def)

lemma ustat_tubes [simp]:
  "ustat (tube_dref tp s) = ustat s" "ustat (tube_iref tp s) = ustat s" "ustat (on_watch t i s) = ustat s" "ustat (on_ignore t i s) = ustat s"
  by (rule ustat_rframe, simp)+

lemma ustat_job_free [simp]: "ustat (job_free jp s) = ustat s"
proof -
  have r: "ustat (snd (rehash_with (store_job_n 2 ky malloc) malloc up hs)) = ustat (snd hs)" for ky up hs
    by (rule store_frame) simp
  have "ustat (snd (job_hash_free ky malloc j (h, t))) = ustat t" for ky j h t
    by (simp add: job_hash_free_def Let_def rehash_def store_job_def r)
  then have "ustat (hash_free j t) = ustat t" for j t
    by (simp add: hash_free_def case_prod_beta)
  then show ?thesis by (simp add: job_free_def Let_def split: option.split)
qed

lemma ustat_new_job [simp]: "ustat (new_job x s) = ustat s"
  by (rule ustat_conn_st) simp_all

lemma ustat_job_copy: "job_copy jp s = (jo, s') \<Longrightarrow> ustat s' = ustat s"
  by (auto simp: job_copy_def Let_def split: option.splits prod.splits bool.splits dest!: ul.env_dest(1))

lemma ustat_allocate: "allocate_job n s = (jo, s') \<Longrightarrow> ustat s' = ustat s"
  by (auto simp: allocate_job_def Let_def split: prod.splits bool.splits
      dest!: ul.env_dest(1) ul.env_dest(3))

lemma ustat_make_job: "make_job pri dly ttr bs tp s = (jo, s') \<Longrightarrow> ustat s' = ustat s"
proof -
  have st: "ustat (snd (store_job ky malloc j hs)) = ustat (snd hs)" for ky j hs
    unfolding store_job_def by (rule store_frame) simp
  have ni: "ustat (t\<lparr>next_id := k\<rparr>) = ustat t" for t k by (simp add: ustat_def)
  obtain ao s1 where a: "allocate_job bs s = (ao, s1)" by (rule prod.exhaust)
  show "make_job pri dly ttr bs tp s = (jo, s') \<Longrightarrow> ustat s' = ustat s"
    using ustat_allocate [OF a] a
    by (auto simp: make_job_def make_job_with_id_def Let_def st ni case_prod_beta split: option.splits)
qed

lemma ustat_find_or_make: "tube_find_or_make name s = (tp, s') \<Longrightarrow> ustat s' = ustat s"
proof -
  have mt: "make_tube name s = (up, s1) \<Longrightarrow> ustat s1 = ustat s" for up s1
    by (auto simp: make_tube_def Let_def ustat_def split: prod.splits bool.splits dest!: malloc_eqD)
  have ma: "ms_append None malloc w s1 u = (b, ts, s2) \<Longrightarrow> ustat s2 = ustat s1" for w s1 u b ts s2
    using ms_append_frame [of w s1 u b ts s2] by auto
  have "make_and_insert_tube name s = (tp, s') \<Longrightarrow> ustat s' = ustat s"
    by (auto simp: make_and_insert_tube_def split: prod.splits option.splits if_splits dest!: ma mt)
  then show "tube_find_or_make name s = (tp, s') \<Longrightarrow> ustat s' = ustat s"
    by (auto simp: tube_find_or_make_def split: option.splits)
qed

section \<open>Calm commands\<close>

lemma calm_after: "ustat s1 = ustat s \<Longrightarrow> calm s (reply_msg c m s1)" "ustat s1 = ustat s \<Longrightarrow> calm s (reply_job c j m s1)"
  "ustat s1 = ustat s \<Longrightarrow> st \<noteq> STATE_WANT_DATA \<Longrightarrow> calm s (reply_line c st line s1)"
  using calm_trans [OF calm_same] calm_replies by blast+

lemma calm_then: "calm s s1 \<Longrightarrow> calm s (reply_msg c m s1)" "calm s s1 \<Longrightarrow> st \<noteq> STATE_WANT_DATA \<Longrightarrow> calm s (reply_line c st line s1)"
  using calm_trans calm_replies by blast+

lemma calm_peek_reply: "ustat s1 = ustat s \<Longrightarrow> calm s (peek_reply c jp s1)"
proof -
  assume u: "ustat s1 = ustat s"
  obtain jo s2 where e: "job_copy jp s1 = (jo, s2)" by (rule prod.exhaust)
  have "ustat s2 = ustat s" using ustat_job_copy [OF e] u by simp
  then show ?thesis using e by (simp add: peek_reply_def calm_after split: option.split)
qed

lemma calm_peeks:
  "calm s (do_peek_ready c line s)" "calm s (do_peek_delayed c line s)" "calm s (do_peek_buried c line s)" "calm s (do_peekjob c line s)"
  by (simp_all add: do_peek_ready_def do_peek_delayed_def do_peek_buried_def do_peekjob_def Let_def calm_peek_reply
      split: option.split prod.split)

lemma calm_wait_for_job: "calm s (wait_for_job c timeout s)"
proof -
  let ?s1 = "upd_conn c (\<lambda>x. x\<lparr>c_state := STATE_WAIT\<rparr>) s"
  have "calm s ?s1" by (rule calm_upd_conn) simp_all
  moreover have "ustat (wait_for_job c timeout s) = ustat ?s1" by (simp add: wait_for_job_def Let_def)
  ultimately show ?thesis using calm_eq' by blast
qed

lemma calm_do_reserve: "calm s (do_reserve p timeout c s)"
proof -
  obtain b s2 where e: "conndeadlinesoon c (connsetworker c (count_op p s)) = (b, s2)" by (rule prod.exhaust)
  have u: "ustat s2 = ustat s" using uw.conndeadlinesoon [OF e] by simp
  have "calm s2 (process_queue (wait_for_job c timeout s2))" by (rule calm_trans [OF calm_wait_for_job calm_process_queue])
  then have "calm s (process_queue (wait_for_job c timeout s2))" using calm_eq [OF u] by blast
  then show ?thesis using e u by (simp add: do_reserve_def calm_after)
qed

lemma calm_reserves: "calm s (do_reserve_forever c line s)" "calm s (do_reserve_timeout c line s)"
  by (simp_all add: do_reserve_forever_def do_reserve_timeout_def calm_do_reserve split: option.split prod.split)

lemma ustat_removes_snd [simp]:
  "ustat (snd (remove_ready_job jp s)) = ustat s" "ustat (snd (remove_buried_job jp s)) = ustat s"
  "ustat (snd (remove_delayed_job jp s)) = ustat s" "ustat (snd (remove_this_reserved_job c j s)) = ustat s"
  "ustat (snd (remove_reserved_job c jp s)) = ustat s"
  using ustat_removes(1) [OF prod.collapse [symmetric]] ustat_removes(2) [OF prod.collapse [symmetric]] ustat_removes(3) [OF prod.collapse [symmetric]]
    ustat_removes(4) [OF prod.collapse [symmetric]] ustat_removes(5) [OF prod.collapse [symmetric]] .

lemma calm_reserve_job: "calm s (do_reserve_job c line s)"
  by (auto simp: do_reserve_job_def Let_def case_prod_beta intro!: calm_after split: option.split)

lemma calm_delete: "calm s (do_delete c line s)"
proof -
  have t: "ustat s5 = ustat s" if "take_job c jf s = (jo, s5)" for jf jo s s5
    using that by (auto simp: take_job_def split: prod.splits if_splits dest!: ustat_removes)
  have ts: "ustat (snd (take_job c jf s)) = ustat s" and ws: "ustat (snd (walwrite j s)) = ustat s" for jf j s
    using t [OF prod.collapse [symmetric]] ul.walwrite [OF prod.collapse [symmetric]] .
  have "calm s (case take_job c jf (count_op OP_DELETE s) of
      (None, s5) \<Rightarrow> reply_msg c ''NOT_FOUND'' s5
    | (Some j, s5) \<Rightarrow>
        let s6 = upd_stat (the (j_tube (job_st s5 j))) (\<lambda>x. x\<lparr>total_delete_ct := total_delete_ct x + 1\<rparr>) s5;
            s7 = upd_job j (\<lambda>x. x\<lparr>r_state := Invalid\<rparr>) s6;
            (r, s8) = walwrite j s7;
            s9 = job_free (Some j) (walmaint s8)
        in if \<not> r then reply_msg c ''INTERNAL_ERROR'' s9 else reply_msg c ''DELETED'' s9)" for jf
    by (auto simp: Let_def case_prod_beta ts ws split: option.split intro!: calm_after)
  then show ?thesis
    unfolding do_delete_def Let_def take_job_def
    by (simp add: case_prod_beta split: option.split prod.split)
qed


lemma calm_release: "calm s (do_release c line s)"
proof -
  have fin: "calm s (case enqueue_job j dly u (upd_job j f (upd_job j g s3)) of
      (True, s6) \<Rightarrow> reply_msg c ''RELEASED'' s6 | (False, s6) \<Rightarrow> reply_msg c ''BURIED'' (snd (bury_job j False s6)))"
    if "ustat s3 = ustat s" for j dly u f g s3
  proof -
    obtain r s6 where q: "enqueue_job j dly u (upd_job j f (upd_job j g s3)) = (r, s6)" by (rule prod.exhaust)
    have "calm s (if r then s6 else snd (bury_job j False s6))"
      using calm_requeue [OF q] calm_eq [of "upd_job j f (upd_job j g s3)" s] that by simp
    then show ?thesis using q calm_then(1) by (cases r) simp_all
  qed
  have w: "ustat (snd (walresvupdate s)) = ustat s" for s using ul.walresv(2) [OF prod.collapse [symmetric]] .
  have "calm s (case remove_reserved_job c jf (count_op OP_RELEASE s) of
       (None, s2) \<Rightarrow> reply_msg c ''NOT_FOUND'' s2
     | (Some j, s2) \<Rightarrow>
         let (z, s3) = (if dly \<noteq> 0 then walresvupdate s2 else (0, s2))
         in if dly \<noteq> 0 \<and> z = 0 then reply_msg c ''OUT_OF_MEMORY'' s3
            else let s4 = upd_job j (\<lambda>x. x\<lparr>walresv := walresv x + z\<rparr>) s3;
                     s5 = upd_job j (\<lambda>x. x\<lparr>r_pri := pri, r_delay := dly, r_release_ct := r_release_ct x + 1\<rparr>) s4
                 in case enqueue_job j dly (dly \<noteq> 0) s5 of
                      (True, s6) \<Rightarrow> reply_msg c ''RELEASED'' s6
                    | (False, s6) \<Rightarrow> reply_msg c ''BURIED'' (snd (bury_job j False s6)))" for jf pri dly
  proof -
    obtain jo s2 where r: "remove_reserved_job c jf (count_op OP_RELEASE s) = (jo, s2)" by (rule prod.exhaust)
    have u2: "ustat s2 = ustat s" using ustat_removes(5) [OF r] by simp
    obtain z s3 where z: "(if dly \<noteq> 0 then walresvupdate s2 else (0, s2)) = (z, s3)" by (rule prod.exhaust)
    have u3: "ustat s3 = ustat s" using z w [of s2] u2 by (auto split: if_splits)
    show ?thesis
      unfolding r prod.case Let_def z using fin [OF u3] u2 u3 by (auto simp: calm_after split: option.split)
  qed
  then show ?thesis
    unfolding do_release_def Let_def by (auto split: option.split prod.split)
qed

lemma calm_bury: "calm s (do_bury c line s)"
proof -
  have "calm s (case remove_reserved_job c jf (count_op OP_BURY s) of
      (None, s2) \<Rightarrow> reply_msg c ''NOT_FOUND'' s2
    | (Some j, s2) \<Rightarrow> (case bury_job j True (upd_job j (\<lambda>x. x\<lparr>r_pri := pri\<rparr>) s2) of
         (False, s3) \<Rightarrow> reply_msg c ''INTERNAL_ERROR'' s3 | (True, s3) \<Rightarrow> reply_msg c ''BURIED'' s3))" for jf pri
    by (auto simp: calm_after split: prod.split option.split bool.split dest!: ustat_removes(5) ustat_bury_job)
  then show ?thesis unfolding do_bury_def Let_def by (auto split: option.split prod.split)
qed

lemma calm_kicks: "calm s (do_kick c line s)" "calm s (do_kickjob c line s)"
proof -
  have o: "calm s (snd (f (count_op p s)))" if "\<And>t. calm t (snd (f t))" for f :: "server \<Rightarrow> 'a \<times> server" and p
    using that [of "count_op p s"] calm_eq [of "count_op p s" s] by simp
  have k: "calm s (reply_line c STATE_SEND_WORD line (snd (kick_jobs t n (count_op OP_KICK s))))" for line t n
    by (rule calm_then(2) [OF o]) simp_all
  then show "calm s (do_kick c line s)" by (simp add: do_kick_def Let_def case_prod_beta split: option.split)
  have "calm s (reply_msg c m (snd (if b then (True, s2) else if d then kick_delayed_job j s2 else (False, s2))))"
    if "(if a then kick_buried_job j (count_op OP_KICKJOB s) else (False, count_op OP_KICKJOB s)) = (b, s2)" for m a b d j s2
  proof -
    have "calm s s2" using that o [of "kick_buried_job j" OP_KICKJOB] calm_same [of "count_op OP_KICKJOB s" s] by (auto split: if_splits)
    then have "calm s (snd (if b then (True, s2) else if d then kick_delayed_job j s2 else (False, s2)))"
      using calm_trans [OF _ calm_kick_delayed, of s s2 j] by auto
    then show ?thesis by (rule calm_then)
  qed
  from this [OF prod.collapse [symmetric]]
  show "calm s (do_kickjob c line s)"
    by (simp add: do_kickjob_def Let_def case_prod_beta calm_after split: option.split)
qed

lemma calm_touch: "calm s (do_touch c line s)"
proof -
  have "ustat (snd (touch_job c jp s)) = ustat s" for jp s
    by (simp add: touch_job_def Let_def case_prod_beta)
  then show ?thesis
    by (simp add: do_touch_def Let_def case_prod_beta calm_after split: option.split bool.split)
qed

lemma calm_do_stats:
  assumes "\<And>s. ustat (snd (fmt s)) = ustat s" "ustat s0 = ustat s"
  shows "calm s (do_stats c fmt s0)"
proof -
  obtain t s1 where f: "fmt s0 = (t, s1)" by (rule prod.exhaust)
  obtain jo s2 where a: "allocate_job (int (length t) + 16) s1 = (jo, s2)" by (rule prod.exhaust)
  have u: "ustat s2 = ustat s" using ustat_allocate [OF a] assms(1) [of s0] assms(2) f by simp
  show ?thesis
    using f a u by (auto simp: do_stats_def Let_def case_prod_beta assms intro!: calm_after split: option.split)
qed

lemma calm_list_tubes:
  assumes "ustat s0 = ustat s"
  shows "calm s (do_list_tubes c l s0)"
proof -
  have "ustat (snd (allocate_job n s0)) = ustat s0" for n
    using ustat_allocate [OF prod.collapse [symmetric]] .
  then show ?thesis
    using assms by (auto simp: do_list_tubes_def Let_def case_prod_beta intro!: calm_after split: option.split)
qed

lemma ustat_fmt [simp]:
  "ustat (snd (fmt_stats si s)) = ustat s" "ustat (snd (fmt_job_stats j s)) = ustat s" "ustat (snd (fmt_stats_tube t s)) = ustat s"
  by (simp_all add: fmt_stats_def uptime_def fmt_job_stats_def fmt_stats_tube_def Let_def case_prod_beta)

lemma calm_stats_cmds:
  "calm s (do_stats_server si c line s)" "calm s (do_stats_job c line s)" "calm s (do_stats_tube c line s)"
  "calm s (do_list_all_tubes c line s)" "calm s (do_list_tube_used c line s)" "calm s (do_list_tubes_watched c line s)"
  by (auto simp: do_stats_server_def do_stats_job_def do_stats_tube_def do_list_all_tubes_def do_list_tube_used_def
    do_list_tubes_watched_def Let_def intro!: calm_do_stats calm_list_tubes calm_after split: option.split)

lemma calm_tubes: "calm s (do_use c line s)" "calm s (do_watch c line s)" "calm s (do_ignore c line s)" "calm s (do_pause_tube c line s)"
proof -
  have f: "ustat (snd (tube_find_or_make name s)) = ustat s" for name s
    using ustat_find_or_make [OF prod.collapse [symmetric]] .
  have a: "ustat (snd (snd (ms_append (Some on_watch) malloc w s u))) = ustat s" for w s u
    using ustat_rframe [OF rframe_watch_append] by (metis prod.collapse)
  have r: "ustat (snd (snd (ms_remove (Some on_ignore) w s u))) = ustat s" for w s u
    using ustat_rframe [OF rframe_watch_remove] by (metis prod.collapse)
  show "calm s (do_use c line s)" "calm s (do_watch c line s)" "calm s (do_ignore c line s)" "calm s (do_pause_tube c line s)"
    by (auto simp: do_use_def do_watch_def do_ignore_def do_pause_tube_def Let_def case_prod_beta f a r intro!: calm_after split: option.split)
qed

text \<open>Every command but \<open>put\<close> is calm.\<close>

lemma calm_run_cmd: "p \<noteq> OP_PUT \<Longrightarrow> calm s (run_cmd si p c line s)"
  unfolding run_cmd_def
  by (cases p) (simp_all add: calm_peeks calm_reserves calm_reserve_job calm_delete calm_release calm_bury calm_kicks calm_touch
      calm_stats_cmds calm_tubes calm_upd_conn)


section \<open>Uploads\<close>

text \<open>Steps that only touch the upload of one connection.\<close>

definition steady :: "addr \<Rightarrow> server \<Rightarrow> server \<Rightarrow> bool" where
  "steady c s s' \<longleftrightarrow> live_conns s' = live_conns s \<and> (\<forall>d. d \<noteq> c \<longrightarrow> ubase (conn_st s' d) = ubase (conn_st s d) \<and>
     (c_state (conn_st s' d) = STATE_WANT_DATA \<longrightarrow> c_state (conn_st s d) = STATE_WANT_DATA))"

lemma steady_refl [simp]: "steady c s s"
  by (simp add: steady_def)

lemma steady_trans: "steady c s s1 \<Longrightarrow> steady c s1 s2 \<Longrightarrow> steady c s s2"
  by (simp add: steady_def)

lemma steady_calm: "calm s s' \<Longrightarrow> steady c s s'"
  by (simp add: steady_def calm_def)

lemma steady_upd [simp]: "steady c s (upd_conn c f s)"
  by (simp add: steady_def)

lemma steady_upd_then: "calm (upd_conn c f s) s' \<Longrightarrow> steady c s s'"
  by (rule steady_trans [OF steady_upd steady_calm])

lemma conn_good_steady: "steady c s s' \<Longrightarrow> d \<noteq> c \<Longrightarrow> conn_good (conn_st s d) \<Longrightarrow> conn_good (conn_st s' d)"
  by (auto simp: steady_def conn_good_def ubase_def)

lemma steady_fill [simp]: "steady c s (fill_extra_data c s)"
  by (simp add: steady_def fill_extra_data_def Let_def case_prod_beta split: option.split)

lemma fill_fields:
  "c_state (conn_st (fill_extra_data c s) d) = c_state (conn_st s d)"
  "length (c_cmd (conn_st (fill_extra_data c s) c)) \<le> length (c_cmd (conn_st s c))"
  "sock_fd (conn_st s c) \<noteq> 0 \<Longrightarrow> cmd_len (conn_st s c) \<noteq> 0 \<Longrightarrow>
     length (c_cmd (conn_st (fill_extra_data c s) c)) \<le> length (c_cmd (conn_st s c)) - cmd_len (conn_st s c)"
  "sock_fd (conn_st (fill_extra_data c s) d) = sock_fd (conn_st s d)"
  by (auto simp: fill_extra_data_def Let_def case_prod_beta split: option.split)

lemma c_state_replies [simp]:
  "c_state (conn_st (reply c line st s) c) = st" "c_state (conn_st (reply_msg c m s) c) = STATE_SEND_WORD"
  "c_state (conn_st (reply_line c st line s) c) = (if length line \<ge> LINE_BUF_SIZE then STATE_SEND_WORD else st)"
  "c_state (conn_st (reply_job c j m s) c) \<in> {STATE_SEND_JOB, STATE_SEND_WORD}"
  by (simp_all add: reply_def reply_msg_def reply_line_def reply_job_def)

text \<open>What a step of the connection \<open>c\<close> does to itself: it does not wait for data without a job, and its buffer does not grow.\<close>

definition settles :: "addr \<Rightarrow> server \<Rightarrow> server \<Rightarrow> bool" where
  "settles c s s' \<longleftrightarrow> steady c s s' \<and> (c_state (conn_st s' c) = STATE_WANT_DATA \<longrightarrow> in_job (conn_st s' c) \<noteq> None) \<and>
     length (c_cmd (conn_st s' c)) \<le> length (c_cmd (conn_st s c)) \<and> sock_fd (conn_st s' c) = sock_fd (conn_st s c)"

lemma settles_good:
  "settles c s s' \<Longrightarrow> conn_good (conn_st s d) \<Longrightarrow> conn_good (conn_st s' d)"
  using conn_good_steady [of c s s' d] by (cases "d = c") (auto simp: settles_def conn_good_def)

lemma settles_calm: "calm s s' \<Longrightarrow> conn_good (conn_st s c) \<Longrightarrow> settles c s s'"
  using calmD(1-6) [of s s' c] steady_calm [of s s' c] by (auto simp: settles_def conn_good_def)

lemma settles_upd_calm:
  "calm (upd_conn c f s) s' \<Longrightarrow> c_state (conn_st s' c) \<noteq> STATE_WANT_DATA \<Longrightarrow>
   length (c_cmd (f (conn_st s c))) \<le> length (c_cmd (conn_st s c)) \<Longrightarrow> sock_fd (f (conn_st s c)) = sock_fd (conn_st s c) \<Longrightarrow> settles c s s'"
  using calmD(3,5) [of "upd_conn c f s" s' c] steady_upd_then [of c f s s'] by (simp add: settles_def)

lemma settles_skip: "settles c s (skip c k msg s)"
proof -
  define s2 where "s2 = fill_extra_data c (upd_conn c (\<lambda>x. x\<lparr>in_job := None, in_job_read := k\<rparr>) s)"
  have st: "steady c s s2" unfolding s2_def by (rule steady_trans [OF steady_upd steady_fill])
  have l: "length (c_cmd (conn_st s2 c)) \<le> length (c_cmd (conn_st s c))" "sock_fd (conn_st s2 c) = sock_fd (conn_st s c)"
    using fill_fields(2) [of c "upd_conn c (\<lambda>x. x\<lparr>in_job := None, in_job_read := k\<rparr>) s"]
      fill_fields(4) [of c "upd_conn c (\<lambda>x. x\<lparr>in_job := None, in_job_read := k\<rparr>) s" c] by (simp_all add: s2_def)
  have r: "calm s2 (reply c (msg @ crlf) STATE_SEND_WORD s2)" by simp
  have "settles c s (reply c (msg @ crlf) STATE_SEND_WORD s2)"
    using steady_trans [OF st steady_calm [OF r]] l calmD(3,5) [OF r, of c] by (simp add: settles_def)
  moreover have "settles c s (upd_conn c (\<lambda>x. x\<lparr>c_reply := msg @ crlf, reply_sent := 0, c_state := STATE_BITBUCKET\<rparr>) s2)"
    using steady_trans [OF st steady_upd] l by (simp add: settles_def)
  ultimately show ?thesis by (simp add: skip_def Let_def s2_def [symmetric])
qed

lemma incoming_calm:
  defines "f \<equiv> \<lambda>x :: Conn. x\<lparr>in_job := None, in_job_read := 0\<rparr>"
  shows "calm (upd_conn c f s) (enqueue_incoming_job c s) \<and> c_state (conn_st (enqueue_incoming_job c s) c) \<noteq> STATE_WANT_DATA"
proof -
  define s1 where "s1 = upd_conn c f s"
  define j where "j = the (in_job (conn_st s c))"
  have u: "ustat (job_free (Some j) s1) = ustat s1" by simp
  obtain z s2 where w: "walresvput j s1 = (z, s2)" by (rule prod.exhaust)
  define s3 where "s3 = upd_job j (\<lambda>x. x\<lparr>walresv := z\<rparr>) s2"
  have u3: "ustat s3 = ustat s1" using ul.walresv(1) [OF w] by (simp add: s3_def)
  obtain r s4 where q: "enqueue_job j (r_delay (job_st s3 j)) True s3 = (r, s4)" by (rule prod.exhaust)
  have c4: "calm s1 s4" using calm_enqueue [OF q] calm_eq [OF u3] by blast
  define s6 where "s6 = upd_stat (the (j_tube (job_st (upd_global (\<lambda>x. x\<lparr>total_jobs_ct := total_jobs_ct x + 1\<rparr>) s4) j)))
      (\<lambda>x. x\<lparr>total_jobs_ct := total_jobs_ct x + 1\<rparr>) (upd_global (\<lambda>x. x\<lparr>total_jobs_ct := total_jobs_ct x + 1\<rparr>) s4)"
  have c6: "calm s1 s6" "calm s1 (snd (bury_job j False s6))"
    using c4 calm_eq' [of s6 s4 s1] calm_eq' [of "snd (bury_job j False s6)" s4 s1] by (simp_all add: s6_def)
  show ?thesis
    unfolding enqueue_incoming_job_def Let_def j_def [symmetric] s1_def [symmetric] s1_def [unfolded f_def, symmetric] w prod.case s3_def [symmetric] q s6_def [symmetric]
    using calm_same [OF u] calm_same [OF u3] c6 by (auto intro!: calm_then)
qed

lemma settles_incoming: "settles c s (enqueue_incoming_job c s)"
  using incoming_calm [of c s] by (intro settles_upd_calm [where f = "\<lambda>x. x\<lparr>in_job := None, in_job_read := 0\<rparr>"]) auto

lemma settles_maybe: "in_job (conn_st s c) \<noteq> None \<Longrightarrow> settles c s (maybe_enqueue_incoming_job c s)"
  using settles_incoming [of c s] by (auto simp: maybe_enqueue_incoming_job_def Let_def) (simp add: settles_def)

lemma settles_trans: "settles c s s1 \<Longrightarrow> settles c s1 s2 \<Longrightarrow> settles c s s2"
  using steady_trans by (auto simp: settles_def)


lemma settles_put: "conn_good (conn_st s c) \<Longrightarrow> settles c s (do_put c line s)"
proof -
  assume g: "conn_good (conn_st s c)"
  have u: "ustat (connsetproducer c (count_op OP_PUT s)) = ustat s" by simp
  have sk: "settles c s (skip c k m (count_op OP_PUT s))" for k m
    by (rule settles_trans [OF settles_calm [OF calm_same] settles_skip]) (use g in simp_all)
  have "settles c s (if jo = None then skip c k m (upd_conn c (\<lambda>x. x\<lparr>in_job := jo\<rparr>) s3)
      else maybe_enqueue_incoming_job c (fill_extra_data c (upd_conn c (\<lambda>x. x\<lparr>in_job := jo\<rparr>) s3)))"
    if m: "make_job pri dly ttr bs tp (connsetproducer c (count_op OP_PUT s)) = (jo, s3)" for pri dly ttr bs tp jo s3 k m
  proof -
    define s4 where "s4 = upd_conn c (\<lambda>x. x\<lparr>in_job := jo\<rparr>) s3"
    have u3: "ustat s3 = ustat s" using ustat_make_job [OF m] u by simp
    note b = calmD(3,5) [OF calm_same [OF u3], of c]
    have st: "steady c s s4" unfolding s4_def by (rule steady_trans [OF steady_calm [OF calm_same [OF u3]] steady_upd])
    show ?thesis
    proof (cases jo)
      case None
      have "settles c s4 (skip c k m s4)" by (rule settles_skip)
      then have "settles c s (skip c k m s4)" using steady_trans [OF st] b by (auto simp: settles_def s4_def)
      then show ?thesis using None by (simp add: s4_def)
    next
      case (Some j)
      have "settles c (fill_extra_data c s4) (maybe_enqueue_incoming_job c (fill_extra_data c s4))"
        by (rule settles_maybe) (simp add: s4_def Some)
      then have "settles c s (maybe_enqueue_incoming_job c (fill_extra_data c s4))"
        using steady_trans [OF steady_trans [OF st steady_fill]] b fill_fields(2) [of c s4] fill_fields(4) [of c s4 c]
        by (auto simp: settles_def s4_def)
      then show ?thesis using Some by (simp add: s4_def)
    qed
  qed
  from this [OF prod.collapse [symmetric]] sk settles_calm [OF calm_after(1) g, of s] settles_calm [OF calm_after(1) g, of "count_op OP_PUT s"]
  show ?thesis by (auto simp: do_put_def Let_def case_prod_beta split: option.split)
qed

lemma settles_dispatch:
  assumes "conn_good (conn_st s c)"
  shows "settles c s (dispatch_cmd si c s)"
proof -
  have "settles c s (run_cmd si p c line s)" for p line
    using settles_put [OF assms] settles_calm [OF calm_run_cmd assms] by (cases "p = OP_PUT") (simp_all add: run_cmd_def)
  then show ?thesis using settles_calm [OF _ assms] by (simp add: dispatch_cmd_def Let_def)
qed

end
