(* ===== verification/Bean_Events.thy ===== *)
theory Bean_Events
  imports Bean_Calm
begin

text \<open>
  The event handlers under the invariant: reading and writing on a connection, the command loop, closing,
  time-outs, the tick and new connections.
\<close>

section \<open>The invariant of an event\<close>

definition eok :: "nat \<Rightarrow> addr \<Rightarrow> server \<Rightarrow> bool" where
  "eok n c s \<longleftrightarrow> cok n c s \<and> conns_good s"

lemma eokD: "eok n c s \<Longrightarrow> cok n c s" "eok n c s \<Longrightarrow> conns_good s" "eok n c s \<Longrightarrow> conn_good (conn_st s c)"
  by (auto simp: eok_def conns_good_def cok_def)

lemma eok_settles: "eok n c s \<Longrightarrow> cok m c s' \<Longrightarrow> settles c s s' \<Longrightarrow> eok m c s'"
  using settles_good [of c s s'] by (auto simp: eok_def conns_good_def settles_def steady_def)

lemma eok_calm: "eok n c s \<Longrightarrow> cok m c s' \<Longrightarrow> calm s s' \<Longrightarrow> eok m c s'"
  using eok_settles settles_calm eokD(3) by blast

text \<open>Changes of the fields of the connection itself.\<close>

lemma eok_upd:
  assumes ok: "eok n c s" and g: "conn_good (f (conn_st s c))" and f: "soonest_job (f (conn_st s c)) = soonest_job (conn_st s c)"
    "in_job (f (conn_st s c)) \<in> {in_job (conn_st s c), None}" "c_use (f (conn_st s c)) = c_use (conn_st s c)"
  shows "eok n c (upd_conn c f s)"
proof -
  have "cok n c (upd_conn c f s)" by (rule cok_upd_conn [OF eokD(1) [OF ok]]) (use f in simp_all)
  then show ?thesis using eokD(2) [OF ok] g by (auto simp: eok_def conns_good_def)
qed

lemma eok_close: "eok n c s \<Longrightarrow> eok n c (upd_conn c (\<lambda>x. x\<lparr>c_state := STATE_CLOSE\<rparr>) s)"
  by (rule eok_upd) (auto simp: conn_good_def dest: eokD(3))

lemma eok_reply_msg: "eok n c s \<Longrightarrow> eok n c (reply_msg c m s)"
  by (rule eok_calm) (auto dest: eokD(1))

lemma eok_reply: "eok n c s \<Longrightarrow> st \<noteq> STATE_WANT_DATA \<Longrightarrow> eok n c (reply c line st s)"
  by (rule eok_calm) (auto dest: eokD(1))

lemma eok_fill: "eok n c s \<Longrightarrow> eok n c (fill_extra_data c s)"
proof -
  assume ok: "eok n c s"
  have "conn_good (conn_st (fill_extra_data c s) c)"
    using eokD(3) [OF ok] fill_fields(2) [of c s] fill_in_job [of c s c] fill_fields(1) [of c s c] by (simp add: conn_good_def)
  then have "settles c s (fill_extra_data c s)"
    using fill_fields(2) [of c s] fill_fields(4) [of c s c] by (simp add: settles_def conn_good_def)
  then show ?thesis using eok_settles [OF ok] cok_fill [OF eokD(1) [OF ok]] by blast
qed

section \<open>Reading and writing\<close>

lemma eok_with_read:
  assumes "eok n c s" "\<And>got. got \<noteq> [] \<Longrightarrow> length got \<le> nat r \<Longrightarrow> eok n c (k got s)"
  shows "eok n c (with_read e c r k s)"
  using assms eok_close [OF assms(1)] by (auto simp: with_read_def check_err_def Let_def split: io.split)

lemma eok_with_write:
  assumes "eok n c s" "\<And>m. eok n c (k m s)"
  shows "eok n c (with_write e c r k s)"
  using assms eok_close [OF assms(1)] by (auto simp: with_write_def check_err_def Let_def split: io.split)

lemma eok_read_command:
  assumes ok: "eok n c s" and l: "length (c_cmd (conn_st s c)) + length got \<le> LINE_BUF_SIZE"
  shows "eok n c (read_command c got s)"
proof -
  have g: "conn_good (conn_st s c)" by (rule eokD(3) [OF ok])
  have "eok n c (upd_conn c (\<lambda>x. x\<lparr>c_cmd := c_cmd (conn_st s c) @ got, cmd_len := k\<rparr>) s)" for k
    by (rule eok_upd [OF ok]) (use g l in \<open>auto simp: conn_good_def\<close>)
  moreover from this have "eok n c (upd_conn c (\<lambda>x. x\<lparr>c_cmd := [], c_state := STATE_WANT_ENDLINE\<rparr>)
      (upd_conn c (\<lambda>x. x\<lparr>c_cmd := c_cmd (conn_st s c) @ got, cmd_len := k\<rparr>) s))" for k
    by (rule eok_upd) (auto simp: conn_good_def)
  ultimately show ?thesis by (simp add: read_command_def Let_def)
qed

lemma eok_read_endline:
  assumes ok: "eok n c s" and l: "length (c_cmd (conn_st s c)) + length got \<le> LINE_BUF_SIZE"
  shows "eok n c (read_endline c got s)"
proof -
  have g: "conn_good (conn_st s c)" by (rule eokD(3) [OF ok])
  have a: "eok n c (upd_conn c (\<lambda>x. x\<lparr>c_cmd := c_cmd (conn_st s c) @ got, cmd_len := k\<rparr>) s)" for k
    by (rule eok_upd [OF ok]) (use g l in \<open>auto simp: conn_good_def\<close>)
  moreover from this have "eok n c (upd_conn c (\<lambda>x. x\<lparr>c_cmd := []\<rparr>)
      (upd_conn c (\<lambda>x. x\<lparr>c_cmd := c_cmd (conn_st s c) @ got, cmd_len := k\<rparr>) s))" for k
    by (rule eok_upd) (use g in \<open>auto simp: conn_good_def\<close>)
  moreover have "eok n c (fill_extra_data c (reply_msg c m (upd_conn c (\<lambda>x. x\<lparr>c_cmd := c_cmd (conn_st s c) @ got, cmd_len := k\<rparr>) s)))" for k m
    by (rule eok_fill [OF eok_reply_msg [OF a]])
  ultimately show ?thesis by (simp add: read_endline_def Let_def)
qed

lemma eok_read_bucket: "eok n c s \<Longrightarrow> eok n c (read_bucket c got s)"
proof -
  assume ok: "eok n c s"
  have "eok n c (upd_conn c (\<lambda>x. x\<lparr>in_job_read := in_job_read x - int (length got)\<rparr>) s)"
    by (rule eok_upd [OF ok]) (use eokD(3) [OF ok] in \<open>auto simp: conn_good_def\<close>)
  then show ?thesis by (simp add: read_bucket_def Let_def eok_reply)
qed

lemma eok_read_body:
  assumes ok: "eok n c s" and j: "in_job (conn_st s c) = Some j"
  shows "eok n c (read_body c got s)"
proof -
  define s1 where "s1 = upd_job j (\<lambda>x. x\<lparr>body := take (nat (in_job_read (conn_st s c))) (body x) @ got @
      drop (nat (in_job_read (conn_st s c)) + length got) (body x)\<rparr>) s"
  have c1: "cok n c s1" unfolding s1_def by (rule cok_upd_job_other [OF eokD(1) [OF ok]]) (simp_all add: core_def)
  have ok1: "eok n c s1" by (rule eok_calm [OF ok c1]) (simp add: s1_def calm_same)
  define s2 where "s2 = upd_conn c (\<lambda>x. x\<lparr>in_job_read := in_job_read x + int (length got)\<rparr>) s1"
  have ok2: "eok n c s2" unfolding s2_def
    by (rule eok_upd [OF ok1]) (use eokD(3) [OF ok1] in \<open>auto simp: conn_good_def\<close>)
  have j2: "in_job (conn_st s2 c) = Some j" using j by (simp add: s2_def s1_def)
  have "eok n c (maybe_enqueue_incoming_job c s2)"
    by (rule eok_settles [OF ok2 cok_maybe_enqueue [OF eokD(1) [OF ok2] j2] settles_maybe]) (simp add: j2)
  then show ?thesis by (simp add: read_body_def Let_def j s1_def [symmetric] s2_def [symmetric])
qed

lemma eok_want_command: "eok n c s \<Longrightarrow> eok n c (conn_want_command c s)"
proof -
  assume ok: "eok n c s"
  define s1 where "s1 = epollq_add c CHR ''r'' s"
  have ok1: "eok n c s1"
    unfolding s1_def by (rule eok_calm [OF ok]) (use eokD(1) [OF ok] in \<open>simp_all add: calm_same\<close>)
  define s2 where "s2 = (case out_job (conn_st s1 c) of
      Some j \<Rightarrow> if r_state (job_st s1 j) = Copy then job_free (Some j) s1 else s1 | None \<Rightarrow> s1)"
  have "eok n c (job_free (Some j) s1)" if "r_state (job_st s1 j) = Copy" for j
  proof (rule eok_calm [OF ok1])
    have "sok {} {} [] (job_free (Some j) s1)" by (rule sok_free_copy(1) [OF cokD(1) [OF eokD(1) [OF ok1]] that])
    then show "cok n c (job_free (Some j) s1)"
      using room_job_free [OF sokD(3) [OF cokD(1) [OF eokD(1) [OF ok1]]], of n "Some j"] eokD(1) [OF ok1] by (simp add: cok_def)
  qed (simp add: calm_same)
  then have ok2: "eok n c s2" using ok1 by (auto simp: s2_def split: option.split)
  show ?thesis
    unfolding conn_want_command_def Let_def s1_def [symmetric] s2_def [symmetric]
    by (rule eok_upd [OF ok2]) (use eokD(3) [OF ok2] in \<open>auto simp: conn_good_def\<close>)
qed

lemma eok_wrote:
  assumes ok: "eok n c s"
  shows "eok n c (wrote_word c r s)" "eok n c (wrote_job c r s)"
proof -
  have a: "eok n c (upd_conn c (\<lambda>x. x\<lparr>reply_sent := reply_sent x + r\<rparr>) s)"
    by (rule eok_upd [OF ok]) (use eokD(3) [OF ok] in \<open>auto simp: conn_good_def\<close>)
  then have b: "eok n c (upd_conn c (\<lambda>x. x\<lparr>out_job_sent := out_job_sent x + (reply_sent x - k), reply_sent := k\<rparr>)
      (upd_conn c (\<lambda>x. x\<lparr>reply_sent := reply_sent x + r\<rparr>) s))" for k
    by (rule eok_upd) (use eokD(3) [OF ok] in \<open>auto simp: conn_good_def\<close>)
  show "eok n c (wrote_word c r s)" "eok n c (wrote_job c r s)"
    using a b eok_want_command by (simp_all add: wrote_word_def wrote_job_def Let_def)
qed

lemma eok_process_io:
  assumes ok: "eok n c s"
  shows "eok n c (conn_process_io e c s)"
proof -
  have g: "conn_good (conn_st s c)" by (rule eokD(3) [OF ok])
  then have l: "length (c_cmd (conn_st s c)) \<le> LINE_BUF_SIZE" by (simp add: conn_good_def)
  have rd: "length (c_cmd (conn_st s c)) + length got \<le> LINE_BUF_SIZE"
    if "length got \<le> nat (int LINE_BUF_SIZE - int (length (c_cmd (conn_st s c))))" for got :: string
    using that l by linarith
  have "eok n c (upd_conn c (\<lambda>y. y\<lparr>pending_timeout := - 1\<rparr>) s)"
    by (rule eok_upd [OF ok]) (use g in \<open>auto simp: conn_good_def\<close>)
  then have w: "eok n c (reply_msg c ''TIMED_OUT'' (remove_waiting_conn c (upd_conn c (\<lambda>y. y\<lparr>pending_timeout := - 1\<rparr>) s)))"
    by (intro eok_reply_msg, elim eok_calm) (use eokD(1) [OF ok] in \<open>simp_all add: calm_same cok_upd_conn\<close>)
  have d: "eok n c (with_read e c r (read_body c) s)" if st: "c_state (conn_st s c) = STATE_WANT_DATA" for r
  proof -
    obtain j where "in_job (conn_st s c) = Some j" using g st by (auto simp: conn_good_def)
    then show ?thesis using eok_with_read [OF ok] eok_read_body [OF ok] by blast
  qed
  show ?thesis
    unfolding conn_process_io_def Let_def
    using ok d w eok_with_write [OF ok, of "wrote_word c", OF eok_wrote(1) [OF ok]] eok_with_write [OF ok, of "wrote_job c", OF eok_wrote(2) [OF ok]]
      eok_with_read [OF ok, of _ "read_bucket c", OF eok_read_bucket [OF ok]]
      eok_with_read [OF ok, of _ "read_command c", OF eok_read_command [OF ok rd]]
      eok_with_read [OF ok, of _ "read_endline c", OF eok_read_endline [OF ok rd]]
    by (auto split: cstate.split)
qed


section \<open>The command loop\<close>

lemma eok_cmd_loop: "eok (k + n) c s \<Longrightarrow> eok n c (cmd_loop k si c s)"
proof (induction k arbitrary: s)
  case (Suc k)
  have okl: "eok n c s" if "eok (k + n) c s" for k s
    using that by (auto simp: eok_def cok_def room_def)
  define s1 where "s1 = upd_conn c (\<lambda>x. x\<lparr>cmd_len := scan_line_end (c_cmd (conn_st s c))\<rparr>) s"
  have ok1: "eok (Suc k + n) c s1" unfolding s1_def
    by (rule eok_upd [OF Suc.prems]) (use eokD(3) [OF Suc.prems] in \<open>auto simp: conn_good_def\<close>)
  have "eok (k + n) c (dispatch_cmd si c s1)"
    using eok_settles [OF ok1 cok_dispatch settles_dispatch [OF eokD(3) [OF ok1]]] eokD(1) [OF ok1] by simp
  then have "eok n c (cmd_loop k si c (fill_extra_data c (dispatch_cmd si c s1)))" by (rule Suc.IH [OF eok_fill])
  then show ?case
    unfolding cmd_loop.simps Let_def s1_def [symmetric] using okl [OF Suc.prems] okl [OF ok1] by simp
qed simp

section \<open>Closing\<close>

text \<open>The invariant between events.\<close>

definition gok :: "nat \<Rightarrow> server \<Rightarrow> bool" where
  "gok n s \<longleftrightarrow> sok {} {} [] s \<and> room n s \<and> conns_good s"

lemma gok_eok: "eok n c s \<longleftrightarrow> gok n s \<and> c \<in> live_conns s"
  by (auto simp: eok_def gok_def cok_def)

lemma gok_calm: "gok n s \<Longrightarrow> sok {} {} [] s' \<Longrightarrow> room n s' \<Longrightarrow> calm s s' \<Longrightarrow> gok n s'"
  using conn_good_calm [of s s'] calmD(7) [of s s'] by (auto simp: gok_def conns_good_def)

lemma gok_cframe: "gok n s \<Longrightarrow> cframe s s' \<Longrightarrow> calm s s' \<Longrightarrow> gok n s'"
  by (rule gok_calm) (use sok_cframe [of "{}" "{}" "[]" s s'] room_oview [of s' s n] in \<open>auto simp: gok_def cframe_def\<close>)

lemma calm_reserved_loop: "calm s (enqueue_reserved_loop n c s)"
proof (induction n arbitrary: s)
  case (Suc n)
  show ?case
  proof (cases "jl_items (lists s) (LReserved c)")
    case (Cons j js)
    define s1 where "s1 = snd (list_remove j s)"
    obtain r s2 where q: "enqueue_job j 0 False s1 = (r, s2)" by (rule prod.exhaust)
    define s3 where "s3 = (if r then s2 else snd (bury_job j False s2))"
    have "calm s s3" using calm_requeue [OF q] calm_eq [of s1 s] by (simp add: s3_def s1_def)
    then have "calm s (upd_conn c (\<lambda>x. x\<lparr>soonest_job := None\<rparr>) (upd_stat t f (upd_global g s3)))" for t f g
      using calm_eq' [of "upd_conn c (\<lambda>x. x\<lparr>soonest_job := None\<rparr>) (upd_stat t f (upd_global g s3))" s3 s] by simp
    then have "calm s (enqueue_reserved_loop n c (upd_conn c (\<lambda>x. x\<lparr>soonest_job := None\<rparr>) (upd_stat t f (upd_global g s3))))" for t f g
      using calm_trans [OF _ Suc.IH] by blast
    then show ?thesis using Cons q by (simp add: Let_def s1_def [symmetric] s3_def [symmetric])
  qed simp
qed simp

lemma connclose_others:
  "\<forall>d. d \<noteq> c \<longrightarrow> ubase (conn_st (connclose c s) d) = ubase (conn_st s d) \<and>
     (c_state (conn_st (connclose c s) d) = STATE_WANT_DATA \<longrightarrow> c_state (conn_st s d) = STATE_WANT_DATA)"
proof -
  have cj: "steady c s (close_jobs c s)"
  proof -
    have "ustat (case out_job (conn_st s1 c) of Some j \<Rightarrow> if r_state (job_st s1 j) = Copy then job_free (Some j) s1 else s1 | None \<Rightarrow> s1)
        = ustat s1" for s1 by (simp split: option.split)
    then have "calm s (case out_job (conn_st (job_free p (snd (syscall s))) c) of
        Some j \<Rightarrow> if r_state (job_st (job_free p (snd (syscall s))) j) = Copy then job_free (Some j) (job_free p (snd (syscall s)))
          else job_free p (snd (syscall s)) | None \<Rightarrow> job_free p (snd (syscall s)))" for p
      by (intro calm_same) simp
    then show ?thesis unfolding close_jobs_def Let_def by (rule steady_trans [OF steady_calm steady_upd])
  qed
  define s3 where "s3 = close_jobs c s"
  define s6 where "s6 = (let s4 = (if type_producer (conn_st s3 c) then s3\<lparr>cur_producer_ct := cur_producer_ct s3 - 1\<rparr> else s3);
      s5 = (if type_worker (conn_st s4 c) then s4\<lparr>cur_worker_ct := cur_worker_ct s4 - 1\<rparr> else s4) in s5\<lparr>cur_conn_ct := cur_conn_ct s5 - 1\<rparr>)"
  have ct: "ustat (t\<lparr>cur_conn_ct := k\<rparr>) = ustat t" for t k by (simp add: ustat_def)
  have u6: "ustat s6 = ustat s3" by (simp add: s6_def Let_def ct)
  define s7 where "s7 = remove_waiting_conn c s6"
  define s8 where "s8 = (if has_reserved_job c s7 then enqueue_reserved_jobs c s7 else s7)"
  have "calm s7 s8" using calm_reserved_loop by (simp add: s8_def enqueue_reserved_jobs_def)
  moreover have "ustat s7 = ustat s3" using u6 by (simp add: s7_def)
  ultimately have c8: "calm s3 s8" using calm_eq by blast
  obtain w s9 where cl: "ms_clear (Some on_ignore) (watch (conn_st s8 c)) s8 = (w, s9)" by (rule prod.exhaust)
  have u9: "ustat s9 = ustat s8" by (rule ustat_rframe [OF rframe_clear [OF cl]])
  define s13 where "s13 = (let s10 = upd_conn c (\<lambda>x. x\<lparr>watch := w\<rparr>) s9;
      s11 = upd_tube (the (c_use (conn_st s10 c))) (\<lambda>x. x\<lparr>using_ct := using_ct x - 1\<rparr>) s10;
      s12 = tube_dref (c_use (conn_st s11 c)) s11
      in tube_iref None (upd_conn c (\<lambda>x. x\<lparr>c_use := None\<rparr>) s12))"
  have u13: "ustat s13 = ustat s8" using u9 by (simp add: s13_def Let_def)
  define s14 where "s14 = (if in_conns (conn_st s13 c) then conns_remove c s13 else s13)"
  have u14: "ustat s14 = ustat s8" using u13 by (simp add: s14_def)
  have "connclose c s = s14\<lparr>live_conns := live_conns s14 - {c}\<rparr>"
    using cl unfolding connclose_def s14_def s13_def s8_def s7_def s6_def s3_def close_jobs_def Let_def by simp
  moreover have "steady c s s14"
    using steady_trans [OF cj [folded s3_def] steady_calm [OF c8]] calm_same [OF u14] steady_trans [OF _ steady_calm] by blast
  ultimately show ?thesis by (simp add: steady_def)
qed

lemma gok_connclose:
  assumes ok: "gok n s"
  shows "gok n (connclose c s)" "live_conns (connclose c s) = live_conns s - {c}"
proof -
  note cc = sok_connclose [of "{}" "[]" s n c]
  show l: "live_conns (connclose c s) = live_conns s - {c}" using cc(3) ok by (simp add: gok_def)
  have "conn_good (conn_st (connclose c s) d)" if "d \<in> live_conns s" "d \<noteq> c" for d
    using connclose_others [of c s] that ok by (auto simp: gok_def conns_good_def conn_good_def ubase_def)
  then show "gok n (connclose c s)" using cc(1,2) ok l by (simp add: gok_def conns_good_def)
qed


section \<open>Pending changes of the event filter\<close>

lemma gok_move: "gok n s \<Longrightarrow> sok {} {} [] s' \<Longrightarrow> oview s' = oview s \<Longrightarrow> calm s s' \<Longrightarrow> gok n s'"
  by (rule gok_calm) (simp_all add: room_oview [of s' s] gok_def)

lemma gok_rframe: "gok n s \<Longrightarrow> rframe s s' \<Longrightarrow> gok n s'"
  using sok_rframe [of "{}" "{}" "[]" s s'] rframe_fields(11) [of s s' n] calm_same [OF ustat_rframe, of s s'] gok_calm [of n s s']
  by (simp add: gok_def)

lemma gok_upd:
  assumes "gok n s" "cbase (f (conn_st s c)) = cbase (conn_st s c)" "soonest_job (f (conn_st s c)) = soonest_job (conn_st s c)"
    "c_state (f (conn_st s c)) = c_state (conn_st s c)"
  shows "gok n (upd_conn c f s)"
proof (rule gok_cframe [OF assms(1)])
  show "cframe s (upd_conn c f s)" by (rule cframe_upd_conn) (use assms in simp_all)
  have "ubase (f (conn_st s c)) = ubase (conn_st s c)"
    using arg_cong [OF assms(2), of ubase] by (simp add: cbase_def ubase_def)
  then show "calm s (upd_conn c f s)" using assms(4) by (intro calm_same) simp
qed

lemma cframe_epollq [simp]: "cframe s (s\<lparr>epollq := e\<rparr>)" "cframe s (s\<lparr>conns := h\<rparr>)"
  by (simp_all add: cframe_def soonest_upds)

lemma gok_epollq: "gok n s \<Longrightarrow> gok n (s\<lparr>epollq := e\<rparr>)"
  by (erule gok_cframe) (simp_all add: calm_same)

lemma gok_rmconn: "gok n s \<Longrightarrow> gok n (epollq_rmconn c s)"
proof -
  have "gok n s \<Longrightarrow> gok n (rmconn_loop k c h s)" for k h s
  proof (induction k arbitrary: h s)
    case (Suc k)
    show ?case
    proof (cases "epollq s")
      case None
      then show ?thesis using gok_epollq [OF Suc.prems] by simp
    next
      case (Some x)
      have a: "gok n (upd_conn x (\<lambda>y. y\<lparr>c_next := m\<rparr>) t)" if "gok n t" for m t
        by (rule gok_upd [OF that]) (simp_all add: cbase_def)
      note b = a [OF gok_epollq [OF Suc.prems]]
      have "gok n (rmconn_loop k c h' (upd_conn x (\<lambda>y. y\<lparr>c_next := m\<rparr>) (s\<lparr>epollq := e\<rparr>)))" for h' m e
        by (rule Suc.IH [OF b])
      moreover have "gok n (rmconn_loop k c h' (upd_conn x (\<lambda>y. y\<lparr>c_next := m'\<rparr>) (upd_conn x (\<lambda>y. y\<lparr>c_next := m\<rparr>) (s\<lparr>epollq := e\<rparr>))))" for h' m m' e
        by (rule Suc.IH [OF a [OF b]])
      ultimately show ?thesis unfolding rmconn_loop.simps Some option.case Let_def by (cases "x = c") (simp_all only: if_True if_False simp_thms)
    qed
  qed (simp add: gok_epollq)
  then show "gok n s \<Longrightarrow> gok n (epollq_rmconn c s)" unfolding epollq_rmconn_def by blast
qed

lemma gok_env: "gok n s \<Longrightarrow> malloc s = (b, s') \<Longrightarrow> gok n s'" "gok n s \<Longrightarrow> syscall s = (b, s') \<Longrightarrow> gok n s'"
  "gok n s \<Longrightarrow> nanoseconds s = (t, s') \<Longrightarrow> gok n s'"
  by (erule gok_cframe [OF _ cframe_env(1) calm_same [OF ul.env_dest(1)]], assumption+,
      erule gok_cframe [OF _ cframe_env(2) calm_same [OF ul.env_dest(2)]], assumption+,
      erule gok_cframe [OF _ cframe_env(3) calm_same [OF ul.env_dest(3)]], assumption+)

lemma gok_apply: "gok n s \<Longrightarrow> gok n (epollq_apply s)"
proof -
  have "gok n s \<Longrightarrow> gok n (apply_loop k s)" for k s
  proof (induction k arbitrary: s)
    case (Suc k)
    show ?case
    proof (cases "epollq s")
      case (Some c)
      define s1 where "s1 = upd_conn c (\<lambda>y. y\<lparr>c_next := None\<rparr>) (s\<lparr>epollq := c_next (conn_st s c)\<rparr>)"
      have ok1: "gok n s1" unfolding s1_def by (rule gok_upd [OF gok_epollq [OF Suc.prems]]) (simp_all add: cbase_def)
      obtain b s2 where e: "syscall s1 = (b, s2)" by (rule prod.exhaust)
      have ok2: "gok n s2" by (rule gok_env(2) [OF ok1 e])
      then have "gok n (apply_loop k s2)" "gok n (apply_loop k (connclose c s2))" using Suc.IH gok_connclose(1) by blast+
      then show ?thesis using Some e by (cases b) (simp_all add: Let_def s1_def)
    qed (use Suc.prems in simp)
  qed simp
  then show "gok n s \<Longrightarrow> gok n (epollq_apply s)" unfolding epollq_apply_def by blast
qed

section \<open>A connection is ready\<close>

lemma cmd_bound: "conn_good x \<Longrightarrow> Suc (length (c_cmd x)) \<le> Suc LINE_BUF_SIZE"
  by (simp add: conn_good_def)

lemma eok_less: "eok m c s \<Longrightarrow> n \<le> m \<Longrightarrow> eok n c s"
  by (auto simp: eok_def cok_def room_def)

lemma gok_less: "gok m s \<Longrightarrow> n \<le> m \<Longrightarrow> gok n s"
  by (auto simp: gok_def room_def)

lemma gok_h_conn:
  assumes ok: "gok (Suc LINE_BUF_SIZE + n) s" and c: "c \<in> live_conns s"
  shows "gok n (h_conn si e fd which c s)"
proof (cases "fd \<noteq> sock_fd (conn_st s c)")
  case True
  then show ?thesis
    using gok_less [OF gok_apply [OF gok_connclose(1) [OF ok]], of n c] by (simp add: h_conn_def)
next
  case False
  define s1 where "s1 = (if which = CHR ''h'' then upd_conn c (\<lambda>x. x\<lparr>halfclosed := True\<rparr>) s else s)"
  have ok0: "eok (Suc LINE_BUF_SIZE + n) c s" using ok c by (simp add: gok_eok)
  have ok1: "eok (Suc LINE_BUF_SIZE + n) c s1"
    using ok0 eok_upd [OF ok0, of "\<lambda>x. x\<lparr>halfclosed := True\<rparr>"] eokD(3) [OF ok0] by (simp add: s1_def conn_good_def)
  define s2 where "s2 = conn_process_io e c s1"
  have ok2: "eok (Suc LINE_BUF_SIZE + n) c s2" unfolding s2_def by (rule eok_process_io [OF ok1])
  define s3 where "s3 = cmd_loop (Suc (length (c_cmd (conn_st s2 c)))) si c s2"
  have "eok (Suc (length (c_cmd (conn_st s2 c))) + n) c s2"
    by (rule eok_less [OF ok2]) (use cmd_bound [OF eokD(3) [OF ok2]] in simp)
  then have "eok n c s3" unfolding s3_def by (rule eok_cmd_loop)
  then have ok3: "gok n s3" by (simp add: gok_eok)
  show ?thesis
    unfolding h_conn_def Let_def s1_def [symmetric] s2_def [symmetric] s3_def [symmetric]
    using False gok_apply [OF ok3] gok_apply [OF gok_connclose(1) [OF gok_rmconn [OF ok3]]] by simp
qed

section \<open>Time-outs\<close>

lemma calm_connsoonest: "connsoonestjob c s = (jo, s') \<Longrightarrow> calm s s'" "conndeadlinesoon c s = (b, s') \<Longrightarrow> calm s s'"
  using calm_same uw.connsoonestjob uw.conndeadlinesoon by blast+

lemma gok_timeout_loop: "gok n s \<Longrightarrow> gok n (timeout_loop k c s)"
proof (induction k arbitrary: s)
  case (Suc k)
  obtain jo s1 where cs: "connsoonestjob c s = (jo, s1)" by (rule prod.exhaust)
  have ok1: "gok n s1" by (rule gok_cframe [OF Suc.prems cframe_soonestjob [OF cs] calm_connsoonest(1) [OF cs]])
  show ?case
  proof (cases jo)
    case None
    then show ?thesis using cs ok1 by simp
  next
    case (Some j)
    obtain nw s2 where nn: "nanoseconds s1 = (nw, s2)" by (rule prod.exhaust)
    have ok2: "gok n s2" by (rule gok_env(3) [OF ok1 nn])
    have l2: "lists s2 = lists s1" "job_st s2 = job_st s1" using nanoseconds_fields [of s1] nn by simp_all
    have "soonest_ok {} s" using Suc.prems sokD(2) by (auto simp: gok_def)
    then have jm: "j \<in> set (jl_items (lists s2) (LReserved c))" using connsoonestjob_ok(2) [OF cs _ Some] l2 by simp
    have sok2: "sok {} {} [] s2" using ok2 by (simp add: gok_def)
    have "j \<in> at_home {} s2 (PReserved c)"
      using jm places_okD(8) [OF queue_okD(1) [OF sokD(1) [OF sok2]], of "PReserved c"] by simp
    then have j: "j \<in> live_jobs s2" "r_state (job_st s2 j) = Reserved" "reserver (job_st s2 j) = Some c"
      by (auto simp: at_home_def home_def split: jstate.splits)
    define s3 where "s3 = (if out_job (conn_st s2 c) = Some j
        then case job_copy (Some j) s2 of (jo, s') \<Rightarrow> upd_conn c (\<lambda>x. x\<lparr>out_job := jo\<rparr>) s' else s2)"
    have s3: "gok n s3 \<and> j \<in> live_jobs s3 \<and> job_st s3 j = job_st s2 j"
    proof (cases "out_job (conn_st s2 c) = Some j")
      case True
      obtain ko s' where jc: "job_copy (Some j) s2 = (ko, s')" by (rule prod.exhaust)
      note sc = sok_job_copy [OF sok2 j(1) jc]
      have "gok n s'" by (rule gok_calm [OF ok2 sc(1) _ calm_same [OF ustat_job_copy [OF jc]]]) (use sc(2) ok2 in \<open>simp add: gok_def\<close>)
      then have "gok n (upd_conn c (\<lambda>x. x\<lparr>out_job := ko\<rparr>) s')" by (rule gok_upd) (simp_all add: cbase_def)
      then show ?thesis using True jc sc(5) [OF j(1)] by (simp add: s3_def)
    qed (use ok2 j in \<open>simp add: s3_def\<close>)
    define s5 where "s5 = upd_job j (\<lambda>x. x\<lparr>r_timeout_ct := r_timeout_ct x + 1\<rparr>) (s3\<lparr>timeout_ct := timeout_ct s3 + 1\<rparr>)"
    have r4: "gok n (s3\<lparr>timeout_ct := timeout_ct s3 + 1\<rparr>)" using gok_rframe [OF _ rframe_conn_cts(5)] s3 by blast
    have sok5: "sok {} {} [] s5"
      unfolding s5_def by (rule sok_upd_job_other) (use r4 in \<open>simp_all add: gok_def core_def\<close>)
    have ok5: "gok n s5" by (rule gok_move [OF r4 sok5]) (simp_all add: s5_def oview_upd calm_same)
    have j5: "j \<in> live_jobs s5" "r_state (job_st s5 j) = Reserved" "reserver (job_st s5 j) = Some c"
      using s3 j by (simp_all add: s5_def)
    obtain s6 where rm: "remove_this_reserved_job c j s5 = (Some j, s6)" "sok {} {j} [] s6"
      using sok_remove_reserved [OF sok5 j5(1) _ j5(2,3)] by auto
    obtain r s7 where q: "enqueue_job j 0 False s6 = (r, s7)" by (rule prod.exhaust)
    define s8 where "s8 = (if r then s7 else snd (bury_job j False s7))"
    have sok8: "sok {} {} [] s8" using sok_requeue [OF rm(2) singletonI q] by (simp add: s8_def)
    have o8: "oview s8 = oview s5" using oview_enqueue_job [OF q] oview_removes(4) [OF rm(1)] by (simp add: s8_def)
    have "calm s6 s8" using calm_requeue [OF q] by (simp add: s8_def)
    then have "calm s5 s8" using calm_eq [OF ustat_removes(4) [OF rm(1)]] by simp
    then have ok8: "gok n s8" by (rule gok_move [OF ok5 sok8 o8])
    have "gok n (connsched c s8)" by (rule gok_cframe [OF ok8]) (simp_all add: calm_same)
    then have "gok n (timeout_loop k c (connsched c s8))" by (rule Suc.IH)
    then show ?thesis
      using ok2 unfolding timeout_loop.simps cs Some prod.case option.case nn Let_def s3_def [symmetric] s5_def [symmetric] rm(1) option.sel q s8_def [symmetric]
      by simp
  qed
qed simp

lemma gok_conn_timeout:
  assumes ok: "gok n s"
  shows "gok n (conn_timeout c s)"
proof -
  obtain b s1 where e: "(if type_waiting (conn_st s c) then conndeadlinesoon c s else (False, s)) = (b, s1)" by (rule prod.exhaust)
  have ok1: "gok n s1"
    using e ok gok_cframe [OF ok cframe_deadlinesoon calm_connsoonest(2)] by (auto split: if_splits)
  define s2 where "s2 = timeout_loop (length (ticks s1) + length (jl_items (lists s1) (LReserved c)) + 2) c s1"
  have ok2: "gok n s2" unfolding s2_def by (rule gok_timeout_loop [OF ok1])
  have rep: "gok n (reply_msg c m (remove_waiting_conn c t))" if "gok n t" for m t
  proof (rule gok_cframe)
    show "gok n (remove_waiting_conn c t)" by (rule gok_cframe [OF that]) (simp_all add: calm_same)
  qed (simp_all add: calm_same)
  have "gok n (upd_conn c (\<lambda>x. x\<lparr>pending_timeout := - 1\<rparr>) s2)" by (rule gok_upd [OF ok2]) (simp_all add: cbase_def)
  then show ?thesis
    unfolding conn_timeout_def e prod.case Let_def s2_def [symmetric] using rep ok2 by simp
qed

end
