(* ===== verification/Bean_Tick.thy ===== *)
theory Bean_Tick
  imports Bean_Events
begin

text \<open>
  The timer of \<open>prot.c\<close> (\<open>prottick\<close>), new connections (\<open>h_accept\<close>) and start-up (\<open>prot_init\<close>) preserve or
  establish the invariant between events.
\<close>

section \<open>Delayed jobs\<close>

lemma soonest_delayed_cases:
  assumes "soonest_delayed_job s = Some j"
  shows "\<exists>t \<in> set (ms_items (tubes s)). 0 < heap_len (delay (tube_st s t)) \<and> j = heap_data (delay (tube_st s t)) ! 0"
proof -
  define f where "f = (\<lambda>t jo. if heap_len (delay (tube_st s t)) = 0 then jo
      else let nj = heap_data (delay (tube_st s t)) ! 0
           in if jo = None \<or> r_deadline_at (job_st s nj) < r_deadline_at (job_st s (the jo)) then Some nj else jo)"
  have "fold f ts jo = Some j \<Longrightarrow> jo = Some j \<or>
      (\<exists>t \<in> set ts. 0 < heap_len (delay (tube_st s t)) \<and> j = heap_data (delay (tube_st s t)) ! 0)" for ts jo
  proof (induction ts arbitrary: jo)
    case (Cons t ts)
    have "f t jo = jo \<or> 0 < heap_len (delay (tube_st s t)) \<and> f t jo = Some (heap_data (delay (tube_st s t)) ! 0)"
      by (auto simp: f_def Let_def)
    then show ?case using Cons.IH [of "f t jo"] Cons.prems by auto
  qed simp
  from this [where ts = "ms_items (tubes s)" and jo = None] show ?thesis using assms by (simp add: soonest_delayed_job_def f_def [symmetric])
qed

lemma gok_undelay:
  assumes ok: "gok n s" and j: "soonest_delayed_job s = Some j" and q: "enqueue_job j 0 False (delay_remove j s) = (r, s2)"
  shows "gok n (if r then s2 else snd (bury_job j False s2))"
proof -
  have sok: "sok {} {} [] s" using ok by (simp add: gok_def)
  obtain t where t: "0 < heap_len (delay (tube_st s t))" "j = heap_data (delay (tube_st s t)) ! 0"
    using soonest_delayed_cases [OF j] by blast
  have d: "sok {} {j} [] (delay_remove j s)"
    using sok_remove_delayed(1) [OF sok delayed_root(1-3) [OF sok t(1)]] t(2) by simp
  show ?thesis
  proof (rule gok_move [OF ok])
    show "sok {} {} [] (if r then s2 else snd (bury_job j False s2))" using sok_requeue [OF d singletonI q] by simp
    show "oview (if r then s2 else snd (bury_job j False s2)) = oview s" using oview_enqueue_job [OF q] by simp
    show "calm s (if r then s2 else snd (bury_job j False s2))"
      using calm_requeue [OF q] calm_eq [of "delay_remove j s" s] by simp
  qed
qed

lemma gok_undelay_loop: "gok n s \<Longrightarrow> undelay_loop k nw p s = (p', s') \<Longrightarrow> gok n s'"
proof (induction k arbitrary: p s)
  case (Suc k)
  show ?case
  proof (cases "soonest_delayed_job s")
    case None
    then show ?thesis using Suc.prems by simp
  next
    case (Some j)
    obtain r s2 where q: "enqueue_job j 0 False (delay_remove j s) = (r, s2)" by (rule prod.exhaust)
    show ?thesis using Suc.IH [OF gok_undelay [OF Suc.prems(1) Some q]] Suc.prems Some q by (auto simp: Let_def split: if_splits)
  qed
qed simp

section \<open>Paused tubes and connections\<close>

lemma gok_process_queue: "gok n s \<Longrightarrow> gok n (process_queue s)"
  using gok_move [of n s "process_queue s"] sok_process_queue [of "{}" "{}" "[]" s] by (simp add: gok_def)

lemma gok_unpause: "gok n (snd ps) \<Longrightarrow> gok n (snd (unpause_step nw t ps))"
  using gok_process_queue [OF gok_rframe [OF _ rframe_counts(4)], of n "snd ps" t 0]
  by (simp add: unpause_step_def Let_def case_prod_beta)

lemma gok_unpause_all: "gok n (snd ps) \<Longrightarrow> gok n (snd (fold (unpause_step nw) ts ps))"
  by (induction ts arbitrary: ps) (simp_all add: gok_unpause)

lemma cframe_timer:
  assumes "heapremove conn_less conn_setpos (conns s) s k = (r, h, s1)"
  shows "cframe s (upd_conn c (\<lambda>x. x\<lparr>in_conns := False\<rparr>) (s1\<lparr>conns := h\<rparr>))"
    "calm s (upd_conn c (\<lambda>x. x\<lparr>in_conns := False\<rparr>) (s1\<lparr>conns := h\<rparr>))"
proof -
  have "cframe s s1"
    unfolding cframe_def using kv.conns_heap(1) [OF assms] oc.conns_heap(1) [OF assms] soonest_ok_view [OF sview_heaps(3) [OF assms]]
      wv.conns_heap(1) [OF assms] by auto
  then show "cframe s (upd_conn c (\<lambda>x. x\<lparr>in_conns := False\<rparr>) (s1\<lparr>conns := h\<rparr>))"
    by (rule cframe_trans [OF cframe_trans [OF _ cframe_epollq(2)] cframe_upd_conn]) (simp_all add: cbase_def)
  show "calm s (upd_conn c (\<lambda>x. x\<lparr>in_conns := False\<rparr>) (s1\<lparr>conns := h\<rparr>))"
    by (rule calm_same) (use uw.conns_heap(1) [OF assms] in simp)
qed

lemma gok_conns_loop: "gok n s \<Longrightarrow> conns_loop k nw p s = Some (p', s') \<Longrightarrow> gok n s'"
proof (induction k arbitrary: p s)
  case 0
  then show ?case by (auto simp: conns_loop.simps [of 0] Let_def split: if_splits)
next
  case (Suc k)
  obtain r h s1 where hr: "heapremove conn_less conn_setpos (conns s) s 0 = (r, h, s1)" by (rule prod_cases3)
  have "gok n (conn_timeout c (upd_conn c (\<lambda>x. x\<lparr>in_conns := False\<rparr>) (s1\<lparr>conns := h\<rparr>)))" for c
    by (rule gok_conn_timeout [OF gok_cframe [OF Suc.prems(1) cframe_timer [OF hr]]])
  then show ?case using Suc hr by (auto simp: conns_loop.simps [of "Suc k"] Let_def split: if_splits)
qed

lemma gok_prottick:
  assumes ok: "gok n s" and e: "prottick k s = Some (p, s')"
  shows "gok n s'"
proof -
  obtain nw s1 where n: "nanoseconds s = (nw, s1)" by (rule prod.exhaust)
  obtain p2 s2 where u: "undelay_loop (Suc (delay_total s1)) nw hour s1 = (p2, s2)" by (rule prod.exhaust)
  obtain p3 s3 where f: "fold (unpause_step nw) (ms_items (tubes s2)) (p2, s2) = (p3, s3)" by (rule prod.exhaust)
  have "gok n s2" by (rule gok_undelay_loop [OF gok_env(3) [OF ok n] u])
  then have ok3: "gok n s3" using gok_unpause_all [of n "(p2, s2)" nw "ms_items (tubes s2)"] f by simp
  obtain p4 s4 where c: "conns_loop k nw p3 s3 = Some (p4, s4)" "s' = epollq_apply s4"
    using e n u f by (auto simp: prottick_def simp del: undelay_loop.simps)
  then show ?thesis using gok_apply gok_conns_loop [OF ok3] by blast
qed

section \<open>New connections\<close>

lemma make_conn_fields:
  assumes e: "make_conn fd st use wt s = (co, s')"
  shows "d \<noteq> brk s \<Longrightarrow> conn_st s' d = conn_st s d"
    "co = Some c \<Longrightarrow> c = brk s \<and> c_state (conn_st s' c) = st \<and> c_cmd (conn_st s' c) = []"
proof -
  obtain b s1 where m: "malloc s = (b, s1)" by (rule prod.exhaust)
  have s1: "brk s1 = brk s" "conn_st s1 = conn_st s" using malloc_frame [of s] m by simp_all
  obtain a w s3 where ap: "ms_append (Some on_watch) malloc (watch zero_conn) (s1\<lparr>brk := Suc (brk s1), conn_st := (conn_st s1)(brk s1 := zero_conn),
      live_conns := insert (brk s1) (live_conns s1)\<rparr>) wt = (a, w, s3)" by (rule prod_cases3)
  have c3: "conn_st s3 = (conn_st s)(brk s := zero_conn)"
    using rframe_fields(5) [OF rframe_watch_append [OF ap]] s1 by simp
  have r: "conn_st (tube_dref tp t) = conn_st t" "conn_st (tube_iref tp t) = conn_st t" for tp t
    by (rule rframe_fields(5), simp)+
  show "d \<noteq> brk s \<Longrightarrow> conn_st s' d = conn_st s d"
    "co = Some c \<Longrightarrow> c = brk s \<and> c_state (conn_st s' c) = st \<and> c_cmd (conn_st s' c) = []"
    using e m ap s1 by (auto simp: make_conn_def Let_def r c3 zero_conn_def split: bool.splits)
qed

lemma gok_make_conn:
  assumes ok: "gok n s" and t: "use < brk s" and e: "make_conn fd STATE_WANT_COMMAND use wt s = (co, s')"
  shows "gok n s'"
proof -
  have sok: "sok {} {} [] s" and g: "conns_good s" using ok by (simp_all add: gok_def)
  note mc = sok_make_conn [OF sok t e] and mf = make_conn_fields [OF e]
  have "conn_good (conn_st s' d)" if d: "d \<in> live_conns s'" for d
  proof (cases "d \<in> live_conns s")
    case True
    then show ?thesis using mf(1) [of d] g refs_okD(5) [OF sokD(4) [OF sok] True] by (auto simp: conns_good_def)
  next
    case False
    then have "co = Some d" using mc(3) d by (cases co) auto
    then show ?thesis using mf(2) [of d] by (auto simp: conn_good_def)
  qed
  then show ?thesis using mc(1) mc(2) [of n] ok by (simp add: gok_def conns_good_def)
qed

lemma gok_sock_fd: "gok n s \<Longrightarrow> gok n (upd_conn c (\<lambda>x. x\<lparr>sock_fd := fd\<rparr>) s)"
proof -
  assume ok: "gok n s"
  then have sok: "sok {} {} [] s" and g: "conns_good s" and r: "room n s" by (simp_all add: gok_def)
  have "sok {} {} [] (upd_conn c (\<lambda>x. x\<lparr>sock_fd := fd\<rparr>) s)" by (rule sok_upd_conn [OF sok]) simp_all
  moreover have "conns_good (upd_conn c (\<lambda>x. x\<lparr>sock_fd := fd\<rparr>) s)" using g by (auto simp: conns_good_def conn_good_def upd_conn_def)
  ultimately show ?thesis using r by (simp add: gok_def room_def)
qed

lemma gok_h_accept:
  assumes ok: "gok n s"
  shows "gok n (h_accept cfd s)"
proof -
  have sc: "gok n (snd (syscall t))" if "gok n t" for t by (rule gok_env(2) [OF that prod.collapse [symmetric]])
  have d: "the (default_tube t) < brk t" if "gok n t" for t
    using refs_okD(7) [OF sokD(4), of "{}" "{}" "[]" t] that by (auto simp: gok_def)
  have mk: "gok n t'" if "gok n t" "make_conn fd STATE_WANT_COMMAND (the (default_tube t)) wt t = (co, t')" for t t' fd wt co
    by (rule gok_make_conn [OF that(1) d [OF that(1)] that(2)])
  show ?thesis
    unfolding h_accept_def Let_def
    by (auto split: option.split prod.split bool.split intro!: gok_apply sc gok_sock_fd dest: gok_env(2) [OF ok] gok_env(2) mk intro: ok)
qed

section \<open>Start-up\<close>

text \<open>Making a tube does not look at \<open>default_tube\<close>.\<close>

lemma malloc_default: "malloc (s\<lparr>default_tube := d\<rparr>) = (fst (malloc s), (snd (malloc s))\<lparr>default_tube := d\<rparr>)"
  by (simp add: malloc_def split: list.split)

lemma find_or_make_default:
  "tube_find_or_make name (s\<lparr>default_tube := d\<rparr>) = (fst (tube_find_or_make name s), (snd (tube_find_or_make name s))\<lparr>default_tube := d\<rparr>)"
proof -
  have mt: "make_tube nm (s\<lparr>default_tube := d\<rparr>) = (fst (make_tube nm s), (snd (make_tube nm s))\<lparr>default_tube := d\<rparr>)" for nm
    by (simp add: make_tube_def malloc_default Let_def split: prod.split bool.split)
  have ma: "ms_append None malloc ts (s\<lparr>default_tube := d\<rparr>) u =
      (case ms_append None malloc ts s u of (b, w, s') \<Rightarrow> (b, w, s'\<lparr>default_tube := d\<rparr>))" for ts u s
    by (simp add: ms_append_def grow_def ms_event_def malloc_default Let_def split: prod.split bool.split)
  have dr: "tube_dref tp (s\<lparr>default_tube := d\<rparr>) = (tube_dref tp s)\<lparr>default_tube := d\<rparr>" for tp s
    by (simp add: tube_dref_def tube_free_def upd_tube_def Let_def split: prod.split option.split)
  have sw: "s\<lparr>default_tube := d, tubes := ts\<rparr> = s\<lparr>tubes := ts, default_tube := d\<rparr>" for s ts by simp
  show ?thesis
    by (auto simp: tube_find_or_make_def make_and_insert_tube_def tube_find_def mt ma dr sw split: prod.split option.split)
qed

lemma boot_sok:
  assumes w: "\<not> wal_use w"
  shows "sok {} {} [] ((boot t)\<lparr>wal := w, allocs := a, sys := y, ticks := ts, now := t', job_data_size_limit := z, default_tube := Some 0\<rparr>)"
proof -
  let ?s = "(boot t)\<lparr>wal := w, allocs := a, sys := y, ticks := ts, now := t', job_data_size_limit := z, default_tube := Some 0\<rparr>"
  have h: "hok ?s p" "contents ?s p = {}" "at_home {} ?s p = {}" for p
    by (cases p, simp_all add: boot_def zero_tube_def at_home_def)+
  then have "(\<forall>p. hok ?s p) = True" by blast
  then have q: "queue_ok {} [] ?s"
    unfolding queue_ok_def places_ok_def h
    by (simp add: boot_def jl_ok_def counts_ok_def num_def zero_stats_def zero_tube_def)
  have "hash_ok ?s"
    using ht_ok_init by (simp add: hash_ok_def boot_def ht_load_def ht_set_def) (simp add: jobhash_init_def)
  then show ?thesis
    using q by (simp add: sok_def soonest_ok_def refs_ok_def uploads_ok_def)
      (simp add: boot_def w zero_conn_def waiters_def zero_tube_def ms_init_def)
qed

lemma sok_default: "sok E X off (s\<lparr>default_tube := d\<rparr>) \<Longrightarrow> u < brk s \<Longrightarrow> sok E X off (s\<lparr>default_tube := Some u\<rparr>)"
  using queue_view [of "s\<lparr>default_tube := Some u\<rparr>" "s\<lparr>default_tube := d\<rparr>" X off]
  by (simp add: sok_def soonest_ok_def hash_ok_def refs_ok_def uploads_ok_def waiters_def qview_def)

lemma gok_prot_init:
  assumes s: "s = (boot t)\<lparr>wal := w, allocs := a, sys := y, ticks := ts, job_data_size_limit := z\<rparr>" and w: "\<not> wal_use w"
    and e: "prot_init s = Some s'" and d: "default_tube s' \<noteq> None" and n: "n \<le> LINE_BUF_SIZE + 1"
  shows "gok n s'" "live_conns s' = {}"
proof -
  obtain t1 s1 where n1: "nanoseconds s = (t1, s1)" by (rule prod.exhaust)
  obtain y' ts' t' where s1: "s1 = (boot t)\<lparr>wal := w, allocs := a, sys := y', ticks := ts', now := t', job_data_size_limit := z\<rparr>"
    using n1 s by (auto simp: nanoseconds_def boot_def split: list.splits)
  define r where "r = (\<lambda>y''. s1\<lparr>started_at := t1, op_ct := (\<lambda>_. 0), sys := y''\<rparr>)"
  have sc: "\<exists>z. u = r z" if "syscall (r q) = (b, u)" for q b u using that by (auto simp: syscall_def r_def split: list.splits)
  have r0: "s1\<lparr>started_at := t1, op_ct := (\<lambda>_. 0)\<rparr> = r y'" and rt: "(r q)\<lparr>tubes := ms_init\<rparr> = r q" for q
    by (simp_all add: r_def s1 boot_def)
  obtain q tp s7 where f: "tube_find_or_make ''default'' (r q) = (tp, s7)"
    and s': "s' = tube_iref tp ((tube_dref (default_tube s7) s7)\<lparr>default_tube := tp\<rparr>)"
    using e n1 by (auto simp: prot_init_def r0 rt dest!: sc split: prod.splits bool.splits)
  have "sok {} {} [] (((boot t)\<lparr>wal := w, allocs := a, sys := q, ticks := ts', now := t', job_data_size_limit := z, default_tube := Some 0\<rparr>)
      \<lparr>started_at := t1, op_ct := (\<lambda>_. 0)\<rparr>)"
    by (rule sok_rframe [OF boot_sok [OF w, where t = t and a = a and y = q and ts = ts' and t' = t' and z = z]]) (simp add: rframe_def qview_def waiters_def)
  then have "sok {} {} [] ((r q)\<lparr>default_tube := Some 0\<rparr>)" by (simp add: r_def s1 boot_def)
  note fm = sok_find_or_make [OF this find_or_make_default [where name = "''default''" and s = "r q" and d = "Some 0", unfolded f fst_conv snd_conv]]
  have "(r q)\<lparr>default_tube := None\<rparr> = r q" by (simp add: r_def s1 boot_def)
  then have "s7 = s7\<lparr>default_tube := None\<rparr>" using find_or_make_default [where name = "''default''" and s = "r q" and d = None] f by simp
  from arg_cong [OF this, of default_tube] have d7: "default_tube s7 = None" by simp
  have di: "default_tube (tube_iref tp v) = default_tube v" for v by (rule rframe_fields(7)) simp
  obtain u where u: "tp = Some u" "u < brk s7" using d fm(2) by (auto simp: s' di)
  have ok7: "sok {} {} [] (s7\<lparr>default_tube := Some u\<rparr>)" using sok_default [OF fm(1)] u by simp
  have l7: "live_conns s7 = {}" using fm(4) by (simp add: r_def s1 boot_def)
  have h7: "room n s7" using find_or_make_hash [OF f] n by (simp add: room_def r_def s1 boot_def jobhash_init_def primes_17)
  have rf: "rframe (s7\<lparr>default_tube := Some u\<rparr>) s'" by (simp add: s' d7 u tube_dref_def)
  have "gok n (s7\<lparr>default_tube := Some u\<rparr>)" using ok7 l7 h7 by (simp add: gok_def conns_good_def room_def)
  then show "gok n s'" by (rule gok_rframe [OF _ rf])
  show "live_conns s' = {}" using rframe_fields(6) [OF rf] l7 by simp
qed

end
