(* ===== verification/Bean_Serve.thy ===== *)
theory Bean_Serve
  imports Bean_Tick
begin

text \<open>
  The event loop of \<open>serv.c\<close> and the states that a server without a log can reach: start-up, then rounds of
  \<open>srvserve\<close>, with signals and changes of the environment between them. The invariant between events holds
  in all of them, by rule induction.
\<close>

section \<open>The event loop\<close>

definition srvaccept :: "int option \<Rightarrow> server \<Rightarrow> server" where
  "srvaccept cfd s = h_accept cfd s"

text \<open>
  What \<open>socknext\<close> reports: nothing before the time-out, the listening socket (with what \<open>accept\<close> will
  return), or the socket of a connection with the direction and what its system call will return.
\<close>

datatype srv_event = Quiet | Listening "int option" | Client addr char io

text \<open>
  One round of the loop of \<open>srvserve\<close>. Only sockets of open connections are reported, so any other event
  is not a round; \<open>n\<close> bounds the connections whose time-outs one tick handles.
\<close>

definition srvserve_round :: "sysinfo \<Rightarrow> nat \<Rightarrow> srv_event \<Rightarrow> server \<Rightarrow> server option" where
  "srvserve_round si n ev s =
     (case prottick n s of
        None \<Rightarrow> None
      | Some (period, s1) \<Rightarrow>
          (case ev of
             Quiet \<Rightarrow> Some s1
           | Listening cfd \<Rightarrow> Some (srvaccept cfd s1)
           | Client c rw e \<Rightarrow> if c \<in> live_conns s1 then Some (prothandle si e c rw s1) else None))"

text \<open>
  The capacity of the job table and of the id counter. A round creates at most one job per byte of a command
  buffer, and the table works as long as its last usable size is enough.
\<close>

definition within_limits :: "server \<Rightarrow> bool" where
  "within_limits s \<longleftrightarrow> all_jobs_used (jobhash s) + Suc LINE_BUF_SIZE \<le> primes ! 17 * 4 \<and>
     unat (next_id s) + Suc LINE_BUF_SIZE < 2 ^ 64"

inductive reachable :: "sysinfo \<Rightarrow> server \<Rightarrow> bool" for si where
  started: "prot_init ((boot t)\<lparr>wal := w, allocs := a, sys := y, ticks := ts, job_data_size_limit := z\<rparr>) = Some s \<Longrightarrow>
     \<not> wal_use w \<Longrightarrow> default_tube s \<noteq> None \<Longrightarrow> reachable si s"
| environment: "reachable si s \<Longrightarrow> reachable si (s\<lparr>allocs := a, sys := y, ticks := ts, now := t\<rparr>)"
| signalled: "reachable si s \<Longrightarrow> reachable si (enter_drain_mode s)"
| served: "reachable si s \<Longrightarrow> within_limits s \<Longrightarrow> srvserve_round si n ev s = Some s' \<Longrightarrow> reachable si s'"

section \<open>The invariant\<close>

lemma gok_limits: "gok 0 s \<Longrightarrow> within_limits s \<Longrightarrow> gok (Suc LINE_BUF_SIZE) s"
  by (simp add: gok_def room_def within_limits_def)

lemma gok_round:
  assumes ok: "gok (Suc LINE_BUF_SIZE) s" and e: "srvserve_round si n ev s = Some s'"
  shows "gok 0 s'"
proof -
  obtain p s1 where t: "prottick n s = Some (p, s1)" using e by (auto simp: srvserve_round_def split: option.splits)
  have ok1: "gok (Suc LINE_BUF_SIZE) s1" by (rule gok_prottick [OF ok t])
  then have a: "gok 0 s1" "gok 0 (h_accept cfd s1)" for cfd using gok_h_accept gok_less by blast+
  have "gok 0 (h_conn si i fd rw c s1)" if "c \<in> live_conns s1" for i fd rw c
    by (rule gok_h_conn) (use ok1 that in simp_all)
  then show ?thesis
    using e a by (auto simp: srvserve_round_def t srvaccept_def prothandle_def split: srv_event.splits if_splits)
qed

lemma reachable_gok: "reachable si s \<Longrightarrow> gok 0 s"
proof (induction rule: reachable.induct)
  case (started t w a y ts z s)
  then show ?case by (intro gok_prot_init(1) [OF refl]) simp_all
next
  case environment
  have "rframe s (s\<lparr>allocs := a, sys := y, ticks := ts, now := t\<rparr>)" for s a y ts t by (simp add: rframe_def qview_def waiters_def)
  then show ?case by (rule gok_rframe [OF environment.IH])
next
  case (signalled s)
  have "rframe s (enter_drain_mode s)" by (simp add: enter_drain_mode_def rframe_def qview_def waiters_def)
  then show ?case by (rule gok_rframe [OF signalled.IH])
next
  case (served s n ev s')
  then show ?case using gok_round [OF gok_limits] by blast
qed

lemma reachable_sok: "reachable si s \<Longrightarrow> sok {} {} [] s" "reachable si s \<Longrightarrow> conns_good s"
  using reachable_gok [of si s] by (simp_all add: gok_def)

lemma reachable_places: "reachable si s \<Longrightarrow> places_ok {} s" "reachable si s \<Longrightarrow> counts_ok {} [] s"
  using sokD(1) [OF reachable_sok(1)] by (simp_all add: queue_ok_def)

end
