(* ===== verification/Bean_Sample.thy ===== *)
theory Bean_Sample
  imports Bean_Serve
begin

text \<open>
  A run of the whole server, evaluated in the kernel: it starts, a client connects and sends
  \<open>put 0 9 1 1\<close>, then the body \<open>a\<close>, takes the reply, and reserves the job. The states of this run
  are the concrete inputs of the witnesses of the properties of reachable states.
\<close>

section \<open>Evaluation\<close>

lemmas run_data = zero_stats_def zero_job_def zero_tube_def zero_conn_def zero_wal_def empty_heap_def ms_init_def jobhash_init_def
  upd_job_def upd_tube_def upd_conn_def upd_stat_def upd_global_def malloc_def syscall_def nanoseconds_def Let_def

lemmas run_heap = slot_write_def heap_set_def heap_swap_def heap_less_def heapinsert_def heapremove_def heap_elems_def smallest3_def
  siftdown.simps siftup.simps job_setpos_def job_pri_less_def job_delay_less_def ms_append_def ms_event_def grow_def ms_contains_def ms_take_def ms_delete_def ms_remove_def

lemmas run_jobs = get_job_hash_index_def ht_link_def store_job_def rehash_with_def allocate_job_def make_job_with_id_def make_job_def jl_reset_def
  jl_insert_def jl_remove_def jl_is_empty_def list_insert_def list_remove_def tube_iref_def tube_dref_def tube_find_def make_tube_def
  make_and_insert_tube_def tube_find_or_make_def

lemmas run_parse = scan_line_end_def starts_with_def cmd_tests_def which_cmd_def is_digit_def is_space_def digit_val_def dec_val_def strtoumax_def
  read_u64_def read_u32_def read_duration_def read_put_args_def NAME_CHARS_def fmt_dec.simps

lemmas run_queue = reserve_def walresvput_def walwrite_def walmaint_def ready_insert_def delay_insert_def delay_remove_def place_job_def enqueue_job_def awaited_step_def next_awaited_job_def
  ready_total_def process_queue_def process_one_def remove_ready_job_def ready_remove_def conn_reserve_job_def conn_ready_def wait_tube_def
  wait_for_job_def enqueue_waiting_conn_def unwait_tube_def remove_waiting_conn_def conn_set_soonestjob_def connsoonestjob_def conndeadlinesoon_def
  has_reserved_job_def connsched_def conntickat_def conns_remove_def

lemmas run_proto = epollq_add_def reply_def reply_msg_def reply_line_def reply_job_def fill_extra_data_def enqueue_incoming_job_def
  maybe_enqueue_incoming_job_def count_op_def do_put_def do_reserve_def do_reserve_forever_def run_cmd_def dispatch_cmd_def
  connsetproducer_def connsetworker_def

lemmas run_events = check_err_def conn_want_command_def with_read_def with_write_def read_command_def read_body_def wrote_word_def conn_process_io_def
  cmd_data_ready_def h_conn_def prothandle_def epollq_apply_def delay_total_def unpause_step_def soonest_delayed_job_def prottick_def
  make_conn_def on_watch_def h_accept_def srvaccept_def srvserve_round_def conns_loop.simps

text \<open>The bounds of the loops are numerals.\<close>

lemma run_fuel:
  "process_loop (numeral k) = process_loop (Suc (pred_numeral k))" "apply_loop (numeral k) = apply_loop (Suc (pred_numeral k))"
  "cmd_loop (numeral k) = cmd_loop (Suc (pred_numeral k))" "undelay_loop (numeral k) = undelay_loop (Suc (pred_numeral k))"
  "store_job_n (numeral k) = store_job_n (Suc (pred_numeral k))"
  by (simp_all only: numeral_eq_Suc)

lemmas run_eval = run_data run_heap run_jobs run_parse run_queue run_proto run_events run_fuel

section \<open>The run\<close>

definition run_si :: sysinfo where
  "run_si = \<lparr>si_pid = ''1'', si_version = ''1'', si_utime = ''0'', si_stime = ''0'', si_id = ''0'', si_hostname = ''h'', si_os = ''o'', si_platform = ''p''\<rparr>"

definition run0 :: server where
  "run0 = (boot 0)\<lparr>brk := 2, tube_st := (\<lambda>_. zero_tube)(1 := zero_tube\<lparr>t_name := ''default'', refs := 1\<rparr>), live_tubes := {1},
     lists := (lists (boot 0))\<lparr>jl_items := (\<lambda>_. [])(LBuried 1 := [])\<rparr>,
     tubes := \<lparr>ms_cap = 1, ms_last = 0, ms_items = [1]\<rparr>, default_tube := Some 1\<rparr>"

definition run_conn :: Conn where
  "run_conn = zero_conn\<lparr>sock_fd := 5, c_use := Some 1, pending_timeout := -1, watch := \<lparr>ms_cap = 1, ms_last = 0, ms_items = [1]\<rparr>\<rparr>"

definition run1 :: server where
  "run1 = run0\<lparr>brk := 3, conn_st := (\<lambda>_. zero_conn)(2 := run_conn), live_conns := {2},
     tube_st := (\<lambda>_. zero_tube)(1 := zero_tube\<lparr>t_name := ''default'', refs := 3, using_ct := 1, watching_ct := 1\<rparr>),
     lists := (lists run0)\<lparr>jl_items := (\<lambda>_. [])(LBuried 1 := [], LReserved 2 := [])\<rparr>, cur_conn_ct := 1, tot_conn_ct := 1\<rparr>"

lemma run0_starts: "prot_init (boot 0) = Some run0"
  by (simp add: run0_def prot_init_def boot_def run_data run_jobs ms_append_def grow_def ms_event_def)

lemma run1_served: "srvserve_round run_si 0 (Listening (Some 5)) run0 = Some run1"
  by (simp add: run_eval run1_def run0_def run_conn_def boot_def)

text \<open>The command line has arrived: the job exists and waits for its body.\<close>

definition run2 :: server where
  "run2 = run1\<lparr>op_ct := (op_ct run1)(OP_PUT := op_ct run1 OP_PUT + 1), cur_producer_ct := cur_producer_ct run1 + 1, brk := 4, live_jobs := {3},
     next_id := 2, jobhash := jobhash_init\<lparr>all_jobs_used := 1, all_jobs := (\<lambda>_. [])(1 := [3])\<rparr>,
     tube_st := (\<lambda>_. zero_tube)(1 := zero_tube\<lparr>t_name := ''default'', refs := 4, using_ct := 1, watching_ct := 1\<rparr>),
     job_st := (\<lambda>_. zero_job)(3 := zero_job\<lparr>r_id := 1, r_delay := 9000000000, r_ttr := SAFETY_MARGIN, r_body_size := 3, body_at := 3, j_tube := Some 1\<rparr>),
     conn_st := (\<lambda>_. zero_conn)(2 := run_conn\<lparr>type_producer := True, c_state := STATE_WANT_DATA, in_job := Some 3\<rparr>)\<rparr>"

lemma run1_fields:
  "brk run1 = 3" "job_st run1 = (\<lambda>_. zero_job)" "live_jobs run1 = {}" "live_conns run1 = {2}" "live_tubes run1 = {1}"
  "tube_st run1 = (\<lambda>_. zero_tube)(1 := zero_tube\<lparr>t_name := ''default'', refs := 3, using_ct := 1, watching_ct := 1\<rparr>)"
  "conn_st run1 = (\<lambda>_. zero_conn)(2 := run_conn)" "lists run1 = \<lparr>jl_items = (\<lambda>_. [])(LBuried 1 := [], LReserved 2 := []), jl_owner = \<lambda>_. None\<rparr>"
  "jobhash run1 = jobhash_init" "next_id run1 = 1" "tubes run1 = \<lparr>ms_cap = 1, ms_last = 0, ms_items = [1]\<rparr>" "default_tube run1 = Some 1"
  "conns run1 = empty_heap" "wal run1 = zero_wal" "ready_ct run1 = 0" "global_stat run1 = zero_stats" "job_data_size_limit run1 = 65535"
  "drain_mode run1 = False" "epollq run1 = None" "allocs run1 = []" "sys run1 = []" "ticks run1 = []" "now run1 = 0"
  by (simp_all add: run1_def run0_def boot_def)

lemma run2_fields:
  "brk run2 = 4" "job_st run2 = (\<lambda>_. zero_job)(3 := zero_job\<lparr>r_id := 1, r_delay := 9000000000, r_ttr := SAFETY_MARGIN, r_body_size := 3, body_at := 3, j_tube := Some 1\<rparr>)"
  "live_jobs run2 = {3}" "live_conns run2 = {2}" "live_tubes run2 = {1}"
  "tube_st run2 = (\<lambda>_. zero_tube)(1 := zero_tube\<lparr>t_name := ''default'', refs := 4, using_ct := 1, watching_ct := 1\<rparr>)"
  "conn_st run2 = (\<lambda>_. zero_conn)(2 := run_conn\<lparr>type_producer := True, c_state := STATE_WANT_DATA, in_job := Some 3\<rparr>)"
  "lists run2 = \<lparr>jl_items = (\<lambda>_. [])(LBuried 1 := [], LReserved 2 := []), jl_owner = \<lambda>_. None\<rparr>"
  "jobhash run2 = jobhash_init\<lparr>all_jobs_used := 1, all_jobs := (\<lambda>_. [])(1 := [3])\<rparr>" "next_id run2 = 2"
  "tubes run2 = \<lparr>ms_cap = 1, ms_last = 0, ms_items = [1]\<rparr>" "default_tube run2 = Some 1"
  "conns run2 = empty_heap" "wal run2 = zero_wal" "ready_ct run2 = 0" "global_stat run2 = zero_stats" "job_data_size_limit run2 = 65535"
  "drain_mode run2 = False" "epollq run2 = None" "allocs run2 = []" "sys run2 = []" "ticks run2 = []" "now run2 = 0"
  by (simp_all add: run2_def run1_fields)

lemma run2_served: "srvserve_round run_si 0 (Client 2 CHR ''r'' (IO_ok (''put 0 9 1 1'' @ crlf) 0)) run1 = Some run2"
  by (simp add: run_eval run2_def run1_fields run_conn_def)

text \<open>The body has arrived: the job is delayed for nine seconds and the reply is waiting to be sent.\<close>

definition run_job :: Job where
  "run_job = zero_job\<lparr>r_id := 1, r_delay := 9000000000, r_ttr := SAFETY_MARGIN, r_body_size := 3, body_at := 3, j_tube := Some 1,
     r_deadline_at := 9000000000, r_state := Delayed, walresv := 1, body := ''a'' @ crlf\<rparr>"

definition run_tube :: Tube where
  "run_tube = zero_tube\<lparr>t_name := ''default'', refs := 4, using_ct := 1, watching_ct := 1,
     delay := \<lparr>heap_cap = 2, heap_len = 1, heap_data = [3]\<rparr>, stat := zero_stats\<lparr>total_jobs_ct := 1\<rparr>\<rparr>"

definition run3 :: server where
  "run3 = run2\<lparr>global_stat := zero_stats\<lparr>total_jobs_ct := 1\<rparr>, job_st := (\<lambda>_. zero_job)(3 := run_job), tube_st := (\<lambda>_. zero_tube)(1 := run_tube),
     conn_st := (\<lambda>_. zero_conn)(2 := run_conn\<lparr>type_producer := True, c_state := STATE_SEND_WORD, c_rw := CHR ''w'',
       c_reply := ''INSERTED 1'' @ crlf\<rparr>)\<rparr>"

lemma run3_fields:
  "brk run3 = 4" "live_jobs run3 = {3}" "live_conns run3 = {2}" "live_tubes run3 = {1}" "ready_ct run3 = 0"
  "job_st run3 = (\<lambda>_. zero_job)(3 := run_job)" "tube_st run3 = (\<lambda>_. zero_tube)(1 := run_tube)"
  "conn_st run3 = (\<lambda>_. zero_conn)(2 := run_conn\<lparr>type_producer := True, c_state := STATE_SEND_WORD, c_rw := CHR ''w'',
       c_reply := ''INSERTED 1'' @ crlf\<rparr>)"
  "lists run3 = \<lparr>jl_items = (\<lambda>_. [])(LBuried 1 := [], LReserved 2 := []), jl_owner = \<lambda>_. None\<rparr>"
  "jobhash run3 = jobhash_init\<lparr>all_jobs_used := 1, all_jobs := (\<lambda>_. [])(1 := [3])\<rparr>" "next_id run3 = 2"
  "tubes run3 = \<lparr>ms_cap = 1, ms_last = 0, ms_items = [1]\<rparr>" "default_tube run3 = Some 1"
  "conns run3 = empty_heap" "wal run3 = zero_wal" "global_stat run3 = zero_stats\<lparr>total_jobs_ct := 1\<rparr>"
  "job_data_size_limit run3 = 65535" "drain_mode run3 = False" "epollq run3 = None" "allocs run3 = []" "sys run3 = []" "ticks run3 = []" "now run3 = 0"
  by (simp_all add: run3_def run2_fields)

lemma digit_one: "char_of (49 :: nat) = CHR ''1''"
  by code_simp

lemma run3_read: "conn_process_io (IO_ok (''a'' @ crlf) 0) 2 run2 = run3\<lparr>epollq := Some 2\<rparr>"
  by (simp add: run_eval run3_def run_job_def run_tube_def run2_fields run_conn_def digit_one)

lemma run2_tick: "prottick 0 run2 = Some (hour, run2)"
  by (simp add: run_eval run2_fields)

lemma run3_loop: "cmd_loop (Suc n) run_si 2 (run3\<lparr>epollq := Some 2\<rparr>) = run3\<lparr>epollq := Some 2\<rparr>"
  by (simp add: cmd_data_ready_def run3_fields run_conn_def)

lemma run3_apply: "epollq_apply (run3\<lparr>epollq := Some 2\<rparr>) = run3"
proof -
  have a: "apply_loop n run3 = run3" for n by (cases n) (simp_all add: run3_fields)
  have u: "upd_conn 2 (\<lambda>y. y\<lparr>c_next := None\<rparr>) (run3\<lparr>epollq := None\<rparr>) = run3"
    by (simp add: upd_conn_def run3_def run2_fields run_conn_def zero_conn_def)
  have n: "c_next (conn_st run3 2) = None" by (simp add: run3_fields run_conn_def zero_conn_def)
  have "apply_loop (Suc n) (run3\<lparr>epollq := Some 2\<rparr>) = run3" for n
    unfolding apply_loop.simps Let_def using a u n by (simp del: apply_loop.simps upd_simps add: syscall_def run3_fields(21))
  then show ?thesis unfolding epollq_apply_def mult_Suc by simp
qed

lemma run3_served: "srvserve_round run_si 0 (Client 2 CHR ''r'' (IO_ok (''a'' @ crlf) 0)) run2 = Some run3"
proof -
  have fd: "sock_fd (conn_st run2 2) = 5" by (simp add: run2_fields run_conn_def)
  have st: "c_state (conn_st (run3\<lparr>epollq := Some 2\<rparr>) 2) \<noteq> STATE_CLOSE" by (simp add: run3_fields)
  have "prothandle run_si (IO_ok (''a'' @ crlf) 0) 2 CHR ''r'' run2 = run3"
    unfolding prothandle_def h_conn_def Let_def fd using st by (simp only: simp_thms if_False char.inject run3_read run3_loop run3_apply)
  then show ?thesis by (simp only: srvserve_round_def run2_tick option.case prod.case srv_event.case run2_fields) simp
qed

text \<open>Ten seconds after the start the timer makes the job ready.\<close>

definition run3_late :: server where
  "run3_late = run3\<lparr>allocs := [], sys := [], ticks := [], now := 10000000000\<rparr>"

definition run4 :: server where
  "run4 = run3_late\<lparr>ready_ct := 1, global_stat := zero_stats\<lparr>urgent_ct := 1, total_jobs_ct := 1\<rparr>,
     job_st := (\<lambda>_. zero_job)(3 := run_job\<lparr>r_state := Ready\<rparr>),
     tube_st := (\<lambda>_. zero_tube)(1 := run_tube\<lparr>ready := \<lparr>heap_cap = 2, heap_len = 1, heap_data = [3]\<rparr>,
       delay := \<lparr>heap_cap = 2, heap_len = 0, heap_data = [3]\<rparr>, stat := zero_stats\<lparr>urgent_ct := 1, total_jobs_ct := 1\<rparr>\<rparr>)\<rparr>"

lemma run4_fields:
  "brk run4 = 4" "live_jobs run4 = {3}" "live_conns run4 = {2}" "ready_ct run4 = 1" "job_st run4 = (\<lambda>_. zero_job)(3 := run_job\<lparr>r_state := Ready\<rparr>)"
  "tube_st run4 = (\<lambda>_. zero_tube)(1 := run_tube\<lparr>ready := \<lparr>heap_cap = 2, heap_len = 1, heap_data = [3]\<rparr>,
       delay := \<lparr>heap_cap = 2, heap_len = 0, heap_data = [3]\<rparr>, stat := zero_stats\<lparr>urgent_ct := 1, total_jobs_ct := 1\<rparr>\<rparr>)"
  "tubes run4 = \<lparr>ms_cap = 1, ms_last = 0, ms_items = [1]\<rparr>" "ticks run4 = []" "now run4 = 10000000000"
  by (simp_all add: run4_def run3_late_def run3_fields)

lemma run4_served: "srvserve_round run_si 0 Quiet run3_late = Some run4"
  by (simp add: run_eval run4_def run3_late_def run3_fields run_job_def run_tube_def)

section \<open>The states of the run are reachable\<close>

lemma run_limits: "all_jobs_used (jobhash s) \<le> 1 \<Longrightarrow> next_id s \<le> 2 \<Longrightarrow> within_limits s"
  by (simp add: within_limits_def primes_17 word_le_nat_alt)

lemma run_reachable:
  "reachable run_si run0" "reachable run_si run1" "reachable run_si run2" "reachable run_si run3"
  "reachable run_si run3_late" "reachable run_si run4"
proof -
  have b: "(boot 0)\<lparr>wal := zero_wal, allocs := [], sys := [], ticks := [], job_data_size_limit := 65535\<rparr> = boot 0" by (simp add: boot_def)
  have l: "within_limits run0" "within_limits run1" "within_limits run2" "within_limits run3_late"
    by (rule run_limits; simp add: run0_def boot_def run1_fields run2_fields run3_late_def run3_fields jobhash_init_def)+
  show 0: "reachable run_si run0"
    by (rule reachable.started [where t = 0 and w = zero_wal and a = "[]" and y = "[]" and ts = "[]" and z = 65535])
      (simp_all only: b run0_starts, simp_all add: run0_def zero_wal_def)
  show 1: "reachable run_si run1" by (rule reachable.served [OF 0 l(1) run1_served])
  show 2: "reachable run_si run2" by (rule reachable.served [OF 1 l(2) run2_served])
  show 3: "reachable run_si run3" by (rule reachable.served [OF 2 l(3) run3_served])
  show 4: "reachable run_si run3_late" unfolding run3_late_def by (rule reachable.environment [OF 3])
  show "reachable run_si run4" by (rule reachable.served [OF 4 l(4) run4_served])
qed

end
