(* ===== verification/Bean_Running.thy ===== *)
theory Bean_Running
  imports Bean_Sample
begin

text \<open>
  What holds of a running server without a log, in every state that \<open>srvserve\<close> reaches; the invariant of
  \<open>Bean_Serve\<close> spelled out over the data of the program.
\<close>


lemma home_places:
  "home x = Some (PReady t) \<longleftrightarrow> r_state x = Ready \<and> j_tube x = Some t"
  "home x = Some (PDelay t) \<longleftrightarrow> r_state x = Delayed \<and> j_tube x = Some t"
  "home x = Some (PBuried t) \<longleftrightarrow> r_state x = Buried \<and> j_tube x = Some t"
  "home x = Some (PReserved c) \<longleftrightarrow> r_state x = Reserved \<and> reserver x = Some c"
  by (auto simp: home_def split: jstate.splits)

text \<open>C1 In every reachable state a job is in a container exactly when its state names that container: a ready
  job is in the ready heap of its tube, a delayed one in the delay heap of its tube, a buried one in the buried
  list of its tube, and a reserved one in the list of the connection that holds it; no other job is in any of
  them, so no job is ever in two queues, lost, or reserved by two connections.\<close>

theorem jobs_in_their_places:
  assumes "reachable si s"
  shows "set (heap_elems (ready (tube_st s t))) = {j \<in> live_jobs s. r_state (job_st s j) = Ready \<and> j_tube (job_st s j) = Some t} \<and>
    set (heap_elems (delay (tube_st s t))) = {j \<in> live_jobs s. r_state (job_st s j) = Delayed \<and> j_tube (job_st s j) = Some t} \<and>
    set (jl_items (lists s) (LBuried t)) = {j \<in> live_jobs s. r_state (job_st s j) = Buried \<and> j_tube (job_st s j) = Some t} \<and>
    set (jl_items (lists s) (LReserved c)) = {j \<in> live_jobs s. r_state (job_st s j) = Reserved \<and> reserver (job_st s j) = Some c} \<and>
    (\<forall>j \<in> live_jobs s. r_state (job_st s j) \<in> {Ready, Delayed, Buried} \<longrightarrow> j_tube (job_st s j) \<noteq> None) \<and>
    (\<forall>j \<in> live_jobs s. r_state (job_st s j) = Reserved \<longrightarrow> reserver (job_st s j) \<noteq> None)"
proof -
  note p = reachable_places(1) [OF assms]
  have c: "contents s p = {j \<in> live_jobs s. home (job_st s j) = Some p}" for p
    using places_okD(8) [OF p, of p] by (simp add: at_home_def)
  have h: "home (job_st s j) \<noteq> None \<and> j_tube (job_st s j) \<noteq> None"
    if "j \<in> live_jobs s" "r_state (job_st s j) \<in> {Ready, Delayed, Buried, Reserved}" for j
    using p that unfolding places_ok_def by blast
  show ?thesis
  proof (intro conjI ballI impI)
    show "j_tube (job_st s j) \<noteq> None" if "j \<in> live_jobs s" "r_state (job_st s j) \<in> {Ready, Delayed, Buried}" for j
      using h [of j] that by blast
    show "reserver (job_st s j) \<noteq> None" if "j \<in> live_jobs s" "r_state (job_st s j) = Reserved" for j
      using h [of j] that by (simp add: home_def)
  qed (use c [of "PReady t"] c [of "PDelay t"] c [of "PBuried t"] c [of "PReserved c"] in \<open>simp_all add: home_places\<close>)
qed

theorem jobs_in_their_places_witness:
  "reachable run_si run4 \<and> {3} = {j \<in> live_jobs run4. r_state (job_st run4 j) = Ready \<and> j_tube (job_st run4 j) = Some 1}"
  using jobs_in_their_places [OF run_reachable(6), of 1 2] run_reachable(6) by (simp add: run4_fields run_job_def run_tube_def heap_elems_def)

text \<open>C2 In every reachable state the counters that \<open>stats\<close> and \<open>stats-tube\<close> report are the numbers of jobs in
  these states (modulo 2 to the 64): nothing is counted twice or forgotten on any path, failed allocations included.\<close>

theorem counters_exact:
  assumes "reachable si s"
  shows "ready_ct s = of_nat (card {j \<in> live_jobs s. r_state (job_st s j) = Ready}) \<and>
    urgent_ct (global_stat s) = of_nat (card {j \<in> live_jobs s. r_state (job_st s j) = Ready \<and> r_pri (job_st s j) < URGENT_THRESHOLD}) \<and>
    buried_ct (global_stat s) = of_nat (card {j \<in> live_jobs s. r_state (job_st s j) = Buried}) \<and>
    reserved_ct (global_stat s) = of_nat (card {j \<in> live_jobs s. r_state (job_st s j) = Reserved}) \<and>
    buried_ct (stat (tube_st s t)) = of_nat (card {j \<in> live_jobs s. r_state (job_st s j) = Buried \<and> j_tube (job_st s j) = Some t}) \<and>
    reserved_ct (stat (tube_st s t)) = of_nat (card {j \<in> live_jobs s. r_state (job_st s j) = Reserved \<and> j_tube (job_st s j) = Some t})"
  using reachable_places(2) [OF assms] by (simp add: counts_ok_def num_def pred_defs conj_commute)

theorem counters_exact_witness: "(1 :: u64) = of_nat (card {j \<in> live_jobs run4. r_state (job_st run4 j) = Ready})"
  using counters_exact [OF run_reachable(6), of 1] by (simp only: run4_fields run_job_def run_tube_def)

text \<open>C3 In every reachable state the hash table finds a job by its id exactly when that job exists and is not the
  private copy of a connection; ids are below \<open>next_id\<close>, so a new job never gets an id in use.\<close>

theorem job_ids_resolve:
  assumes "reachable si s"
  shows "(job_find (ids s) (jobhash s) i = Some j \<longleftrightarrow> j \<in> live_jobs s \<and> r_state (job_st s j) \<noteq> Copy \<and> r_id (job_st s j) = i) \<and>
    (i \<ge> next_id s \<longrightarrow> job_find (ids s) (jobhash s) i = None)"
proof -
  have h: "hash_ok s" by (rule sokD(3) [OF reachable_sok(1) [OF assms]])
  then have f: "job_find (ids s) (jobhash s) i = Some k \<longleftrightarrow> k \<in> ht_set (jobhash s) \<and> r_id (job_st s k) = i" for k
    using job_find_iff [of "ids s" "jobhash s" i k] by (simp add: hash_ok_def)
  show ?thesis
  proof (intro conjI impI)
    show "job_find (ids s) (jobhash s) i = Some j \<longleftrightarrow> j \<in> live_jobs s \<and> r_state (job_st s j) \<noteq> Copy \<and> r_id (job_st s j) = i"
      using f h by (auto simp: hash_ok_def)
    assume i: "next_id s \<le> i"
    show "job_find (ids s) (jobhash s) i = None"
    proof (rule ccontr)
      assume "job_find (ids s) (jobhash s) i \<noteq> None"
      then obtain k where "k \<in> ht_set (jobhash s)" "r_id (job_st s k) = i" using f by auto
      then show False using h i by (auto simp: hash_ok_def)
    qed
  qed
qed

theorem job_ids_resolve_witness: "job_find (ids run3) (jobhash run3) 1 = Some 3"
  using job_ids_resolve [OF run_reachable(4), of 1 3] by (simp add: run3_fields run_job_def)

text \<open>C4 In every reachable state a connection that waits for the body of a job has such a job: it is allocated,
  belongs to a tube, is in no queue and is sent by no other connection; and the command buffer of a connection
  is never filled beyond its size.\<close>

theorem uploads_safe:
  assumes "reachable si s" "c \<in> live_conns s"
  shows "length (c_cmd (conn_st s c)) \<le> LINE_BUF_SIZE \<and>
    (c_state (conn_st s c) = STATE_WANT_DATA \<longrightarrow> (\<exists>j. in_job (conn_st s c) = Some j \<and> j \<in> live_jobs s \<and>
       r_state (job_st s j) = Invalid \<and> j_tube (job_st s j) \<noteq> None \<and> (\<forall>c'. in_job (conn_st s c') = Some j \<longrightarrow> c' = c)))"
proof -
  have g: "conn_good (conn_st s c)" using reachable_sok(2) [OF assms(1)] assms(2) by (simp add: conns_good_def)
  note o = sokD(5) [OF reachable_sok(1) [OF assms(1)], unfolded uploads_ok_def]
  have u: "j \<in> live_jobs s \<and> r_state (job_st s j) = Invalid \<and> j_tube (job_st s j) \<noteq> None" if "in_job (conn_st s c) = Some j" for j
    using o [THEN conjunct1, rule_format, of c j] that by simp
  have u': "c' = c" if "in_job (conn_st s c) = Some j" "in_job (conn_st s c') = Some j" for j c'
    using o [THEN conjunct2, rule_format, of c' c j] that by simp
  show ?thesis
  proof (intro conjI impI)
    show "length (c_cmd (conn_st s c)) \<le> LINE_BUF_SIZE" using g by (simp add: conn_good_def)
    assume "c_state (conn_st s c) = STATE_WANT_DATA"
    then obtain j where j: "in_job (conn_st s c) = Some j" using g by (auto simp: conn_good_def)
    then show "\<exists>j. in_job (conn_st s c) = Some j \<and> j \<in> live_jobs s \<and> r_state (job_st s j) = Invalid \<and>
        j_tube (job_st s j) \<noteq> None \<and> (\<forall>c'. in_job (conn_st s c') = Some j \<longrightarrow> c' = c)"
      using u [OF j] u' [OF j] by blast
  qed
qed

theorem uploads_safe_witness: "in_job (conn_st run2 2) = Some 3 \<and> r_state (job_st run2 3) = Invalid"
  using uploads_safe [OF run_reachable(3), of 2] by (auto simp: run2_fields)

text \<open>C8 In every reachable state the job at the root of the ready heap of a tube, the one the next reserve takes,
  has the smallest priority of the ready jobs of that tube and the smallest id among those of equal priority.\<close>

theorem ready_root_first:
  assumes "reachable si s" "0 < heap_len (ready (tube_st s t))"
    "j \<in> live_jobs s" "r_state (job_st s j) = Ready" "j_tube (job_st s j) = Some t"
  shows "(let r = heap_data (ready (tube_st s t)) ! 0
    in r_pri (job_st s r) < r_pri (job_st s j) \<or> r_pri (job_st s r) = r_pri (job_st s j) \<and> r_id (job_st s r) \<le> r_id (job_st s j))"
proof -
  note p = reachable_places(1) [OF assms(1)]
  have "j \<in> set (heap_elems (ready (tube_st s t)))"
    using places_okD(8) [OF p, of "PReady t"] assms by (simp add: at_home_def home_def)
  moreover have "jready.heap_ok (ready (tube_st s t)) s" using places_okD(7) [OF p, of "PReady t"] by simp
  ultimately have "\<not> job_pri_less s j (heap_data (ready (tube_st s t)) ! 0)"
    by (rule jready.heap_root_least [rotated])
  then show ?thesis unfolding job_pri_less_def Let_def by (metis linorder_less_linear linorder_not_less)
qed

theorem ready_root_first_witness: "r_id (job_st run4 (heap_data (ready (tube_st run4 1)) ! 0)) = 1"
  using ready_root_first [OF run_reachable(6), of 1 3] by (simp add: run4_fields run_job_def run_tube_def Let_def)

section \<open>Handing out jobs\<close>

text \<open>Handing out a job does not change which pauses are over.\<close>

interpretation bk: conn_view "blocked nw" for nw
  by unfold_locales (simp_all add: blocked_def upd_tube_def upd_stat_def fun_eq_iff)

lemma blocked_process_one: "blocked nw (process_one j s) = blocked nw s"
proof -
  have st: "blocked nw (upd_stat t f s) = blocked nw s" "blocked nw (upd_global f s) = blocked nw s" "blocked nw (upd_job k g s) = blocked nw s"
    "blocked nw (job_setpos k i s) = blocked nw s" "blocked nw (upd_tube t (\<lambda>x. x\<lparr>ready := h\<rparr>) s) = blocked nw s"
    "blocked nw (s\<lparr>ready_ct := n\<rparr>) = blocked nw s" "blocked nw (list_insert l k s) = blocked nw s" for t f g k i h n l s
    by (simp_all add: blocked_def upd_stat_def upd_tube_def upd_global_def upd_job_def job_setpos_def list_insert_def fun_eq_iff)
  note hr = heapremove_frame [where f = "blocked nw" and setpos = job_setpos, OF st(4)]
  have r: "blocked nw (snd (remove_ready_job jo s)) = blocked nw s" for jo s
    by (simp add: remove_ready_job_def ready_remove_def Let_def case_prod_beta st hr split: option.split)
  have c: "blocked nw (conn_reserve_job c k s) = blocked nw s" for c k s
    by (simp add: conn_reserve_job_def Let_def case_prod_beta st bk.v_conn cbase_def)
  obtain ko s1 where e: "remove_ready_job (Some j) s = (ko, s1)" by (rule prod.exhaust)
  then have "blocked nw s1 = blocked nw s" using r [of "Some j" s] by simp
  then show ?thesis by (cases ko) (simp_all add: process_one_def Let_def st e c split: prod.split option.split)
qed

lemma blocked_process_loop: "blocked nw (process_loop n nw s) = blocked nw s"
proof (induction n arbitrary: s)
  case (Suc n)
  obtain jo s1 where e: "next_awaited_job nw s = (jo, s1)" by (rule prod.exhaust)
  have "blocked nw s1 = blocked nw s" using next_awaited_ok(1) [OF e] by (simp add: unpaused_def fun_eq_iff)
  then show ?case using Suc e by (cases jo) (simp_all add: blocked_process_one)
qed simp

text \<open>C10 \<open>process_queue\<close> leaves nothing to hand out. It is called in the middle of commands and of the tick, when a job may be in flight
  (\<open>X\<close>, with its counters \<open>off\<close>): in every state with the invariant of the queues, which all these calls have, no registered tube whose
  pause is over (by the clock value that it reads) has both a ready job and a waiting connection afterwards, and the invariant still
  holds. The bound of the loop in the model, the number of ready jobs, is therefore enough: a larger one gives the same state.\<close>

theorem process_queue_exhausts:
  assumes "queue_ok X off s" "nanoseconds s = (nw, s1)" "t \<in> set (ms_items (tubes s))"
    "pause (tube_st s t) = 0 \<or> unpause_at (tube_st s t) \<le> nw"
  shows "(ms_items (waiting_conns (tube_st (process_queue s) t)) = [] \<or> heap_len (ready (tube_st (process_queue s) t)) = 0) \<and>
    queue_ok X off (process_queue s) \<and> process_loop (Suc (ready_total s1) + m) nw s1 = process_queue s"
proof -
  have "qview s1 = qview s" using qv.env_dest(3) [OF assms(2)] .
  then have ok1: "queue_ok X off s1" using queue_view assms(1) by blast
  note pl = process_loop_ok [OF ok1, where n = "Suc (ready_total s1)" and nw = nw]
  have p: "process_queue s = process_loop (Suc (ready_total s1)) nw s1" by (simp add: process_queue_def assms(2) del: process_loop.simps)
  have "\<not> eligible nw (process_queue s) t" using pl(3) nanoseconds_fields [of s] assms(2,3) by (simp add: p del: process_loop.simps)
  moreover have "\<not> blocked nw (process_queue s) t"
    using assms(4) bk.env_dest(3) [OF assms(2), of nw] by (simp add: p blocked_process_loop del: process_loop.simps) (auto simp: blocked_def)
  ultimately have "ms_items (waiting_conns (tube_st (process_queue s) t)) = [] \<or> heap_len (ready (tube_st (process_queue s) t)) = 0"
    by (simp add: eligible_def)
  then show ?thesis using pl(1,4) by (simp add: p del: process_loop.simps)
qed

text \<open>The client of the run reserves: in the middle of the command its connection waits and the job is ready.\<close>

definition run4_waits :: server where
  "run4_waits = wait_for_job 2 (- 1) run4"

lemma run4_waits_ok: "queue_ok {} [] run4_waits"
proof -
  have "queue_ok {} [] run4" using reachable_sok(1) [OF run_reachable(6)] by (rule sokD(1))
  then show ?thesis unfolding run4_waits_def using queue_view [OF qc.waits] by blast
qed

interpretation tb: tick_view "\<lambda>s. (tubes s, tube_st s, job_st s)"
  by unfold_locales (simp_all add: upd_conn_def)

lemma run4_waits_tube:
  "ms_items (tubes run4_waits) = [1]"
  "tube_st run4_waits = (tube_st run4)(1 := (tube_st run4 1)\<lparr>waiting_conns := \<lparr>ms_cap = 1, ms_last = 0, ms_items = [2]\<rparr>,
     stat := (stat (tube_st run4 1))\<lparr>waiting_ct := 1\<rparr>\<rparr>)"
  "job_st run4_waits = job_st run4"
proof -
  let ?s = "wait_tube 2 1 run4"
  have "(tubes run4_waits, tube_st run4_waits, job_st run4_waits) = (tubes ?s, tube_st ?s, job_st ?s)"
    unfolding run4_waits_def wait_for_job_def Let_def tb.epollq_adds
    by (simp add: enqueue_waiting_conn_def wait_tube_def Let_def run4_fields run4_def run3_late_def run3_fields run_tube_def run_conn_def ms_append_def grow_def
        ms_event_def malloc_def ms_init_def upd_conn_def upd_tube_def upd_stat_def)
  moreover have "ms_items (tubes ?s) = [1]" "job_st ?s = job_st run4"
    "tube_st ?s = (tube_st run4)(1 := (tube_st run4 1)\<lparr>waiting_conns := \<lparr>ms_cap = 1, ms_last = 0, ms_items = [2]\<rparr>,
     stat := (stat (tube_st run4 1))\<lparr>waiting_ct := 1\<rparr>\<rparr>)"
    by (simp_all add: wait_tube_def run4_fields run4_def run3_late_def run3_fields run_tube_def ms_append_def grow_def ms_event_def malloc_def
        ms_init_def zero_tube_def zero_stats_def upd_tube_def upd_stat_def)
  ultimately show "ms_items (tubes run4_waits) = [1]" "job_st run4_waits = job_st run4"
    "tube_st run4_waits = (tube_st run4)(1 := (tube_st run4 1)\<lparr>waiting_conns := \<lparr>ms_cap = 1, ms_last = 0, ms_items = [2]\<rparr>,
     stat := (stat (tube_st run4 1))\<lparr>waiting_ct := 1\<rparr>\<rparr>)" by simp_all
qed

theorem process_queue_exhausts_witness:
  "ms_items (waiting_conns (tube_st run4_waits 1)) = [2] \<and> heap_len (ready (tube_st run4_waits 1)) = 1 \<and>
   (ms_items (waiting_conns (tube_st (process_queue run4_waits) 1)) = [] \<or> heap_len (ready (tube_st (process_queue run4_waits) 1)) = 0)"
proof -
  obtain nw s1 where n: "nanoseconds run4_waits = (nw, s1)" by (rule prod.exhaust)
  have t: "1 \<in> set (ms_items (tubes run4_waits))" by (simp add: run4_waits_tube)
  have w: "ms_items (waiting_conns (tube_st run4_waits 1)) = [2]" "heap_len (ready (tube_st run4_waits 1)) = 1" "pause (tube_st run4_waits 1) = 0"
    by (simp_all add: run4_waits_tube run4_fields run_tube_def zero_tube_def)
  show ?thesis using process_queue_exhausts [OF run4_waits_ok n t disjI1 [OF w(3)], THEN conjunct1] w(1,2) by (intro conjI)
qed

text \<open>C11 The job that \<open>next_awaited_job\<close> picks is the most urgent one: it is a ready job of a registered tube that has
  a waiting connection and whose pause is over, and no ready job of any such tube has a smaller priority, or the same priority and a
  smaller id. The pause of a tube is over when it has none or when its time has come, as for a tube that \<open>next_awaited_job\<close> unpauses.\<close>

theorem next_awaited_most_urgent:
  assumes "places_ok X s" "next_awaited_job nw s = (Some j, s')"
  shows "j \<in> live_jobs s \<and> j \<notin> X \<and> r_state (job_st s j) = Ready \<and>
    (\<exists>t \<in> set (ms_items (tubes s)). j_tube (job_st s j) = Some t \<and> ms_items (waiting_conns (tube_st s t)) \<noteq> [] \<and>
       (pause (tube_st s t) = 0 \<or> unpause_at (tube_st s t) \<le> nw)) \<and>
    (\<forall>u \<in> set (ms_items (tubes s)). (pause (tube_st s u) = 0 \<or> unpause_at (tube_st s u) \<le> nw) \<and> ms_items (waiting_conns (tube_st s u)) \<noteq> [] \<longrightarrow>
       (\<forall>k \<in> set (heap_elems (ready (tube_st s u))). r_pri (job_st s j) < r_pri (job_st s k) \<or> r_pri (job_st s j) = r_pri (job_st s k) \<and> r_id (job_st s j) \<le> r_id (job_st s k)))"
proof -
  note na = next_awaited_ok [OF assms(2)]
  note p = assms(1)
  have hk: "jready.heap_ok (ready (tube_st s u)) s" for u using places_okD(7) [OF p, of "PReady u"] by simp
  obtain t where t: "t \<in> set (ms_items (tubes s))" "eligible nw s t" "j = root s t" using na(3) by blast
  have "j \<in> contents s (PReady t)"
    using t hk [of t] by (auto simp: eligible_def heap_elems_def jready.heap_ok_def heap_wf_def in_set_conv_nth)
  then have j: "j \<in> live_jobs s" "j \<notin> X" "r_state (job_st s j) = Ready" "j_tube (job_st s j) = Some t"
    using places_okD(8) [OF p, of "PReady t"] by (auto simp: at_home_def home_places)
  have le: "r_pri (job_st s j) < r_pri (job_st s k) \<or> r_pri (job_st s j) = r_pri (job_st s k) \<and> r_id (job_st s j) \<le> r_id (job_st s k)"
    if u: "u \<in> set (ms_items (tubes s))" "pause (tube_st s u) = 0 \<or> unpause_at (tube_st s u) \<le> nw" "ms_items (waiting_conns (tube_st s u)) \<noteq> []"
      and k: "k \<in> set (heap_elems (ready (tube_st s u)))" for u k
  proof -
    have "heap_len (ready (tube_st s u)) \<noteq> 0" using k by (intro notI) (simp add: heap_elems_def)
    then have "eligible nw s u" using u by (auto simp: eligible_def blocked_def)
    then have "\<not> job_pri_less s (root s u) j" using na(4) u(1) by blast
    moreover have "\<not> job_pri_less s k (root s u)" by (rule jready.heap_root_least [OF hk k])
    ultimately have "\<not> job_pri_less s k j" using heap_order.notlt_trans [OF heap_order_jobs(1)] by blast
    then show ?thesis unfolding job_pri_less_def by (metis linorder_less_linear linorder_not_less)
  qed
  have "pause (tube_st s t) = 0 \<or> unpause_at (tube_st s t) \<le> nw" using t(2) by (auto simp: eligible_def blocked_def)
  then show ?thesis using j t le by (auto simp: eligible_def)
qed

text \<open>The tube of the run, with a pause whose time has come.\<close>

theorem next_awaited_most_urgent_witness:
  "r_state (job_st (upd_tube 1 (\<lambda>x. x\<lparr>pause := 5, unpause_at := 7\<rparr>) run4_waits) 3) = Ready \<and>
   fst (next_awaited_job 7 (upd_tube 1 (\<lambda>x. x\<lparr>pause := 5, unpause_at := 7\<rparr>) run4_waits)) = Some 3"
proof -
  let ?s = "upd_tube 1 (\<lambda>x. x\<lparr>pause := 5, unpause_at := 7\<rparr>) run4_waits"
  have "qview ?s = qview run4_waits" by (simp add: qview_upd_tube tview_def)
  then have "places_ok {} ?s" using places_view queue_okD(1) [OF run4_waits_ok] by blast
  moreover have "fst (next_awaited_job 7 ?s) = Some 3"
    by (simp add: next_awaited_job_def awaited_step_def run4_waits_tube run4_fields Let_def)
  then have "next_awaited_job 7 ?s = (Some 3, snd (next_awaited_job 7 ?s))" by (simp add: prod_eq_iff)
  ultimately show ?thesis using next_awaited_most_urgent [of "{}" ?s 7 3] by (metis fst_conv)
qed

end
