(* ===== verification/Bean_Due.thy ===== *)
theory Bean_Due
  imports Bean_Running
begin

text \<open>
  The first loop of \<open>prottick\<close>: every delayed job that is due leaves the delay heaps, and the bound of the
  loop in the model, the number of delayed jobs, is enough for that.
\<close>

section \<open>The soonest delayed job\<close>

lemma soonest_delayed_least:
  "soonest_delayed_job s = None \<Longrightarrow> t \<in> set (ms_items (tubes s)) \<Longrightarrow> heap_len (delay (tube_st s t)) = 0"
  "soonest_delayed_job s = Some j \<Longrightarrow> t \<in> set (ms_items (tubes s)) \<Longrightarrow> 0 < heap_len (delay (tube_st s t)) \<Longrightarrow>
     r_deadline_at (job_st s j) \<le> r_deadline_at (job_st s (heap_data (delay (tube_st s t)) ! 0))"
proof -
  define f where "f = (\<lambda>t jo. if heap_len (delay (tube_st s t)) = 0 then jo
      else let nj = heap_data (delay (tube_st s t)) ! 0
           in if jo = None \<or> r_deadline_at (job_st s nj) < r_deadline_at (job_st s (the jo)) then Some nj else jo)"
  have f: "case fold f ts jo of
      None \<Rightarrow> jo = None \<and> (\<forall>t \<in> set ts. heap_len (delay (tube_st s t)) = 0)
    | Some j \<Rightarrow> (\<forall>i. jo = Some i \<longrightarrow> r_deadline_at (job_st s j) \<le> r_deadline_at (job_st s i)) \<and>
        (\<forall>t \<in> set ts. 0 < heap_len (delay (tube_st s t)) \<longrightarrow>
           r_deadline_at (job_st s j) \<le> r_deadline_at (job_st s (heap_data (delay (tube_st s t)) ! 0)))" for ts jo
  proof (induction ts arbitrary: jo)
    case (Cons t ts)
    from Cons.IH [of "f t jo"] show ?case
      by (cases "fold f ts (f t jo)"; cases jo) (force simp: f_def Let_def split: if_splits)+
  qed (simp split: option.split)
  have e: "soonest_delayed_job s = fold f (ms_items (tubes s)) None" by (simp add: soonest_delayed_job_def f_def [symmetric])
  show "soonest_delayed_job s = None \<Longrightarrow> t \<in> set (ms_items (tubes s)) \<Longrightarrow> heap_len (delay (tube_st s t)) = 0"
    "soonest_delayed_job s = Some j \<Longrightarrow> t \<in> set (ms_items (tubes s)) \<Longrightarrow> 0 < heap_len (delay (tube_st s t)) \<Longrightarrow>
     r_deadline_at (job_st s j) \<le> r_deadline_at (job_st s (heap_data (delay (tube_st s t)) ! 0))"
    using f [where ts = "ms_items (tubes s)" and jo = None] unfolding e by (auto split: option.splits)
qed

section \<open>The loop\<close>

text \<open>The delayed jobs of a tube.\<close>

abbreviation delayed_in :: "server \<Rightarrow> addr \<Rightarrow> addr set" where
  "delayed_in s t \<equiv> {j \<in> live_jobs s. r_state (job_st s j) = Delayed \<and> j_tube (job_st s j) = Some t}"

lemma delay_heap:
  assumes "sok {} {} [] s"
  shows "set (heap_elems (delay (tube_st s t))) = delayed_in s t" "heap_len (delay (tube_st s t)) = card (delayed_in s t)"
    "jdelay.heap_ok (delay (tube_st s t)) s"
proof -
  note p = queue_okD(1) [OF sokD(1) [OF assms]]
  show h: "jdelay.heap_ok (delay (tube_st s t)) s" using places_okD(7) [OF p, of "PDelay t"] by simp
  show e: "set (heap_elems (delay (tube_st s t))) = delayed_in s t"
    using places_okD(8) [OF p, of "PDelay t"] by (simp add: at_home_def home_places)
  have "length (heap_elems (delay (tube_st s t))) = heap_len (delay (tube_st s t))"
    using h by (simp add: heap_elems_def jdelay.heap_ok_def heap_wf_def)
  then show "heap_len (delay (tube_st s t)) = card (delayed_in s t)"
    using distinct_card [OF jdelay.heap_elems_distinct [OF h]] e by simp
qed

text \<open>One step takes exactly its job out of the delayed jobs.\<close>

lemma undelay_step:
  assumes ok: "gok n s" and j: "soonest_delayed_job s = Some j" and q: "enqueue_job j 0 False (delay_remove j s) = (r, s2)"
  defines "s3 \<equiv> if r then s2 else snd (bury_job j False s2)"
  shows "delayed_in s3 t = delayed_in s t - {j}" "tubes s3 = tubes s"
    "\<And>k. k \<in> live_jobs s \<Longrightarrow> r_state (job_st s k) = Delayed \<Longrightarrow> k \<noteq> j \<Longrightarrow> core (job_st s3 k) = core (job_st s k)"
proof -
  have sok: "sok {} {} [] s" using ok by (simp add: gok_def)
  obtain t0 where t0: "0 < heap_len (delay (tube_st s t0))" "j = heap_data (delay (tube_st s t0)) ! 0"
    using soonest_delayed_cases [OF j] by blast
  note dr = delayed_root(1-3) [OF sok t0(1), folded t0(2)]
  define s1 where "s1 = delay_remove j s"
  note sr = sok_remove_delayed [OF sok dr, folded s1_def]
  have ok1: "sok {} {j} [] s1" using sr(1) by simp
  obtain s' where pl: "placed j s1 s'" and h: "if r then handed ({j} - {j}) s' s2 \<and> r_state (job_st s' j) = Ready
      else s2 = s' \<and> r_state (job_st s' j) = r_state (job_st s1 j)"
    using sok_enqueue(2) [OF ok1 singletonI q [folded s1_def]] by (cases r) auto
  have o: "oview s3 = oview s" using oview_enqueue_job [OF q] by (simp add: s3_def)
  note ov = oviewD [OF o]
  show "tubes s3 = tubes s" by (rule ov)
  have st: "(r_state (job_st s3 k) = Delayed \<longleftrightarrow> r_state (job_st s k) = Delayed \<and> k \<noteq> j) \<and>
      (r_state (job_st s k) = Delayed \<longrightarrow> k \<noteq> j \<longrightarrow> core (job_st s3 k) = core (job_st s k))" if k: "k \<in> live_jobs s" for k
  proof (cases r)
    case True
    show ?thesis
    proof (cases "k = j")
      case True
      then show ?thesis using h \<open>r\<close> unfolding s3_def handed_def by auto
    next
      case False
      have c: "core (job_st s' k) = core (job_st s k)" using pl sr(2) False by (simp add: placed_def)
have hd: "r_state (job_st s' k) \<noteq> Ready \<Longrightarrow> core (job_st s2 k) = core (job_st s' k)"
        "r_state (job_st s' k) = Ready \<Longrightarrow> r_state (job_st s2 k) \<in> {Ready, Reserved}"
        using h \<open>r\<close> unfolding handed_def by (metis (no_types, lifting))+
      show ?thesis
      proof (cases "r_state (job_st s' k) = Ready")
        case True
        then show ?thesis using hd(2) coreD(4) [OF c] False \<open>r\<close> by (auto simp: s3_def)
      next
        case False
        then show ?thesis using hd(1) c coreD(4) [OF hd(1)] coreD(4) [OF c] \<open>k \<noteq> j\<close> \<open>r\<close> by (simp add: s3_def)
      qed
    qed
  next
    case False
    have "sok {} {j} [] s2" using sok_enqueue(1) [OF ok1 singletonI q [folded s1_def]] False by simp
    note b = sok_bury_job(3,4) [OF this singletonI, where u = False]
    show ?thesis
    proof (cases "k = j")
      case True
      then show ?thesis using b(1) False by (simp add: s3_def)
    next
      case F: False
      have "core (job_st s3 k) = core (job_st s k)" using pl sr(2) F b(2) [OF F] h False by (simp add: placed_def s3_def)
      then show ?thesis using F coreD(4) by metis
    qed
  qed
  show "delayed_in s3 t = delayed_in s t - {j}" using st ov by auto
  show "core (job_st s3 k) = core (job_st s k)" if "k \<in> live_jobs s" "r_state (job_st s k) = Delayed" "k \<noteq> j" for k
    using st that by blast
qed

lemma delay_total_less:
  assumes ok: "sok {} {} [] s" "sok {} {} [] s3" and t: "t \<in> set (ms_items (tubes s))" "j \<in> delayed_in s t"
    and d: "\<And>u. delayed_in s3 u = delayed_in s u - {j}" "tubes s3 = tubes s"
  shows "delay_total s3 < delay_total s"
proof -
  have fin: "finite (delayed_in s u)" for u using delay_heap(1) [OF ok(1), of u] by (metis List.finite_set)
  have c: "heap_len (delay (tube_st s3 u)) = heap_len (delay (tube_st s u)) - of_bool (u = t)" for u
  proof (cases "u = t")
    case True
    then show ?thesis using d t fin [of t] by (simp add: delay_heap(2) [OF ok(1)] delay_heap(2) [OF ok(2)] card_Diff_singleton)
  next
    case False
    then have "j \<notin> delayed_in s u" using t by auto
    then show ?thesis using d False by (simp add: delay_heap(2) [OF ok(1)] delay_heap(2) [OF ok(2)])
  qed
  have p: "0 < heap_len (delay (tube_st s t))" using t fin [of t] by (auto simp: delay_heap(2) [OF ok(1)] card_gt_0_iff)
  have "sum_list (map (\<lambda>u. heap_len (delay (tube_st s3 u))) ts) \<le> sum_list (map (\<lambda>u. heap_len (delay (tube_st s u))) ts)" for ts
    by (rule sum_list_mono) (simp add: c)
  moreover have "sum_list (map (\<lambda>u. heap_len (delay (tube_st s3 u))) ts) < sum_list (map (\<lambda>u. heap_len (delay (tube_st s u))) ts)"
    if "t \<in> set ts" for ts
    using that
  proof (induction ts)
    case (Cons a as)
    then show ?case using calculation [of as] c [of a] p by (cases "a = t") auto
  qed simp
  ultimately show ?thesis using t(1) d(2) by (simp add: delay_total_def)
qed

lemma undelay_loop_due:
  "gok n s \<Longrightarrow> undelay_loop k nw p s = (p', s') \<Longrightarrow> delay_total s < k \<Longrightarrow>
   p' \<le> p \<and> (\<forall>t \<in> set (ms_items (tubes s)). \<forall>j \<in> delayed_in s' t. nw < r_deadline_at (job_st s' j) \<and> p' \<le> r_deadline_at (job_st s' j) - nw)"
proof (induction k arbitrary: p s)
  case (Suc k)
  have ok: "sok {} {} [] s" using Suc.prems(1) by (simp add: gok_def)
  show ?case
  proof (cases "soonest_delayed_job s")
    case None
    then have "heap_len (delay (tube_st s t)) = 0" if "t \<in> set (ms_items (tubes s))" for t
      using soonest_delayed_least(1) that by blast
    then have "set (heap_elems (delay (tube_st s t))) = {}" if "t \<in> set (ms_items (tubes s))" for t
      using that by (simp add: heap_elems_def)
    then have "delayed_in s t = {}" if "t \<in> set (ms_items (tubes s))" for t using that delay_heap(1) [OF ok, of t] by simp
    then show ?thesis using Suc.prems(2) None by auto
  next
    case (Some j)
    show ?thesis
    proof (cases "0 < r_deadline_at (job_st s j) - nw")
      case True
      have "r_deadline_at (job_st s j) \<le> r_deadline_at (job_st s i)" if t: "t \<in> set (ms_items (tubes s))" and i: "i \<in> delayed_in s t" for t i
      proof -
        have i': "i \<in> set (heap_elems (delay (tube_st s t)))" using i delay_heap(1) [OF ok, of t] by blast
        then have "0 < heap_len (delay (tube_st s t))" by (cases "heap_len (delay (tube_st s t))") (simp_all add: heap_elems_def)
        then have "r_deadline_at (job_st s j) \<le> r_deadline_at (job_st s (heap_data (delay (tube_st s t)) ! 0))"
          by (rule soonest_delayed_least(2) [OF Some t])
        moreover have "\<not> job_delay_less s i (heap_data (delay (tube_st s t)) ! 0)"
          by (rule jdelay.heap_root_least [OF delay_heap(3) [OF ok] i'])
        ultimately show ?thesis by (auto simp: job_delay_less_def split: if_splits)
      qed
      moreover have "s' = s" "p' = min p (r_deadline_at (job_st s j) - nw)" using Suc.prems(2) Some True by (auto simp: Let_def)
      ultimately show ?thesis using True by (fastforce simp: min_le_iff_disj)
    next
      case False
      obtain r s2 where q: "enqueue_job j 0 False (delay_remove j s) = (r, s2)" by (rule prod.exhaust)
      define s3 where "s3 = (if r then s2 else snd (bury_job j False s2))"
      have ok3: "gok n s3" unfolding s3_def by (rule gok_undelay [OF Suc.prems(1) Some q])
      note st = undelay_step [OF Suc.prems(1) Some q, folded s3_def]
      obtain t where t: "t \<in> set (ms_items (tubes s))" "0 < heap_len (delay (tube_st s t))" "j = heap_data (delay (tube_st s t)) ! 0"
        using soonest_delayed_cases [OF Some] by blast
      have "j \<in> delayed_in s t" using delayed_root(1,3,4) [OF ok t(2)] t(3) by simp
      then have "delay_total s3 < delay_total s" using delay_total_less [OF ok _ t(1) _ st(1,2)] ok3 by (simp add: gok_def)
      moreover have "undelay_loop k nw p s3 = (p', s')" using Suc.prems(2) Some False q by (simp add: s3_def Let_def)
      ultimately show ?thesis using Suc.IH [OF ok3] Suc.prems(3) st(2) by simp
    qed
  qed
qed simp

text \<open>C12 After the first loop of \<open>prottick\<close> no job of a registered tube is still delayed although its delay is over (by the
  clock value that the tick read), and the period the loop returns is not longer than the rest of any delay.\<close>

theorem delayed_jobs_released:
  assumes "reachable si s" "undelay_loop (Suc (delay_total s)) nw p s = (p', s')" "t \<in> set (ms_items (tubes s))"
    "j \<in> live_jobs s'" "r_state (job_st s' j) = Delayed" "j_tube (job_st s' j) = Some t"
  shows "nw < r_deadline_at (job_st s' j) \<and> p' \<le> r_deadline_at (job_st s' j) - nw \<and> p' \<le> p"
  using undelay_loop_due [OF reachable_gok [OF assms(1)] assms(2) lessI] assms(3-6) by blast

theorem delayed_jobs_released_witness: "0 < r_deadline_at (job_st run3 3)"
proof -
  have l: "undelay_loop (Suc (delay_total run3)) 0 hour run3 = (9000000000, run3)"
    by (simp add: soonest_delayed_job_def run3_fields run_tube_def run_job_def Let_def)
  show ?thesis using delayed_jobs_released [OF run_reachable(4) l, of 1 3] by (simp add: run3_fields run_job_def)
qed

end
