(* ===== verification/Bean_Answers.thy ===== *)
theory Bean_Answers
  imports Bean_Sample
begin

text \<open>
  What single commands answer and do: a job that another connection has reserved is out of reach, \<open>delete\<close> removes exactly one
  job, and \<open>bury\<close> moves a reserved job to the end of the buried list of its tube.
\<close>

section \<open>Reservations are exclusive\<close>

text \<open>The id in a command about a single job, when the whole line can be parsed.\<close>

definition cmd_job :: "op \<Rightarrow> string \<Rightarrow> u64 option" where
  "cmd_job p line =
     (if p = OP_DELETE \<or> p = OP_TOUCH then map_option fst (read_u64 True (arg_of p line))
      else if p = OP_BURY then
        (case read_u64 False (arg_of p line) of None \<Rightarrow> None | Some (n, r) \<Rightarrow> map_option (\<lambda>_. n) (read_u32 True r))
      else if p = OP_RELEASE then
        (case read_u64 False (arg_of p line) of
           None \<Rightarrow> None
         | Some (n, r) \<Rightarrow> (case read_u32 False r of None \<Rightarrow> None | Some (pri, r') \<Rightarrow> map_option (\<lambda>_. n) (read_duration True r')))
      else None)"

lemma count_op_same [simp]:
  "find_job (count_op p s) = find_job s" "job_st (count_op p s) = job_st s" "conn_st (count_op p s) = conn_st s"
  "lists (count_op p s) = lists s" "wal (count_op p s) = wal s"
  by (simp_all add: count_op_def find_job_def fun_eq_iff)

text \<open>C5 (safety). A reservation is exclusive. When the job of a \<open>delete\<close>, \<open>release\<close>, \<open>bury\<close> or \<open>touch\<close> does not exist or is reserved
  by another connection, the answer is \<open>NOT_FOUND\<close> and nothing else happens: the state is as before, but for the counter of the
  command and the reply.\<close>

theorem reservation_exclusive:
  assumes "cmd_job p line = Some n"
    "\<forall>j. find_job s n = Some j \<longrightarrow> r_state (job_st s j) = Reserved \<and> reserver (job_st s j) \<noteq> Some c"
  shows "run_cmd si p c line s = reply_msg c ''NOT_FOUND'' (count_op p s)"
proof -
  let ?s = "count_op p s"
  have r: "remove_reserved_job c (find_job s n) ?s = (None, ?s)" "\<not> is_job_reserved_by_conn c (find_job s n) ?s"
    using assms(2) by (auto simp: remove_reserved_job_def is_job_reserved_by_conn_def split: option.split)
  have o: "remove_ready_job (find_job s n) ?s = (None, ?s)" "remove_buried_job (find_job s n) ?s = (None, ?s)" "remove_delayed_job (find_job s n) ?s = (None, ?s)"
    using assms(2) by (auto simp: remove_ready_job_def remove_buried_job_def remove_delayed_job_def split: option.split)
  consider "p = OP_DELETE" | "p = OP_TOUCH" | "p = OP_BURY" | "p = OP_RELEASE"
    using assms(1) by (auto simp: cmd_job_def split: if_splits)
  then show ?thesis
  proof cases
    case 1
    then obtain rest where "read_u64 True (arg_of OP_DELETE line) = Some (n, rest)" using assms(1) by (auto simp: cmd_job_def)
    then show ?thesis using 1 r o by (simp add: run_cmd_def do_delete_def Let_def)
  next
    case 2
    then obtain rest where "read_u64 True (arg_of OP_TOUCH line) = Some (n, rest)" using assms(1) by (auto simp: cmd_job_def)
    then show ?thesis using 2 r by (simp add: run_cmd_def do_touch_def touch_job_def Let_def)
  next
    case 3
    then show ?thesis using assms(1) r by (auto simp: run_cmd_def do_bury_def cmd_job_def Let_def split: option.splits)
  next
    case 4
    then show ?thesis using assms(1) r by (auto simp: run_cmd_def do_release_def cmd_job_def Let_def split: option.splits)
  qed
qed

text \<open>The sample run, with its job reserved by the connection.\<close>

definition run4_reserved :: server where
  "run4_reserved = conn_reserve_job 2 3 (upd_global (\<lambda>x. x\<lparr>reserved_ct := reserved_ct x + 1\<rparr>) (snd (remove_ready_job (Some 3) run4)))"

lemma run4_find: "find_job run4 1 = Some 3"
proof -
  have "jobhash run4 = jobhash_init\<lparr>all_jobs_used := 1, all_jobs := (\<lambda>_. [])(1 := [3])\<rparr>" by (simp add: run4_def run3_late_def run3_fields)
  then show ?thesis by (simp add: find_job_def run4_fields job_find_def run_data get_job_hash_index_def run_job_def)
qed

lemma run4_reserved_ok:
  "sok {} {} [] run4_reserved" "r_state (job_st run4_reserved 3) = Reserved" "reserver (job_st run4_reserved 3) = Some 2"
  "j_tube (job_st run4_reserved 3) = Some 1" "find_job run4_reserved 1 = Some 3"
proof -
  have ok: "sok {} {} [] run4" by (rule reachable_sok(1) [OF run_reachable(6)])
  have j: "3 \<in> live_jobs run4" "r_state (job_st run4 3) = Ready" "j_tube (job_st run4 3) = Some 1" by (simp_all add: run4_fields run_job_def)
  obtain s1 where s1: "remove_ready_job (Some 3) run4 = (Some 3, s1)" "sok {} (insert 3 {}) [] s1"
    using sok_remove_ready [OF ok j(1) _ j(2)] by blast
  have o1: "oview s1 = oview run4" by (rule oview_removes(1) [OF s1(1)])
  have b: "2 < brk s1" using oviewD(4) [OF o1] by (simp add: run4_fields)
  have d: "run4_reserved = conn_reserve_job 2 3 (upd_global (\<lambda>x. x\<lparr>reserved_ct := reserved_ct x + 1\<rparr>) s1)" by (simp add: run4_reserved_def s1(1))
  note rs = sok_reserve [OF s1(2) insertI1 b cframe_refl, folded d]
  show "sok {} {} [] run4_reserved" "r_state (job_st run4_reserved 3) = Reserved" "reserver (job_st run4_reserved 3) = Some 2" using rs by simp_all
  have o: "oview run4_reserved = oview run4" using rs(5) o1 by (simp add: moved_def)
  show "j_tube (job_st run4_reserved 3) = Some 1" using oviewD(2) [OF o] j(3) by simp
  have "find_job run4_reserved = find_job run4" using oviewD(1,7) [OF o] by (simp add: find_job_def fun_eq_iff)
  then show "find_job run4_reserved 1 = Some 3" by (simp add: run4_find)
qed

theorem reservation_exclusive_witness:
  "run_cmd run_si OP_RELEASE 5 ''release 1 0 9'' run4_reserved = reply_msg 5 ''NOT_FOUND'' (count_op OP_RELEASE run4_reserved)"
proof (rule reservation_exclusive)
  show "cmd_job OP_RELEASE ''release 1 0 9'' = Some 1" by (simp add: cmd_job_def run_parse)
  show "\<forall>j. find_job run4_reserved 1 = Some j \<longrightarrow> r_state (job_st run4_reserved j) = Reserved \<and> reserver (job_st run4_reserved j) \<noteq> Some 5"
    by (simp add: run4_reserved_ok)
qed

section \<open>Deleting\<close>

lemma find_job_ht: "hash_ok s \<Longrightarrow> find_job s k = Some i \<longleftrightarrow> i \<in> ht_set (jobhash s) \<and> ids s i = k"
  by (simp add: find_job_def hash_ok_def job_find_iff)

lemma reply_fields [simp]:
  "c_reply (conn_st (reply_msg c m s) c) = m @ crlf" "jobhash (reply_msg c m s) = jobhash s" "job_st (reply_msg c m s) = job_st s"
  "live_jobs (reply_msg c m s) = live_jobs s" "lists (reply_msg c m s) = lists s"
proof -
  have k: "kview (reply_msg c m s) = kview s" by simp
  show "jobhash (reply_msg c m s) = jobhash s" "job_st (reply_msg c m s) = job_st s" "live_jobs (reply_msg c m s) = live_jobs s"
    "lists (reply_msg c m s) = lists s" using kviewD [OF k] by simp_all
  show "c_reply (conn_st (reply_msg c m s) c) = m @ crlf" by (simp add: reply_msg_def reply_def upd_conn_def)
qed

text \<open>C6 (functional). In a reachable state \<open>delete\<close> of a job that is ready, buried or delayed, or reserved by the connection
  itself, removes exactly this job and answers \<open>DELETED\<close>: its id is no longer found, and every other id is found as before.\<close>

theorem delete_removes_job:
  assumes r: "reachable si s" "c \<in> live_conns s" and n: "read_u64 True (arg_of OP_DELETE line) = Some (n, rest)" and f: "find_job s n = Some j"
    and st: "r_state (job_st s j) \<in> {Ready, Buried, Delayed} \<or> r_state (job_st s j) = Reserved \<and> reserver (job_st s j) = Some c"
  shows "find_job (do_delete c line s) = (find_job s)(n := None) \<and> live_jobs (do_delete c line s) = live_jobs s - {j} \<and>
    c_reply (conn_st (do_delete c line s) c) = ''DELETED'' @ crlf"
proof -
  define s1 where "s1 = count_op OP_DELETE s"
  have ok: "sok {} {} [] s" by (rule reachable_sok(1) [OF r(1)])
  then have ok1: "sok {} {} [] s1" unfolding s1_def by (rule sok_rframe) (simp add: count_op_def rframe_def qview_def waiters_def)
  have f1: "find_job s1 n = Some j" and j1: "job_st s1 = job_st s" using f by (simp_all add: s1_def)
  note e = do_delete_take [OF n s1_def, of c]
  show ?thesis
  proof (rule take_job_cases [OF ok1, of "find_job s1 n" c])
    show "i \<in> live_jobs s1" if "find_job s1 n = Some i" for i by (rule find_job_live(1) [OF ok1 that])
  next
    assume "\<And>i. find_job s1 n = Some i \<Longrightarrow> r_state (job_st s1 i) \<notin> {Ready, Buried, Delayed}"
      "\<And>i. find_job s1 n = Some i \<Longrightarrow> \<not> (r_state (job_st s1 i) = Reserved \<and> reserver (job_st s1 i) = Some c)"
    then show ?thesis using f1 st by (simp add: j1)
  next
    fix i s5
    assume i: "find_job s1 n = Some i" and t: "take_job c (find_job s1 n) s1 = (Some i, s5)" "sok {} {i} [] s5" "oview s5 = oview s1"
    define s6 where "s6 = upd_stat (the (j_tube (job_st s5 j))) (\<lambda>x. x\<lparr>total_delete_ct := total_delete_ct x + 1\<rparr>) s5"
    have ij: "i = j" using i f1 by simp
    have ok6: "sok {} {j} [] s6" unfolding s6_def by (rule sok_rframe [OF t(2) [unfolded ij] rframe_total_jobs(2)])
    define s7 where "s7 = upd_job j (\<lambda>x. x\<lparr>r_state := Invalid\<rparr>) s6"
    have ok7: "sok {} {} [] s7" using sok_invalidate [OF ok6 singletonI] by (simp add: s7_def)
    have w: "walwrite j s7 = (True, s7)" "walmaint s7 = s7" by (rule wal_off [OF sokD(6) [OF ok7]])+
    have jl: "j \<in> live_jobs s7" using live_jobs_inflight [OF ok6 singletonI] by (simp add: s7_def upd_job_def)
    have up: "in_job (conn_st s7 d) \<noteq> Some j" for d using no_upload_inflight [OF ok6 singletonI] by (simp add: s7_def upd_job_def)
    note jf = sok_job_free [OF ok7, of j]
    define s9 where "s9 = job_free (Some j) s7"
    have s9: "sok {} {} [] s9" "\<And>k. k \<noteq> j \<Longrightarrow> job_st s9 k = job_st s7 k" "live_jobs s9 = live_jobs s7 - {j}"
      unfolding s9_def using jf jl up by (simp_all add: s7_def)
    have d: "do_delete c line s = reply_msg c ''DELETED'' s9"
      unfolding e t(1) ij Let_def option.case prod.case s6_def [symmetric] s7_def [symmetric] w by (simp add: s9_def)
    have o7: "oview s7 = oview s1" using t(3) by (simp add: s7_def s6_def oview_upd)
    have h: "ht_set (jobhash s9) = ht_set (jobhash s) - {j}"
    proof -
      have "ht_set (jobhash s9) = ht_set (jobhash s7) - {j}"
        using s9 sokD(3) [OF s9(1)] sokD(3) [OF ok7] by (auto simp: hash_ok_def)
      then show ?thesis using oviewD(7) [OF o7] by (simp add: s1_def count_op_def)
    qed
    have id: "ids s9 k = ids s k" if "k \<noteq> j" for k using s9(2) [OF that] oviewD(1) [OF o7, of k] by (simp add: j1)
    have fd: "find_job s9 k = ((find_job s)(n := None)) k" for k
    proof -
      have "find_job s9 k = Some x \<longleftrightarrow> ((find_job s)(n := None)) k = Some x" for x
        using find_job_ht [OF sokD(3) [OF s9(1)], of k x] find_job_ht [OF sokD(3) [OF ok], of k x] find_job_ht [OF sokD(3) [OF ok], of n j] f h id
        by auto
      then show ?thesis by (metis not_None_eq)
    qed
    have "find_job (reply_msg c ''DELETED'' s9) = find_job s9" by (simp add: find_job_def fun_eq_iff)
    moreover have "live_jobs s9 = live_jobs s - {j}" using s9(3) oviewD(3) [OF o7] by (simp add: s1_def count_op_def)
    ultimately show ?thesis using fd by (simp add: d fun_eq_iff)
  qed
qed

theorem delete_removes_job_witness:
  "find_job (do_delete 2 ''delete 1'' run4) = (find_job run4)(1 := None) \<and> live_jobs (do_delete 2 ''delete 1'' run4) = {} \<and>
   c_reply (conn_st (do_delete 2 ''delete 1'' run4) 2) = ''DELETED'' @ crlf"
proof -
  have r: "reachable run_si run4" "2 \<in> live_conns run4" by (simp_all only: run_reachable run4_fields singletonI)
  have n: "read_u64 True (arg_of OP_DELETE ''delete 1'') = Some (1, [])" by (simp add: run_parse)
  have st: "r_state (job_st run4 3) \<in> {Ready, Buried, Delayed} \<or> r_state (job_st run4 3) = Reserved \<and> reserver (job_st run4 3) = Some 2"
    by (simp add: run4_fields)
  show ?thesis using delete_removes_job [OF r n run4_find st] by (simp add: run4_fields)
qed

section \<open>Burying\<close>

text \<open>C7 (functional). Under the invariant, that is in every reachable state of a server without a log (\<open>reachable_sok\<close>), \<open>bury\<close> of a job that the connection has
  reserved gives it the new priority and moves it from the list of the connection to the end of the buried list of its tube; the
  answer is \<open>BURIED\<close>, and no other job and no other list changes.\<close>

theorem bury_moves_job:
  assumes ok: "sok {} {} [] s" and n: "read_u64 False (arg_of OP_BURY line) = Some (n, pb)" "read_u32 True pb = Some (pri, rest)"
    and f: "find_job s n = Some j" and st: "r_state (job_st s j) = Reserved" "reserver (job_st s j) = Some c" and t: "j_tube (job_st s j) = Some t"
  shows "jl_items (lists (do_bury c line s)) = (jl_items (lists s))(LReserved c := remove1 j (jl_items (lists s) (LReserved c)),
      LBuried t := jl_items (lists s) (LBuried t) @ [j]) \<and>
    r_state (job_st (do_bury c line s) j) = Buried \<and> r_pri (job_st (do_bury c line s) j) = pri \<and>
    (\<forall>k. k \<noteq> j \<longrightarrow> job_st (do_bury c line s) k = job_st s k) \<and> c_reply (conn_st (do_bury c line s) c) = ''BURIED'' @ crlf"
proof -
  define s1 where "s1 = count_op OP_BURY s"
  have jl: "j \<in> live_jobs s" by (rule find_job_live(1) [OF ok f])
  have ow: "jl_owner (lists s) j = Some (LReserved c)"
    by (rule owner_of [OF sokD(1) [OF ok] jl]) (use st in \<open>auto simp: home_def\<close>)
  have w: "\<not> wal_use (wal s)" by (rule sokD(6) [OF ok])
  define s2 where "s2 = snd (remove_this_reserved_job c j s1)"
  have r2: "remove_reserved_job c (find_job s1 n) s1 = (Some j, s2)"
    using st f ow by (simp add: remove_reserved_job_def is_job_reserved_by_conn_def s1_def s2_def remove_this_reserved_job_def list_remove_def
        jl_remove_def Let_def)
  have s2: "job_st s2 = (job_st s)(j := (job_st s j)\<lparr>reserver := None\<rparr>)" "wal s2 = wal s"
    "lists s2 = (lists s)\<lparr>jl_items := (jl_items (lists s))(LReserved c := remove1 j (jl_items (lists s) (LReserved c))), jl_owner := (jl_owner (lists s))(j := None)\<rparr>"
    using ow by (simp_all add: s2_def s1_def remove_this_reserved_job_def list_remove_def jl_remove_def Let_def upd_job_def)
  define s4 where "s4 = upd_job j (\<lambda>x. x\<lparr>walresv := walresv x + 1\<rparr>) (upd_job j (\<lambda>x. x\<lparr>r_pri := pri\<rparr>) s2)"
  have s4: "job_st s4 = (job_st s)(j := (job_st s j)\<lparr>reserver := None, r_pri := pri, walresv := walresv (job_st s j) + 1\<rparr>)" "lists s4 = lists s2" "wal s4 = wal s"
    by (simp_all add: s4_def s2)
  have b: "bury_job j True (upd_job j (\<lambda>x. x\<lparr>r_pri := pri\<rparr>) s2) = (True, bury_list j s4)"
    using w by (simp add: bury_job_def s4_def wal_off s2 bury_list_def Let_def)
  have d: "do_bury c line s = reply_msg c ''BURIED'' (bury_list j s4)"
    using n by (simp add: do_bury_def Let_def s1_def [symmetric] r2 b)
  have l: "jl_items (lists (bury_list j s4)) = (jl_items (lists s4))(LBuried t := jl_items (lists s4) (LBuried t) @ [j])"
    using t by (simp add: bury_list_def Let_def list_insert_def jl_insert_def s4 s2)
  have jb: "job_st (bury_list j s4) = (job_st s4)(j := (job_st s4 j)\<lparr>r_state := Buried, reserver := None, r_bury_ct := r_bury_ct (job_st s4 j) + 1\<rparr>)"
    by (simp add: bury_list_def Let_def list_insert_def)
  show ?thesis by (simp add: d l jb s4 s2)
qed

theorem bury_moves_job_witness:
  "r_state (job_st (do_bury 2 ''bury 1 7'' run4_reserved) 3) = Buried \<and> r_pri (job_st (do_bury 2 ''bury 1 7'' run4_reserved) 3) = 7 \<and>
   c_reply (conn_st (do_bury 2 ''bury 1 7'' run4_reserved) 2) = ''BURIED'' @ crlf"
proof -
  have n: "read_u64 False (arg_of OP_BURY ''bury 1 7'') = Some (1, '' 7'')" "read_u32 True '' 7'' = Some (7, [])" by (simp_all add: run_parse)
  show ?thesis using bury_moves_job [OF run4_reserved_ok(1) n run4_reserved_ok(5,2,3,4)] by simp
qed

section \<open>Peeking\<close>

text \<open>The body of a copy is not its own. \<open>job_copy\<close> copies the structure with its pointer \<open>body\<close>, so a connection that is sent
  the copy of a job, as the \<open>peek\<close> commands do, is sent the body of the original, and only as long as the original is allocated: once
  the original is freed, as by a \<open>delete\<close> of another connection while the reply is being sent, the copy is still allocated but
  \<open>writev\<close> is offered freed memory.\<close>

theorem copied_body_freed:
  assumes "sok {} {} [] s" "j \<in> live_jobs s" "body_at (job_st s j) = j" "job_copy (Some j) s = (Some n, s1)"
    "s2 = upd_conn c (\<lambda>x. x\<lparr>out_job := Some n, out_job_sent := k\<rparr>) s1"
  shows "sent_body c s2 = Some (take (nat (r_body_size (job_st s j) - k)) (drop (nat k) (body (job_st s j)))) \<and>
    n \<in> live_jobs (job_free (Some j) s2) \<and> sent_body c (job_free (Some j) s2) = None"
proof -
  note jc = sok_job_copy [OF assms(1,2,4)]
  have n: "n \<in> live_jobs s1" "n \<notin> live_jobs s" "job_st s1 n = (job_st s j)\<lparr>j_file := None, r_state := Copy\<rparr>" using jc(7,8) [OF refl] by simp_all
  have j: "j \<in> live_jobs s1" "job_st s1 j = job_st s j" using jc(5) [OF assms(2)] by simp_all
  have nj: "n \<noteq> j" using n(2) assms(2) by blast
  have s2: "job_st s2 = job_st s1" "live_jobs s2 = live_jobs s1" "jobhash s2 = jobhash s1" by (simp_all add: assms(5))
  have sent: "sent_body c s2 = Some (take (nat (r_body_size (job_st s j) - k)) (drop (nat k) (body (job_st s j))))"
    using n(3) j assms(3) by (simp add: sent_body_def Let_def s2) (simp add: assms(5))
  have "ht_ok (ids s2) (jobhash s2)" using sokD(3) [OF jc(1)] by (simp add: hash_ok_def s2)
  then obtain s3 s4 h where f: "rframe s2 s3" "s4 = s3 \<or> s4 = snd (malloc s3)"
    "job_free (Some j) s2 = s4\<lparr>job_st := (job_st s2)(j := (job_st s2 j)\<lparr>j_tube := None\<rparr>), jobhash := h, live_jobs := live_jobs s2 - {j}\<rparr>"
    by (rule job_free_eq [OF disjI2, of s2 j]) blast
  have "conn_st s3 = conn_st s2" using f(1) by (simp add: rframe_def)
  then have c: "conn_st (job_free (Some j) s2) = conn_st s2" using malloc_fields(5) [OF f(2)] by (simp add: f(3))
  have jf: "job_st (job_free (Some j) s2) n = job_st s1 n" "live_jobs (job_free (Some j) s2) = live_jobs s1 - {j}"
    using nj by (simp_all add: f(3) s2)
  have out: "out_job (conn_st (job_free (Some j) s2) c) = Some n" by (simp add: c) (simp add: assms(5))
  have "sent_body c (job_free (Some j) s2) = None"
    using n(3) nj assms(3) by (simp add: sent_body_def Let_def jf out)
  then show ?thesis using sent n(1) nj by (simp add: f(3) s2)
qed

theorem copied_body_freed_witness:
  "\<exists>n s1. job_copy (Some 3) run4 = (Some n, s1) \<and>
     (let s2 = upd_conn 2 (\<lambda>x. x\<lparr>out_job := Some n, out_job_sent := 0\<rparr>) s1
      in sent_body 2 s2 = Some (''a'' @ crlf) \<and> sent_body 2 (job_free (Some 3) s2) = None)"
proof -
  have ok: "sok {} {} [] run4" by (rule reachable_sok(1) [OF run_reachable(6)])
  have j: "3 \<in> live_jobs run4" "body_at (job_st run4 3) = 3" "r_body_size (job_st run4 3) = 3" "body (job_st run4 3) = ''a'' @ crlf"
    by (simp_all add: run4_fields run_job_def)
  obtain no s1 where e: "job_copy (Some 3) run4 = (no, s1)" by (rule prod.exhaust)
  have "allocs run4 = []" by (simp add: run4_def run3_late_def)
  then obtain n where n: "no = Some n" using e by (auto simp: job_copy_def malloc_def Let_def)
  show ?thesis using copied_body_freed [OF ok j(1,2) e [unfolded n] refl, of 2 0] e n by (simp add: j Let_def)
qed

end
