(* ===== verification/Bean_Log.thy ===== *)
theory Bean_Log
  imports Bean_Server
begin

text \<open>
  Reading the log (\<open>file.c\<close>, \<open>walg.c\<close>). A log file is the list of its bytes; records are the native
  structures of an LP64 little-endian machine, so integers are in little-endian order and the fields of a
  \<open>Jobrec\<close> stand at their aligned offsets. A \<open>read\<close> can fail by a \<open>syscall\<close> of the environment, and
  returns fewer bytes than asked for only at the end of the file.
\<close>

section \<open>Integers and structures as bytes\<close>

fun le_val :: "string \<Rightarrow> nat" where
  "le_val [] = 0"
| "le_val (c # cs) = of_char c + 256 * le_val cs"

primrec le_bytes :: "nat \<Rightarrow> nat \<Rightarrow> string" where
  "le_bytes 0 v = []"
| "le_bytes (Suc n) v = char_of (v mod 256) # le_bytes n (v div 256)"

definition field_at :: "nat \<Rightarrow> nat \<Rightarrow> string \<Rightarrow> nat" where
  "field_at off n bs = le_val (take n (drop off bs))"

definition int_at :: "nat \<Rightarrow> nat \<Rightarrow> string \<Rightarrow> int" where
  "int_at off n bs = signed_take_bit (8 * n - 1) (int (field_at off n bs))"

definition int_bytes :: "nat \<Rightarrow> int \<Rightarrow> string" where
  "int_bytes n v = le_bytes n (nat (take_bit (8 * n) v))"

definition state_code :: "jstate \<Rightarrow> nat" where
  "state_code st = (case st of Invalid \<Rightarrow> 0 | Ready \<Rightarrow> 1 | Reserved \<Rightarrow> 2 | Buried \<Rightarrow> 3 | Delayed \<Rightarrow> 4 | Copy \<Rightarrow> 5)"

definition code_state :: "nat \<Rightarrow> jstate option" where
  "code_state n = find (\<lambda>st. state_code st = n) [Invalid, Ready, Reserved, Buried, Delayed, Copy]"

text \<open>
  The bytes of a \<open>Jobrec\<close> in memory. The source writes and reads the structure as it is in memory, so these definitions are the layout that
  the ABI of an LP64 little-endian machine gives the fields of \<open>struct Jobrec\<close>. The padding is zero, as \<open>allocate_job\<close> leaves it.
\<close>

definition jobrec_bytes :: "'a Jobrec_scheme \<Rightarrow> string" where
  "jobrec_bytes r =
     le_bytes 8 (unat (r_id r)) @ le_bytes 4 (unat (r_pri r)) @ le_bytes 4 0 @
     int_bytes 8 (r_delay r) @ int_bytes 8 (r_ttr r) @ int_bytes 4 (r_body_size r) @ le_bytes 4 0 @
     int_bytes 8 (r_created_at r) @ int_bytes 8 (r_deadline_at r) @
     le_bytes 4 (unat (r_reserve_ct r)) @ le_bytes 4 (unat (r_timeout_ct r)) @ le_bytes 4 (unat (r_release_ct r)) @
     le_bytes 4 (unat (r_bury_ct r)) @ le_bytes 4 (unat (r_kick_ct r)) @ le_bytes 1 (state_code (r_state r)) @ le_bytes 3 0"

text \<open>A structure read from a file; its state is apart, since the byte on disk may be no state at all.\<close>

definition jobrec_of :: "string \<Rightarrow> Jobrec \<times> jstate option" where
  "jobrec_of bs =
     (\<lparr>r_id = of_nat (field_at 0 8 bs), r_pri = of_nat (field_at 8 4 bs), r_delay = int_at 16 8 bs, r_ttr = int_at 24 8 bs,
       r_body_size = int_at 32 4 bs, r_created_at = int_at 40 8 bs, r_deadline_at = int_at 48 8 bs,
       r_reserve_ct = of_nat (field_at 56 4 bs), r_timeout_ct = of_nat (field_at 60 4 bs), r_release_ct = of_nat (field_at 64 4 bs),
       r_bury_ct = of_nat (field_at 68 4 bs), r_kick_ct = of_nat (field_at 72 4 bs), r_state = Invalid\<rparr>,
      code_state (field_at 76 1 bs))"

abbreviation Jobrec5size :: int where "Jobrec5size \<equiv> 77"

text \<open>The times of version 5 are in microseconds; the product is taken in 64 bits.\<close>

definition us_at :: "nat \<Rightarrow> string \<Rightarrow> int" where
  "us_at off bs = signed_take_bit 63 (int (field_at off 8 bs * 1000))"

definition jobrec5_of :: "string \<Rightarrow> Jobrec \<times> jstate option" where
  "jobrec5_of bs =
     (\<lparr>r_id = of_nat (field_at 0 8 bs), r_pri = of_nat (field_at 8 4 bs), r_delay = us_at 16 bs, r_ttr = us_at 24 bs,
       r_body_size = int_at 32 4 bs, r_created_at = us_at 40 bs, r_deadline_at = us_at 48 bs,
       r_reserve_ct = of_nat (field_at 56 4 bs), r_timeout_ct = of_nat (field_at 60 4 bs), r_release_ct = of_nat (field_at 64 4 bs),
       r_bury_ct = of_nat (field_at 68 4 bs), r_kick_ct = of_nat (field_at 72 4 bs), r_state = Invalid\<rparr>,
      code_state (field_at 76 1 bs))"

section \<open>Reading records\<close>

text \<open>
  \<open>None\<close> is the result 0 of \<open>readfull\<close>: an error, or nothing to read. A negative count is a huge one for
  \<open>read\<close>, which then takes the rest of the file.
\<close>

definition readfull :: "int \<Rightarrow> string \<Rightarrow> server \<Rightarrow> string option \<times> string \<times> server" where
  "readfull n bs s =
     (case syscall s of
        (False, s1) \<Rightarrow> (None, bs, s1)
      | (True, s1) \<Rightarrow>
          if n < 0 \<or> int (length bs) < n then (None, [], s1)
          else if n = 0 then (None, bs, s1)
          else (Some (take (nat n) bs), drop (nat n) bs, s1))"

text \<open>
  What a reading step returns: no more records, an error, or a record was read. \<open>RCrash\<close> stands for the
  null pointer that \<open>readrec\<close> follows when a job cannot be allocated.
\<close>

datatype rd = RStop | RErr | RMore | RCrash

text \<open>The label \<open>Error\<close>, and the case of a deleted job.\<close>

definition read_drop :: "addr option \<Rightarrow> server \<Rightarrow> server" where
  "read_drop jo s =
     (case jo of
        None \<Rightarrow> s
      | Some j \<Rightarrow>
          let s1 = snd (list_remove j s);
              s2 = filermjob (j_file (job_st s1 j)) j s1
          in job_free (Some j) s2)"

text \<open>The body of a full record; the result is the number of bytes read.\<close>

definition read_job_body :: "addr \<Rightarrow> addr \<Rightarrow> int \<Rightarrow> string \<Rightarrow> server \<Rightarrow> int option \<times> string \<times> server" where
  "read_job_body f j body_size bs s =
     (if body_size \<noteq> r_body_size (job_st s j) then (None, bs, s)
      else case readfull (r_body_size (job_st s j)) bs s of
             (None, bs1, s1) \<Rightarrow> (None, bs1, s1)
           | (Some b, bs1, s1) \<Rightarrow>
               let s2 = upd_job j (\<lambda>x. x\<lparr>body := b @ drop (length b) (body x)\<rparr>) s1;
                   s3 = filermjob (j_file (job_st s2 j)) j s2
               in (Some (int (length b)), bs1, fileaddjob f j s3))"

definition read_count :: "addr \<Rightarrow> int \<Rightarrow> server \<Rightarrow> server" where
  "read_count j sz s = upd_wal (\<lambda>w. w\<lparr>alive := alive w + sz\<rparr>) (upd_job j (\<lambda>x. x\<lparr>walused := walused x + sz\<rparr>) s)"

text \<open>The job of a record: the one that is known, or a new one.\<close>

definition read_find_or_make :: "Jobrec \<Rightarrow> string \<Rightarrow> addr option \<Rightarrow> server \<Rightarrow> addr option \<times> server" where
  "read_find_or_make jr name jo s =
     (case jo of
        Some j \<Rightarrow> (Some j, s)
      | None \<Rightarrow>
          (case tube_find_or_make name s of
             (t, s1) \<Rightarrow>
               (case make_job_with_id (r_pri jr) (r_delay jr) (r_ttr jr) (r_body_size jr) t (r_id jr) s1 of
                  (None, s2) \<Rightarrow> (None, s2)
                | (Some j, s2) \<Rightarrow>
                    (Some j, upd_job j (\<lambda>x. x\<lparr>r_created_at := r_created_at jr\<rparr>) (s2\<lparr>lists := jl_reset (lists s2) j\<rparr>)))))"

text \<open>
  What both versions do with a structure: \<open>sz\<close> counts the bytes of the record read before the body. In
  version 5 the arguments of \<open>make_job_with_id\<close> are not yet scaled, and \<open>created_at\<close> is not copied there;
  all fields are overwritten by the assignments that follow.
\<close>

definition read_apply :: "addr \<Rightarrow> int \<Rightarrow> string \<Rightarrow> Jobrec \<times> jstate option \<Rightarrow> int \<Rightarrow> string \<Rightarrow> server \<Rightarrow> rd \<times> string \<times> server" where
  "read_apply f namelen name rec sz bs s =
     (let (jr, st) = rec;
          jo = find_job s (r_id jr)
      in if r_id jr = 0 then (RStop, bs, s)
         else if jo = None \<and> namelen = 0 then (RMore, bs, s)
         else if st = Some Invalid then (RMore, bs, read_drop jo s)
         else if st = None \<or> st = Some Copy then (RErr, bs, read_drop jo s)
         else if jo = None \<and> (r_body_size jr < 0 \<or> int (job_data_size_limit s) < r_body_size jr) then (RErr, bs, s)
         else case read_find_or_make jr name jo s of
                (None, s1) \<Rightarrow> (RCrash, bs, s1)
              | (Some j, s1) \<Rightarrow>
                  let st' = (if st = Some Reserved then Ready else the st);
                      s2 = upd_job j (\<lambda>x. Jobrec.extend (jr\<lparr>r_state := st'\<rparr>) (Jobrec.more x)) s1;
                      s3 = list_insert LReplay j s2
                  in if namelen = 0 then (RMore, bs, read_count j sz s3)
                     else case read_job_body f j (r_body_size jr) bs s3 of
                            (None, bs1, s4) \<Rightarrow> (RErr, bs1, read_drop (Some j) s4)
                          | (Some n, bs1, s4) \<Rightarrow> (RMore, bs1, read_count j (sz + n) s4))"

text \<open>The tube name and the structure; a name ends at its first null byte for everything that uses it.\<close>

definition read_rest ::
  "addr \<Rightarrow> int \<Rightarrow> int \<Rightarrow> (string \<Rightarrow> Jobrec \<times> jstate option) \<Rightarrow> int \<Rightarrow> string \<Rightarrow> server \<Rightarrow> rd \<times> string \<times> server" where
  "read_rest f namelen ssize decode sz bs s =
     (case (if namelen = 0 then (Some [], bs, s) else readfull namelen bs s) of
        (None, bs1, s1) \<Rightarrow> (RErr, bs1, s1)
      | (Some nm, bs1, s1) \<Rightarrow>
          (case readfull ssize bs1 s1 of
             (None, bs2, s2) \<Rightarrow> (RErr, bs2, s2)
           | (Some raw, bs2, s2) \<Rightarrow>
               read_apply f namelen (takeWhile (\<lambda>c. c \<noteq> NUL) nm) (decode raw) (sz + namelen + ssize) bs2 s2))"

definition readrec :: "addr \<Rightarrow> string \<Rightarrow> server \<Rightarrow> rd \<times> string \<times> server" where
  "readrec f bs s =
     (case syscall s of
        (False, s1) \<Rightarrow> (RErr, bs, s1)
      | (True, s1) \<Rightarrow>
          if length bs < 4 then (RStop, [], s1)
          else let namelen = int_at 0 4 bs
               in if namelen \<ge> int MAX_TUBE_NAME_LEN \<or> namelen < 0 then (RErr, drop 4 bs, s1)
                  else read_rest f namelen sizeof_Jobrec jobrec_of 4 (drop 4 bs) s1)"

definition readrec5 :: "addr \<Rightarrow> string \<Rightarrow> server \<Rightarrow> rd \<times> string \<times> server" where
  "readrec5 f bs s =
     (case syscall s of
        (False, s1) \<Rightarrow> (RErr, bs, s1)
      | (True, s1) \<Rightarrow>
          if length bs < 8 then (RStop, [], s1)
          else let namelen = int (field_at 0 8 bs)
               in if namelen \<ge> int MAX_TUBE_NAME_LEN then (RErr, drop 8 bs, s1)
                  else read_rest f namelen Jobrec5size jobrec5_of 8 (drop 8 bs) s1)"

section \<open>Reading files\<close>

text \<open>
  The loop over the records of a file, with the result that ended it. \<open>None\<close> means that the bound \<open>n\<close> was too
  small; \<open>fileread_terminates\<close> shows that the length of the file is enough.
\<close>

fun read_loop :: "(string \<Rightarrow> server \<Rightarrow> rd \<times> string \<times> server) \<Rightarrow> nat \<Rightarrow> string \<Rightarrow> server \<Rightarrow> (rd \<times> server) option" where
  "read_loop rd 0 bs s = None"
| "read_loop rd (Suc n) bs s =
     (case rd bs s of
        (RMore, bs1, s1) \<Rightarrow> read_loop rd n bs1 s1
      | (r, _, s1) \<Rightarrow> Some (r, s1))"

abbreviation Walver :: int where "Walver \<equiv> 7"

abbreviation Walver5 :: int where "Walver5 \<equiv> 5"

text \<open>\<open>RStop\<close> is the result 0 and \<open>RErr\<close> the result 1.\<close>

definition fileread :: "addr \<Rightarrow> string \<Rightarrow> server \<Rightarrow> (rd \<times> server) option" where
  "fileread f bs s =
     (case readfull sizeof_int bs s of
        (None, _, s1) \<Rightarrow> Some (RErr, s1)
      | (Some v, bs1, s1) \<Rightarrow>
          if int_at 0 4 v = Walver
          then map_option (\<lambda>(r, s2). (r, filedecref (Some f) s2))
                 (read_loop (readrec f) (Suc (length bs1)) bs1 (fileincref (Some f) s1))
          else if int_at 0 4 v = Walver5
          then map_option (\<lambda>(r, s2). (r, filedecref (Some f) s2))
                 (read_loop (readrec5 f) (Suc (length bs1)) bs1 (fileincref (Some f) s1))
          else Some (RErr, s1))"

section \<open>Scanning the directory\<close>

text \<open>\<open>strtol\<close> of the C library in base 10: the value, saturated to 64 bits, and what follows the number.\<close>

definition strtol :: "string \<Rightarrow> int \<times> string" where
  "strtol s =
     (let t = dropWhile is_space s;
          neg = (t \<noteq> [] \<and> hd t = CHR ''-'');
          u = (if t \<noteq> [] \<and> (hd t = CHR ''-'' \<or> hd t = CHR ''+'') then tl t else t);
          ds = takeWhile is_digit u;
          v = (if neg then - int (dec_val ds) else int (dec_val ds))
      in if ds = [] then (0, s) else (max (- (2 ^ 63)) (min (2 ^ 63 - 1) v), drop (length ds) u))"

text \<open>The number of a log file, \<open>None\<close> for other entries. \<open>n\<close> is an \<open>int\<close>: the value is truncated to 32 bits.\<close>

definition binlog_number :: "string \<Rightarrow> int option" where
  "binlog_number name =
     (if take 7 name = ''binlog.''
      then case strtol (drop 7 name) of (n, rest) \<Rightarrow> if rest = [] then Some (signed_take_bit 31 n) else None
      else None)"

text \<open>\<open>names\<close> are the entries of the directory, \<open>None\<close> when it cannot be opened; then \<open>w->next\<close> stays what it was.\<close>

definition walscandir :: "string list option \<Rightarrow> server \<Rightarrow> int \<times> server" where
  "walscandir names s =
     (case names of
        None \<Rightarrow> (2 ^ 30, s)
      | Some ns \<Rightarrow>
          let (mn, mx) = fold (\<lambda>name (mn, mx). case binlog_number name of None \<Rightarrow> (mn, mx) | Some n \<Rightarrow> (min n mn, max n mx)) ns (2 ^ 30, 0)
          in (mn, upd_wal (\<lambda>w. w\<lparr>wal_next := mx + 1\<rparr>) s))"

section \<open>Start-up with a log\<close>

text \<open>
  \<open>disk i\<close> is the content of \<open>binlog.i\<close>. Whether it can be opened is up to \<open>syscall\<close>, whatever the entries of the directory are: \<open>walread\<close>
  tries every number between the smallest and the largest, and an \<open>open\<close> may fail for a file that is there. \<open>None\<close> is \<open>exit(1)\<close> or a crash.
\<close>

fun walread_loop :: "(int \<Rightarrow> string) \<Rightarrow> int list \<Rightarrow> bool \<Rightarrow> server \<Rightarrow> (bool \<times> server) option" where
  "walread_loop disk [] err s = Some (err, s)"
| "walread_loop disk (i # js) err s =
     (case malloc s of
        (False, s1) \<Rightarrow> None
      | (True, s1) \<Rightarrow>
          (case malloc s1 of
             (False, s2) \<Rightarrow> None
           | (True, s2) \<Rightarrow>
               let f = file_brk s2;
                   s3 = s2\<lparr>file_brk := f + 1, file_st := (file_st s2)(f := zero_file\<lparr>f_seq := i\<rparr>)\<rparr>
               in case syscall s3 of
                    (False, s4) \<Rightarrow> walread_loop disk js err s4
                  | (True, s4) \<Rightarrow>
                      (case fileread f (disk i) (fileadd f s4) of
                         None \<Rightarrow> None
                       | Some (RCrash, s5) \<Rightarrow> None
                       | Some (r, s5) \<Rightarrow> walread_loop disk js (err \<or> r = RErr) (snd (syscall s5)))))"

definition walread :: "(int \<Rightarrow> string) \<Rightarrow> int \<Rightarrow> server \<Rightarrow> (bool \<times> server) option" where
  "walread disk mn s = walread_loop disk [mn..wal_next (wal s) - 1] False s"

definition walinit :: "string list option \<Rightarrow> (int \<Rightarrow> string) \<Rightarrow> server \<Rightarrow> server option" where
  "walinit names disk s =
     (let (mn, s1) = walscandir names s
      in case walread disk mn s1 of
           None \<Rightarrow> None
         | Some (_, s2) \<Rightarrow>
             (case makenextfile s2 of
                (False, s3) \<Rightarrow> None
              | (True, s3) \<Rightarrow> Some (upd_wal (\<lambda>w. w\<lparr>wal_cur := Some (last (wal_files w))\<rparr>) s3)))"

definition waldirlock :: "server \<Rightarrow> bool \<times> server" where
  "waldirlock s =
     (case malloc s of
        (False, s1) \<Rightarrow> (False, s1)
      | (True, s1) \<Rightarrow>
          (case syscall s1 of
             (False, s2) \<Rightarrow> (False, s2)
           | (True, s2) \<Rightarrow> syscall s2))"

text \<open>\<open>None\<close> is \<open>exit(10)\<close>, \<open>exit(1)\<close> or a crash.\<close>

definition srv_acquire_wal :: "string list option \<Rightarrow> (int \<Rightarrow> string) \<Rightarrow> server \<Rightarrow> server option" where
  "srv_acquire_wal names disk s =
     (if \<not> wal_use (wal s) then Some s
      else case waldirlock s of
             (False, s1) \<Rightarrow> None
           | (True, s1) \<Rightarrow>
               (case walinit names disk s1 of
                  None \<Rightarrow> None
                | Some s2 \<Rightarrow> (case prot_replay s2 of (False, s3) \<Rightarrow> None | (True, s3) \<Rightarrow> Some s3)))"

section \<open>The bytes that are written\<close>

text \<open>
  The buffers that \<open>filewrjobshort\<close> and \<open>filewrjobfull\<close> hand to \<open>filewrite\<close>, one after the other.
\<close>

definition short_record :: "'a Jobrec_scheme \<Rightarrow> string list" where
  "short_record r = [int_bytes 4 0, jobrec_bytes r]"

definition full_record :: "string \<Rightarrow> 'a Jobrec_scheme \<Rightarrow> string \<Rightarrow> string list" where
  "full_record name r b = [int_bytes 4 (int (length name)), name, jobrec_bytes r, take (nat (r_body_size r)) b]"

lemma length_le_bytes [simp]: "length (le_bytes n v) = n"
  by (induction n arbitrary: v) simp_all

lemma length_int_bytes [simp]: "length (int_bytes n v) = n"
  by (simp add: int_bytes_def)

lemma length_jobrec_bytes [simp]: "length (jobrec_bytes r) = 80"
  by (simp add: jobrec_bytes_def)

lemma le_val_bytes [simp]: "le_val (le_bytes n v) = v mod 256 ^ n"
proof (induction n arbitrary: v)
  case (Suc n)
  have "of_char (char_of (v mod 256) :: char) = v mod 256" by simp
  then show ?case using Suc by (simp add: mod_mult2_eq)
qed simp

text \<open>The model of the log charges for a record exactly the bytes that are written.\<close>

lemma filewrjob_bytes:
  "filewrjobshort f j s =
     (case filewrites f j (map (\<lambda>b. int (length b)) (short_record (job_st s j))) s of
        (False, s1) \<Rightarrow> (False, s1)
      | (True, s1) \<Rightarrow> (True, if r_state (job_st s1 j) = Invalid then filermjob (j_file (job_st s1 j)) j s1 else s1))"
  by (simp add: filewrjobshort_def short_record_def)

end
