(* ===== verification/Bean_Codec.thy ===== *)
theory Bean_Codec
  imports Bean_Log
begin

text \<open>
  The format of the log: a structure that is written is read back, and the reader of a file always comes
  to an end.
\<close>

section \<open>Round trips\<close>

lemma le_val_append: "le_val (xs @ ys) = le_val xs + 256 ^ length xs * le_val ys"
  by (induction xs) (simp_all add: algebra_simps)

lemma field_at_append:
  "field_at off n (xs @ ys) = (if length xs \<le> off then field_at (off - length xs) n ys
     else if off + n \<le> length xs then field_at off n xs else le_val (take n (drop off (xs @ ys))))"
  by (simp add: field_at_def)

lemma field_at_0: "field_at 0 n (xs @ ys) = (if length xs = n then le_val xs else field_at 0 n (xs @ ys))"
  by (simp add: field_at_def)

lemma signed_take_bit_bytes:
  assumes "- (2 ^ (8 * n - 1)) \<le> v" "v < 2 ^ (8 * n - 1)" "0 < n"
  shows "signed_take_bit (8 * n - 1) (int (nat (take_bit (8 * n) v))) = v"
proof -
  have "signed_take_bit (8 * n - 1) (take_bit (8 * n) v) = signed_take_bit (8 * n - 1) v"
  proof -
    have "\<not> 8 * n \<le> 8 * n - 1" using assms(3) by linarith
    then show ?thesis by (simp add: signed_take_bit_take_bit)
  qed
  also have "\<dots> = v" using assms(1,2) by (simp add: signed_take_bit_int_eq_self)
  finally show ?thesis by simp
qed

lemma take_bit_bytes: "nat (take_bit (8 * n) v) mod 256 ^ n = nat (take_bit (8 * n) v)"
proof -
  have "(256 :: nat) ^ n = 2 ^ (8 * n)" by (simp add: power_mult)
  moreover have "nat (take_bit (8 * n) v) < 2 ^ (8 * n)"
    by (metis nat_less_numeral_power_cancel_iff of_nat_numeral take_bit_int_less_exp zless_nat_eq_int_zless)
  ultimately show ?thesis by simp
qed

text \<open>The fields of a job fit into the structure.\<close>

definition rec_fits :: "'a Jobrec_scheme \<Rightarrow> bool" where
  "rec_fits r \<longleftrightarrow>
     (\<forall>x \<in> {r_delay r, r_ttr r, r_created_at r, r_deadline_at r}. - (2 ^ 63) \<le> x \<and> x < 2 ^ 63) \<and>
     - (2 ^ 31) \<le> r_body_size r \<and> r_body_size r < 2 ^ 31"

lemma code_state_code [simp]: "code_state (state_code st) = Some st"
  by (cases st) (simp_all add: code_state_def state_code_def)

lemma state_code_small: "state_code st mod 256 = state_code st"
  by (cases st) (simp_all add: state_code_def)

lemma int_at_bytes:
  assumes "field_at off n bs = nat (take_bit (8 * n) v)" "- (2 ^ (8 * n - 1)) \<le> v" "v < 2 ^ (8 * n - 1)" "0 < n"
  shows "int_at off n bs = v"
  unfolding int_at_def assms(1) by (rule signed_take_bit_bytes [OF assms(2-4)])

lemma field_int_bytes: "le_val (int_bytes n v) = nat (take_bit (8 * n) v)"
  by (simp add: int_bytes_def take_bit_bytes)

lemma unat_small32: "unat (w :: u32) mod 4294967296 = unat w"
proof -
  have "unat w < 2 ^ LENGTH(32)" by (rule unsigned_less)
  then show ?thesis by simp
qed

lemma unat_small64: "unat (w :: u64) mod 18446744073709551616 = unat w"
proof -
  have "unat w < 2 ^ LENGTH(64)" by (rule unsigned_less)
  then show ?thesis by simp
qed

lemma jobrec_fields:
  fixes r :: "'a Jobrec_scheme"
  defines "b \<equiv> jobrec_bytes r"
  shows "field_at 0 8 b = unat (r_id r)" "field_at 8 4 b = unat (r_pri r)" "field_at 16 8 b = nat (take_bit 64 (r_delay r))"
    "field_at 24 8 b = nat (take_bit 64 (r_ttr r))" "field_at 32 4 b = nat (take_bit 32 (r_body_size r))"
    "field_at 40 8 b = nat (take_bit 64 (r_created_at r))" "field_at 48 8 b = nat (take_bit 64 (r_deadline_at r))"
    "field_at 56 4 b = unat (r_reserve_ct r)" "field_at 60 4 b = unat (r_timeout_ct r)" "field_at 64 4 b = unat (r_release_ct r)"
    "field_at 68 4 b = unat (r_bury_ct r)" "field_at 72 4 b = unat (r_kick_ct r)" "field_at 76 1 b = state_code (r_state r)"
  using field_int_bytes [of 8] field_int_bytes [of 4]
  by (simp_all add: b_def jobrec_bytes_def field_at_def unat_small32 unat_small64 state_code_small)

lemma jobrec_of_bytes:
  assumes "rec_fits r"
  shows "jobrec_of (jobrec_bytes r) = ((Jobrec.truncate r)\<lparr>r_state := Invalid\<rparr>, Some (r_state r))"
proof -
  note f = jobrec_fields [of r]
  have i: "int_at 16 8 (jobrec_bytes r) = r_delay r" "int_at 24 8 (jobrec_bytes r) = r_ttr r" "int_at 32 4 (jobrec_bytes r) = r_body_size r"
    "int_at 40 8 (jobrec_bytes r) = r_created_at r" "int_at 48 8 (jobrec_bytes r) = r_deadline_at r"
    using assms by (intro int_at_bytes; simp add: f rec_fits_def)+
  show ?thesis by (simp add: jobrec_of_def f i f(13) [unfolded One_nat_def] Jobrec.truncate_def)
qed


lemma field_at_prefix: "off + n \<le> length xs \<Longrightarrow> field_at off n (xs @ ys) = field_at off n xs"
  by (simp add: field_at_def)

lemma jobrec_of_append: "jobrec_of (jobrec_bytes r @ ys) = jobrec_of (jobrec_bytes r)"
  by (simp add: jobrec_of_def int_at_def field_at_prefix)

section \<open>The reader comes to an end\<close>

lemma readfull_length: "readfull n bs s = (Some b, bs1, s1) \<Longrightarrow> length bs1 \<le> length bs"
  by (auto simp: readfull_def split: prod.splits bool.splits if_splits)

lemma readfull_shrinks: "readfull n bs s = (Some b, bs1, s1) \<Longrightarrow> length bs1 < length bs \<and> int (length b) = n"
  by (auto simp: readfull_def split: prod.splits bool.splits if_splits)

lemma read_job_body_length: "read_job_body f j n bs s = (Some k, bs1, s1) \<Longrightarrow> length bs1 \<le> length bs"
  by (auto simp: read_job_body_def Let_def dest: readfull_length split: if_splits prod.splits option.splits)

lemma read_apply_length: "read_apply f namelen name rec sz bs s = (RMore, bs1, s1) \<Longrightarrow> length bs1 \<le> length bs"
  by (auto simp: read_apply_def Let_def dest: read_job_body_length split: if_splits prod.splits option.splits)

lemma read_rest_length:
  assumes "read_rest f namelen sz dec n bs s = (RMore, bs1, s1)"
  shows "length bs1 < length bs"
proof -
  obtain nm bs2 s2 where 2: "(if namelen = 0 then (Some [], bs, s) else readfull namelen bs s) = (Some nm, bs2, s2)"
    using assms by (auto simp: read_rest_def split: prod.splits option.splits)
  then have l2: "length bs2 \<le> length bs" by (auto dest: readfull_length split: if_splits)
  obtain raw bs3 s3 where 3: "readfull sz bs2 s2 = (Some raw, bs3, s3)"
    using assms 2 by (auto simp: read_rest_def split: prod.splits option.splits)
  then have "read_apply f namelen (takeWhile (\<lambda>c. c \<noteq> NUL) nm) (dec raw) (n + namelen + sz) bs3 s3 = (RMore, bs1, s1)"
    using assms 2 by (simp add: read_rest_def)
  from read_apply_length [OF this] readfull_shrinks [OF 3] l2 show ?thesis by simp
qed

text \<open>A reader that makes progress with every record.\<close>

definition progresses :: "(string \<Rightarrow> server \<Rightarrow> rd \<times> string \<times> server) \<Rightarrow> bool" where
  "progresses rd \<longleftrightarrow> (\<forall>bs s bs1 s1. rd bs s = (RMore, bs1, s1) \<longrightarrow> length bs1 < length bs)"

lemma readrec_progresses: "progresses (readrec f)"
  by (auto simp: progresses_def readrec_def Let_def split: prod.splits bool.splits if_splits dest!: read_rest_length)

lemma readrec5_progresses: "progresses (readrec5 f)"
  by (auto simp: progresses_def readrec5_def Let_def split: prod.splits bool.splits if_splits dest!: read_rest_length)

lemma read_loop_returns: "progresses rd \<Longrightarrow> length bs < n \<Longrightarrow> read_loop rd n bs s \<noteq> None"
proof (induction n arbitrary: bs s)
  case (Suc n)
  obtain r bs1 s1 where e: "rd bs s = (r, bs1, s1)" by (rule prod_cases3)
  show ?case
  proof (cases "r = RMore")
    case True
    then have "length bs1 < length bs" using e Suc.prems(1) by (auto simp: progresses_def)
    then show ?thesis using e True Suc by simp
  next
    case False
    then show ?thesis using e by (cases r) simp_all
  qed
qed simp

text \<open>C18 (termination). Reading a log file always comes to an end, whatever bytes are in the file, whatever fails and
  whatever state the server is in: every record read makes the rest of the file shorter, for both versions of the
  format, so the number of bytes bounds the number of records, and the loop of \<open>fileread\<close> returns.\<close>

theorem fileread_terminates: "\<exists>r s'. fileread f bs s = Some (r, s')"
proof -
  have l: "\<exists>r s1. read_loop rd (Suc (length bs1)) bs1 s0 = Some (r, s1)" if "progresses rd" for rd bs1 s0
    using read_loop_returns [OF that lessI, of bs1 s0] by (auto simp del: read_loop.simps)
  obtain vo bs1 s1 where v: "readfull sizeof_int bs s = (vo, bs1, s1)" by (rule prod_cases3)
  show ?thesis
    using l [OF readrec_progresses, of f bs1 "fileincref (Some f) s1"] l [OF readrec5_progresses, of f bs1 "fileincref (Some f) s1"]
    by (cases vo) (auto simp: fileread_def v simp del: read_loop.simps)
qed

end
