(* ===== verification/Bean_Replay.thy ===== *)
theory Bean_Replay
  imports Bean_Codec Bean_New
begin

text \<open>
  Reading the log implements a fold over its records: the jobs that are in memory after a file has been read
  are those that its records leave, one after the other, in a map from ids to jobs.
\<close>

section \<open>What the reader sees of the state\<close>

text \<open>The files and the counters of the log play no part.\<close>

definition rview :: "server \<Rightarrow> _" where
  "rview s = (brk s, live_jobs s, (\<lambda>j. (Jobrec.truncate (job_st s j), j_tube (job_st s j), body (job_st s j))), tube_st s, live_tubes s,
     lists s, jobhash s, next_id s, tubes s, default_tube s, job_data_size_limit s, allocs s, sys s)"

lemma rviewD:
  assumes "rview s' = rview s"
  shows "brk s' = brk s" "live_jobs s' = live_jobs s" "Jobrec.truncate (job_st s' j) = Jobrec.truncate (job_st s j)"
    "j_tube (job_st s' j) = j_tube (job_st s j)" "body (job_st s' j) = body (job_st s j)" "tube_st s' = tube_st s"
    "live_tubes s' = live_tubes s" "lists s' = lists s" "jobhash s' = jobhash s" "next_id s' = next_id s" "tubes s' = tubes s"
    "default_tube s' = default_tube s" "job_data_size_limit s' = job_data_size_limit s" "allocs s' = allocs s" "sys s' = sys s"
  using assms by (simp_all add: rview_def fun_eq_iff)

lemma truncate_eqD:
  "Jobrec.truncate x = Jobrec.truncate y \<Longrightarrow> r_id x = r_id y" "Jobrec.truncate x = Jobrec.truncate y \<Longrightarrow> r_state x = r_state y"
  "Jobrec.truncate x = Jobrec.truncate y \<Longrightarrow> r_body_size x = r_body_size y"
  by (auto simp: Jobrec.truncate_def)

lemma rview_file [simp]:
  "rview (upd_wal f s) = rview s" "rview (upd_file a g s) = rview s" "rview (fileincref fo s) = rview s" "rview (filedecref fo s) = rview s"
  "rview (filermjob fo j s) = rview s" "rview (fileaddjob a j s) = rview s" "rview (read_count j n s) = rview s"
  "rview (upd_job j (\<lambda>x. x\<lparr>walused := v\<rparr>) s) = rview s"
proof -
  show w: "rview (upd_wal f s) = rview s" for f s by (simp add: rview_def)
  have w': "rview (s\<lparr>wal := v\<rparr>) = rview s" for v s by (simp add: rview_def)
  show u: "rview (upd_file a g s) = rview s" for a g s by (simp add: rview_def upd_file_def)
  have g: "rview (walgc s) = rview s" for s unfolding walgc_def Let_def by (rule w)
  show i: "rview (fileincref fo s) = rview s" for fo s by (simp add: fileincref_def u split: option.split)
  show d: "rview (filedecref fo s) = rview s" for fo s
    using u by (auto simp: filedecref_def Let_def g split: option.split)
  have j: "rview (upd_job j h s) = rview s" if "\<And>x. Jobrec.truncate (h x) = Jobrec.truncate x \<and> j_tube (h x) = j_tube x \<and> body (h x) = body x" for j h s
    using that by (auto simp: rview_def upd_job_def fun_eq_iff)
  have j1: "rview (upd_job j (\<lambda>x. x\<lparr>walused := c x\<rparr>) s) = rview s" "rview (upd_job j (\<lambda>x. x\<lparr>j_file := v\<rparr>) s) = rview s" for j c v s
    by (rule j, simp add: Jobrec.truncate_def)+
  show "rview (upd_job j (\<lambda>x. x\<lparr>walused := v\<rparr>) s) = rview s" by (rule j1(1))
  show "rview (filermjob fo j s) = rview s"
    by (auto simp: filermjob_def Let_def d j1 w' u split: option.split)
  show "rview (fileaddjob a j s) = rview s" by (simp add: fileaddjob_def i u j1)
  show "rview (read_count j n s) = rview s" by (simp add: read_count_def w' j1)
qed

text \<open>Nothing fails.\<close>

definition quiet :: "server \<Rightarrow> bool" where
  "quiet s \<longleftrightarrow> allocs s = [] \<and> sys s = []"

lemma quiet_env: "quiet s \<Longrightarrow> malloc s = (True, s)" "quiet s \<Longrightarrow> syscall s = (True, s)"
  by (simp_all add: quiet_def malloc_def syscall_def)

text \<open>A job as the log describes it: the name of its tube, its structure and its body.\<close>

definition job_entry :: "server \<Rightarrow> addr \<Rightarrow> string \<times> Jobrec \<times> string" where
  "job_entry s j = (t_name (tube_st s (the (j_tube (job_st s j)))), Jobrec.truncate (job_st s j), body (job_st s j))"

definition log_view :: "server \<Rightarrow> u64 \<Rightarrow> (string \<times> Jobrec \<times> string) option" where
  "log_view s n = map_option (job_entry s) (find_job s n)"

text \<open>The references to a tube before the server starts: those of its jobs, and the one of \<open>default_tube\<close>.\<close>

definition tube_jobs :: "server \<Rightarrow> addr \<Rightarrow> addr set" where
  "tube_jobs s t = {j \<in> ht_set (jobhash s). j_tube (job_st s j) = Some t}"

definition tube_refs :: "server \<Rightarrow> addr \<Rightarrow> nat" where
  "tube_refs s t = (if default_tube s = Some t then 1 else 0) + card (tube_jobs s t)"

text \<open>
  The state between two records, and within one: \<open>J\<close> is the job that is being made and is not yet on the list.
\<close>

definition rokx :: "addr set \<Rightarrow> server \<Rightarrow> bool" where
  "rokx J s \<longleftrightarrow>
     (ht_ok (ids s) (jobhash s) \<and> ht_load (jobhash s) \<and> live_jobs s = ht_set (jobhash s) \<and>
      (\<forall>j \<in> ht_set (jobhash s). j < brk s \<and> ids s j < next_id s \<and> (j \<notin> J \<longrightarrow> r_state (job_st s j) \<in> {Ready, Buried, Delayed}))) \<and>
     (jl_ok (lists s) \<and> set (jl_items (lists s) LReplay) = ht_set (jobhash s) - J \<and> (\<forall>h. h \<noteq> LReplay \<longrightarrow> jl_items (lists s) h = [])) \<and>
     (tubes_ok s \<and> (\<forall>j \<in> ht_set (jobhash s). \<exists>t \<in> live_tubes s. j_tube (job_st s j) = Some t) \<and>
      (\<forall>t \<in> live_tubes s. unat (refs (tube_st s t)) = tube_refs s t) \<and> (\<forall>t. default_tube s = Some t \<longrightarrow> t < brk s))"

abbreviation rok :: "server \<Rightarrow> bool" where "rok \<equiv> rokx {}"

text \<open>Room for \<open>n\<close> more jobs: the counts of references do not wrap.\<close>

definition rroom :: "nat \<Rightarrow> server \<Rightarrow> bool" where
  "rroom n s \<longleftrightarrow> all_jobs_used (jobhash s) + n < 2 ^ 32 - 1"

lemma rview_cong:
  assumes "rview s' = rview s"
  shows "rokx J s' = rokx J s" "log_view s' = log_view s" "quiet s' = quiet s" "rroom n s' = rroom n s" "job_entry s' = job_entry s"
    "find_job s' = find_job s" "ids s' = ids s"
proof -
  note v = rviewD [OF assms]
  show i: "ids s' = ids s" using truncate_eqD(1) [OF v(3)] by (simp add: fun_eq_iff)
  have st: "r_state (job_st s' j) = r_state (job_st s j)" for j using truncate_eqD(2) [OF v(3)] .
  have tj: "tube_jobs s' = tube_jobs s" "tube_refs s' = tube_refs s" by (simp_all add: fun_eq_iff tube_refs_def tube_jobs_def v)
  show e: "job_entry s' = job_entry s" by (simp add: fun_eq_iff job_entry_def v)
  show f: "find_job s' = find_job s" by (simp add: fun_eq_iff find_job_def i v(9))
  show "log_view s' = log_view s" by (simp add: fun_eq_iff log_view_def e f)
  show "quiet s' = quiet s" "rroom n s' = rroom n s" by (simp_all add: quiet_def rroom_def v)
  have "tubes_ok s' = tubes_ok s" by (simp add: tubes_ok_def v)
  then show "rokx J s' = rokx J s" unfolding rokx_def i tj st v(1,2,4,6-12) by (simp add: fun_cong [OF i])
qed


lemma rokxD:
  assumes "rokx J s"
  shows "ht_ok (ids s) (jobhash s)" "ht_load (jobhash s)" "live_jobs s = ht_set (jobhash s)"
    "\<And>j. j \<in> ht_set (jobhash s) \<Longrightarrow> j < brk s" "\<And>j. j \<in> ht_set (jobhash s) \<Longrightarrow> ids s j < next_id s"
    "\<And>j. j \<in> ht_set (jobhash s) \<Longrightarrow> j \<notin> J \<Longrightarrow> r_state (job_st s j) \<in> {Ready, Buried, Delayed}"
    "jl_ok (lists s)" "set (jl_items (lists s) LReplay) = ht_set (jobhash s) - J" "\<And>h. h \<noteq> LReplay \<Longrightarrow> jl_items (lists s) h = []"
    "tubes_ok s" "\<And>j. j \<in> ht_set (jobhash s) \<Longrightarrow> \<exists>t \<in> live_tubes s. j_tube (job_st s j) = Some t"
    "\<And>t. t \<in> live_tubes s \<Longrightarrow> unat (refs (tube_st s t)) = tube_refs s t" "\<And>t. default_tube s = Some t \<Longrightarrow> t < brk s"
  using assms unfolding rokx_def by blast+

lemma find_job_iff: "ht_ok (ids s) (jobhash s) \<Longrightarrow> find_job s n = Some j \<longleftrightarrow> j \<in> ht_set (jobhash s) \<and> ids s j = n"
  by (simp add: find_job_def job_find_iff)

lemma find_job_None: "ht_ok (ids s) (jobhash s) \<Longrightarrow> find_job s n = None \<longleftrightarrow> (\<forall>j \<in> ht_set (jobhash s). ids s j \<noteq> n)"
  by (simp add: find_job_def job_find_None)

lemma job_entry_id: "job_entry s' j = job_entry s i \<Longrightarrow> ids s' j = ids s i"
  by (rule truncate_eqD(1)) (simp add: job_entry_def)

text \<open>The view after a job has been changed, added or freed.\<close>

lemma log_view_upd:
  assumes ok: "ht_ok (ids s) (jobhash s)" "ht_ok (ids s') (jobhash s')" and h: "ht_set (jobhash s') = insert j (ht_set (jobhash s))"
    and e: "\<And>i. i \<in> ht_set (jobhash s) \<Longrightarrow> i \<noteq> j \<Longrightarrow> job_entry s' i = job_entry s i" "j \<in> ht_set (jobhash s) \<Longrightarrow> ids s' j = ids s j"
  shows "log_view s' = (log_view s)(ids s' j \<mapsto> job_entry s' j)"
proof (rule ext)
  fix n
  have j: "find_job s' (ids s' j) = Some j" using find_job_iff [OF ok(2)] h by simp
  show "log_view s' n = ((log_view s)(ids s' j \<mapsto> job_entry s' j)) n"
  proof (cases "n = ids s' j")
    case True
    then show ?thesis using j by (simp add: log_view_def)
  next
    case n: False
    have i: "i \<in> ht_set (jobhash s') \<and> ids s' i = n \<longleftrightarrow> i \<in> ht_set (jobhash s) \<and> ids s i = n" for i
    proof (cases "i = j")
      case True
      then show ?thesis using h n e(2) by auto
    next
      case False
      then show ?thesis using h job_entry_id [OF e(1), of i] by auto
    qed
    then have f: "find_job s' n = find_job s n"
      unfolding find_job_def by (rule job_find_eq [OF ok(2) ok(1)])
    have "job_entry s' i = job_entry s i" if "find_job s n = Some i" for i
    proof -
      have "i \<in> ht_set (jobhash s)" "ids s i = n" using that find_job_iff [OF ok(1)] by auto
      moreover have "i \<noteq> j" using calculation n e(2) by auto
      ultimately show ?thesis using e(1) by blast
    qed
    then show ?thesis using f n by (cases "find_job s n") (simp_all add: log_view_def)
  qed
qed

lemma log_view_del:
  assumes ok: "ht_ok (ids s) (jobhash s)" "ht_ok (ids s') (jobhash s')" and h: "ht_set (jobhash s') = ht_set (jobhash s) - {j}"
    and e: "\<And>i. i \<in> ht_set (jobhash s') \<Longrightarrow> job_entry s' i = job_entry s i" and j: "j \<in> ht_set (jobhash s)"
  shows "log_view s' = (log_view s)(ids s j := None)"
proof (rule ext)
  fix n
  show "log_view s' n = ((log_view s)(ids s j := None)) n"
  proof (cases "n = ids s j")
    case True
    have "ids s' i \<noteq> n" if "i \<in> ht_set (jobhash s')" for i
      using that h j ht_unique [OF ok(1), of i j] job_entry_id [OF e [OF that]] True by auto
    then have "find_job s' n = None" using find_job_None [OF ok(2)] by blast
    then show ?thesis using True by (simp add: log_view_def)
  next
    case n: False
    have i: "i \<in> ht_set (jobhash s') \<and> ids s' i = n \<longleftrightarrow> i \<in> ht_set (jobhash s) \<and> ids s i = n" for i
    proof (cases "i = j")
      case True
      then show ?thesis using h n by simp
    next
      case False
      then have "i \<in> ht_set (jobhash s') \<longleftrightarrow> i \<in> ht_set (jobhash s)" using h by simp
      then show ?thesis using job_entry_id [OF e, of i] by metis
    qed
    then have f: "find_job s' n = find_job s n"
      unfolding find_job_def by (rule job_find_eq [OF ok(2) ok(1)])
    have "job_entry s' i = job_entry s i" if "find_job s n = Some i" for i
      using that f find_job_iff [OF ok(2)] e by metis
    then show ?thesis using f n by (cases "find_job s n") (simp_all add: log_view_def)
  qed
qed

section \<open>The tube of a new job\<close>

lemma ms_append_quiet: "malloc x = (True, x) \<Longrightarrow> \<exists>ts. ms_append None malloc a x i = (True, ts, x)"
  by (simp add: ms_append_def grow_def ms_event_def)

lemma find_or_make_quiet:
  assumes ok: "rokx J s" and q: "quiet s" and len: "length name < MAX_TUBE_NAME_LEN" and e: "tube_find_or_make name s = (tp, s')"
  obtains t where "tp = Some t" "t \<in> live_tubes s'" "t_name (tube_st s' t) = name" "rokx J s'" "quiet s'" "jobhash s' = jobhash s" "job_st s' = job_st s"
    "next_id s' = next_id s" "job_data_size_limit s' = job_data_size_limit s" "\<And>j. j \<in> ht_set (jobhash s) \<Longrightarrow> job_entry s' j = job_entry s j"
    "lists s' = lists s"
proof (cases "tube_find (tubes s) name s")
  case (Some t)
  have t: "t \<in> set (ms_items (tubes s))" "t_name (tube_st s t) = name" using tube_find_Some [OF rokxD(10) [OF ok] len] Some by auto
  then have "t \<in> live_tubes s" using rokxD(10) [OF ok] by (auto simp: tubes_ok_def)
  then show thesis using that [of t] e Some ok q t by (simp add: tube_find_or_make_def)
next
  case None
  let ?t = "brk s"
  define s1 where "s1 = s\<lparr>brk := ?t + 1, tube_st := (tube_st s)(?t := zero_tube\<lparr>t_name := take (MAX_TUBE_NAME_LEN - 1) name\<rparr>),
      live_tubes := insert ?t (live_tubes s), lists := (lists s)\<lparr>jl_items := (jl_items (lists s))(LBuried ?t := [])\<rparr>\<rparr>"
  have m: "make_tube name s = (Some ?t, s1)" by (simp add: make_tube_def quiet_env(1) [OF q] Let_def s1_def)
  have l: "lists s1 = lists s" using rokxD(9) [OF ok, of "LBuried ?t"] by (simp add: s1_def fun_upd_idem)
  have q1: "malloc s1 = (True, s1)" using q by (simp add: malloc_def quiet_def s1_def)
  obtain ts where a: "ms_append None malloc (tubes s1) s1 ?t = (True, ts, s1)" using ms_append_quiet [OF q1, where a = "tubes s1" and i = ?t] by blast
  have e1: "make_and_insert_tube name s = (Some ?t, s1\<lparr>tubes := ts\<rparr>)" by (simp add: make_and_insert_tube_def m a)
  then have s': "tp = Some ?t" "s' = s1\<lparr>tubes := ts\<rparr>" using e None by (simp_all add: tube_find_or_make_def)
  note mi = make_and_insert_tube_ok [OF rokxD(10) [OF ok] len None e1, folded s'(2)]
  have f: "jobhash s' = jobhash s" "job_st s' = job_st s" "next_id s' = next_id s" "live_jobs s' = live_jobs s" "brk s' = Suc (brk s)"
    "lists s' = lists s" "default_tube s' = default_tube s" "live_tubes s' = insert ?t (live_tubes s)"
    "tube_st s' = (tube_st s)(?t := zero_tube\<lparr>t_name := take (MAX_TUBE_NAME_LEN - 1) name\<rparr>)" "allocs s' = allocs s" "sys s' = sys s"
    "job_data_size_limit s' = job_data_size_limit s"
    using l by (simp_all add: s'(2)) (simp_all add: s1_def)
  have live: "t < brk s" if "t \<in> live_tubes s" for t using that rokxD(10) [OF ok] by (auto simp: tubes_ok_def)
  have en: "job_entry s' j = job_entry s j" if j: "j \<in> ht_set (jobhash s)" for j
  proof -
    obtain t where "t \<in> live_tubes s" "j_tube (job_st s j) = Some t" using rokxD(11) [OF ok j] by blast
    moreover have "t \<noteq> ?t" using live calculation(1) by auto
    ultimately show ?thesis by (simp add: job_entry_def f)
  qed
  have tr: "tube_refs s' t = tube_refs s t" for t by (simp add: tube_refs_def tube_jobs_def f)
  have "tube_jobs s ?t = {}" using rokxD(11) [OF ok] live by (fastforce simp: tube_jobs_def)
  moreover have "default_tube s \<noteq> Some ?t" using rokxD(13) [OF ok, of ?t] by auto
  ultimately have t0: "tube_refs s ?t = 0" by (simp add: tube_refs_def)
  have "rokx J s'"
    unfolding rokx_def f(1-4,6) using rokxD [OF ok] mi(1) live t0
    by (auto simp: f tr zero_tube_def less_SucI)
  then show thesis using that [of ?t] s' mi(3) q en f by (simp add: quiet_def)
qed


section \<open>A new job\<close>

lemma card_ht_set: "ht_ok f h \<Longrightarrow> card (ht_set h) = all_jobs_used h" "ht_ok f h \<Longrightarrow> finite (ht_set h)"
proof -
  assume ok: "ht_ok f h"
  have d: "distinct (ht_jobs h)" using ht_jobs_distinct [OF ok] by (simp add: distinct_map)
  show "card (ht_set h) = all_jobs_used h" "finite (ht_set h)"
    using distinct_card [OF d] by (simp_all add: ht_jobs_length [OF ok] flip: ht_jobs_set [OF ok])
qed

lemma tube_refs_bound: "ht_ok (ids s) (jobhash s) \<Longrightarrow> tube_refs s t \<le> Suc (all_jobs_used (jobhash s))"
  using card_mono [of "ht_set (jobhash s)" "tube_jobs s t"] card_ht_set [of "ids s" "jobhash s"]
  by (simp add: tube_refs_def tube_jobs_def subset_iff)

text \<open>The state with a new job \<open>x\<close> in the table, attached to the tube \<open>t\<close>.\<close>

definition with_job :: "Job \<Rightarrow> addr \<Rightarrow> addr Jobhash \<Rightarrow> u64 \<Rightarrow> int list \<Rightarrow> int \<Rightarrow> server \<Rightarrow> server" where
  "with_job x t h nx tks nw s = s\<lparr>brk := Suc (brk s), job_st := (job_st s)(brk s := x\<lparr>j_tube := Some t\<rparr>), live_jobs := insert (brk s) (live_jobs s),
     lists := jl_reset (lists s) (brk s), jobhash := h, next_id := nx, tube_st := (tube_st s)(t := (tube_st s t)\<lparr>refs := refs (tube_st s t) + 1\<rparr>),
     ticks := tks, now := nw\<rparr>"

lemma make_job_with_id_eq:
  assumes a: "allocate_job bsize s = (Some j, s1)" "n \<noteq> 0" and A: "upd_job j (\<lambda>x. x\<lparr>r_id := n\<rparr>) s1 = sA"
    and B: "(if n \<ge> next_id sA then sA\<lparr>next_id := n + 1\<rparr> else sA) = sB" and C: "upd_job j (\<lambda>x. x\<lparr>r_pri := pri, r_delay := dly, r_ttr := ttr\<rparr>) sB = sC"
    and st: "store_job (ids sC) malloc j (jobhash sC, sC) = (h, sD)"
  shows "make_job_with_id pri dly ttr bsize tube n s =
    (Some j, tube_iref tube (upd_job j (\<lambda>x. x\<lparr>j_tube := tube\<rparr>) (tube_dref (j_tube (job_st (sD\<lparr>jobhash := h\<rparr>) j)) (sD\<lparr>jobhash := h\<rparr>))))"
  unfolding make_job_with_id_def a(1) prod.case option.case if_P [OF a(2)] A Let_def B C st by (rule refl)

lemma make_job_quiet:
  assumes ok: "rok s" and q: "quiet s" and n: "n \<noteq> 0" "find_job s n = None" and room: "rroom (Suc m) s"
    and e: "make_job_with_id pri dly ttr bsize (Some t) n s = (jo, s')"
  obtains x h tks nw where "jo = Some (brk s)" "s' = with_job x t h (if n \<ge> next_id s then n + 1 else next_id s) tks nw s"
    "r_id x = n" "body x = []" "ht_ok (\<lambda>j. if j = brk s then n else ids s j) h" "ht_set h = insert (brk s) (ht_set (jobhash s))"
    "all_jobs_used h = Suc (all_jobs_used (jobhash s))" "ht_load h"
proof -
  let ?j = "brk s"
  obtain ct s2 where t2: "nanoseconds s = (ct, s2)" by (rule prod.exhaust)
  then obtain tk nw where s2: "s2 = s\<lparr>ticks := tk, now := nw\<rparr>"
    by (auto simp: nanoseconds_def split: list.splits intro: that [of "now s" "ticks s"])
  define x where "x = zero_job\<lparr>r_created_at := ct, r_body_size := bsize, body_at := ?j, r_id := n, r_pri := pri, r_delay := dly, r_ttr := ttr\<rparr>"
  define s3 where "s3 = s\<lparr>brk := Suc ?j, job_st := (job_st s)(?j := x), live_jobs := insert ?j (live_jobs s), lists := jl_reset (lists s) ?j,
    next_id := (if n \<ge> next_id s then n + 1 else next_id s), ticks := tk, now := nw\<rparr>"
  have a: "allocate_job bsize s = (Some ?j, s2\<lparr>brk := ?j + 1, job_st := (job_st s2)(?j := zero_job\<lparr>r_created_at := ct, r_body_size := bsize, body_at := ?j\<rparr>),
      live_jobs := insert ?j (live_jobs s2), lists := jl_reset (lists s2) ?j\<rparr>)"
    by (simp add: allocate_job_def quiet_env(1) [OF q] t2 Let_def)
  have fr: "?j \<notin> ht_set (jobhash s)" using rokxD(4) [OF ok, of ?j] by auto
  obtain h s4 where st: "store_job (ids s3) malloc ?j (jobhash s3, s3) = (h, s4)" by (rule prod.exhaust)
  have i: "ids s3 = (\<lambda>j. if j = ?j then n else ids s j)" by (auto simp: s3_def x_def fun_eq_iff)
  have h3: "ht_ok (ids s3) (jobhash s)" by (rule ht_ok_ids [OF rokxD(1) [OF ok]]) (use fr in \<open>auto simp: fun_cong [OF i]\<close>)
  have new: "ids s3 j \<noteq> ids s3 ?j" if "j \<in> ht_set (jobhash s)" for j
    using find_job_None [OF rokxD(1) [OF ok]] n(2) that fr fun_cong [OF i, of j] fun_cong [OF i, of ?j] by (auto split: if_splits)
  have rm: "ht_room (jobhash s)" using room by (simp add: rroom_def ht_room_def primes_17)
  have st': "store_job (ids s3) malloc ?j (jobhash s, s3) = (h, s4)" using st by (simp add: s3_def)
  note so = store_job_ok [OF h3 new rm rokxD(2) [OF ok] st']
  have "malloc s3 = (True, s3)" using q by (simp add: malloc_def s3_def quiet_def)
  then have s4: "s4 = s3" using so(4) by auto
  have "make_job_with_id pri dly ttr bsize (Some t) n s = (Some ?j, with_job x t h (next_id s3) tk nw s)"
  proof -
    let ?x = "zero_job\<lparr>r_created_at := ct, r_body_size := bsize, body_at := ?j, r_id := n\<rparr>"
    let ?A = "s\<lparr>brk := Suc ?j, job_st := (job_st s)(?j := ?x), live_jobs := insert ?j (live_jobs s), lists := jl_reset (lists s) ?j, ticks := tk, now := nw\<rparr>"
    have A: "upd_job ?j (\<lambda>x. x\<lparr>r_id := n\<rparr>) (s2\<lparr>brk := ?j + 1, job_st := (job_st s2)(?j := zero_job\<lparr>r_created_at := ct, r_body_size := bsize, body_at := ?j\<rparr>),
      live_jobs := insert ?j (live_jobs s2), lists := jl_reset (lists s2) ?j\<rparr>) = ?A"
      by (simp add: s2 upd_job_def)
    have B: "(if n \<ge> next_id ?A then ?A\<lparr>next_id := n + 1\<rparr> else ?A) = s3\<lparr>job_st := (job_st s3)(?j := ?x)\<rparr>"
      by (simp add: s3_def)
    have C: "upd_job ?j (\<lambda>x. x\<lparr>r_pri := pri, r_delay := dly, r_ttr := ttr\<rparr>) (s3\<lparr>job_st := (job_st s3)(?j := ?x)\<rparr>) = s3"
      by (simp add: s3_def upd_job_def x_def)
    have w: "j_tube (job_st (s3\<lparr>jobhash := h\<rparr>) ?j) = None" by (simp add: s3_def x_def zero_job_def)
    have y: "tube_iref (Some t) (upd_job ?j (\<lambda>x. x\<lparr>j_tube := Some t\<rparr>) (tube_dref None (s3\<lparr>jobhash := h\<rparr>))) =
        with_job x t h (next_id s3) tk nw s"
      by (simp add: tube_iref_def tube_dref_def s3_def with_job_def upd_job_def upd_tube_def)
    show ?thesis
      by (rule trans [OF make_job_with_id_eq [OF a n(1) A B C st]]) (simp only: s4 w y)
  qed
  then show thesis
    using that [of x h tk nw] e so(1-3,5) i by (simp add: s3_def x_def zero_job_def)
qed


lemma with_job_fields [simp]:
  "brk (with_job x t h nx tks nw s) = Suc (brk s)" "job_st (with_job x t h nx tks nw s) = (job_st s)(brk s := x\<lparr>j_tube := Some t\<rparr>)"
  "live_jobs (with_job x t h nx tks nw s) = insert (brk s) (live_jobs s)" "lists (with_job x t h nx tks nw s) = jl_reset (lists s) (brk s)"
  "jobhash (with_job x t h nx tks nw s) = h" "next_id (with_job x t h nx tks nw s) = nx"
  "tube_st (with_job x t h nx tks nw s) = (tube_st s)(t := (tube_st s t)\<lparr>refs := refs (tube_st s t) + 1\<rparr>)"
  "live_tubes (with_job x t h nx tks nw s) = live_tubes s" "default_tube (with_job x t h nx tks nw s) = default_tube s"
  "tubes (with_job x t h nx tks nw s) = tubes s" "allocs (with_job x t h nx tks nw s) = allocs s" "sys (with_job x t h nx tks nw s) = sys s"
  "job_data_size_limit (with_job x t h nx tks nw s) = job_data_size_limit s"
  by (simp_all add: with_job_def)

lemma word_succ_less: "(n :: u64) + 1 \<noteq> 0 \<Longrightarrow> n < n + 1"
  using unatSuc [of n] by (simp add: add.commute word_less_nat_alt)

lemma rokx_with_job:
  assumes ok: "rok s" and t: "t \<in> live_tubes s" and room: "rroom (Suc m) s" and x: "r_id x = n" "n + 1 \<noteq> 0"
    and h: "ht_ok (\<lambda>j. if j = brk s then n else ids s j) h" "ht_set h = insert (brk s) (ht_set (jobhash s))"
      "all_jobs_used h = Suc (all_jobs_used (jobhash s))" "ht_load h"
    and s': "s' = with_job x t h (if n \<ge> next_id s then n + 1 else next_id s) tks nw s"
  shows "rokx {brk s} s'" "rroom m s'" "\<And>j. j \<in> ht_set (jobhash s) \<Longrightarrow> job_entry s' j = job_entry s j"
    "ht_set (jobhash s') = insert (brk s) (ht_set (jobhash s))" "brk s \<notin> ht_set (jobhash s)"
proof -
  let ?j = "brk s" let ?nx = "if n \<ge> next_id s then n + 1 else next_id s"
  note r = rokxD [OF ok]
  show fr: "?j \<notin> ht_set (jobhash s)" using r(4) [of ?j] by auto
  have i: "ids s' = (\<lambda>j. if j = ?j then n else ids s j)" by (auto simp: s' x fun_eq_iff)
  show "rroom m s'" using room h(3) by (simp add: rroom_def s')
  show "ht_set (jobhash s') = insert ?j (ht_set (jobhash s))" by (simp add: s' h)
  show "job_entry s' j = job_entry s j" if "j \<in> ht_set (jobhash s)" for j
    using that fr by (auto simp: job_entry_def s')
  have nx: "next_id s \<le> ?nx" "n < ?nx" using word_succ_less [OF x(2)] by auto
  have tj: "tube_jobs s' u = (if u = t then insert ?j (tube_jobs s u) else tube_jobs s u)" for u
    using fr by (auto simp: tube_jobs_def s' h(2))
  have fin: "finite (tube_jobs s u)" "?j \<notin> tube_jobs s u" for u
    using card_ht_set(2) [OF r(1)] fr by (auto simp: tube_jobs_def)
  have tr: "tube_refs s' u = (if u = t then Suc (tube_refs s u) else tube_refs s u)" for u
    using fin [of t] by (cases "u = t") (simp_all add: tube_refs_def tj, simp_all add: s')
  have "unat (refs (tube_st s t)) + 1 < 2 ^ 32"
    using r(12) [OF t] tube_refs_bound [OF r(1), of t] room by (simp add: rroom_def)
  then have "unat (refs (tube_st s t) + 1) = Suc (tube_refs s t)" using r(12) [OF t] by (simp add: unat_word_ariths)
  then have refs: "unat (refs (tube_st s' u)) = tube_refs s' u" if "u \<in> live_tubes s" for u
    using that r(12) by (simp add: tr) (simp add: s')
  have own: "jl_owner (lists s) ?j = None"
  proof (rule ccontr)
    assume "jl_owner (lists s) ?j \<noteq> None"
    then obtain g where "?j \<in> set (jl_items (lists s) g)" using r(7) by (auto simp: jl_ok_def)
    then show False using r(8) r(9) [of g] fr by (cases "g = LReplay") auto
  qed
  have l: "lists s' = lists s" using own by (simp add: s' jl_reset_def fun_upd_idem)
  have a: "ht_ok (ids s') (jobhash s') \<and> ht_load (jobhash s') \<and> live_jobs s' = ht_set (jobhash s') \<and>
      (\<forall>j \<in> ht_set (jobhash s'). j < brk s' \<and> ids s' j < next_id s' \<and> (j \<notin> {?j} \<longrightarrow> r_state (job_st s' j) \<in> {Ready, Buried, Delayed}))"
  proof (intro conjI ballI impI)
    show "ht_ok (ids s') (jobhash s')" "ht_load (jobhash s')" "live_jobs s' = ht_set (jobhash s')"
      using h r(3) by (simp_all add: i) (simp_all add: s' h)
    fix j assume "j \<in> ht_set (jobhash s')"
    then have j: "j = ?j \<or> j \<in> ht_set (jobhash s)" by (simp add: s' h)
    then show "j < brk s'" using r(4) [of j] by (auto simp: s')
    show "ids s' j < next_id s'"
    proof (cases "j = ?j")
      case True
      then show ?thesis using nx(2) x(1) by (simp add: s')
    next
      case False
      then have "ids s j < next_id s" using j r(5) by blast
      from order_less_le_trans [OF this nx(1)] show ?thesis using False by (simp add: s')
    qed
    show "r_state (job_st s' j) \<in> {Ready, Buried, Delayed}" if "j \<notin> {?j}" using that j r(6) [of j] by (auto simp: s')
  qed
  have b: "jl_ok (lists s') \<and> set (jl_items (lists s') LReplay) = ht_set (jobhash s') - {?j} \<and> (\<forall>g. g \<noteq> LReplay \<longrightarrow> jl_items (lists s') g = [])"
    using r(7-9) fr by (auto simp: l) (simp_all add: s' h)
  have tn: "t_name (tube_st s' u) = t_name (tube_st s u)" for u by (simp add: s')
  have c: "tubes_ok s' \<and> (\<forall>j \<in> ht_set (jobhash s'). \<exists>u \<in> live_tubes s'. j_tube (job_st s' j) = Some u) \<and>
      (\<forall>u \<in> live_tubes s'. unat (refs (tube_st s' u)) = tube_refs s' u) \<and> (\<forall>u. default_tube s' = Some u \<longrightarrow> u < brk s')"
  proof (intro conjI)
    show "tubes_ok s'" using r(10) unfolding tubes_ok_def tn by (auto simp: s' less_SucI)
    show "\<forall>j \<in> ht_set (jobhash s'). \<exists>u \<in> live_tubes s'. j_tube (job_st s' j) = Some u"
      using r(11) fr t by (auto simp: s' h)
    show "\<forall>u \<in> live_tubes s'. unat (refs (tube_st s' u)) = tube_refs s' u" using refs by (simp add: s')
    show "\<forall>u. default_tube s' = Some u \<longrightarrow> u < brk s'" using r(13) by (auto simp: s' less_SucI)
  qed
  show "rokx {?j} s'" unfolding rokx_def using a b c by blast
qed


section \<open>The structure and the body of a job\<close>

text \<open>The state with the structure \<open>jr\<close> assigned to the job \<open>j\<close>, which then is on the list.\<close>

definition put_rec :: "addr \<Rightarrow> Jobrec \<Rightarrow> server \<Rightarrow> server" where
  "put_rec j jr s = list_insert LReplay j (upd_job j (\<lambda>x. Jobrec.extend jr (Jobrec.more x)) s)"

lemma truncate_extend [simp]: "Jobrec.truncate (Jobrec.extend (jr :: Jobrec) m) = jr"
  by (cases jr) (simp add: Jobrec.truncate_def Jobrec.extend_def)

lemma extend_fields [simp]:
  "j_tube (Jobrec.extend (jr :: Jobrec) (Jobrec.more x)) = j_tube (x :: Job)" "body (Jobrec.extend jr (Jobrec.more x)) = body x"
  "j_file (Jobrec.extend jr (Jobrec.more x)) = j_file x" "walused (Jobrec.extend jr (Jobrec.more x)) = walused x"
  "r_id (Jobrec.extend jr m) = r_id jr" "r_state (Jobrec.extend jr m) = r_state jr" "r_body_size (Jobrec.extend jr m) = r_body_size jr"
  by (cases x, simp add: Jobrec.extend_def)+

lemma put_rec_fields:
  "brk (put_rec j jr s) = brk s" "live_jobs (put_rec j jr s) = live_jobs s" "tube_st (put_rec j jr s) = tube_st s"
  "live_tubes (put_rec j jr s) = live_tubes s" "lists (put_rec j jr s) = jl_insert (lists s) LReplay j" "jobhash (put_rec j jr s) = jobhash s"
  "next_id (put_rec j jr s) = next_id s" "tubes (put_rec j jr s) = tubes s" "default_tube (put_rec j jr s) = default_tube s"
  "job_data_size_limit (put_rec j jr s) = job_data_size_limit s" "allocs (put_rec j jr s) = allocs s" "sys (put_rec j jr s) = sys s"
  "job_st (put_rec j jr s) = (job_st s)(j := Jobrec.extend jr (Jobrec.more (job_st s j)))"
  by (simp_all add: put_rec_def list_insert_def upd_job_def)

lemma rok_put_rec:
  assumes ok: "rokx J s" and j: "J \<subseteq> {j}" "j \<in> ht_set (jobhash s)" and jr: "r_id jr = ids s j" "r_state jr \<in> {Ready, Buried, Delayed}"
  shows "rok (put_rec j jr s)" "job_entry (put_rec j jr s) j = (t_name (tube_st s (the (j_tube (job_st s j)))), jr, body (job_st s j))"
    "\<And>i. i \<noteq> j \<Longrightarrow> job_entry (put_rec j jr s) i = job_entry s i" "ids (put_rec j jr s) = ids s"
proof -
  let ?s = "put_rec j jr s"
  note r = rokxD [OF ok] and f = put_rec_fields [of j jr s]
  show i: "ids ?s = ids s" by (simp add: fun_eq_iff f jr)
  show "job_entry ?s j = (t_name (tube_st s (the (j_tube (job_st s j)))), jr, body (job_st s j))" by (simp add: job_entry_def f)
  show "job_entry ?s i = job_entry s i" if "i \<noteq> j" for i using that by (simp add: job_entry_def f)
  have tj: "tube_jobs ?s = tube_jobs s" by (auto simp: fun_eq_iff tube_jobs_def f)
  have tr: "tube_refs ?s = tube_refs s" by (simp add: fun_eq_iff tube_refs_def tj f)
  have l: "jl_ok (lists ?s) \<and> set (jl_items (lists ?s) LReplay) = ht_set (jobhash s) \<and> (\<forall>h. h \<noteq> LReplay \<longrightarrow> jl_items (lists ?s) h = [])"
  proof (cases "j \<in> J")
    case True
    then have "\<And>h. j \<notin> set (jl_items (lists s) h)" using r(8) r(9) by (metis DiffE empty_iff empty_set)
    from jl.rep_insert_new [where d = "lists s" and h = LReplay, OF _ this] r(7)
    have "jl_ok (lists ?s)" "jl_items (lists ?s) = (jl_items (lists s))(LReplay := jl_items (lists s) LReplay @ [j])" by (simp_all add: f)
    then show ?thesis using r(8,9) True j by auto
  next
    case False
    then have "j \<in> set (jl_items (lists s) LReplay)" "J = {}" using r(8) j by auto
    then have "lists ?s = lists s" using jl.rep_insert_old [of "lists s" _ j LReplay LReplay] r(7) by (simp add: f)
    then show ?thesis using r(7-9) \<open>J = {}\<close> by auto
  qed
  have a: "i < brk s \<and> ids s i < next_id s \<and> r_state (job_st ?s i) \<in> {Ready, Buried, Delayed} \<and>
      (\<exists>t \<in> live_tubes s. j_tube (job_st ?s i) = Some t)" if i: "i \<in> ht_set (jobhash s)" for i
  proof (cases "i = j")
    case True
    then show ?thesis using r(4) [OF i] r(5) [OF i] r(11) [OF i] jr(2) by (simp add: f(13))
  next
    case False
    then have "i \<notin> J" using j(1) by blast
    then show ?thesis using False r(4) [OF i] r(5) [OF i] r(11) [OF i] r(6) [OF i] by (simp add: f(13))
  qed
  have "tubes_ok ?s" using r(10) by (simp add: tubes_ok_def f)
  then show "rok ?s"
    unfolding rokx_def i f(1-4,6-9) tr using l a r(1-3,12,13) by (auto simp: fun_cong [OF i])
qed

lemma put_rec_env: "quiet (put_rec j jr s) = quiet s \<and> rroom n (put_rec j jr s) = rroom n s"
  by (simp add: quiet_def rroom_def put_rec_fields)

lemma rok_body:
  fixes j :: addr and g :: "Job \<Rightarrow> string"
  assumes "rok s"
  defines "s' \<equiv> upd_job j (\<lambda>x. x\<lparr>body := g x\<rparr>) s"
  shows "rok s'" "quiet s' = quiet s" "rroom n s' = rroom n s" "jobhash s' = jobhash s" "\<And>i. i \<noteq> j \<Longrightarrow> job_entry s' i = job_entry s i"
    "job_entry s' j = (fst (job_entry s j), fst (snd (job_entry s j)), g (job_st s j))" "ids s' = ids s"
    "job_data_size_limit s' = job_data_size_limit s"
proof -
  have f: "brk s' = brk s" "live_jobs s' = live_jobs s" "tube_st s' = tube_st s" "live_tubes s' = live_tubes s" "lists s' = lists s" "jobhash s' = jobhash s"
    "next_id s' = next_id s" "tubes s' = tubes s" "default_tube s' = default_tube s" "allocs s' = allocs s" "sys s' = sys s"
    by (simp_all add: s'_def upd_job_def)
  show i: "ids s' = ids s" by (simp add: fun_eq_iff s'_def upd_job_def)
  have st: "r_state (job_st s' i) = r_state (job_st s i)" "j_tube (job_st s' i) = j_tube (job_st s i)" for i by (simp_all add: s'_def upd_job_def)
  have tr: "tube_refs s' = tube_refs s" by (simp add: fun_eq_iff tube_refs_def tube_jobs_def f st)
  have "tubes_ok s' = tubes_ok s" by (simp add: tubes_ok_def f)
  then show "rok s'" using assms(1) unfolding rokx_def i tr st f by (simp add: fun_cong [OF i])
  show "quiet s' = quiet s" "rroom n s' = rroom n s" "jobhash s' = jobhash s" by (simp_all add: quiet_def rroom_def f)
  show "job_entry s' i = job_entry s i" if "i \<noteq> j" for i using that by (simp add: job_entry_def s'_def upd_job_def)
  show "job_entry s' j = (fst (job_entry s j), fst (snd (job_entry s j)), g (job_st s j))"
    by (simp add: job_entry_def s'_def upd_job_def Jobrec.truncate_def)
  show "job_data_size_limit s' = job_data_size_limit s" by (simp add: s'_def upd_job_def)
qed


section \<open>A deleted job\<close>

lemma tube_dref_live:
  assumes r: "1 \<le> refs (tube_st s t)" and s': "s' = tube_dref (Some t) s"
  shows "brk s' = brk s" "job_st s' = job_st s" "live_jobs s' = live_jobs s" "lists s' = lists s" "jobhash s' = jobhash s" "next_id s' = next_id s"
    "default_tube s' = default_tube s" "allocs s' = allocs s" "sys s' = sys s" "job_data_size_limit s' = job_data_size_limit s"
    "t_name (tube_st s' u) = t_name (tube_st s u)" "refs (tube_st s' u) = (if u = t then refs (tube_st s u) - 1 else refs (tube_st s u))"
    "live_tubes s' = (if refs (tube_st s t) = 1 then live_tubes s - {t} else live_tubes s)" "tubes_ok s \<Longrightarrow> tubes_ok s'"
proof -
  let ?s1 = "upd_tube t (\<lambda>x. x\<lparr>refs := refs x - 1\<rparr>) s"
  have f1: "brk ?s1 = brk s" "job_st ?s1 = job_st s" "live_jobs ?s1 = live_jobs s" "lists ?s1 = lists s" "jobhash ?s1 = jobhash s" "next_id ?s1 = next_id s"
    "default_tube ?s1 = default_tube s" "allocs ?s1 = allocs s" "sys ?s1 = sys s" "job_data_size_limit ?s1 = job_data_size_limit s" "live_tubes ?s1 = live_tubes s"
    "tubes ?s1 = tubes s" by (simp_all add: upd_tube_def)
  have nm: "t_name (tube_st ?s1 u) = t_name (tube_st s u)" for u by simp
  have ok1: "tubes_ok s \<Longrightarrow> tubes_ok ?s1" unfolding tubes_ok_def f1 nm .
  have n0: "\<not> refs (tube_st s t) < 1"
  proof
    assume "refs (tube_st s t) < 1"
    then show False using r by (simp add: not_le)
  qed
  have z: "refs (tube_st s t) - 1 < 1 \<longleftrightarrow> refs (tube_st s t) = 1"
    by (simp add: word_less_1)
  have e: "s' = (if refs (tube_st s t) = 1 then tube_free t ?s1 else ?s1)" using n0 z by (simp add: s' tube_dref_def Let_def)
  obtain b ts u0 where rm: "ms_remove None (tubes ?s1) () t = (b, ts, u0)" by (rule prod_cases3)
  let ?s2 = "(upd_tube t (\<lambda>x. x\<lparr>waiting_conns := fst (ms_clear None (waiting_conns x) ())\<rparr>) (?s1\<lparr>tubes := ts\<rparr>))\<lparr>live_tubes := live_tubes s - {t}\<rparr>"
  have fr: "tube_free t ?s1 = ?s2" using rm by (simp add: tube_free_def upd_tube_def)
  have s2: "s' = (if refs (tube_st s t) = 1 then ?s2 else ?s1)" using e fr by simp
  show "brk s' = brk s" "job_st s' = job_st s" "live_jobs s' = live_jobs s" "lists s' = lists s" "jobhash s' = jobhash s" "next_id s' = next_id s"
    "default_tube s' = default_tube s" "allocs s' = allocs s" "sys s' = sys s" "job_data_size_limit s' = job_data_size_limit s"
    "live_tubes s' = (if refs (tube_st s t) = 1 then live_tubes s - {t} else live_tubes s)"
    "t_name (tube_st s' u) = t_name (tube_st s u)" "refs (tube_st s' u) = (if u = t then refs (tube_st s u) - 1 else refs (tube_st s u))"
    by (simp_all add: s2 upd_tube_def)
  assume ok: "tubes_ok s"
  have ri: "mset (ms_items ts) = mset (ms_items (tubes s)) - {#t#}" "ms_cap ts = ms_cap (tubes s)" using ms_remove_items(2,3) [OF rm] by (simp_all add: f1)
  have "tubes_ok ?s2"
  proof -
    have d: "distinct (map (\<lambda>t. t_name (tube_st s t)) (ms_items (tubes s)))" using ok by (simp add: tubes_ok_def)
    then have di: "distinct (ms_items (tubes s))" by (simp add: distinct_map)
    note st = mset_remove_set [OF ri(1) di]
    have "inj_on (\<lambda>t. t_name (tube_st s t)) (set (ms_items ts))" using d st(1) by (auto simp: distinct_map inj_on_def)
    moreover have "distinct (ms_items ts)" by (rule st(2))
    moreover have "t_name (tube_st ?s2 u) = t_name (tube_st s u)" for u by (simp add: upd_tube_def)
    moreover have "length (ms_items ts) \<le> length (ms_items (tubes s))" using ri(1) by (metis size_mset size_Diff1_le)
    ultimately show ?thesis using ok st(1) ri(2) unfolding tubes_ok_def
      by (simp add: distinct_map ms_wf_def) (auto simp: upd_tube_def)
  qed
  then show "tubes_ok s'" using ok1 ok s2 by simp
qed


lemma rok_read_drop:
  assumes ok: "rok s" and q: "quiet s" and j: "j \<in> ht_set (jobhash s)" and s': "s' = read_drop (Some j) s"
  shows "rok s'" "quiet s'" "log_view s' = (log_view s)(ids s j := None)" "rroom n s \<Longrightarrow> rroom n s'" "job_data_size_limit s' = job_data_size_limit s"
proof -
  note r = rokxD [OF ok]
  define s1 where "s1 = snd (list_remove j s)"
  define s2 where "s2 = filermjob (j_file (job_st s1 j)) j s1"
  have jl: "jl_owner (lists s) j = Some LReplay" using j r(7,8) by (auto simp: jl_ok_def)
  have rm: "jl_ok (lists s1) \<and> jl_items (lists s1) = (jl_items (lists s))(LReplay := remove1 j (jl_items (lists s) LReplay))"
    using jl.rep_remove_on [where d = "lists s" and j = j and h = LReplay] r(7,8) j
    by (auto simp: s1_def list_remove_def split: prod.splits)
  have s1: "brk s1 = brk s" "job_st s1 = job_st s" "live_jobs s1 = live_jobs s" "tube_st s1 = tube_st s" "live_tubes s1 = live_tubes s" "jobhash s1 = jobhash s"
    "next_id s1 = next_id s" "default_tube s1 = default_tube s" "allocs s1 = allocs s" "sys s1 = sys s" "job_data_size_limit s1 = job_data_size_limit s"
    "tubes s1 = tubes s"
    by (simp_all add: s1_def list_remove_def split: prod.split)
  have v: "rview s2 = rview s1" by (simp add: s2_def)
  note v2 = rviewD [OF v] and c2 = rview_cong [OF v]
  obtain t where t: "t \<in> live_tubes s" "j_tube (job_st s j) = Some t" using r(11) [OF j] by blast
  have fin: "finite (tube_jobs s u)" for u using card_ht_set(2) [OF r(1)] by (simp add: tube_jobs_def)
  have jt: "j \<in> tube_jobs s t" using j t by (simp add: tube_jobs_def)
  have pos: "0 < card (tube_jobs s t)" using jt fin card_gt_0_iff by blast
  have rt: "refs (tube_st s2 t) = refs (tube_st s t)" "unat (refs (tube_st s t)) = tube_refs s t" using r(12) [OF t(1)] by (simp_all add: v2 s1)
  then have r1: "1 \<le> refs (tube_st s2 t)" using pos by (simp add: word_le_nat_alt tube_refs_def)
  define s3 where "s3 = tube_dref (Some t) s2"
  note d = tube_dref_live [OF r1 s3_def]
  define s4 where "s4 = upd_job j (\<lambda>x. x\<lparr>j_tube := None\<rparr>) s3"
  have i4: "ids s4 = ids s" using c2(7) by (auto simp: s4_def upd_job_def fun_eq_iff d(2) s1 split: if_splits)
  have st4: "r_state (job_st s4 i) = r_state (job_st s i)" "body (job_st s4 i) = body (job_st s i)" for i
    using truncate_eqD(2) [OF v2(3) [of i]] v2(5) [of i] by (cases "i = j"; simp add: s4_def upd_job_def d(2) s1)+
  have tr4: "Jobrec.truncate (job_st s4 i) = Jobrec.truncate (job_st s i)" for i
    using v2(3) [of i] by (cases "i = j"; simp add: s4_def upd_job_def d(2) s1 Jobrec.truncate_def)
  have jt4: "j_tube (job_st s4 i) = (if i = j then None else j_tube (job_st s i))" for i
    using v2(4) [of i] by (cases "i = j"; simp add: s4_def upd_job_def d(2) s1)
  have h4: "jobhash s4 = jobhash s" by (simp add: s4_def upd_job_def d v2 s1)
  obtain h s5 where hf: "job_hash_free (ids s4) malloc j (jobhash s4, s4) = (h, s5)" by (rule prod.exhaust)
  have ok4: "ht_ok (ids s4) (jobhash s4)" using r(1) by (simp add: i4 h4)
  note hk = job_hash_free_ok [OF ok4 hf]
  have q4: "allocs s4 = []" "sys s4 = []" using q by (simp_all add: s4_def upd_job_def d v2 s1 quiet_def)
  then have s5: "s5 = s4" using hk(3) by (auto simp: malloc_def)
  have nc: "r_state (job_st s4 j) \<noteq> Copy" using r(6) [OF j] by (auto simp: st4)
  have fin': "s' = s4\<lparr>jobhash := h, live_jobs := live_jobs s4 - {j}\<rparr>"
  proof -
    have "s' = job_free (Some j) s2" by (simp add: s' read_drop_def Let_def s1_def s2_def)
    moreover have "j_tube (job_st s2 j) = Some t" using v2(4) [of j] t(2) s1 by simp
    ultimately show ?thesis
      using nc hf s5 by (simp add: job_free_def Let_def s3_def s4_def tube_iref_def hash_free_def)
  qed
  have f: "brk s' = brk s" "job_st s' = job_st s4" "live_jobs s' = live_jobs s - {j}" "lists s' = lists s1" "jobhash s' = h" "next_id s' = next_id s"
    "default_tube s' = default_tube s" "allocs s' = []" "sys s' = []" "job_data_size_limit s' = job_data_size_limit s"
    "live_tubes s' = live_tubes s3" "tube_st s' = tube_st s3" "tubes s' = tubes s3"
    using q4 by (simp_all add: fin') (simp_all add: s4_def upd_job_def d v2 s1)
  have hs: "ht_set h = ht_set (jobhash s) - {j}" using hk(2) h4 by simp
  show "quiet s'" "job_data_size_limit s' = job_data_size_limit s" by (simp_all add: quiet_def f)
  show "rroom n s \<Longrightarrow> rroom n s'" using hk(5) by (simp add: rroom_def f h4)
  have oks: "ht_ok (ids s') (jobhash s')" using hk(1) by (simp add: f)
  have en: "job_entry s' i = job_entry s i" if "i \<in> ht_set (jobhash s')" for i
    using that by (simp add: job_entry_def f hs tr4 st4 jt4 d(11) v2(6) s1)
  show "log_view s' = (log_view s)(ids s j := None)"
    using log_view_del [OF r(1) oks _ en j] by (simp add: f hs)
  have tj: "tube_jobs s' u = tube_jobs s u - {j}" for u by (auto simp: tube_jobs_def f hs jt4)
  have tjo: "j \<notin> tube_jobs s u" if "u \<noteq> t" for u using that t by (auto simp: tube_jobs_def)
  have trf: "tube_refs s' u = (if u = t then tube_refs s u - 1 else tube_refs s u)" for u
    using jt fin [of u] tjo [of u] pos by (auto simp: tube_refs_def f(7) tj)
  have lt: "live_tubes s3 = (if tube_refs s t = 1 then live_tubes s - {t} else live_tubes s)"
    using rt(2) word_unat_eq_iff [of "refs (tube_st s t)" 1] by (simp add: d(13) v2 s1)
  have refs: "unat (refs (tube_st s3 u)) = tube_refs s' u" if "u \<in> live_tubes s3" for u
  proof -
    have u: "u \<in> live_tubes s" using that lt by (auto split: if_splits)
    have "unat (refs (tube_st s t) - 1) = tube_refs s t - 1"
      using r1 rt by (metis unat_1 unat_sub)
    then show ?thesis using r(12) [OF u] by (simp add: d(12) trf v2 s1)
  qed
  have lv: "\<exists>u \<in> live_tubes s3. j_tube (job_st s' i) = Some u" if i: "i \<in> ht_set h" for i
  proof -
    obtain u where u: "u \<in> live_tubes s" "j_tube (job_st s i) = Some u" using r(11) i hs by blast
    have "tube_refs s t \<noteq> 1" if "u = t"
    proof -
      have "{i, j} \<subseteq> tube_jobs s t" "i \<noteq> j" using that u i hs jt by (auto simp: tube_jobs_def)
      then have "2 \<le> card (tube_jobs s t)" using card_mono [OF fin, of "{i, j}" t] by simp
      then show ?thesis by (simp add: tube_refs_def)
    qed
    then show ?thesis using u i hs lt by (auto simp: f jt4)
  qed
  have "tubes_ok s2" using r(10) by (simp add: tubes_ok_def v2 s1)
  then have "tubes_ok s3" by (rule d(14))
  then have tok: "tubes_ok s'" by (simp add: tubes_ok_def f) (simp add: d(1) v2 s1)
  have hj: "\<forall>i \<in> ht_set h. i < brk s' \<and> ids s' i < next_id s' \<and> (i \<notin> {} \<longrightarrow> r_state (job_st s' i) \<in> {Ready, Buried, Delayed})"
    using r(4-6) hs by (simp add: f st4 fun_cong [OF i4])
  have li: "jl_ok (lists s') \<and> set (jl_items (lists s') LReplay) = ht_set h - {} \<and> (\<forall>g. g \<noteq> LReplay \<longrightarrow> jl_items (lists s') g = [])"
  proof -
    have "distinct (jl_items (lists s) LReplay)" using r(7) by (simp add: jl_ok_def)
    then show ?thesis using rm r(8,9) hs by (simp add: f set_remove1_eq)
  qed
  show "rok s'"
    unfolding rokx_def using oks hk(4) r(2,3,13) hj li tok lv refs by (simp add: f h4 hs)
qed

end
