(* ===== verification/Bean_Recover.thy ===== *)
theory Bean_Recover
  imports Bean_Replay
begin

text \<open>
  The log as a sequence of records, each an update of a map from ids to jobs, and the proof that the reader of
  \<open>file.c\<close> implements the fold of these updates on the bytes that the writer produces.
\<close>

section \<open>Records as updates\<close>

text \<open>A full record has the name of the tube and the body of the job, a short one only the structure.\<close>

datatype logrec = Full string Jobrec string | Short Jobrec

fun rec_bytes :: "logrec \<Rightarrow> string" where
  "rec_bytes (Full name jr b) = concat (full_record name jr b)"
| "rec_bytes (Short jr) = concat (short_record jr)"

text \<open>A job that was reserved when the server stopped is ready again.\<close>

definition replayed :: "Jobrec \<Rightarrow> Jobrec" where
  "replayed jr = (if r_state jr = Reserved then jr\<lparr>r_state := Ready\<rparr> else jr)"

type_synonym job_map = "u64 \<Rightarrow> (string \<times> Jobrec \<times> string) option"

fun apply_rec :: "logrec \<Rightarrow> job_map \<Rightarrow> job_map" where
  "apply_rec (Short jr) m =
     (case m (r_id jr) of
        None \<Rightarrow> m
      | Some (name, _, b) \<Rightarrow> m(r_id jr := (if r_state jr = Invalid then None else Some (name, replayed jr, b))))"
| "apply_rec (Full name jr b) m =
     m(r_id jr \<mapsto> (case m (r_id jr) of None \<Rightarrow> (name, replayed jr, b) | Some (name', _, b') \<Rightarrow> (name', replayed jr, b @ drop (length b) b')))"

text \<open>
  The records that the reader takes as they are: ids are positive and not the last one, a full record is for a job that is not deleted,
  whose body (with its line end) is not empty and not longer than the limit. The server writes such records, but for the limit:
  \<open>put\<close> compares the size of the body without its line end with it, so the server may also write a body that is up to two bytes too long
  for the reader (\<open>accepted_job_lost\<close>).
\<close>

fun wf_rec :: "nat \<Rightarrow> logrec \<Rightarrow> bool" where
  "wf_rec limit (Short jr) \<longleftrightarrow> r_id jr \<noteq> 0 \<and> r_id jr + 1 \<noteq> 0 \<and> rec_fits jr \<and> r_state jr \<noteq> Copy"
| "wf_rec limit (Full name jr b) \<longleftrightarrow> r_id jr \<noteq> 0 \<and> r_id jr + 1 \<noteq> 0 \<and> rec_fits jr \<and> r_state jr \<noteq> Copy \<and> r_state jr \<noteq> Invalid \<and>
     name \<noteq> [] \<and> length name < MAX_TUBE_NAME_LEN \<and> NUL \<notin> set name \<and> b \<noteq> [] \<and> int (length b) = r_body_size jr \<and> length b \<le> limit"

section \<open>Reading what was written\<close>

lemma readfull_exact: "quiet s \<Longrightarrow> xs \<noteq> [] \<Longrightarrow> n = int (length xs) \<Longrightarrow> readfull n (xs @ ys) s = (Some xs, ys, s)"
  by (simp add: readfull_def quiet_env)

lemma int_at_head:
  assumes "- (2 ^ 31) \<le> v" "v < 2 ^ 31"
  shows "int_at 0 4 (int_bytes 4 v @ ys) = v"
proof -
  have "field_at 0 4 (int_bytes 4 v @ ys) = nat (take_bit (8 * 4) v)"
    unfolding field_int_bytes [symmetric] by (simp add: field_at_def)
  from int_at_bytes [OF this] assms show ?thesis by simp
qed

lemma readrec_head:
  assumes "quiet s" "0 \<le> v" "v < int MAX_TUBE_NAME_LEN"
  shows "readrec f (int_bytes 4 v @ ys) s = read_rest f v sizeof_Jobrec jobrec_of 4 ys s"
  using assms int_at_head [of v ys] by (simp add: readrec_def quiet_env)

lemma decode_rec: "rec_fits jr \<Longrightarrow> jobrec_of (jobrec_bytes (jr :: Jobrec)) = (jr\<lparr>r_state := Invalid\<rparr>, Some (r_state jr))"
  by (simp add: jobrec_of_bytes) (simp add: Jobrec.truncate_def)

lemma readrec_short:
  assumes q: "quiet s" and fits: "rec_fits (jr :: Jobrec)"
  shows "readrec f (rec_bytes (Short jr) @ ys) s = read_apply f 0 [] (jr\<lparr>r_state := Invalid\<rparr>, Some (r_state jr)) 84 ys s"
proof -
  have "jobrec_bytes jr \<noteq> []" using length_jobrec_bytes [of jr] by (metis length_0_conv zero_neq_numeral)
  then have r: "readfull sizeof_Jobrec (jobrec_bytes jr @ ys) s = (Some (jobrec_bytes jr), ys, s)" using q by (simp add: readfull_exact)
  have h: "readrec f (int_bytes 4 0 @ jobrec_bytes jr @ ys) s = read_rest f 0 sizeof_Jobrec jobrec_of 4 (jobrec_bytes jr @ ys) s"
    using q by (rule readrec_head) simp_all
  show ?thesis by (simp add: short_record_def h read_rest_def r decode_rec [OF fits])
qed

lemma readrec_full:
  assumes q: "quiet s" and fits: "rec_fits (jr :: Jobrec)" and nm: "name \<noteq> []" "length name < MAX_TUBE_NAME_LEN" "NUL \<notin> set name"
    and b: "int (length b) = r_body_size jr"
  shows "readrec f (rec_bytes (Full name jr b) @ ys) s =
    read_apply f (int (length name)) name (jr\<lparr>r_state := Invalid\<rparr>, Some (r_state jr)) (84 + int (length name)) (b @ ys) s"
proof -
  have n1: "jobrec_bytes jr \<noteq> []" using length_jobrec_bytes [of jr] by (metis length_0_conv zero_neq_numeral)
  have "nat (r_body_size jr) = length b" using b by linarith
  then have b': "take (nat (r_body_size jr)) b = b" by (simp only: take_all order_refl)
  have tw: "takeWhile (\<lambda>c. c \<noteq> NUL) name = name" using nm(3) by (induction name) auto
  have r1: "readfull (int (length name)) (name @ jobrec_bytes jr @ b @ ys) s = (Some name, jobrec_bytes jr @ b @ ys, s)"
    using q nm(1) by (simp add: readfull_exact)
  have r2: "readfull sizeof_Jobrec (jobrec_bytes jr @ b @ ys) s = (Some (jobrec_bytes jr), b @ ys, s)"
    using q n1 by (simp add: readfull_exact)
  show ?thesis using readrec_head [OF q, of "int (length name)" f "name @ jobrec_bytes jr @ b @ ys"] nm
    by (simp add: full_record_def b' read_rest_def r1 r2 tw decode_rec [OF fits])
qed


section \<open>One record\<close>

lemma log_view_find: "log_view s n = None \<longleftrightarrow> find_job s n = None"
  by (simp add: log_view_def)

text \<open>The structure is assigned to a job that is there, or that has just been made.\<close>

lemma view_put_rec:
  assumes ok: "rokx J s" and j: "J \<subseteq> {j}" "j \<in> ht_set (jobhash s)" and jr: "r_id jr = ids s j" "r_state jr \<in> {Ready, Buried, Delayed}"
    and old: "ht_ok (ids s0) (jobhash s0)" "ht_set (jobhash s) = insert j (ht_set (jobhash s0))" "j \<in> ht_set (jobhash s0) \<Longrightarrow> ids s0 j = ids s j"
      "\<And>i. i \<in> ht_set (jobhash s0) \<Longrightarrow> job_entry s i = job_entry s0 i"
  shows "log_view (put_rec j jr s) = (log_view s0)(r_id jr \<mapsto> (t_name (tube_st s (the (j_tube (job_st s j)))), jr, body (job_st s j)))"
proof -
  note p = rok_put_rec [OF ok j jr]
  have i: "ids (put_rec j jr s) k = ids s k" for k by (rule fun_cong [OF p(4)])
  have "log_view (put_rec j jr s) = (log_view s0)(ids (put_rec j jr s) j \<mapsto> job_entry (put_rec j jr s) j)"
  proof (rule log_view_upd [OF old(1) rokxD(1) [OF p(1)]])
    show "ht_set (jobhash (put_rec j jr s)) = insert j (ht_set (jobhash s0))" using old(2) by (simp add: put_rec_fields)
    show "job_entry (put_rec j jr s) i = job_entry s0 i" if "i \<in> ht_set (jobhash s0)" "i \<noteq> j" for i
      using p(3) [OF that(2)] old(4) [OF that(1)] by simp
    show "ids (put_rec j jr s) j = ids s0 j" if "j \<in> ht_set (jobhash s0)" using old(3) [OF that] i by simp
  qed
  then show ?thesis using p(2) i jr(1) by simp
qed

lemma read_job_body_ok:
  assumes ok: "rok s" and q: "quiet s" and n: "r_body_size (job_st s j) = int (length b)" "b \<noteq> []" and j: "j \<in> ht_set (jobhash s)"
  obtains s' where "read_job_body f j (int (length b)) (b @ ys) s = (Some (int (length b)), ys, s')"
    "rview s' = rview (upd_job j (\<lambda>x. x\<lparr>body := b @ drop (length b) (body x)\<rparr>) s)"
proof -
  have r: "readfull (int (length b)) (b @ ys) s = (Some b, ys, s)" using q n(2) by (simp add: readfull_exact)
  let ?s = "upd_job j (\<lambda>x. x\<lparr>body := b @ drop (length b) (body x)\<rparr>) s"
  show thesis
    by (rule that [of "fileaddjob f j (filermjob (j_file (job_st ?s j)) j ?s)"]) (simp_all add: read_job_body_def n(1) r Let_def)
qed

lemma view_body:
  assumes ok: "rok s" and j: "j \<in> ht_set (jobhash s)" and v: "log_view s (ids s j) = Some (nm, jr, b')" "body (job_st s j) = b'"
  shows "log_view (upd_job j (\<lambda>x. x\<lparr>body := b @ drop (length b) (body x)\<rparr>) s) = (log_view s)(ids s j \<mapsto> (nm, jr, b @ drop (length b) b'))"
proof -
  let ?s = "upd_job j (\<lambda>x. x\<lparr>body := b @ drop (length b) (body x)\<rparr>) s"
  note rb = rok_body [OF ok, where j = j and g = "\<lambda>x. b @ drop (length b) (body x)"]
  have "find_job s (ids s j) = Some j" using find_job_iff [OF rokxD(1) [OF ok]] j by simp
  then have e: "job_entry s j = (nm, jr, b')" using v(1) by (simp add: log_view_def)
  have "log_view ?s = (log_view s)(ids ?s j \<mapsto> job_entry ?s j)"
    by (rule log_view_upd [OF rokxD(1) [OF ok] rokxD(1) [OF rb(1)]]) (use j rb(4,5) fun_cong [OF rb(7)] in auto)
  then show ?thesis using rb(6) e v(2) fun_cong [OF rb(7), of j] by simp
qed

text \<open>What a step leaves: the invariant, the room and the limit.\<close>

definition stays :: "nat \<Rightarrow> server \<Rightarrow> server \<Rightarrow> bool" where
  "stays n s s' \<longleftrightarrow> rok s' \<and> quiet s' \<and> rroom n s' \<and> job_data_size_limit s' = job_data_size_limit s"

lemma stays_view:
  assumes "rview v = rview u" "stays n s u"
  shows "stays n s v" "log_view v = log_view u"
  using rview_cong [OF assms(1)] rviewD(13) [OF assms(1)] assms(2) by (simp_all add: stays_def)


lemma replayed_simps [simp]:
  "r_id (replayed jr) = r_id jr" "r_body_size (replayed jr) = r_body_size jr"
  "r_state jr \<noteq> Invalid \<Longrightarrow> r_state jr \<noteq> Copy \<Longrightarrow> r_state (replayed jr) = Ready \<or> r_state (replayed jr) = Buried \<or> r_state (replayed jr) = Delayed"
  by (cases "r_state jr"; simp add: replayed_def)+

lemma read_apply_put:
  assumes "r_id jr \<noteq> 0" "r_state jr \<noteq> Invalid" "r_state jr \<noteq> Copy"
    and n: "find_job s (r_id jr) = None \<Longrightarrow> namelen \<noteq> 0 \<and> 0 \<le> r_body_size jr \<and> r_body_size jr \<le> int (job_data_size_limit s)"
    and m: "read_find_or_make (jr\<lparr>r_state := Invalid\<rparr>) name (find_job s (r_id jr)) s = (Some j, s1)"
  shows "read_apply f namelen name (jr\<lparr>r_state := Invalid\<rparr>, Some (r_state jr)) sz bs s =
    (let s3 = put_rec j (replayed jr) s1
     in if namelen = 0 then (RMore, bs, read_count j sz s3)
        else case read_job_body f j (r_body_size jr) bs s3 of
               (None, bs1, s4) \<Rightarrow> (RErr, bs1, read_drop (Some j) s4)
             | (Some n, bs1, s4) \<Rightarrow> (RMore, bs1, read_count j (sz + n) s4))"
proof -
  have r: "(jr\<lparr>r_state := Invalid\<rparr>)\<lparr>r_state := (if Some (r_state jr) = Some Reserved then Ready else the (Some (r_state jr)))\<rparr> = replayed jr"
    by (cases "r_state jr = Reserved") (simp_all add: replayed_def)
  show ?thesis
    using assms(1-3) n unfolding read_apply_def prod.case Let_def
    by (simp add: m put_rec_def [symmetric] r [simplified]) (auto simp: put_rec_def [symmetric] r [simplified])
qed

lemma readrec_applies_short:
  assumes ok: "rok s" and q: "quiet s" and room: "rroom n s" and wf: "wf_rec (job_data_size_limit s) (Short jr)"
  obtains s' where "readrec f (rec_bytes (Short jr) @ ys) s = (RMore, ys, s')" "stays n s s'" "log_view s' = apply_rec (Short jr) (log_view s)"
proof -
  have w: "r_id jr \<noteq> 0" "rec_fits jr" "r_state jr \<noteq> Copy" using wf by simp_all
  note rr = readrec_short [OF q w(2), of f ys]
  note h = rokxD(1) [OF ok]
  show thesis
  proof (cases "find_job s (r_id jr)")
    case None
    then show thesis using that [of s] rr w ok q room by (simp add: read_apply_def Let_def stays_def log_view_def)
  next
    case (Some j)
    then have j: "j \<in> ht_set (jobhash s)" "ids s j = r_id jr" using find_job_iff [OF h] by simp_all
    have lv: "log_view s (r_id jr) = Some (job_entry s j)" using Some by (simp add: log_view_def)
    show thesis
    proof (cases "r_state jr = Invalid")
      case True
      have "readrec f (rec_bytes (Short jr) @ ys) s = (RMore, ys, read_drop (Some j) s)"
        unfolding rr using w True Some by (simp add: read_apply_def)
      then show thesis using that rok_read_drop [OF ok q j(1) refl] room j(2) lv True
        by (auto simp: stays_def split: prod.split)
    next
      case False
      have fm: "read_find_or_make (jr\<lparr>r_state := Invalid\<rparr>) [] (find_job s (r_id jr)) s = (Some j, s)" by (simp add: read_find_or_make_def Some)
      let ?s3 = "put_rec j (replayed jr) s"
      have st: "r_state (replayed jr) \<in> {Ready, Buried, Delayed}" using False w(3) by simp
      have "readrec f (rec_bytes (Short jr) @ ys) s = (RMore, ys, read_count j 84 ?s3)"
        unfolding rr using read_apply_put [OF w(1) False w(3) _ fm] Some by simp
      moreover have "stays n s ?s3"
        using rok_put_rec(1) [OF ok empty_subsetI j(1) _ st] j(2) q room by (simp add: stays_def put_rec_env put_rec_fields)
      moreover have "log_view ?s3 = apply_rec (Short jr) (log_view s)"
        using view_put_rec [OF ok empty_subsetI j(1) _ st h] j lv False by (simp add: insert_absorb) (simp add: job_entry_def)
      ultimately show thesis using that stays_view [where v = "read_count j 84 ?s3" and u = ?s3] by simp
    qed
  qed
qed


text \<open>A full record from the point where its job is known.\<close>

lemma read_apply_full:
  assumes q: "quiet s" and w: "r_id jr \<noteq> 0" "r_state jr \<noteq> Invalid" "r_state jr \<noteq> Copy" "0 < namelen" "b \<noteq> []" "int (length b) = r_body_size jr"
      "length b \<le> job_data_size_limit s"
    and m: "read_find_or_make (jr\<lparr>r_state := Invalid\<rparr>) name (find_job s (r_id jr)) s = (Some j, s1)"
    and s1: "rokx J s1" "J \<subseteq> {j}" "j \<in> ht_set (jobhash s1)" "r_id jr = ids s1 j" "quiet s1" "rroom n s1" "job_data_size_limit s1 = job_data_size_limit s"
    and v: "log_view (put_rec j (replayed jr) s1) = (log_view s)(r_id jr \<mapsto> (nm, replayed jr, b0))" "body (job_st s1 j) = b0"
  obtains s' where "read_apply f namelen name (jr\<lparr>r_state := Invalid\<rparr>, Some (r_state jr)) sz (b @ ys) s = (RMore, ys, s')" "stays n s s'"
    "log_view s' = (log_view s)(r_id jr \<mapsto> (nm, replayed jr, b @ drop (length b) b0))"
proof -
  let ?s3 = "put_rec j (replayed jr) s1"
  have st: "r_state (replayed jr) \<in> {Ready, Buried, Delayed}" using w by simp
  have id: "r_id (replayed jr) = ids s1 j" using s1(4) by simp
  note p = rok_put_rec [OF s1(1-3) id st]
  have f: "quiet ?s3" "rroom n ?s3" "job_data_size_limit ?s3 = job_data_size_limit s" "j \<in> ht_set (jobhash ?s3)"
    "r_body_size (job_st ?s3 j) = int (length b)" "body (job_st ?s3 j) = b0" "ids ?s3 j = r_id jr"
    using s1 v(2) w(6) by (simp_all add: put_rec_env put_rec_fields)
  from read_job_body_ok [OF p(1) f(1,5) w(5) f(4), of f ys] obtain s4 where
    s4: "read_job_body f j (int (length b)) (b @ ys) ?s3 = (Some (int (length b)), ys, s4)"
      "rview s4 = rview (upd_job j (\<lambda>x. x\<lparr>body := b @ drop (length b) (body x)\<rparr>) ?s3)" .
  let ?u = "upd_job j (\<lambda>x. x\<lparr>body := b @ drop (length b) (body x)\<rparr>) ?s3" and ?s' = "read_count j (sz + int (length b)) s4"
  note rb = rok_body [OF p(1), where j = j and g = "\<lambda>x. b @ drop (length b) (body x)"]
  have lv: "log_view ?s3 (ids ?s3 j) = Some (nm, replayed jr, b0)" by (simp add: v(1) f(7))
  have u: "log_view ?u = (log_view s)(r_id jr \<mapsto> (nm, replayed jr, b @ drop (length b) b0))"
    using view_body [OF p(1) f(4) lv f(6), where b = b] by (simp add: v(1) f(7))
  have "stays n s ?u" using rb(1-3,8) f(1-3) by (simp add: stays_def)
  moreover have "rview ?s' = rview ?u" using s4(2) by simp
  ultimately have r: "stays n s ?s'" "log_view ?s' = log_view ?u" using stays_view by blast+
  have "read_apply f namelen name (jr\<lparr>r_state := Invalid\<rparr>, Some (r_state jr)) sz (b @ ys) s = (RMore, ys, ?s')"
    using read_apply_put [OF w(1-3) _ m, of namelen f sz "b @ ys"] w(4,7) s4(1) by (simp add: w(6) [symmetric] Let_def)
  then show thesis using that r u by simp
qed

lemma readrec_applies_full:
  assumes ok: "rok s" and q: "quiet s" and room: "rroom (Suc n) s" and wf: "wf_rec (job_data_size_limit s) (Full name jr b)"
  obtains s' where "readrec f (rec_bytes (Full name jr b) @ ys) s = (RMore, ys, s')" "stays n s s'" "log_view s' = apply_rec (Full name jr b) (log_view s)"
proof -
  have w: "r_id jr \<noteq> 0" "r_state jr \<noteq> Invalid" "r_state jr \<noteq> Copy" "b \<noteq> []" "int (length b) = r_body_size jr"
    "length b \<le> job_data_size_limit s" and w': "r_id jr + 1 \<noteq> 0" "rec_fits jr" "name \<noteq> []" "length name < MAX_TUBE_NAME_LEN" "NUL \<notin> set name"
    using wf by simp_all
  have nl: "0 < int (length name)" using w'(3) by simp
  note rr = readrec_full [OF q w'(2-5) w(5), of f ys]
  note h = rokxD(1) [OF ok]
  have st: "r_state (replayed jr) \<in> {Ready, Buried, Delayed}" using w by simp
  show thesis
  proof (cases "find_job s (r_id jr)")
    case (Some j)
    then have j: "j \<in> ht_set (jobhash s)" "r_id jr = ids s j" using find_job_iff [OF h] by simp_all
    have id: "r_id (replayed jr) = ids s j" using j(2) by simp
    have fm: "read_find_or_make (jr\<lparr>r_state := Invalid\<rparr>) name (find_job s (r_id jr)) s = (Some j, s)" by (simp add: read_find_or_make_def Some)
    have rm: "rroom n s" using room by (simp add: rroom_def)
    have lv: "log_view s (r_id jr) = Some (job_entry s j)" using Some by (simp add: log_view_def)
    have v: "log_view (put_rec j (replayed jr) s) = (log_view s)(r_id jr \<mapsto> (t_name (tube_st s (the (j_tube (job_st s j)))), replayed jr, body (job_st s j)))"
      using view_put_rec [OF ok empty_subsetI j(1) id st h] j(1) by (simp add: insert_absorb)
    from read_apply_full [OF q w(1-3) nl w(4-6) fm ok empty_subsetI j q rm refl v refl] obtain s' where
      s': "read_apply f (int (length name)) name (jr\<lparr>r_state := Invalid\<rparr>, Some (r_state jr)) (84 + int (length name)) (b @ ys) s = (RMore, ys, s')"
        "stays n s s'" "log_view s' = (log_view s)(r_id jr \<mapsto> (t_name (tube_st s (the (j_tube (job_st s j)))), replayed jr, b @ drop (length b) (body (job_st s j))))" .
    show thesis using that [of s'] s' rr lv by (simp add: job_entry_def)
  next
    case None
    obtain tp s1 where t1: "tube_find_or_make name s = (tp, s1)" by (rule prod.exhaust)
    from find_or_make_quiet [OF ok q w'(4) t1] obtain t where t: "tp = Some t" "t \<in> live_tubes s1" "t_name (tube_st s1 t) = name" "rok s1" "quiet s1"
      "jobhash s1 = jobhash s" "job_st s1 = job_st s" "job_data_size_limit s1 = job_data_size_limit s"
      "\<And>j. j \<in> ht_set (jobhash s) \<Longrightarrow> job_entry s1 j = job_entry s j" by metis
    let ?j = "brk s1"
    have none: "find_job s1 (r_id jr) = None" using None by (simp add: find_job_def t)
    have rm1: "rroom (Suc n) s1" using room by (simp add: rroom_def t)
    obtain jo s2 where m: "make_job_with_id (r_pri jr) (r_delay jr) (r_ttr jr) (r_body_size jr) (Some t) (r_id jr) s1 = (jo, s2)" by (rule prod.exhaust)
    from make_job_quiet [OF t(4,5) w(1) none rm1 m] obtain x hh tks nw where x: "jo = Some ?j"
      "s2 = with_job x t hh (if r_id jr \<ge> next_id s1 then r_id jr + 1 else next_id s1) tks nw s1" "r_id x = r_id jr" "body x = []"
      "ht_ok (\<lambda>j. if j = ?j then r_id jr else ids s1 j) hh" "ht_set hh = insert ?j (ht_set (jobhash s1))"
      "all_jobs_used hh = Suc (all_jobs_used (jobhash s1))" "ht_load hh" .
    let ?x = "x\<lparr>r_created_at := r_created_at jr\<rparr>"
    let ?s3 = "with_job ?x t hh (if r_id jr \<ge> next_id s1 then r_id jr + 1 else next_id s1) tks nw s1"
    have x3: "r_id ?x = r_id jr" using x(3) by simp
    note wj = rokx_with_job [where tks = tks and nw = nw, OF t(4,2) rm1 x3 w'(1) x(5-8) refl]
    have xc: "x\<lparr>j_tube := Some t, r_created_at := r_created_at jr\<rparr> = ?x\<lparr>j_tube := Some t\<rparr>" by (cases x) simp
    have fm: "read_find_or_make (jr\<lparr>r_state := Invalid\<rparr>) name (find_job s (r_id jr)) s = (Some ?j, ?s3)"
      by (simp add: read_find_or_make_def None t1 t(1) m x(1)) (simp add: x(2) with_job_def upd_job_def jl_reset_def xc)
    have j3: "?j \<in> ht_set (jobhash ?s3)" "r_id jr = ids ?s3 ?j" "quiet ?s3" "job_data_size_limit ?s3 = job_data_size_limit s" "body (job_st ?s3 ?j) = []"
      using wj(4) x3 x(4) t(5,8) by (simp_all add: quiet_def)
    have id: "r_id (replayed jr) = ids ?s3 ?j" using j3(2) by simp
    have hs: "ht_set (jobhash ?s3) = insert ?j (ht_set (jobhash s))" "?j \<notin> ht_set (jobhash s)" using wj(4,5) by (simp_all add: t(6))
    have nm: "t_name (tube_st ?s3 (the (j_tube (job_st ?s3 ?j)))) = name" using t(3) by simp
    have en: "job_entry ?s3 i = job_entry s i" if "i \<in> ht_set (jobhash s)" for i using wj(3) [of i] t(9) [of i] that by (simp add: t(6))
    have v: "log_view (put_rec ?j (replayed jr) ?s3) = (log_view s)(r_id jr \<mapsto> (name, replayed jr, []))"
      using view_put_rec [OF wj(1) subset_refl j3(1) id st h hs(1) _ en] hs(2) by (simp only: nm j3(5)) simp
    from read_apply_full [OF q w(1-3) nl w(4-6) fm wj(1) subset_refl j3(1-3) wj(2) j3(4) v j3(5)] obtain s' where
      s': "read_apply f (int (length name)) name (jr\<lparr>r_state := Invalid\<rparr>, Some (r_state jr)) (84 + int (length name)) (b @ ys) s = (RMore, ys, s')"
        "stays n s s'" "log_view s' = (log_view s)(r_id jr \<mapsto> (name, replayed jr, b @ drop (length b) []))" .
    have "log_view s (r_id jr) = None" using None log_view_find by blast
    then show thesis using that [of s'] s' rr by simp
  qed
qed


section \<open>A file\<close>

lemma readrec_applies:
  assumes "rok s" "quiet s" "rroom (Suc n) s" "wf_rec (job_data_size_limit s) r"
  obtains s' where "readrec f (rec_bytes r @ ys) s = (RMore, ys, s')" "stays n s s'" "log_view s' = apply_rec r (log_view s)"
proof (cases r)
  case (Full name jr b)
  then show thesis using readrec_applies_full [where f = f and ys = ys, OF assms(1-3)] assms(4) that by metis
next
  case (Short jr)
  have "rroom n s" using assms(3) by (simp add: rroom_def)
  with Short show thesis using readrec_applies_short [where f = f and ys = ys, OF assms(1,2)] assms(4) that by metis
qed

text \<open>The unused rest of a file is zero: at least a whole record of zeros, or not even a length.\<close>

lemma le_val_zeros [simp]: "le_val (replicate n NUL) = 0"
  by (induction n) simp_all

lemma field_at_zeros [simp]: "field_at off n (replicate k NUL) = 0"
  by (simp add: field_at_def)

lemma readrec_zeros:
  assumes q: "quiet s" and k: "k < 4 \<or> 84 \<le> k"
  shows "\<exists>bs. readrec f (replicate k NUL) s = (RStop, bs, s)"
proof (cases "k < 4")
  case True
  then show ?thesis using q by (simp add: readrec_def quiet_env)
next
  case False
  then have k': "84 \<le> k" using k by simp
  have i: "int_at 0 4 (replicate k NUL) = 0" by (simp add: int_at_def)
  have r: "readfull sizeof_Jobrec (replicate (k - 4) NUL) s = (Some (replicate 80 NUL), replicate (k - 84) NUL, s)"
    using q k' by (simp add: readfull_def quiet_env min_def)
  obtain jr st where d: "jobrec_of (replicate 80 NUL) = (jr, st)" by (rule prod.exhaust)
  have "r_id (fst (jobrec_of (replicate 80 NUL))) = 0" by (simp add: jobrec_of_def)
  then have z: "read_apply f 0 nm (jr, st) sz bs s = (RStop, bs, s)" for nm sz bs by (simp add: d read_apply_def)
  show ?thesis using q k' i by (simp add: readrec_def quiet_env read_rest_def r d z)
qed

lemma read_loop_applies:
  assumes "rok s" "quiet s" "rroom (length rs + p) s" "\<forall>r \<in> set rs. wf_rec (job_data_size_limit s) r" "k < 4 \<or> 84 \<le> k" "length rs < n"
  shows "\<exists>s'. read_loop (readrec f) n (concat (map rec_bytes rs) @ replicate k NUL) s = Some (RStop, s') \<and> stays p s s' \<and>
    log_view s' = fold apply_rec rs (log_view s)"
  using assms
proof (induction rs arbitrary: s n)
  case Nil
  obtain m where m: "n = Suc m" using Nil.prems(6) by (cases n) simp_all
  obtain bs where "readrec f (replicate k NUL) s = (RStop, bs, s)" using readrec_zeros [OF Nil.prems(2,5)] by blast
  then show ?case using Nil.prems by (simp add: m stays_def)
next
  case (Cons r rs)
  obtain m where m: "n = Suc m" "length rs < m" using Cons.prems(6) by (cases n) simp_all
  let ?ys = "concat (map rec_bytes rs) @ replicate k NUL"
  obtain s1 where s1: "readrec f (rec_bytes r @ ?ys) s = (RMore, ?ys, s1)" "stays (length rs + p) s s1" "log_view s1 = apply_rec r (log_view s)"
    using readrec_applies [where f = f and ys = ?ys, OF Cons.prems(1,2)] Cons.prems(3,4) by (metis add_Suc length_Cons list.set_intros(1))
  have st: "rok s1" "quiet s1" "rroom (length rs + p) s1" "job_data_size_limit s1 = job_data_size_limit s" using s1(2) by (simp_all add: stays_def)
  have "\<exists>s'. read_loop (readrec f) m ?ys s1 = Some (RStop, s') \<and> stays p s1 s' \<and> log_view s' = fold apply_rec rs (log_view s1)"
    by (rule Cons.IH) (use st Cons.prems m in auto)
  then show ?case using s1 st(4) by (auto simp: m stays_def)
qed

text \<open>The bytes of a file that holds the records \<open>rs\<close>, followed by \<open>k\<close> unused bytes.\<close>

definition log_bytes :: "logrec list \<Rightarrow> nat \<Rightarrow> string" where
  "log_bytes rs k = int_bytes 4 Walver @ concat (map rec_bytes rs) @ replicate k NUL"

definition wf_log :: "nat \<Rightarrow> logrec list \<Rightarrow> nat \<Rightarrow> bool" where
  "wf_log limit rs k \<longleftrightarrow> (\<forall>r \<in> set rs. wf_rec limit r) \<and> (k < 4 \<or> 84 \<le> k)"

lemma rec_bytes_length: "1 \<le> length (rec_bytes r)"
  by (cases r) (simp_all add: short_record_def full_record_def)

lemma records_length: "length rs \<le> length (concat (map rec_bytes rs))"
proof (induction rs)
  case (Cons r rs)
  then show ?case using rec_bytes_length [of r] by simp
qed simp

lemma fileread_ok:
  assumes ok: "rok s" "quiet s" "rroom (length rs + p) s" "wf_log (job_data_size_limit s) rs k"
  obtains s' where "fileread f (log_bytes rs k) s = Some (RStop, s')" "stays p s s'" "log_view s' = fold apply_rec rs (log_view s)"
proof -
  let ?bs = "concat (map rec_bytes rs) @ replicate k NUL" and ?s = "fileincref (Some f) s"
  have v: "rview ?s = rview s" by simp
  note c = rview_cong [OF v] and d = rviewD(13) [OF v]
  have "length rs < Suc (length ?bs)" using records_length [of rs] by simp
  then obtain s1 where s1: "read_loop (readrec f) (Suc (length ?bs)) ?bs ?s = Some (RStop, s1)" "stays p ?s s1" "log_view s1 = fold apply_rec rs (log_view ?s)"
    using read_loop_applies [where s = ?s and rs = rs and p = p and k = k and n = "Suc (length ?bs)" and f = f] ok by (auto simp del: read_loop.simps simp: c d wf_log_def)
  have "int_bytes 4 Walver \<noteq> []" using length_int_bytes [of 4 Walver] by (metis length_0_conv zero_neq_numeral)
  then have rf: "readfull sizeof_int (int_bytes 4 Walver @ ?bs) s = (Some (int_bytes 4 Walver), ?bs, s)" using ok(2) by (intro readfull_exact) simp_all
  have iv: "int_at 0 4 (int_bytes 4 Walver) = Walver" using int_at_head [of Walver "[]"] by simp
  have "fileread f (log_bytes rs k) s = Some (RStop, filedecref (Some f) s1)"
    by (simp only: fileread_def log_bytes_def rf prod.case option.case iv refl if_True s1(1) option.map)
  moreover have "stays p s (filedecref (Some f) s1)" "log_view (filedecref (Some f) s1) = log_view s1"
    using stays_view [where v = "filedecref (Some f) s1" and u = s1 and s = ?s and n = p] s1(2) by (simp_all add: stays_def d)
  ultimately show thesis using that s1(3) c(2) by simp
qed

end
