(* ===== verification/Bean_Startup.thy ===== *)
theory Bean_Startup
  imports Bean_Recover
begin

text \<open>
  Start-up with a log directory: all files are read in the order of their numbers, and the jobs in memory are then
  those that the records of all files leave. Also two facts about logs that the server did not write itself.
\<close>

section \<open>All files\<close>

lemma walread_loop_ok:
  assumes "rok s" "quiet s" "rroom (length (concat (map logs is')) + p) s"
    "\<forall>i \<in> set is'. disk i = log_bytes (logs i) (unused i) \<and> wf_log (job_data_size_limit s) (logs i) (unused i)"
  shows "\<exists>s'. walread_loop disk is' err s = Some (err, s') \<and> stays p s s' \<and> log_view s' = fold apply_rec (concat (map logs is')) (log_view s)"
  using assms
proof (induction is' arbitrary: s)
  case Nil
  then show ?case by (simp add: stays_def)
next
  case (Cons i js)
  let ?f = "file_brk s"
  let ?s3 = "s\<lparr>file_brk := Suc ?f, file_st := (file_st s)(?f := zero_file\<lparr>f_seq := i\<rparr>)\<rparr>"
  have v: "rview (fileadd ?f ?s3) = rview s" by (simp add: fileadd_def rview_def)
  note c = rview_cong [OF v] and d = rviewD(13) [OF v]
  let ?p = "length (concat (map logs js)) + p"
  have pre: "rok (fileadd ?f ?s3)" "quiet (fileadd ?f ?s3)" "rroom (length (logs i) + ?p) (fileadd ?f ?s3)"
    "wf_log (job_data_size_limit (fileadd ?f ?s3)) (logs i) (unused i)"
    using Cons.prems by (simp_all add: c d add.assoc)
  from fileread_ok [where f = ?f, OF pre] obtain s1 where s1: "fileread ?f (disk i) (fileadd ?f ?s3) = Some (RStop, s1)"
    "stays ?p (fileadd ?f ?s3) s1" "log_view s1 = fold apply_rec (logs i) (log_view (fileadd ?f ?s3))"
    using Cons.prems(4) by auto
  have st: "rok s1" "quiet s1" "rroom ?p s1" "job_data_size_limit s1 = job_data_size_limit s" using s1(2) by (simp_all add: stays_def d)
  have "\<exists>s'. walread_loop disk js err s1 = Some (err, s') \<and> stays p s1 s' \<and> log_view s' = fold apply_rec (concat (map logs js)) (log_view s1)"
    by (rule Cons.IH) (use st Cons.prems(4) in auto)
  then obtain s' where s': "walread_loop disk js err s1 = Some (err, s')" "stays p s1 s'" "log_view s' = fold apply_rec (concat (map logs js)) (log_view s1)" by blast
  have q3: "syscall ?s3 = (True, ?s3)" using Cons.prems(2) by (simp add: syscall_def quiet_def)
  have "walread_loop disk (i # js) err s = Some (err, s')"
    using s1(1) s'(1) by (simp add: quiet_env [OF Cons.prems(2)] quiet_env [OF st(2)] Let_def q3 [simplified])
  then show ?case using s' s1(3) st(4) c(2) by (auto simp: stays_def)
qed

lemma makenextfile_ok:
  assumes q: "quiet s"
  obtains s' where "makenextfile s = (True, s')" "rview s' = rview s"
proof -
  let ?f = "file_brk s"
  let ?s3 = "s\<lparr>file_brk := Suc ?f, file_st := (file_st s)(?f := zero_file\<lparr>f_seq := wal_next (wal s)\<rparr>)\<rparr>"
  have q3: "syscall ?s3 = (True, ?s3)" using q by (simp add: syscall_def quiet_def)
  let ?s4 = "filewopen ?f ?s3"
  have s4: "?s4 = upd_file ?f (\<lambda>x. x\<lparr>f_free := filesize (wal ?s3) - sizeof_int, f_resv := 0\<rparr>) (fileincref (Some ?f) (upd_file ?f (\<lambda>x. x\<lparr>iswopen := True\<rparr>) ?s3))"
    by (simp add: filewopen_def q3)
  have o: "iswopen (file_st ?s4 ?f)" by (simp add: s4 upd_file_def fileincref_def)
  have v4: "rview ?s4 = rview s" unfolding s4 by simp (simp add: rview_def)
  have "makenextfile s = (True, fileadd ?f (upd_wal (\<lambda>w. w\<lparr>wal_next := wal_next w + 1\<rparr>) ?s4))"
    using o by (simp add: makenextfile_def quiet_env [OF q] Let_def)
  moreover have "rview (fileadd ?f (upd_wal (\<lambda>w. w\<lparr>wal_next := wal_next w + 1\<rparr>) ?s4)) = rview s"
    using v4 by (simp add: fileadd_def rview_def)
  ultimately show thesis by (rule that)
qed


section \<open>A start\<close>

text \<open>The state after \<open>prot_init\<close>, before the log is read.\<close>

definition fresh_server :: server where
  "fresh_server = (boot 0)\<lparr>brk := 2, tube_st := (\<lambda>_. zero_tube)(1 := zero_tube\<lparr>t_name := ''default'', refs := 1\<rparr>), live_tubes := {1},
     tubes := \<lparr>ms_cap = 1, ms_last = 0, ms_items = [1]\<rparr>, default_tube := Some 1\<rparr>"

lemma fresh_server: "prot_init (boot 0) = Some fresh_server"
  by (simp add: prot_init_def nanoseconds_def syscall_def tube_find_or_make_def tube_find_def make_and_insert_tube_def make_tube_def malloc_def
      ms_append_def grow_def ms_event_def Let_def tube_iref_def tube_dref_def upd_tube_def fresh_server_def ms_init_def boot_def fun_eq_iff)
    (simp add: zero_tube_def)

lemma fresh_server_fields:
  "brk fresh_server = 2" "tube_st fresh_server = (\<lambda>_. zero_tube)(1 := zero_tube\<lparr>t_name := ''default'', refs := 1\<rparr>)" "live_tubes fresh_server = {1}"
  "tubes fresh_server = \<lparr>ms_cap = 1, ms_last = 0, ms_items = [1]\<rparr>" "default_tube fresh_server = Some 1" "jobhash fresh_server = jobhash_init"
  "live_jobs fresh_server = {}" "lists fresh_server = \<lparr>jl_items = (\<lambda>_. []), jl_owner = (\<lambda>_. None)\<rparr>" "allocs fresh_server = []" "sys fresh_server = []"
  "job_data_size_limit fresh_server = 65535" "wal fresh_server = zero_wal" "file_brk fresh_server = 1" "next_id fresh_server = 1"
  by (simp_all add: fresh_server_def boot_def)

lemma fresh_rok: "rok fresh_server" "quiet fresh_server" "n < 2 ^ 31 \<Longrightarrow> rroom n fresh_server" "log_view fresh_server = (\<lambda>_. None)"
proof -
  note f = fresh_server_fields
  have h: "ht_set (jobhash fresh_server) = {}" "all_jobs_used (jobhash fresh_server) = 0"
    by (simp_all add: f ht_set_def) (simp_all add: jobhash_init_def)
  have ok: "ht_ok (ids fresh_server) (jobhash fresh_server)" using ht_ok_init by (simp add: f)
  show "rok fresh_server"
    using ok by (simp add: rokx_def h tube_refs_def tube_jobs_def ht_load_def)
      (simp add: f jl_ok_def tubes_ok_def ms_wf_def)
  show "quiet fresh_server" "n < 2 ^ 31 \<Longrightarrow> rroom n fresh_server" by (simp_all add: quiet_def rroom_def h) (simp_all add: f)
  show "log_view fresh_server = (\<lambda>_. None)" using find_job_None [OF ok] h by (simp add: fun_eq_iff log_view_def)
qed

lemma walinit_recovers:
  assumes "rok s" "quiet s" "walscandir names s = (mn, s1)"
    "\<forall>i \<in> {mn..<wal_next (wal s1)}. disk i = log_bytes (logs i) (unused i) \<and> wf_log (job_data_size_limit s) (logs i) (unused i)"
    "rroom (length (concat (map logs [mn..wal_next (wal s1) - 1]))) s"
  obtains s2 s3 s' where "walread disk mn s1 = Some (False, s2)" "quiet s2" "makenextfile s2 = (True, s3)"
    "s' = upd_wal (\<lambda>w. w\<lparr>wal_cur := Some (last (wal_files w))\<rparr>) s3" "walinit names disk s = Some s'" "rok s'" "quiet s'"
    "log_view s' = fold apply_rec (concat (map logs [mn..wal_next (wal s1) - 1])) (log_view s)"
proof -
  have v: "rview s1 = rview s"
    using assms(3) by (auto simp: walscandir_def Let_def rview_def split: option.splits prod.splits)
  note c = rview_cong [OF v] and d = rviewD(13) [OF v]
  let ?is = "[mn..wal_next (wal s1) - 1]"
  have "\<exists>s2. walread_loop disk ?is False s1 = Some (False, s2) \<and> stays 0 s1 s2 \<and> log_view s2 = fold apply_rec (concat (map logs ?is)) (log_view s1)"
    by (rule walread_loop_ok [where unused = unused]) (use assms in \<open>auto simp: c d\<close>)
  then obtain s2 where s2: "walread disk mn s1 = Some (False, s2)" "stays 0 s1 s2" "log_view s2 = fold apply_rec (concat (map logs ?is)) (log_view s1)"
    by (auto simp: walread_def)
  from makenextfile_ok [of s2] s2(2) obtain s3 where s3: "makenextfile s2 = (True, s3)" "rview s3 = rview s2" by (auto simp: stays_def)
  let ?s' = "upd_wal (\<lambda>w. w\<lparr>wal_cur := Some (last (wal_files w))\<rparr>) s3"
  have v': "rview ?s' = rview s2" using s3(2) by simp
  show thesis
    by (rule that [OF s2(1) _ s3(1) refl])
      (use rview_cong [OF v'] s2 s3 c(2) in \<open>simp_all add: stays_def walinit_def assms(3)\<close>)
qed

text \<open>C14 (refinement). Start-up recovers the log. When the directory can be read and nothing fails, \<open>walinit\<close> succeeds on a directory
  whose files, from the smallest number to the largest, hold well-formed records and then unused space: the jobs in memory are
  then exactly those that result from applying all records of all files in order to a map from ids to jobs, with the tube name,
  every field and the body of each. The invariant of the reader holds afterwards: every job is in the table under its id, below
  \<open>next_id\<close>, on the list that \<open>prot_replay\<close> walks, in an allocated tube that counts it, and is ready, buried or delayed.\<close>

theorem startup_recovers_log:
  assumes "rok s" "quiet s" "walscandir names s = (mn, s1)"
    "\<forall>i \<in> {mn..<wal_next (wal s1)}. disk i = log_bytes (logs i) (unused i) \<and> wf_log (job_data_size_limit s) (logs i) (unused i)"
    "rroom (length (concat (map logs [mn..wal_next (wal s1) - 1]))) s"
  shows "\<exists>s'. walinit names disk s = Some s' \<and> rok s' \<and> log_view s' = fold apply_rec (concat (map logs [mn..wal_next (wal s1) - 1])) (log_view s)"
  by (rule walinit_recovers [OF assms]) blast

text \<open>Three jobs are logged; one is buried later, one is deleted, and one was reserved when the server stopped.\<close>

definition log_job :: "u64 \<Rightarrow> jstate \<Rightarrow> Jobrec" where
  "log_job n st = \<lparr>r_id = n, r_pri = 10, r_delay = 0, r_ttr = 1000000000, r_body_size = 4, r_created_at = 5, r_deadline_at = 0,
     r_reserve_ct = 0, r_timeout_ct = 0, r_release_ct = 0, r_bury_ct = 0, r_kick_ct = 0, r_state = st\<rparr>"

definition log_body :: "char \<Rightarrow> string" where
  "log_body c = [c, c, char_of (13 :: nat), char_of (10 :: nat)]"

definition log_sample :: "int \<Rightarrow> logrec list" where
  "log_sample i =
     (if i = 1 then [Full ''a'' (log_job 7 Ready) (log_body (CHR ''x'')), Full ''default'' (log_job 8 Delayed) (log_body (CHR ''y'')), Short (log_job 7 Buried)]
      else [Full ''b'' (log_job 9 Ready) (log_body (CHR ''z'')), Short (log_job 8 Invalid), Short (log_job 9 Reserved)])"

definition log_names :: "string list" where
  "log_names = [''.'', ''..'', ''lock'', ''binlog.2'', ''binlog.1'']"

lemma log_sample_wf: "wf_log 65535 (log_sample i) 200"
  by (simp add: wf_log_def log_sample_def log_job_def log_body_def rec_fits_def)

lemma log_names_scan: "walscandir (Some log_names) s = (1, upd_wal (\<lambda>w. w\<lparr>wal_next := 3\<rparr>) s)"
  by (simp add: walscandir_def log_names_def binlog_number_def strtol_def is_space_def is_digit_def dec_val_def digit_val_def signed_take_bit_int_eq_self)

lemma log_sample_all: "concat (map log_sample [1..3 - 1]) = log_sample 1 @ log_sample 2"
  by (simp add: upto_rec1)

lemma log_sample_fold:
  "fold apply_rec (log_sample 1 @ log_sample 2) (\<lambda>_. None) =
   (\<lambda>_. None)(7 \<mapsto> (''a'', log_job 7 Buried, log_body (CHR ''x'')), 9 \<mapsto> (''b'', log_job 9 Ready, log_body (CHR ''z'')))"
  by (simp add: log_sample_def log_job_def replayed_def fun_eq_iff)

lemma log_sample_room: "rroom (length (log_sample 1 @ log_sample 2)) fresh_server"
proof -
  have l: "length (log_sample 1 @ log_sample 2) = 6" by (simp add: log_sample_def)
  show ?thesis unfolding l by (rule fresh_rok(3)) simp
qed

theorem startup_recovers_log_witness:
  "\<exists>s'. walinit (Some log_names) (\<lambda>i. log_bytes (log_sample i) 200) fresh_server = Some s' \<and> rok s' \<and>
     log_view s' 7 = Some (''a'', log_job 7 Buried, log_body (CHR ''x'')) \<and> log_view s' 8 = None \<and>
     log_view s' 9 = Some (''b'', log_job 9 Ready, log_body (CHR ''z'')) \<and> log_view s' 10 = None"
proof -
  let ?s1 = "upd_wal (\<lambda>w. w\<lparr>wal_next := 3\<rparr>) fresh_server"
  have n: "wal_next (wal ?s1) = 3" by simp
  have w: "\<forall>i \<in> {1..<wal_next (wal ?s1)}. log_bytes (log_sample i) 200 = log_bytes (log_sample i) 200 \<and>
      wf_log (job_data_size_limit fresh_server) (log_sample i) 200"
    using log_sample_wf by (simp add: fresh_server_fields(11))
  have r: "rroom (length (concat (map log_sample [1..wal_next (wal ?s1) - 1]))) fresh_server"
    unfolding n log_sample_all by (rule log_sample_room)
  have "\<exists>s'. walinit (Some log_names) (\<lambda>i. log_bytes (log_sample i) 200) fresh_server = Some s' \<and> rok s' \<and>
      log_view s' = fold apply_rec (concat (map log_sample [1..wal_next (wal ?s1) - 1])) (log_view fresh_server)"
    by (rule startup_recovers_log [where unused = "\<lambda>_. 200", OF fresh_rok(1,2) log_names_scan w r])
  then obtain s' where s': "walinit (Some log_names) (\<lambda>i. log_bytes (log_sample i) 200) fresh_server = Some s'" "rok s'"
      "log_view s' = fold apply_rec (log_sample 1 @ log_sample 2) (\<lambda>_. None)"
    unfolding n log_sample_all fresh_rok(4) by blast
  show ?thesis by (rule exI [of _ s']) (use s'(1,2) s'(3) [unfolded log_sample_fold] in simp)
qed


section \<open>The history of a job\<close>

fun rec_id :: "logrec \<Rightarrow> u64" where
  "rec_id (Full name jr b) = r_id jr"
| "rec_id (Short jr) = r_id jr"

lemma apply_rec_other: "n \<noteq> rec_id r \<Longrightarrow> apply_rec r m n = m n"
  by (cases r) (auto split: option.splits prod.splits)

lemma apply_rec_same: "m n = m' n \<Longrightarrow> n = rec_id r \<Longrightarrow> apply_rec r m n = apply_rec r m' n"
  by (cases r) (auto split: option.splits prod.splits)

lemma fold_apply_filter: "m n = m' n \<Longrightarrow> fold apply_rec rs m n = fold apply_rec (filter (\<lambda>r. rec_id r = n) rs) m' n"
proof (induction rs arbitrary: m m')
  case (Cons r rs)
  show ?case
  proof (cases "rec_id r = n")
    case True
    have "apply_rec r m n = apply_rec r m' n" by (rule apply_rec_same [where m = m and m' = m']) (use Cons.prems True in simp_all)
    then have "fold apply_rec rs (apply_rec r m) n = fold apply_rec (filter (\<lambda>r. rec_id r = n) rs) (apply_rec r m') n" by (rule Cons.IH)
    then show ?thesis by (simp add: True)
  next
    case False
    then have "apply_rec r m n = m n" by (intro apply_rec_other) simp
    then have "apply_rec r m n = m' n" by (rule trans [OF _ Cons.prems])
    then have "fold apply_rec rs (apply_rec r m) n = fold apply_rec (filter (\<lambda>r. rec_id r = n) rs) m' n" by (rule Cons.IH)
    then show ?thesis by (simp add: False)
  qed
qed simp

text \<open>The structure in a record, and records that update a job with the body \<open>b\<close>: short ones, and the full ones of a migration.\<close>

fun rec_struct :: "logrec \<Rightarrow> Jobrec" where
  "rec_struct (Full name jr b) = jr"
| "rec_struct (Short jr) = jr"

fun updates :: "string \<Rightarrow> logrec \<Rightarrow> bool" where
  "updates b (Full name jr b') \<longleftrightarrow> b' = b"
| "updates b (Short jr) \<longleftrightarrow> r_state jr \<noteq> Invalid"

lemma fold_updates:
  "m n = Some (nm, jr, b) \<Longrightarrow> \<forall>r \<in> set rs. rec_id r = n \<and> updates b r \<Longrightarrow>
   fold apply_rec rs m n = Some (nm, if rs = [] then jr else replayed (rec_struct (last rs)), b)"
proof (induction rs arbitrary: m jr)
  case (Cons r rs)
  have "apply_rec r m n = Some (nm, replayed (rec_struct r), b)"
    using Cons.prems by (cases r) auto
  then have "fold apply_rec rs (apply_rec r m) n = Some (nm, if rs = [] then replayed (rec_struct r) else replayed (rec_struct (last rs)), b)"
    by (rule Cons.IH) (use Cons.prems(2) in simp)
  then show ?case by simp
qed simp

text \<open>C16 (functional). A logged job comes back as it was last written, from whatever files its records are in. If the log, over all files
  of the directory in order, holds for a job id that is not known yet one full record and then any number of updates (short records,
  and full ones with the same body, among any records of other jobs), then after \<open>walinit\<close> the id resolves to a job with the body of the
  full record, in the tube it names, with the fields of the last record, and ready if it was reserved then. If the last of these
  records is followed by one that deletes the job, the id resolves to no job. The files have to be well formed (\<open>wf_log\<close>), no call may fail and the table of jobs must have room (\<open>rroom\<close>); well formed means that no body
  with its line end is longer than the job size limit: \<open>accepted_job_lost\<close> shows what happens to others.\<close>

theorem logged_job_recovered:
  assumes "rok s" "quiet s" "walscandir names s = (mn, s1)"
    "\<forall>i \<in> {mn..<wal_next (wal s1)}. disk i = log_bytes (logs i) (unused i) \<and> wf_log (job_data_size_limit s) (logs i) (unused i)"
    "rroom (length (concat (map logs [mn..wal_next (wal s1) - 1]))) s" "find_job s n = None"
    "filter (\<lambda>r. rec_id r = n) (concat (map logs [mn..wal_next (wal s1) - 1])) = Full nm jr b # ups @ gone" "\<forall>r \<in> set ups. updates b r"
    "gone = [] \<or> (\<exists>x. gone = [Short x] \<and> r_state x = Invalid)"
  shows "\<exists>s'. walinit names disk s = Some s' \<and>
    (if gone = [] then \<exists>j. find_job s' n = Some j \<and> job_entry s' j = (nm, replayed (rec_struct (last (Full nm jr b # ups))), b)
     else find_job s' n = None)"
proof -
  let ?rs = "concat (map logs [mn..wal_next (wal s1) - 1])"
  from walinit_recovers [OF assms(1-5)] obtain s' where s': "walinit names disk s = Some s'" "log_view s' = fold apply_rec ?rs (log_view s)" by metis
  have none: "log_view s n = None" using assms(6) log_view_find by blast
  have "\<forall>r \<in> set (Full nm jr b # ups @ gone). rec_id r = n" unfolding assms(7) [symmetric] by simp
  then have ids: "r_id jr = n" "\<forall>r \<in> set ups. rec_id r = n \<and> updates b r" and g: "\<forall>r \<in> set gone. rec_id r = n"
    using assms(8) by (simp_all add: ball_Un)
  let ?m = "apply_rec (Full nm jr b) (log_view s)"
  have m: "?m n = Some (nm, replayed jr, b)" using none ids(1) by simp
  have "fold apply_rec ?rs (log_view s) n = fold apply_rec gone (fold apply_rec ups ?m) n"
    using fold_apply_filter [where rs = ?rs and m = "log_view s" and m' = "log_view s" and n = n, OF refl] unfolding assms(7) by simp
  moreover have fs: "fold apply_rec ups ?m n = Some (nm, replayed (rec_struct (last (Full nm jr b # ups))), b)"
    using fold_updates [where m = ?m and n = n, OF m ids(2)] by simp
  ultimately have lv: "log_view s' n = (if gone = [] then Some (nm, replayed (rec_struct (last (Full nm jr b # ups))), b) else None)"
    using assms(9) g s'(2) by auto
  then show ?thesis using s'(1) by (cases "gone = []"; cases "find_job s' n") (auto simp: log_view_def)
qed

lemma fresh_none: "find_job fresh_server n = None"
  using fun_cong [OF fresh_rok(4), of n] by (simp add: log_view_def)

text \<open>Job 7 is buried in the first file; job 8 is logged in the first file and deleted in the second.\<close>

theorem logged_job_recovered_witness:
  "(\<exists>s' j. walinit (Some log_names) (\<lambda>i. log_bytes (log_sample i) 200) fresh_server = Some s' \<and> find_job s' 7 = Some j \<and>
     job_entry s' j = (''a'', log_job 7 Buried, log_body (CHR ''x''))) \<and>
   (\<exists>s'. walinit (Some log_names) (\<lambda>i. log_bytes (log_sample i) 200) fresh_server = Some s' \<and> find_job s' 8 = None)"
proof -
  let ?s1 = "upd_wal (\<lambda>w. w\<lparr>wal_next := 3\<rparr>) fresh_server"
  have n: "wal_next (wal ?s1) = 3" by simp
  have w: "\<forall>i \<in> {1..<wal_next (wal ?s1)}. log_bytes (log_sample i) 200 = log_bytes (log_sample i) 200 \<and>
      wf_log (job_data_size_limit fresh_server) (log_sample i) 200"
    using log_sample_wf by (simp add: fresh_server_fields(11))
  have r: "rroom (length (concat (map log_sample [1..wal_next (wal ?s1) - 1]))) fresh_server"
    unfolding n log_sample_all by (rule log_sample_room)
  note rec = logged_job_recovered [where unused = "\<lambda>_. 200", OF fresh_rok(1,2) log_names_scan w r fresh_none, unfolded n log_sample_all]
  have f7: "filter (\<lambda>r. rec_id r = 7) (log_sample 1 @ log_sample 2) =
      Full ''a'' (log_job 7 Ready) (log_body (CHR ''x'')) # [Short (log_job 7 Buried)] @ []"
    and f8: "filter (\<lambda>r. rec_id r = 8) (log_sample 1 @ log_sample 2) =
      Full ''default'' (log_job 8 Delayed) (log_body (CHR ''y'')) # [] @ [Short (log_job 8 Invalid)]"
    by (simp_all add: log_sample_def log_job_def)
  have u: "\<forall>r \<in> set [Short (log_job 7 Buried)]. updates (log_body (CHR ''x'')) r" "\<forall>r \<in> set []. updates (log_body (CHR ''y'')) r"
    by (simp_all add: log_job_def)
  have g: "[Short (log_job 8 Invalid)] = [] \<or> (\<exists>x. [Short (log_job 8 Invalid)] = [Short x] \<and> r_state x = Invalid)" by (simp add: log_job_def)
  from rec [OF f7 u(1) disjI1 [OF refl]] have "\<exists>s' j. walinit (Some log_names) (\<lambda>i. log_bytes (log_sample i) 200) fresh_server = Some s' \<and>
      find_job s' 7 = Some j \<and> job_entry s' j = (''a'', log_job 7 Buried, log_body (CHR ''x''))"
    by (auto simp: replayed_def log_job_def)
  moreover from rec [OF f8 u(2) g] have "\<exists>s'. walinit (Some log_names) (\<lambda>i. log_bytes (log_sample i) 200) fresh_server = Some s' \<and> find_job s' 8 = None"
    by auto
  ultimately show ?thesis by blast
qed

section \<open>Logs that the server did not write\<close>

text \<open>C37 (error). A record with a larger body than the job has is not noticed. \<open>readrec\<close> compares the body size of the record with
  \<open>j->r.body_size\<close> only after \<open>j->r = jr\<close>, so the check "size changed" never fires: for a job that is in memory with a buffer
  shorter than the body of a full record, \<open>readrec\<close> reports no error and stores all bytes of the record behind the job, more
  than the buffer holds.\<close>

theorem size_change_unnoticed:
  assumes "rok s" "quiet s" "rroom 1 s" "wf_rec (job_data_size_limit s) (Full nm jr b)" "find_job s (r_id jr) = Some j"
    "length (body (job_st s j)) < length b"
  shows "\<exists>s' i. readrec f (rec_bytes (Full nm jr b) @ ys) s = (RMore, ys, s') \<and> find_job s' (r_id jr) = Some i \<and> body (job_st s' i) = b"
proof -
  from readrec_applies_full [where n = 0 and f = f and ys = ys, OF assms(1,2) _ assms(4)] assms(3) obtain s' where
    s': "readrec f (rec_bytes (Full nm jr b) @ ys) s = (RMore, ys, s')" "log_view s' = apply_rec (Full nm jr b) (log_view s)" by auto
  have "log_view s (r_id jr) = Some (job_entry s j)" using assms(5) by (simp add: log_view_def)
  then have "log_view s' (r_id jr) = Some (t_name (tube_st s (the (j_tube (job_st s j)))), replayed jr, b)"
    using s'(2) assms(6) by (simp add: job_entry_def)
  then show ?thesis using s'(1) by (auto simp: log_view_def job_entry_def)
qed

theorem size_change_unnoticed_witness:
  "\<exists>s s' j i. find_job s 7 = Some j \<and> length (body (job_st s j)) = 4 \<and>
     readrec 1 (rec_bytes (Full ''a'' ((log_job 7 Ready)\<lparr>r_body_size := 8\<rparr>) (log_body (CHR ''x'') @ log_body (CHR ''y'')))) s = (RMore, [], s') \<and>
     find_job s' 7 = Some i \<and> length (body (job_st s' i)) = 8"
proof -
  have r: "rroom (length (log_sample 1) + 1) fresh_server" by (rule fresh_rok(3)) (simp add: log_sample_def)
  have w: "wf_log (job_data_size_limit fresh_server) (log_sample 1) 200" using log_sample_wf by (simp add: fresh_server_fields(11))
  from fileread_ok [where f = 1, OF fresh_rok(1,2) r w] obtain s where s: "stays 1 fresh_server s"
    "log_view s = fold apply_rec (log_sample 1) (log_view fresh_server)" by blast
  then have st: "rok s" "quiet s" "rroom 1 s" "job_data_size_limit s = 65535" by (simp_all add: stays_def fresh_server_fields(11))
  have "log_view s 7 = Some (''a'', log_job 7 Buried, log_body (CHR ''x''))"
    unfolding s(2) fresh_rok(4) by (simp add: log_sample_def log_job_def replayed_def)
  then obtain j where j: "find_job s 7 = Some j" "body (job_st s j) = log_body (CHR ''x'')" by (auto simp: log_view_def job_entry_def)
  let ?jr = "(log_job 7 Ready)\<lparr>r_body_size := 8\<rparr>" and ?b = "log_body (CHR ''x'') @ log_body (CHR ''y'')"
  have wr: "wf_rec (job_data_size_limit s) (Full ''a'' ?jr ?b)" by (simp add: st log_job_def log_body_def rec_fits_def)
  have id: "r_id ?jr = 7" by (simp add: log_job_def)
  have "length (body (job_st s j)) < length ?b" by (simp add: j(2) log_body_def)
  from size_change_unnoticed [where f = 1 and ys = "[]", OF st(1-3) wr _ this, unfolded id, OF j(1)] obtain s' i where
    s': "readrec 1 (rec_bytes (Full ''a'' ?jr ?b) @ []) s = (RMore, [], s')" "find_job s' 7 = Some i" "body (job_st s' i) = ?b" by blast
  have l: "length (body (job_st s' i)) = 8" "length (body (job_st s j)) = 4" by (simp_all add: s'(3) j(2) log_body_def)
  show ?thesis using s'(1) [unfolded append_Nil2] s'(2) j(1) l by blast
qed

text \<open>C38 (error). A log of an unknown version is deleted. \<open>fileread\<close> reports an error for it and takes no reference, so the file
  stays in the chain with no reference, and \<open>walgc\<close>, which stops at the first file with a reference, unlinks it as soon as all files before
  it have none, and never before.\<close>

theorem unknown_version_dropped:
  assumes "quiet s" "4 \<le> length bs" "int_at 0 4 bs \<noteq> Walver" "int_at 0 4 bs \<noteq> Walver5" "f_refs (file_st s f) = 0" "f \<notin> set (wal_files (wal s))"
  shows "fileread f bs (fileadd f s) = Some (RErr, fileadd f s) \<and>
    (f \<notin> set (wal_files (wal (walgc (fileadd f s)))) \<longleftrightarrow> (\<forall>g \<in> set (wal_files (wal s)). f_refs (file_st s g) = 0))"
proof -
  have q: "syscall (fileadd f s) = (True, fileadd f s)" using assms(1) by (simp add: fileadd_def syscall_def quiet_def)
  have t: "int_at 0 4 (take 4 bs) = int_at 0 4 bs" by (simp add: int_at_def field_at_def)
  have "readfull sizeof_int bs (fileadd f s) = (Some (take 4 bs), drop 4 bs, fileadd f s)" using assms(2) by (simp add: readfull_def q)
  then have "fileread f bs (fileadd f s) = Some (RErr, fileadd f s)" using assms(3,4) by (simp add: fileread_def t)
  moreover have "f \<notin> set (dropWhile (\<lambda>g. f_refs (file_st s g) = 0) (xs @ [f])) \<longleftrightarrow> (\<forall>g \<in> set xs. f_refs (file_st s g) = 0)" for xs
    using assms(5) by (induction xs) auto
  then have "f \<notin> set (wal_files (wal (walgc (fileadd f s)))) \<longleftrightarrow> (\<forall>g \<in> set (wal_files (wal s)). f_refs (file_st s g) = 0)"
    by (simp add: walgc_def fileadd_def Let_def)
  ultimately show ?thesis by blast
qed

theorem unknown_version_dropped_witness:
  "fileread 0 (le_bytes 4 6) (fileadd 0 fresh_server) = Some (RErr, fileadd 0 fresh_server) \<and> 0 \<notin> set (wal_files (wal (walgc (fileadd 0 fresh_server))))"
proof -
  have v: "int_at 0 4 (le_bytes 4 6) = 6" using int_at_head [of 6 "[]"] by (simp add: int_bytes_def)
  have d: "int_at 0 4 (le_bytes 4 6) \<noteq> Walver" "int_at 0 4 (le_bytes 4 6) \<noteq> Walver5" unfolding v by simp_all
  have f: "f_refs (file_st fresh_server 0) = 0" "wal_files (wal fresh_server) = []" by (simp_all add: fresh_server_def boot_def zero_file_def zero_wal_def)
  from unknown_version_dropped [OF fresh_rok(2) _ d f(1)] show ?thesis by (simp add: f(2))
qed

end
