(* ===== verification/Bean_Restart.thy ===== *)
theory Bean_Restart
  imports Bean_Startup Bean_Calm
begin

text \<open>
  A restart from the log, as a whole: the directory is locked, the files are read, and \<open>prot_replay\<close> takes every recovered job
  from the list of the reader into the container that its state names. Afterwards the invariant of the queues holds, with the counters.
\<close>

section \<open>What reading leaves alone\<close>

text \<open>The queues of the tubes, the counters and the settings of the log. Reading the log only makes and frees empty tubes.\<close>

definition bview where
  "bview s = (\<lambda>t. (ready (tube_st s t), delay (tube_st s t), stat (tube_st s t), ms_items (waiting_conns (tube_st s t))),
     ready_ct s, global_stat s, filesize (wal s), wal_use (wal s))"

definition blank_view where
  "blank_view z = ((\<lambda>_ :: addr. (empty_heap :: addr Heap, empty_heap :: addr Heap, zero_stats, [] :: addr list)), 0 :: u64, zero_stats, z :: int, True)"

definition blank :: "int \<Rightarrow> server \<Rightarrow> bool" where
  "blank z s \<longleftrightarrow> bview s = blank_view z"

interpretation bv: env_view bview
  by unfold_locales (simp_all add: bview_def)

lemma bview_upds [simp]:
  "bview (upd_job j f s) = bview s" "bview (upd_file a g s) = bview s" "bview (s\<lparr>lists := l\<rparr>) = bview s" "bview (s\<lparr>jobhash := h\<rparr>) = bview s"
  "bview (s\<lparr>next_id := i\<rparr>) = bview s" "bview (s\<lparr>live_jobs := lj\<rparr>) = bview s" "bview (s\<lparr>tubes := ts\<rparr>) = bview s" "bview (s\<lparr>live_tubes := lt\<rparr>) = bview s"
  "bview (s\<lparr>file_brk := n, file_st := fs\<rparr>) = bview s" "bview (tube_iref tp s) = bview s" "bview (upd_tube t (\<lambda>x. x\<lparr>refs := r x\<rparr>) s) = bview s"
  by (auto simp: bview_def upd_job_def upd_file_def upd_tube_def tube_iref_def fun_eq_iff split: option.split)

lemma bview_upd_wal: "filesize w = filesize (wal s) \<Longrightarrow> wal_use w = wal_use (wal s) \<Longrightarrow> bview (s\<lparr>wal := w\<rparr>) = bview s"
  by (simp add: bview_def)

lemma bview_lists [simp]: "bview (list_insert h j s) = bview s" "bview (snd (list_remove j s)) = bview s"
  by (simp_all add: list_insert_def list_remove_def case_prod_beta)

lemma bview_files [simp]:
  "bview (fileincref fo s) = bview s" "bview (filedecref fo s) = bview s" "bview (fileaddjob f j s) = bview s" "bview (filermjob fo j s) = bview s"
  "bview (fileadd f s) = bview s" "bview (read_count j n s) = bview s"
proof -
  show i: "bview (fileincref fo s) = bview s" for fo s by (simp add: fileincref_def split: option.split)
  have g: "bview (walgc s) = bview s" for s by (simp add: walgc_def Let_def bview_upd_wal)
  show d: "bview (filedecref fo s) = bview s" for fo s by (simp add: filedecref_def Let_def g split: option.split)
  have u: "wal (upd_file f g s) = wal s" for f g s by (simp add: upd_file_def)
  show "bview (fileaddjob f j s) = bview s" by (simp add: fileaddjob_def i)
  show "bview (filermjob fo j s) = bview s" by (simp add: filermjob_def Let_def d u bview_upd_wal split: option.split)
  show "bview (fileadd f s) = bview s" by (simp add: fileadd_def bview_upd_wal)
  show "bview (read_count j n s) = bview s" by (simp add: read_count_def bview_upd_wal)
qed

lemma blank_tube_dref:
  assumes "blank z s"
  shows "blank z (tube_dref tp s)"
proof -
  have f: "blank z (tube_free t s)" if "blank z s" for t s
    using that by (auto simp: blank_def bview_def blank_view_def tube_free_def upd_tube_def ms_clear_def ms_init_def case_prod_beta fun_eq_iff)
  show ?thesis
  proof (cases tp)
    case (Some t)
    have "blank z (upd_tube t (\<lambda>x. x\<lparr>refs := refs x - 1\<rparr>) s)" using assms by (simp add: blank_def)
    then show ?thesis using assms f by (simp add: Some tube_dref_def Let_def)
  qed (simp add: tube_dref_def assms)
qed

lemma blank_make_tube:
  assumes "blank z s" "make_tube name s = (tp, s')"
  shows "blank z s'"
proof -
  obtain b s1 where m: "malloc s = (b, s1)" by (rule prod.exhaust)
  have b1: "blank z s1" using bv.env_dest(1) [OF m] assms(1) by (simp add: blank_def)
  then have n: "blank z (s1\<lparr>brk := k, tube_st := (tube_st s1)(t := zero_tube\<lparr>t_name := nm\<rparr>), live_tubes := lt, lists := l\<rparr>)" for k t nm lt l
    by (simp add: blank_def bview_def blank_view_def zero_tube_def ms_init_def fun_eq_iff)
  show ?thesis using assms(2) b1 n by (cases b) (auto simp: make_tube_def m Let_def)
qed

lemma blank_find_or_make:
  assumes "blank z s" "tube_find_or_make name s = (tp, s')"
  shows "blank z s'"
proof (cases "tube_find (tubes s) name s")
  case None
  obtain t s1 where m: "make_tube name s = (t, s1)" by (rule prod.exhaust)
  have b1: "blank z s1" by (rule blank_make_tube [OF assms(1) m])
  show ?thesis
  proof (cases t)
    case (Some u)
    obtain b ts s2 where a: "ms_append None malloc (tubes s1) s1 u = (b, ts, s2)" by (metis prod_cases3)
    have "blank z s2" using ms_append_frame [OF a] b1 by (auto simp: blank_def)
    then have "blank z (s2\<lparr>tubes := ts\<rparr>)" by (simp add: blank_def)
    then show ?thesis using assms(2) blank_tube_dref [of z "s2\<lparr>tubes := ts\<rparr>"]
      by (auto simp: tube_find_or_make_def None make_and_insert_tube_def m Some a blank_def split: if_splits)
  qed (use assms(2) b1 in \<open>simp add: tube_find_or_make_def None make_and_insert_tube_def m\<close>)
qed (use assms in \<open>simp add: tube_find_or_make_def\<close>)

lemma blank_job_free: "blank z s \<Longrightarrow> blank z (job_free jp s)"
proof -
  assume ok: "blank z s"
  have r: "bview (snd (rehash_with (store_job_n 2 ky malloc) malloc up hs)) = bview (snd hs)" for ky up hs
    by (rule store_frame) simp
  have "bview (snd (job_hash_free ky malloc j (h, t))) = bview t" for ky j h t
    by (simp add: job_hash_free_def Let_def rehash_def store_job_def r)
  then have h: "bview (hash_free j t) = bview t" for j t by (simp add: hash_free_def case_prod_beta)
  show ?thesis
  proof (cases jp)
    case (Some j)
    then show ?thesis using blank_tube_dref [OF ok, of "j_tube (job_st s j)"]
      by (simp add: job_free_def Let_def tube_iref_def blank_def h)
  qed (simp add: job_free_def ok)
qed

lemma blank_make_job:
  assumes "blank z s" "make_job_with_id pri dly ttr bs tp n s = (jo, s')"
  shows "blank z s'"
proof -
  have st: "bview (snd (store_job ky malloc j hs)) = bview (snd hs)" for ky j hs
    unfolding store_job_def by (rule store_frame) simp
  have al: "bview (t\<lparr>brk := k, job_st := jb\<rparr>) = bview t" for t k jb by (simp add: bview_def)
  obtain ao s1 where a: "allocate_job bs s = (ao, s1)" by (rule prod.exhaust)
  have "bview s1 = bview s"
    using a by (auto simp: allocate_job_def Let_def al split: prod.splits bool.splits dest!: bv.env_dest)
  then have b1: "blank z s1" using assms(1) by (simp add: blank_def)
  show ?thesis
  proof (cases ao)
    case (Some j)
    have I: "blank z (tube_iref tp (upd_job j f (tube_dref t (v\<lparr>jobhash := h\<rparr>))))" if "bview v = bview s1" for f t v h
      using blank_tube_dref [of z "v\<lparr>jobhash := h\<rparr>" t] that b1 by (simp add: blank_def)
    show ?thesis using assms(2) unfolding make_job_with_id_def a prod.case Some option.case Let_def
      by (simp only: case_prod_beta prod.inject) (elim conjE, hypsubst, rule I, simp add: st split: if_split)
  qed (use assms(2) b1 in \<open>simp add: make_job_with_id_def a\<close>)
qed

section \<open>Reading keeps the queues empty\<close>

lemma blank_read_drop: "blank z s \<Longrightarrow> blank z (read_drop jo s)"
  using blank_job_free by (auto simp: read_drop_def Let_def blank_def split: option.split)

lemma readfull_bview: "readfull n bs s = (r, bs', s') \<Longrightarrow> bview s' = bview s"
  by (auto simp: readfull_def split: prod.splits bool.splits if_splits dest!: bv.env_dest)

lemma blank_find_or_make_job:
  assumes "blank z s" "read_find_or_make jr name jo s = (r, s')"
  shows "blank z s'"
proof (cases jo)
  case None
  obtain t s1 where t: "tube_find_or_make name s = (t, s1)" by (rule prod.exhaust)
  obtain q s2 where q: "make_job_with_id (r_pri jr) (r_delay jr) (r_ttr jr) (r_body_size jr) t (r_id jr) s1 = (q, s2)" by (rule prod.exhaust)
  show ?thesis using blank_make_job [OF blank_find_or_make [OF assms(1) t] q] assms(2)
    by (auto simp: read_find_or_make_def None t q blank_def split: option.splits)
qed (use assms in \<open>simp add: read_find_or_make_def\<close>)

lemma blank_read_body:
  assumes "blank z s" "read_job_body f j n bs s = (r, bs', s')"
  shows "blank z s'"
  using assms by (auto simp: read_job_body_def Let_def blank_def split: if_splits prod.splits option.splits dest!: readfull_bview)

lemma blank_read_apply:
  assumes "blank z s" "read_apply f namelen name rec sz bs s = (r, bs', s')"
  shows "blank z s'"
proof -
  obtain jr st where rec: "rec = (jr, st)" by (cases rec)
  obtain q s1 where q: "read_find_or_make jr name (find_job s (r_id jr)) s = (q, s1)" by (rule prod.exhaust)
  have b1: "blank z s1" by (rule blank_find_or_make_job [OF assms(1) q])
  have b3: "blank z (list_insert LReplay j (upd_job j h s1))" for j h using b1 by (simp add: blank_def)
  have rc: "blank z (read_count j k t) = blank z t" for j k t by (simp add: blank_def)
  show ?thesis using assms(2) unfolding rec read_apply_def Let_def prod.case q
    using blank_read_drop assms(1) b1 b3 by (auto simp: rc split: if_splits option.splits prod.splits dest!: blank_read_body [OF b3])
qed

lemma blank_read_rest:
  assumes "blank z s" "read_rest f namelen ssize decode sz bs s = (r, bs', s')"
  shows "blank z s'"
proof -
  obtain q bs1 s1 where q: "(if namelen = 0 then (Some [], bs, s) else readfull namelen bs s) = (q, bs1, s1)" by (metis prod_cases3)
  have b1: "blank z s1" using assms(1) q by (auto simp: blank_def split: if_splits dest!: readfull_bview)
  obtain w bs2 s2 where w: "readfull ssize bs1 s1 = (w, bs2, s2)" by (metis prod_cases3)
  have b2: "blank z s2" using readfull_bview [OF w] b1 by (simp add: blank_def)
  show ?thesis using assms(2) b1 b2 unfolding read_rest_def q prod.case w
    by (auto split: option.splits dest!: blank_read_apply [OF b2])
qed

lemma blank_readrec:
  assumes "blank z s"
  shows "readrec f bs s = (r, bs', s') \<Longrightarrow> blank z s'" "readrec5 f bs s = (r, bs', s') \<Longrightarrow> blank z s'"
proof -
  obtain b s1 where y: "syscall s = (b, s1)" by (rule prod.exhaust)
  have b1: "blank z s1" using bv.env_dest(2) [OF y] assms by (simp add: blank_def)
  show "readrec f bs s = (r, bs', s') \<Longrightarrow> blank z s'" "readrec5 f bs s = (r, bs', s') \<Longrightarrow> blank z s'"
    using b1 by (auto simp: readrec_def readrec5_def y Let_def split: bool.splits if_splits dest!: blank_read_rest [OF b1])
qed

lemma blank_read_loop:
  assumes rd: "\<And>bs s r bs' s'. blank z s \<Longrightarrow> rd bs s = (r, bs', s') \<Longrightarrow> blank z s'"
  shows "blank z s \<Longrightarrow> read_loop rd n bs s = Some (r, s') \<Longrightarrow> blank z s'"
proof (induction n arbitrary: bs s)
  case (Suc n)
  obtain q bs1 s1 where q: "rd bs s = (q, bs1, s1)" by (metis prod_cases3)
  have b1: "blank z s1" by (rule rd [OF Suc.prems(1) q])
  show ?case using Suc.prems(2) Suc.IH [OF b1] b1 by (cases q) (auto simp: q)
qed simp

lemma blank_fileread:
  assumes "blank z s" "fileread f bs s = Some (r, s')"
  shows "blank z s'"
proof -
  obtain v bs1 s1 where v: "readfull sizeof_int bs s = (v, bs1, s1)" by (metis prod_cases3)
  have b1: "blank z s1" "blank z (fileincref (Some f) s1)" using readfull_bview [OF v] assms(1) by (simp_all add: blank_def)
  have d: "blank z (filedecref fo t) = blank z t" for fo t by (simp add: blank_def)
  have l: "blank z u \<Longrightarrow> read_loop (readrec f) n xs u = Some (q, t) \<Longrightarrow> blank z t"
    "blank z u \<Longrightarrow> read_loop (readrec5 f) n xs u = Some (q, t) \<Longrightarrow> blank z t" for u n xs q t
    by (rule blank_read_loop [where rd = "readrec f"], erule (1) blank_readrec, assumption+)
      (rule blank_read_loop [where rd = "readrec5 f"], erule (1) blank_readrec, assumption+)
  show ?thesis using assms(2) b1 unfolding fileread_def v prod.case
    by (auto simp: d simp del: read_loop.simps split: option.splits if_splits intro: l(1) [OF b1(2)] l(2) [OF b1(2)])
qed

lemma blank_walread_loop: "blank z s \<Longrightarrow> walread_loop disk is' err s = Some (e, s') \<Longrightarrow> blank z s'"
proof (induction is' arbitrary: s err)
  case (Cons i js)
  obtain a s1 b s2 where m: "malloc s = (a, s1)" "malloc s1 = (b, s2)" by (metis prod.exhaust)
  let ?s3 = "s2\<lparr>file_brk := Suc (file_brk s2), file_st := (file_st s2)(file_brk s2 := zero_file\<lparr>f_seq := i\<rparr>)\<rparr>"
  obtain c s4 where c: "syscall ?s3 = (c, s4)" by (rule prod.exhaust)
  have "bview s4 = bview s" using bv.env_dest(2) [OF c] bv.env_dest(1) [OF m(1)] bv.env_dest(1) [OF m(2)] by simp
  then have b4: "blank z s4" "blank z (fileadd f s4)" for f using Cons.prems(1) by (simp_all add: blank_def)
  have sy: "blank z (snd (syscall t)) = blank z t" for t by (simp add: blank_def)
  show ?case
  proof (cases "a \<and> b \<and> c")
    case True
    then obtain r s5 where r: "fileread (file_brk s2) (disk i) (fileadd (file_brk s2) s4) = Some (r, s5)" "r \<noteq> RCrash"
        "walread_loop disk js (err \<or> r = RErr) (snd (syscall s5)) = Some (e, s')"
      using Cons.prems(2) by (simp add: m Let_def c split: option.splits prod.splits rd.splits)
    show ?thesis by (rule Cons.IH [OF _ r(3)]) (simp add: sy blank_fileread [OF b4(2) r(1)])
  next
    case False
    then have "a" "b" "\<not> c" "walread_loop disk js err s4 = Some (e, s')"
      using Cons.prems(2) by (auto simp: m Let_def c split: bool.splits)
    then show ?thesis using Cons.IH [OF b4(1)] by blast
  qed
qed simp

end
