(* ===== verification/Bean_Resume.thy ===== *)
theory Bean_Resume
  imports Bean_Restart
begin

text \<open>
  \<open>prot_replay\<close> and the start-up of a server with a log as a whole.
\<close>

section \<open>The state without the list of the reader\<close>







section \<open>Placing a job does not look at the lists\<close>




section \<open>What placing a job changes\<close>

text \<open>All of the logged structures but the state and the deadline of \<open>j\<close>, the tubes and bodies, the table, the names of the
  tubes, the waiting connections, the lists and the log.\<close>

definition cview where
  "cview j s = (\<lambda>k. (if k = j then (Jobrec.truncate (job_st s k))\<lparr>r_state := Invalid, r_deadline_at := 0\<rparr> else Jobrec.truncate (job_st s k),
     j_tube (job_st s k), body (job_st s k)), live_jobs s, jobhash s, next_id s, \<lambda>t. (t_name (tube_st s t), ms_items (waiting_conns (tube_st s t))),
     lists s, wal s, file_st s)"



lemma cview_upds [simp]:
  "cview j (upd_job k (\<lambda>x. x\<lparr>heap_index := i\<rparr>) s) = cview j s" "cview j (upd_job j (\<lambda>x. x\<lparr>reserver := None\<rparr>) s) = cview j s"
  "cview j (upd_job j (\<lambda>x. x\<lparr>r_deadline_at := d\<rparr>) s) = cview j s" "cview j (upd_job j (\<lambda>x. x\<lparr>r_state := st\<rparr>) s) = cview j s"
  "cview j (upd_tube t (\<lambda>x. x\<lparr>ready := h\<rparr>) s) = cview j s" "cview j (upd_tube t (\<lambda>x. x\<lparr>delay := h\<rparr>) s) = cview j s"
  "cview j (upd_stat t g s) = cview j s" "cview j (upd_global g s) = cview j s" "cview j (s\<lparr>ready_ct := n\<rparr>) = cview j s"
  by (auto simp: cview_def upd_job_def upd_tube_def upd_stat_def upd_global_def Jobrec.truncate_def fun_eq_iff)






section \<open>One job of the list\<close>










section \<open>The loop\<close>


section \<open>From the reader to the loop\<close>












end
