(* ===== verification/Bean_Space.thy ===== *)
theory Bean_Space
  imports Bean_Wal "HOL-Library.Sublist"
begin

text \<open>
  The contract that \<open>walg.c\<close> states for \<open>balance\<close>: reserved space is moved between files but neither created nor
  destroyed, afterwards the current file has room for the record, and what is reserved in each file is a number of whole
  deletion records, so that no record is ever split.
\<close>

section \<open>Files in use\<close>

abbreviation fresv :: "server \<Rightarrow> addr \<Rightarrow> int" where "fresv s f \<equiv> f_resv (file_st s f)"

abbreviation ffree :: "server \<Rightarrow> addr \<Rightarrow> int" where "ffree s f \<equiv> f_free (file_st s f)"

text \<open>The files from the current one on.\<close>

definition live_files :: "server \<Rightarrow> addr list" where
  "live_files s = dropWhile (\<lambda>f. Some f \<noteq> wal_cur (wal s)) (wal_files (wal s))"

definition resv_sum :: "server \<Rightarrow> addr list \<Rightarrow> int" where
  "resv_sum s fs = sum_list (map (fresv s) fs)"

text \<open>The chain of files: \<open>b # fs\<close> are the files from \<open>b\<close> on, each open and with no negative count.\<close>

definition chain :: "addr list \<Rightarrow> addr \<Rightarrow> addr list \<Rightarrow> server \<Rightarrow> bool" where
  "chain pre b fs s \<longleftrightarrow>
     wal_files (wal s) = pre @ b # fs \<and> distinct (pre @ b # fs) \<and> (\<forall>f \<in> set (pre @ b # fs). f < file_brk s) \<and>
     (\<forall>f \<in> set (b # fs). 0 \<le> fresv s f \<and> 0 \<le> ffree s f \<and> 1 \<le> f_refs (file_st s f)) \<and> 88 \<le> filesize (wal s)"

lemma chainD:
  assumes "chain pre b fs s"
  shows "wal_files (wal s) = pre @ b # fs" "distinct (pre @ b # fs)" "\<And>f. f \<in> set (pre @ b # fs) \<Longrightarrow> f < file_brk s"
    "\<And>f. f \<in> set (b # fs) \<Longrightarrow> 0 \<le> fresv s f" "\<And>f. f \<in> set (b # fs) \<Longrightarrow> 0 \<le> ffree s f"
    "\<And>f. f \<in> set (b # fs) \<Longrightarrow> 1 \<le> f_refs (file_st s f)" "88 \<le> filesize (wal s)"
  using assms unfolding chain_def by blast+

lemma chain_tail: "chain pre b fs s \<Longrightarrow> wal_tail s = last (b # fs)"
  using chainD(1) [of pre b fs s] by (simp add: wal_tail_def)

lemma next_file_mid: "distinct (pre @ b # fs) \<Longrightarrow> next_file (pre @ b # fs) b = (case fs of [] \<Rightarrow> None | f # _ \<Rightarrow> Some f)"
proof (induction pre)
  case Nil
  then show ?case by (cases fs) simp_all
next
  case (Cons p pre)
  then have "p \<noteq> b" by auto
  then have "next_file ((p # pre) @ b # fs) b = next_file (pre @ b # fs) b" by (cases "pre @ b # fs") auto
  then show ?case using Cons by simp
qed

lemma chain_next: "chain pre b fs s \<Longrightarrow> next_file (wal_files (wal s)) b = (case fs of [] \<Rightarrow> None | f # _ \<Rightarrow> Some f)"
  using next_file_mid [of pre b fs] chainD(1,2) [of pre b fs s] by simp

lemma chain_shift: "chain pre b (f # fs) s \<Longrightarrow> chain (pre @ [b]) f fs s"
  by (simp add: chain_def)

lemma live_chain: "chain pre b fs s \<Longrightarrow> wal_cur (wal s) = Some b \<Longrightarrow> live_files s = b # fs"
proof -
  assume c: "chain pre b fs s" "wal_cur (wal s) = Some b"
  have "dropWhile (\<lambda>f. Some f \<noteq> Some b) (pre @ b # fs) = b # fs" if "b \<notin> set pre" using that by (induction pre) auto
  then show ?thesis using chainD(1,2) [OF c(1)] c(2) by (simp add: live_files_def)
qed

section \<open>Moving space\<close>

lemma moveresv_fields [simp]:
  "wal (moveresv t f n s) = wal s" "file_brk (moveresv t f n s) = file_brk s" "f_refs (file_st (moveresv t f n s) x) = f_refs (file_st s x)"
  "allocs (moveresv t f n s) = allocs s" "sys (moveresv t f n s) = sys s"
  by (simp_all add: moveresv_def upd_file_def)

lemma moveresv_at:
  assumes "t \<noteq> f"
  shows "fresv (moveresv t f n s) x = (if x = t then fresv s x + n else if x = f then fresv s x - n else fresv s x)"
    "ffree (moveresv t f n s) x = (if x = t then ffree s x - n else if x = f then ffree s x + n else ffree s x)"
  using assms by (simp_all add: moveresv_def upd_file_def)

lemma resv_sum_point:
  assumes "distinct fs" "\<And>x. x \<in> set fs \<Longrightarrow> fresv s' x = fresv s x + (if x = a then n else 0)"
  shows "resv_sum s' fs = resv_sum s fs + (if a \<in> set fs then n else 0)"
  using assms
proof (induction fs)
  case (Cons f fs)
  then show ?case by (cases "f = a") (auto simp: resv_sum_def)
qed (simp add: resv_sum_def)

lemma resv_sum_cong: "(\<And>x. x \<in> set fs \<Longrightarrow> fresv s' x = fresv s x) \<Longrightarrow> resv_sum s' fs = resv_sum s fs"
  by (simp add: resv_sum_def cong: map_cong)

lemma moveresv_sum:
  assumes "t \<noteq> f" "distinct fs" "t \<in> set fs" "f \<in> set fs"
  shows "resv_sum (moveresv t f n s) fs = resv_sum s fs"
proof -
  let ?s1 = "upd_file f (\<lambda>x. x\<lparr>f_resv := f_resv x - n, f_free := f_free x + n\<rparr>) s"
  have "resv_sum ?s1 fs = resv_sum s fs - n" using resv_sum_point [of fs ?s1 s f "- n"] assms by (simp add: upd_file_def)
  moreover have "resv_sum (moveresv t f n s) fs = resv_sum ?s1 fs + n"
    using resv_sum_point [of fs "moveresv t f n s" ?s1 t n] assms by (simp add: moveresv_def upd_file_def)
  ultimately show ?thesis by simp
qed

text \<open>A move keeps the chain when the source has the space reserved and the target has it free.\<close>

lemma chain_moveresv:
  assumes c: "chain pre b fs s" and m: "t \<noteq> f" "t \<in> set (b # fs)" "f \<in> set (b # fs)" "0 \<le> n" "n \<le> fresv s f" "n \<le> ffree s t"
  shows "chain pre b fs (moveresv t f n s)" "resv_sum (moveresv t f n s) (b # fs) = resv_sum s (b # fs)"
proof -
  show "resv_sum (moveresv t f n s) (b # fs) = resv_sum s (b # fs)"
    using moveresv_sum [OF m(1) _ m(2,3)] chainD(2) [OF c] by simp
  have "0 \<le> fresv (moveresv t f n s) x \<and> 0 \<le> ffree (moveresv t f n s) x \<and> 1 \<le> f_refs (file_st (moveresv t f n s) x)"
    if "x \<in> set (b # fs)" for x
    unfolding moveresv_at [OF m(1)] moveresv_fields using chainD(4-6) [OF c that] m by auto
  then show "chain pre b fs (moveresv t f n s)" using c by (simp add: chain_def)
qed


section \<open>A new file\<close>

text \<open>Nothing that matters here has changed.\<close>

definition wsame :: "server \<Rightarrow> server \<Rightarrow> bool" where
  "wsame s s' \<longleftrightarrow> wal s' = wal s \<and> file_brk s \<le> file_brk s' \<and> (\<forall>x < file_brk s. file_st s' x = file_st s x)"

lemma wsame_chain:
  assumes w: "wsame s s'" and c: "chain pre b fs s"
  shows "chain pre b fs s'" "\<And>x. x \<in> set (pre @ b # fs) \<Longrightarrow> file_st s' x = file_st s x" "wal s' = wal s"
proof -
  show e: "file_st s' x = file_st s x" if "x \<in> set (pre @ b # fs)" for x
    using w chainD(3) [OF c that] by (simp add: wsame_def)
  show "wal s' = wal s" using w by (simp add: wsame_def)
  have "x < file_brk s'" if "x \<in> set (pre @ b # fs)" for x
    using w chainD(3) [OF c that] by (auto simp: wsame_def)
  moreover have "\<forall>x \<in> set (b # fs). file_st s' x = file_st s x" using e by simp
  ultimately show "chain pre b fs s'" using c w by (simp add: chain_def wsame_def)
qed

definition env_ok :: "server \<Rightarrow> bool" where
  "env_ok s \<longleftrightarrow> allocs s = [] \<and> sys s = []"

lemma syscall_outcome: "\<exists>b ys. syscall s = (b, s\<lparr>sys := ys\<rparr>) \<and> (sys s = [] \<longrightarrow> b \<and> ys = [])"
  by (cases "sys s") (auto simp: syscall_def intro: exI [of _ "[]"])

lemma malloc_outcome: "\<exists>b bs. malloc s = (b, s\<lparr>allocs := bs\<rparr>) \<and> (allocs s = [] \<longrightarrow> b \<and> bs = [])"
  by (cases "allocs s") (auto simp: malloc_def intro: exI [of _ "[]"])

lemma filewopen_cases:
  assumes "filewopen f s = s'"
  obtains (Open) ys where "s' = upd_file f (\<lambda>x. x\<lparr>iswopen := True, f_refs := f_refs x + 1, f_free := filesize (wal s) - sizeof_int, f_resv := 0\<rparr>) (s\<lparr>sys := ys\<rparr>)"
      "sys s = [] \<longrightarrow> ys = []"
  | (Closed) ys where "s' = s\<lparr>sys := ys\<rparr>" "sys s \<noteq> []"
proof -
  obtain b1 y1 where 1: "syscall s = (b1, s\<lparr>sys := y1\<rparr>)" "sys s = [] \<longrightarrow> b1 \<and> y1 = []" using syscall_outcome [of s] by blast
  obtain b2 y2 where 2: "syscall (s\<lparr>sys := y1\<rparr>) = (b2, s\<lparr>sys := y2\<rparr>)" "y1 = [] \<longrightarrow> b2 \<and> y2 = []"
    using syscall_outcome [of "s\<lparr>sys := y1\<rparr>"] by auto
  obtain b3 y3 where 3: "syscall (s\<lparr>sys := y2\<rparr>) = (b3, s\<lparr>sys := y3\<rparr>)" "y2 = [] \<longrightarrow> b3 \<and> y3 = []"
    using syscall_outcome [of "s\<lparr>sys := y2\<rparr>"] by auto
  have e: "s' = (if \<not> b1 then s\<lparr>sys := y1\<rparr> else if \<not> b2 then s\<lparr>sys := y2\<rparr> else if \<not> b3 then s\<lparr>sys := y3\<rparr> else
      upd_file f (\<lambda>x. x\<lparr>f_free := filesize (wal s) - sizeof_int, f_resv := 0\<rparr>) (fileincref (Some f) (upd_file f (\<lambda>x. x\<lparr>iswopen := True\<rparr>) (s\<lparr>sys := y3\<rparr>))))"
    using assms by (simp add: filewopen_def 1 2 3 split: bool.splits)
  show thesis
  proof (cases "b1 \<and> b2 \<and> b3")
    case True
    then have "s' = upd_file f (\<lambda>x. x\<lparr>iswopen := True, f_refs := f_refs x + 1, f_free := filesize (wal s) - sizeof_int, f_resv := 0\<rparr>) (s\<lparr>sys := y3\<rparr>)"
      using e by (simp add: upd_file_def fileincref_def)
    then show thesis using Open 1 2 3 by blast
  next
    case False
    then have "sys s \<noteq> []" using 1 2 3 by blast
    moreover have "\<exists>y. s' = s\<lparr>sys := y\<rparr>" using e False by (metis (full_types))
    ultimately show thesis using Closed by blast
  qed
qed

lemma makenextfile_cases:
  assumes e: "makenextfile s = (ok, s')" and c: "chain pre b fs s"
  obtains (New) a where "ok" "a = file_brk s" "chain pre b (fs @ [a]) s'" "fresv s' a = 0" "ffree s' a = filesize (wal s) - 4"
      "\<And>x. x \<in> set (pre @ b # fs) \<Longrightarrow> file_st s' x = file_st s x" "wal_cur (wal s') = wal_cur (wal s)" "wal_resv (wal s') = wal_resv (wal s)"
      "filesize (wal s') = filesize (wal s)" "env_ok s \<longrightarrow> env_ok s'" "a \<notin> set (pre @ b # fs)"
  | (Fail) "\<not> ok" "wsame s s'" "\<not> env_ok s"
proof -
  let ?a = "file_brk s"
  have fr: "?a \<notin> set (pre @ b # fs)" using chainD(3) [OF c] by blast
  obtain b1 m1 where 1: "malloc s = (b1, s\<lparr>allocs := m1\<rparr>)" "allocs s = [] \<longrightarrow> b1 \<and> m1 = []" using malloc_outcome [of s] by blast
  obtain b2 m2 where 2: "malloc (s\<lparr>allocs := m1\<rparr>) = (b2, s\<lparr>allocs := m2\<rparr>)" "m1 = [] \<longrightarrow> b2 \<and> m2 = []"
    using malloc_outcome [of "s\<lparr>allocs := m1\<rparr>"] by auto
  consider (m) bs where "makenextfile s = (False, s\<lparr>allocs := bs\<rparr>)" "allocs s \<noteq> []"
    | (f) bs s4 where "filewopen ?a (s\<lparr>allocs := bs, file_brk := Suc ?a, file_st := (file_st s)(?a := zero_file\<lparr>f_seq := wal_next (wal s)\<rparr>)\<rparr>) = s4"
        "allocs s = [] \<longrightarrow> bs = []"
        "makenextfile s = (if \<not> iswopen (file_st s4 ?a) then (False, s4) else (True, fileadd ?a (upd_wal (\<lambda>w. w\<lparr>wal_next := wal_next w + 1\<rparr>) s4)))"
  proof (cases "b1 \<and> b2")
    case True
    then have "b1" "b2" by blast+
    show thesis by (rule f [of m2, OF refl]) (use 1 2 \<open>b1\<close> \<open>b2\<close> in \<open>simp_all add: makenextfile_def Let_def\<close>)
  next
    case False
    then have "allocs s \<noteq> []" using 1 2 by blast
    show thesis
    proof (cases b1)
      case True
      then have "\<not> b2" using False by blast
      then have "makenextfile s = (False, s\<lparr>allocs := m2\<rparr>)" using 1(1) 2(1) True by (simp add: makenextfile_def)
      then show thesis by (rule m) fact
    next
      case False
      then have "makenextfile s = (False, s\<lparr>allocs := m1\<rparr>)" using 1(1) by (simp add: makenextfile_def)
      then show thesis by (rule m) fact
    qed
  qed
  then show thesis
  proof cases
    case m
    then show thesis using Fail e by (auto simp: wsame_def env_ok_def)
  next
    case f
    let ?s3 = "s\<lparr>allocs := bs, file_brk := Suc ?a, file_st := (file_st s)(?a := zero_file\<lparr>f_seq := wal_next (wal s)\<rparr>)\<rparr>"
    from f(1) show thesis
    proof (cases rule: filewopen_cases)
      case (Open ys)
      have s': "ok" "s' = fileadd ?a (upd_wal (\<lambda>w. w\<lparr>wal_next := wal_next w + 1\<rparr>) s4)" using e f(3) Open(1) by (simp_all add: upd_file_def)
      have at: "file_st s' = (file_st s)(?a := zero_file\<lparr>f_seq := wal_next (wal s), iswopen := True, f_refs := 1, f_free := filesize (wal s) - 4, f_resv := 0\<rparr>)"
        using Open(1) by (simp add: s'(2) fileadd_def upd_file_def zero_file_def)
      have w: "wal_files (wal s') = pre @ b # fs @ [?a]" "wal_cur (wal s') = wal_cur (wal s)" "wal_resv (wal s') = wal_resv (wal s)"
        "filesize (wal s') = filesize (wal s)" "file_brk s' = Suc ?a" "env_ok s \<longrightarrow> env_ok s'"
        using Open f(2) chainD(1) [OF c] by (simp_all add: s'(2) fileadd_def upd_file_def env_ok_def)
      have lt: "x < Suc ?a" if "x \<in> set (pre @ b # fs @ [?a])" for x using that chainD(3) [OF c, of x] by auto
      have nn: "0 \<le> fresv s' x \<and> 0 \<le> ffree s' x \<and> 1 \<le> f_refs (file_st s' x)" if "x \<in> set (b # fs @ [?a])" for x
        using that chainD(4-6) [OF c, of x] chainD(7) [OF c] fr by (cases "x = ?a") (auto simp: at)
      have ck: "chain pre b (fs @ [?a]) s'" using w(1,4,5) chainD(2,7) [OF c] fr lt nn unfolding chain_def by simp
      show thesis by (rule New [OF s'(1) refl ck]) (use w fr in \<open>auto simp: at\<close>)
    next
      case (Closed ys)
      have ni: "\<not> iswopen (file_st s4 ?a)" using Closed(1) by (simp add: zero_file_def)
      then have s': "\<not> ok" "s' = s4" using e f(3) by simp_all
      have "wsame s s'" using Closed(1) s'(2) by (simp add: wsame_def)
      moreover have "\<not> env_ok s" using Closed(2) by (simp add: env_ok_def)
      ultimately show thesis using Fail s' by blast
    qed
  qed
qed

lemma needfree_cases:
  assumes e: "needfree m s = (r, s')" and c: "chain pre b fs s"
  obtains (Has) "r = m" "s' = s" "m \<le> ffree s (last (b # fs))"
  | (New) a where "r = m" "a = file_brk s" "chain pre b (fs @ [a]) s'" "fresv s' a = 0" "ffree s' a = filesize (wal s) - 4"
      "\<And>x. x \<in> set (pre @ b # fs) \<Longrightarrow> file_st s' x = file_st s x" "wal_cur (wal s') = wal_cur (wal s)" "wal_resv (wal s') = wal_resv (wal s)"
      "filesize (wal s') = filesize (wal s)" "env_ok s \<longrightarrow> env_ok s'" "a \<notin> set (pre @ b # fs)" "ffree s (last (b # fs)) < m"
  | (Fail) "r = 0" "wsame s s'" "\<not> env_ok s" "ffree s (last (b # fs)) < m"
proof (cases "ffree s (last (b # fs)) \<ge> m")
  case True
  then show thesis using Has e by (simp add: needfree_def chain_tail [OF c])
next
  case False
  obtain ok s1 where m: "makenextfile s = (ok, s1)" by (rule prod.exhaust)
  from m c show thesis
  proof (cases rule: makenextfile_cases)
    case (New a)
    then show thesis using that(2) [of a] e False m by (simp add: needfree_def chain_tail [OF c])
  next
    case Fail
    then show thesis using that(3) e False m by (simp add: needfree_def chain_tail [OF c])
  qed
qed


section \<open>Balancing the rest of the chain\<close>

text \<open>What \<open>balancerest\<close> ensures for the chain from \<open>b\<close> on; \<open>new\<close> are the files that it adds.\<close>

definition rest_post :: "addr list \<Rightarrow> addr \<Rightarrow> addr list \<Rightarrow> int \<Rightarrow> server \<Rightarrow> bool \<Rightarrow> server \<Rightarrow> bool" where
  "rest_post pre b fs n s ok s' \<longleftrightarrow>
     (\<exists>new. chain pre b (fs @ new) s' \<and> resv_sum s' (b # fs @ new) = resv_sum s (b # fs) \<and> n \<le> fresv s' b \<and>
        (ok \<longrightarrow> (fresv s' b - n) mod 84 = 0 \<and> (\<forall>x \<in> set (fs @ new). fresv s' x mod 84 = 0))) \<and>
     wal_cur (wal s') = wal_cur (wal s) \<and> wal_resv (wal s') = wal_resv (wal s) \<and> filesize (wal s') = filesize (wal s) \<and>
     (\<forall>x \<in> set pre. file_st s' x = file_st s x) \<and> (env_ok s \<longrightarrow> env_ok s')"

lemma rest_post_trans:
  assumes "rest_post pre b (fs @ new) n t ok s'" "resv_sum t (b # fs @ new) = resv_sum s (b # fs)"
    "wal_cur (wal t) = wal_cur (wal s)" "wal_resv (wal t) = wal_resv (wal s)" "filesize (wal t) = filesize (wal s)"
    "\<forall>x \<in> set pre. file_st t x = file_st s x" "env_ok s \<longrightarrow> env_ok t"
  shows "rest_post pre b fs n s ok s'"
  using assms unfolding rest_post_def by (metis append.assoc)

lemma mod84:
  "(a + b) mod 84 = 0 \<Longrightarrow> a mod 84 = 0 \<Longrightarrow> b mod 84 = (0 :: int)" "(a + (84 - (a - n) mod 84) - n) mod 84 = (0 :: int)"
  "(a - (a - n) mod 84 - n) mod 84 = (0 :: int)"
proof -
  show "(a + b) mod 84 = 0 \<Longrightarrow> a mod 84 = 0 \<Longrightarrow> b mod 84 = (0 :: int)" by (metis add_0 mod_add_left_eq)
  have d: "a - n - (a - n) mod 84 = 84 * ((a - n) div 84)" by (rule minus_mod_eq_mult_div)
  have "a + (84 - (a - n) mod 84) - n = 84 * ((a - n) div 84 + 1)" using d by (simp add: algebra_simps)
  then show "(a + (84 - (a - n) mod 84) - n) mod 84 = 0" by (simp only: mod_mult_self1_is_0)
  have "a - (a - n) mod 84 - n = 84 * ((a - n) div 84)" using d by simp
  then show "(a - (a - n) mod 84 - n) mod 84 = 0" by (simp only: mod_mult_self1_is_0)
qed

text \<open>One step: the file \<open>b\<close> is in order, and what follows is balanced.\<close>

lemma rest_post_step:
  assumes c: "chain pre b fs s" and n: "n \<le> fresv s b" "(fresv s b - n) mod 84 = 0" "(resv_sum s (b # fs) - n) mod 84 = 0"
    and e: "balancerest k (next_file (wal_files (wal s)) b) 0 s = (ok, s')"
    and IH: "\<And>f gs ok s'. fs = f # gs \<Longrightarrow> resv_sum s fs mod 84 = 0 \<Longrightarrow> balancerest k (Some f) 0 s = (ok, s') \<Longrightarrow> rest_post (pre @ [b]) f gs 0 s ok s'"
  shows "rest_post pre b fs n s ok s'"
proof (cases fs)
  case Nil
  have "(ok, s') = (True, s)" using e chain_next [OF c] Nil by simp
  then show ?thesis using c n Nil unfolding rest_post_def by (intro conjI exI [of _ "[]"]) simp_all
next
  case (Cons f gs)
  have sm: "resv_sum s (b # fs) - n = (fresv s b - n) + resv_sum s fs" by (simp add: resv_sum_def)
  have "resv_sum s fs mod 84 = 0" by (rule mod84(1) [OF n(3) [unfolded sm] n(2)])
  moreover have "balancerest k (Some f) 0 s = (ok, s')" using e chain_next [OF c] Cons by simp
  ultimately have p: "rest_post (pre @ [b]) f gs 0 s ok s'" by (rule IH [OF Cons])
  then obtain new where new: "chain (pre @ [b]) f (gs @ new) s'" "resv_sum s' (f # gs @ new) = resv_sum s (f # gs)"
    "ok \<longrightarrow> fresv s' f mod 84 = 0 \<and> (\<forall>x \<in> set (gs @ new). fresv s' x mod 84 = 0)" by (auto simp: rest_post_def)
  have b: "file_st s' b = file_st s b" "\<forall>x \<in> set pre. file_st s' x = file_st s x" using p by (auto simp: rest_post_def)
  have c': "chain pre b (fs @ new) s'"
    using new(1) chainD(4-6) [OF c, of b] b(1) Cons by (auto simp: chain_def)
  have "resv_sum s' (b # fs @ new) = resv_sum s (b # fs)" using new(2) b(1) Cons by (simp add: resv_sum_def)
  then show ?thesis using p c' new(3) n(1,2) b Cons unfolding rest_post_def by auto
qed

lemma balancerest_ok:
  assumes "chain pre b fs s" "0 \<le> n" "n \<le> fresv s b" "(resv_sum s (b # fs) - n) mod 84 = 0" "balancerest k (Some b) n s = (ok, s')"
  shows "rest_post pre b fs n s ok s'"
  using assms
proof (induction k arbitrary: pre b fs n s ok s')
  case 0
  then show ?case by (auto simp: rest_post_def intro!: exI [of _ "[]"])
next
  case (Suc k)
  note c = Suc.prems(1) and n = Suc.prems(2-4)
  let ?r = "(fresv s b - n) mod 84"
  have rc: "rem_c (fresv s b - n) 84 = ?r" using n(2) by (simp add: rem_c_def sgn_if)
  have step: "rest_post pre b gs n t ok' s''"
    if "chain pre b gs t" "n \<le> fresv t b" "(fresv t b - n) mod 84 = 0" "(resv_sum t (b # gs) - n) mod 84 = 0"
      "balancerest k (next_file (wal_files (wal t)) b) 0 t = (ok', s'')" for gs t ok' s''
  proof (rule rest_post_step [OF that])
    fix f hs ok s' assume h: "gs = f # hs" "resv_sum t gs mod 84 = 0" "balancerest k (Some f) 0 t = (ok, s')"
    have c': "chain (pre @ [b]) f hs t" using chain_shift that(1) h(1) by blast
    show "rest_post (pre @ [b]) f hs 0 t ok s'"
      by (rule Suc.IH [OF c' order_refl _ _ h(3)]) (use h chainD(4) [OF c', of f] in auto)
  qed
  show ?case
  proof (cases "?r = 0")
    case True
    have e: "balancerest k (next_file (wal_files (wal s)) b) 0 s = (ok, s')" using Suc.prems(5) True by (simp add: rc Let_def)
    show ?thesis by (rule step [OF c n(2) True n(3) e])
  next
    case False
    have ne: "fs \<noteq> []" using False n(3) by (auto simp: resv_sum_def)
    let ?t = "last fs" and ?c = "84 - ?r"
    have t: "wal_tail s = ?t" "?t \<in> set fs" "?t \<noteq> b" using chain_tail [OF c] ne chainD(2) [OF c] by auto
    have rb: "0 \<le> ?r" "?r < 84" by simp_all
    show ?thesis
    proof (cases "fresv s ?t \<ge> ?c \<and> ffree s b \<ge> ?c")
      case True
      let ?s1 = "moveresv b ?t ?c s"
      have e: "balancerest k (next_file (wal_files (wal ?s1)) b) 0 ?s1 = (ok, s')"
        using Suc.prems(5) False True by (simp add: rc Let_def t(1))
      have m: "chain pre b fs ?s1" "resv_sum ?s1 (b # fs) = resv_sum s (b # fs)"
        using chain_moveresv [OF c, of b ?t ?c] t True rb by auto
      have fb: "fresv ?s1 b = fresv s b + ?c" using moveresv_at(1) [of b ?t ?c s b] t(3) by simp
      have "(fresv ?s1 b - n) mod 84 = 0" unfolding fb by (rule mod84(2))
      from step [OF m(1) _ this _ e] have "rest_post pre b fs n ?s1 ok s'" using fb rb n m(2) by simp
      moreover have "\<forall>x \<in> set pre. file_st ?s1 x = file_st s x"
        using t(2) chainD(2) [OF c] by (auto simp: moveresv_def upd_file_def)
      ultimately show ?thesis using rest_post_trans [where new = "[]" and t = ?s1] m(2) by (simp add: env_ok_def)
    next
      case nc: False
      obtain m s1 where nf: "needfree ?r s = (m, s1)" by (rule prod.exhaust)
      have e: "(if m \<noteq> ?r then (False, s1) else balancerest k (next_file (wal_files (wal (moveresv (wal_tail s1) b ?r s1))) b) 0 (moveresv (wal_tail s1) b ?r s1)) = (ok, s')"
        using Suc.prems(5) False nc by (auto simp: rc Let_def t(1) nf split: if_splits)
      have go: "rest_post pre b fs n s ok s'" if m: "m = ?r" and s1: "chain pre b (fs @ new) s1" "resv_sum s1 (b # fs @ new) = resv_sum s (b # fs)"
          "?r \<le> ffree s1 (last (fs @ new))" "fresv s1 b = fresv s b" "\<forall>x \<in> set pre. file_st s1 x = file_st s x"
          "wal_cur (wal s1) = wal_cur (wal s)" "wal_resv (wal s1) = wal_resv (wal s)" "filesize (wal s1) = filesize (wal s)" "env_ok s \<longrightarrow> env_ok s1" for new
      proof -
        let ?u = "last (fs @ new)" and ?s2 = "moveresv (last (fs @ new)) b ?r s1"
        have ne': "fs @ new \<noteq> []" using ne by simp
        have uin: "?u \<in> set (fs @ new)" by (rule last_in_set [OF ne'])
        moreover have "b \<notin> set (fs @ new)" using chainD(2) [OF s1(1)] by simp
        ultimately have "?u \<noteq> b" by metis
        then have u: "wal_tail s1 = ?u" "?u \<in> set (fs @ new)" "?u \<noteq> b" using chain_tail [OF s1(1), unfolded last_ConsR [OF ne']] uin by simp_all
        have le: "?r \<le> fresv s b - n" using n(2) by (simp add: zmod_le_nonneg_dividend)
        have mv: "chain pre b (fs @ new) ?s2" "resv_sum ?s2 (b # fs @ new) = resv_sum s1 (b # fs @ new)"
          using chain_moveresv [OF s1(1), of ?u b ?r] u le s1(3,4) n(1) by auto
        have fb: "fresv ?s2 b = fresv s b - ?r" using moveresv_at(1) [of ?u b ?r s1 b] u(3) s1(4) by simp
        have al: "(fresv ?s2 b - n) mod 84 = 0" unfolding fb by (rule mod84(3))
        have "balancerest k (next_file (wal_files (wal ?s2)) b) 0 ?s2 = (ok, s')" using e m u(1) by simp
        from step [OF mv(1) _ al _ this] have p: "rest_post pre b (fs @ new) n ?s2 ok s'" using fb le n(3) mv(2) s1(2) by simp
        have pre: "\<forall>x \<in> set pre. file_st ?s2 x = file_st s x"
          using u(2) s1(5) chainD(2) [OF s1(1)] by (auto simp: moveresv_def upd_file_def)
        show ?thesis by (rule rest_post_trans [OF p]) (use mv(2) s1 pre in \<open>auto simp: env_ok_def\<close>)
      qed
      from nf c show ?thesis
      proof (cases rule: needfree_cases)
        case Has
        then show ?thesis using go [of "[]"] c ne by simp
      next
        case (New a)
        have fr1: "file_st s1 x = file_st s x" if "x \<in> set (b # fs)" for x by (rule New(6)) (use that in auto)
        have fr2: "\<forall>x \<in> set pre. file_st s1 x = file_st s x" by (simp add: New(6))
        note fr = fr1 fr2
        have "resv_sum s1 (b # fs @ [a]) = resv_sum s1 (b # fs) + fresv s1 a" by (simp add: resv_sum_def)
        then have "resv_sum s1 (b # fs @ [a]) = resv_sum s (b # fs)" using resv_sum_cong [of "b # fs" s1 s] fr(1) New(4) by simp
        moreover have "?r \<le> ffree s1 (last (fs @ [a]))" using New(5) rb chainD(7) [OF c] by simp
        ultimately show ?thesis using go [of "[a]"] New fr by simp
      next
        case Fail
        then have "ok = False" "s' = s1" using e False by auto
        moreover note w = wsame_chain [OF Fail(2) c]
        moreover have "resv_sum s1 (b # fs) = resv_sum s (b # fs)" by (rule resv_sum_cong) (use w(2) in auto)
        moreover have "fresv s1 b = fresv s b" using w(2) [of b] by simp
        moreover have "\<forall>x \<in> set pre. file_st s1 x = file_st s x" using w(2) by simp
        ultimately show ?thesis using Fail(3) n unfolding rest_post_def by (intro conjI exI [of _ "[]"]) simp_all
      qed
    qed
  qed
qed


text \<open>
  Without failures \<open>balancerest\<close> succeeds: the bound of the recursion is enough, and at most one file is added, for the space that
  is moved to a new file is less than a record for each file.
\<close>

lemma balancerest_succeeds:
  assumes "chain pre b fs s" "0 \<le> n" "n \<le> fresv s b" "(resv_sum s (b # fs) - n) mod 84 = 0" "env_ok s"
    "84 * int (length fs + 2) \<le> filesize (wal s) - 4"
    "length fs + (if 84 * int (length fs + 1) \<le> ffree s (last (b # fs)) then 1 else 2) \<le> k"
  shows "fst (balancerest k (Some b) n s)"
  using assms
proof (induction k arbitrary: pre b fs n s)
  case 0
  then show ?case by (simp split: if_splits)
next
  case (Suc k)
  note c = Suc.prems(1) and n = Suc.prems(2-4) and fs4 = Suc.prems(6) and en = Suc.prems(5)
  let ?r = "(fresv s b - n) mod 84"
  have rc: "rem_c (fresv s b - n) 84 = ?r" using n(2) by (simp add: rem_c_def sgn_if)
  have rb: "0 \<le> ?r" "?r < 84" by simp_all
  have step: "fst (balancerest k (next_file (wal_files (wal t)) b) 0 t)"
    if t: "chain pre b gs t" "(fresv t b - n) mod 84 = 0" "(resv_sum t (b # gs) - n) mod 84 = 0" "env_ok t"
      "84 * int (length gs + 1) \<le> filesize (wal t) - 4"
      "gs \<noteq> [] \<Longrightarrow> length gs + (if 84 * int (length gs) \<le> ffree t (last gs) then 0 else 1) \<le> k" for gs t
  proof (cases gs)
    case Nil
    then show ?thesis using chain_next [OF t(1)] by simp
  next
    case (Cons f hs)
    have c': "chain (pre @ [b]) f hs t" using chain_shift t(1) Cons by blast
    have sm: "resv_sum t (b # gs) - n = (fresv t b - n) + resv_sum t gs" by (simp add: resv_sum_def)
    have "resv_sum t gs mod 84 = 0" by (rule mod84(1) [OF t(3) [unfolded sm] t(2)])
    then have "fst (balancerest k (Some f) 0 t)"
      by (intro Suc.IH [OF c' order_refl]) (use t(4,5,6) Cons chainD(4) [OF c', of f] in auto)
    then show ?thesis using chain_next [OF t(1)] Cons by simp
  qed
  show ?case
  proof (cases "?r = 0")
    case True
    have "balancerest (Suc k) (Some b) n s = balancerest k (next_file (wal_files (wal s)) b) 0 s" using True by (simp add: rc Let_def)
    moreover have "fst (balancerest k (next_file (wal_files (wal s)) b) 0 s)"
      by (rule step [OF c True n(3) en]) (use fs4 Suc.prems(7) in \<open>auto split: if_splits\<close>)
    ultimately show ?thesis by simp
  next
    case False
    have ne: "fs \<noteq> []" using False n(3) by (auto simp: resv_sum_def)
    let ?t = "last fs" and ?c = "84 - ?r"
    have t: "wal_tail s = ?t" "?t \<in> set fs" "?t \<noteq> b" using chain_tail [OF c] ne chainD(2) [OF c] by auto
    have le: "?r \<le> fresv s b - n" using n(2) by (simp add: zmod_le_nonneg_dividend)
    show ?thesis
    proof (cases "fresv s ?t \<ge> ?c \<and> ffree s b \<ge> ?c")
      case True
      let ?s1 = "moveresv b ?t ?c s"
      have m: "chain pre b fs ?s1" "resv_sum ?s1 (b # fs) = resv_sum s (b # fs)"
        using chain_moveresv [OF c, of b ?t ?c] t True rb by auto
      have fb: "fresv ?s1 b = fresv s b + ?c" "ffree ?s1 ?t = ffree s ?t + ?c"
        using moveresv_at [of b ?t ?c s] t(3) by simp_all
      have al: "(fresv ?s1 b - n) mod 84 = 0" unfolding fb by (rule mod84(2))
      have "fst (balancerest k (next_file (wal_files (wal ?s1)) b) 0 ?s1)"
        by (rule step [OF m(1) al]) (use n(3) m(2) en fs4 Suc.prems(7) ne fb(2) rb in \<open>auto simp: env_ok_def split: if_splits\<close>)
      then show ?thesis using False True by (simp add: rc Let_def t(1))
    next
      case nc: False
      obtain m s1 where nf: "needfree ?r s = (m, s1)" by (rule prod.exhaust)
      have u: "balancerest (Suc k) (Some b) n s = (if m \<noteq> ?r then (False, s1)
          else balancerest k (next_file (wal_files (wal (moveresv (wal_tail s1) b ?r s1))) b) 0 (moveresv (wal_tail s1) b ?r s1))"
        using False nc by (auto simp: rc Let_def t(1) nf)
      from nf c show ?thesis
      proof (cases rule: needfree_cases)
        case Has
        let ?s2 = "moveresv ?t b ?r s"
        have mv: "chain pre b fs ?s2" "resv_sum ?s2 (b # fs) = resv_sum s (b # fs)"
          using chain_moveresv [OF c, of ?t b ?r] t le n(1) rb Has(3) ne by auto
        have fb: "fresv ?s2 b = fresv s b - ?r" "ffree ?s2 ?t = ffree s ?t - ?r" using moveresv_at [of ?t b ?r s] t(3) by simp_all
        have al: "(fresv ?s2 b - n) mod 84 = 0" unfolding fb by (rule mod84(3))
        have "fst (balancerest k (next_file (wal_files (wal ?s2)) b) 0 ?s2)"
          by (rule step [OF mv(1) al]) (use n(3) mv(2) en fs4 Suc.prems(7) ne fb(2) rb in \<open>auto simp: env_ok_def split: if_splits\<close>)
        then show ?thesis unfolding u using Has t(1) by simp
      next
        case (New a)
        let ?s2 = "moveresv a b ?r s1"
        have ab: "a \<noteq> b" "a \<in> set (b # fs @ [a])" using New(11) by auto
        have fb1: "fresv s1 b = fresv s b" using New(6) [of b] by simp
        have fr: "\<And>x. x \<in> set (b # fs) \<Longrightarrow> file_st s1 x = file_st s x" by (rule New(6)) auto
        have "resv_sum s1 (b # fs @ [a]) = resv_sum s1 (b # fs) + fresv s1 a" by (simp add: resv_sum_def)
        then have sm: "resv_sum s1 (b # fs @ [a]) = resv_sum s (b # fs)" using resv_sum_cong [of "b # fs" s1 s] fr New(4) by simp
        have mv: "chain pre b (fs @ [a]) ?s2" "resv_sum ?s2 (b # fs @ [a]) = resv_sum s1 (b # fs @ [a])"
          using chain_moveresv [OF New(3), of a b ?r] ab le n(1) rb New(5) fb1 chainD(7) [OF c] by auto
        have fb: "fresv ?s2 b = fresv s b - ?r" "ffree ?s2 a = filesize (wal s) - 4 - ?r" using moveresv_at [of a b ?r s1] ab fb1 New(5) by simp_all
        have al: "(fresv ?s2 b - n) mod 84 = 0" unfolding fb by (rule mod84(3))
        have ta: "wal_tail s1 = a" using chain_tail [OF New(3)] by simp
        have fl: "\<not> 84 * int (length fs + 1) \<le> ffree s (last (b # fs))" using New(12) rb by simp
        have "fst (balancerest k (next_file (wal_files (wal ?s2)) b) 0 ?s2)"
          by (rule step [OF mv(1) al]) (use n(3) mv(2) sm en New(9,10) fs4 Suc.prems(7) fl fb(2) rb in \<open>auto simp: env_ok_def\<close>)
        then show ?thesis unfolding u ta using New(1) by simp
      next
        case Fail
        then show ?thesis using en by blast
      qed
    qed
  qed
qed


section \<open>Moving on to the next file\<close>

lemma usenext_ok:
  assumes c: "chain pre b (f # fs) s" and cur: "wal_cur (wal s) = Some b"
  obtains pre' s' where "usenext s = (True, s')" "chain pre' f fs s'" "wal_cur (wal s') = Some f" "wal_resv (wal s') = wal_resv (wal s)"
    "filesize (wal s') = filesize (wal s)" "\<And>x. fresv s' x = fresv s x" "\<And>x. ffree s' x = ffree s x" "env_ok s' = env_ok s"
    "length pre' \<le> Suc (length pre)"
proof -
  let ?s1 = "upd_wal (\<lambda>w. w\<lparr>wal_cur := Some f\<rparr>) s"
  let ?s2 = "upd_file b (\<lambda>x. x\<lparr>iswopen := False, f_refs := f_refs x - 1\<rparr>) ?s1"
  have fn: "f \<noteq> b" "f \<notin> set pre" "f \<notin> set fs" using chainD(2) [OF c] by auto
  have un: "usenext s = (True, filewclose (Some b) ?s1)" using chain_next [OF c] cur by (simp add: usenext_def)
  have u2: "fresv ?s2 x = fresv s x" "ffree ?s2 x = ffree s x" "x \<noteq> b \<Longrightarrow> file_st ?s2 x = file_st s x" for x by (simp_all add: upd_file_def)
  have ch: "chain (pre @ [b]) f fs t"
    if "wal_files (wal t) = wal_files (wal s)" "filesize (wal t) = filesize (wal s)" "file_brk t = file_brk s" "\<And>x. x \<noteq> b \<Longrightarrow> file_st t x = file_st s x" for t
  proof -
    have "file_st t x = file_st s x" if x: "x \<in> set (f # fs)" for x
    proof -
      have "x \<noteq> b" using x chainD(2) [OF c] fn(1) by auto
      then show ?thesis by fact
    qed
    then show ?thesis using chain_shift [OF c] that(1-3) by (simp add: chain_def)
  qed
  consider (shut) "\<not> iswopen (file_st s b)" "filewclose (Some b) ?s1 = ?s1"
    | (keep) "filewclose (Some b) ?s1 = ?s2" | (gc) "filewclose (Some b) ?s1 = walgc ?s2"
  proof -
    have "filewclose (Some b) ?s1 = (if \<not> iswopen (file_st s b) then ?s1 else if f_refs (file_st s b) - 1 < 1 then walgc ?s2 else ?s2)"
      by (simp add: filewclose_def filedecref_def Let_def upd_file_def)
    then show thesis using that by (metis (full_types))
  qed
  then show thesis
  proof cases
    case shut
    show thesis by (rule that [OF un [unfolded shut(2)] ch]) (simp_all add: env_ok_def)
  next
    case keep
    show thesis by (rule that [OF un [unfolded keep] ch]) (simp_all add: u2 env_ok_def upd_file_def)
  next
    case gc
    have w2: "wal_files (wal ?s2) = pre @ b # f # fs" using chainD(1) [OF c] by (simp add: upd_file_def)
    have rf: "\<not> f_refs (file_st ?s2 f) = 0" using chainD(6) [OF c, of f] fn by (auto simp: upd_file_def word_le_nat_alt)
    have dw: "\<exists>pre'. dropWhile (\<lambda>x. f_refs (file_st ?s2 x) = 0) (xs @ f # fs) = pre' @ f # fs \<and> suffix pre' xs" for xs
      using rf by (induction xs) (auto simp: suffix_Cons)
    obtain pre' where pre': "dropWhile (\<lambda>x. f_refs (file_st ?s2 x) = 0) ((pre @ [b]) @ f # fs) = pre' @ f # fs" "suffix pre' (pre @ [b])" using dw by blast
    have g: "wal_files (wal (walgc ?s2)) = pre' @ f # fs" "file_st (walgc ?s2) = file_st ?s2" "file_brk (walgc ?s2) = file_brk s"
      "wal_cur (wal (walgc ?s2)) = Some f" "wal_resv (wal (walgc ?s2)) = wal_resv (wal s)" "filesize (wal (walgc ?s2)) = filesize (wal s)"
      "allocs (walgc ?s2) = allocs s" "sys (walgc ?s2) = sys s"
      using pre'(1) w2 by (simp_all add: walgc_def Let_def) (simp_all add: upd_file_def)
    obtain zs where zs: "pre @ [b] = zs @ pre'" using pre'(2) by (auto simp: suffix_def)
    have "length (pre @ [b]) = length zs + length pre'" unfolding zs by simp
    then have len: "length pre' \<le> Suc (length pre)" by simp
    have sub: "set pre' \<subseteq> set (pre @ [b])" unfolding zs by auto
    have "distinct (zs @ pre' @ f # fs)" using chainD(2) [OF c] zs by (metis append.assoc append_Cons append_Nil)
    then have d: "distinct (pre' @ f # fs)" by simp
    have "chain pre' f fs (walgc ?s2)"
      unfolding chain_def g(1,3,6)
    proof (intro conjI ballI)
      fix x assume x: "x \<in> set (f # fs)"
      then have "x \<noteq> b" using chainD(2) [OF c] by auto
      then have e: "file_st (walgc ?s2) x = file_st s x" unfolding g(2) by (rule u2(3))
      show "0 \<le> fresv (walgc ?s2) x" "0 \<le> ffree (walgc ?s2) x" "1 \<le> f_refs (file_st (walgc ?s2) x)"
        unfolding e using chainD(4-6) [OF c, of x] x by simp_all
    next
      fix x assume "x \<in> set (pre' @ f # fs)"
      then have "x \<in> set (pre @ b # f # fs)" using sub by auto
      then show "x < file_brk s" by (rule chainD(3) [OF c])
    qed (use d chainD(7) [OF c] in simp_all)
    then show thesis by (rule that [OF un [unfolded gc]]) (simp_all add: g u2 len env_ok_def)
  qed
qed


section \<open>Balancing\<close>

text \<open>What the first loop of \<open>balance\<close> ensures; \<open>us\<close> are the files before the one that holds the reservation.\<close>

definition loop_post :: "addr list \<Rightarrow> int \<Rightarrow> server \<Rightarrow> bool \<Rightarrow> server \<Rightarrow> bool" where
  "loop_post fs n s ok s' \<longleftrightarrow>
     (\<exists>pre' b' fs'. chain pre' b' fs' s' \<and> wal_cur (wal s') = Some b' \<and> resv_sum s' (b' # fs') = resv_sum s fs \<and> (ok \<longrightarrow> n \<le> fresv s' b') \<and>
        length fs' < length fs) \<and>
     wal_resv (wal s') = wal_resv (wal s) \<and> filesize (wal s') = filesize (wal s) \<and> (env_ok s \<longrightarrow> env_ok s')"

lemma loop_post_trans:
  assumes "loop_post gs n t ok s'" "resv_sum t gs = resv_sum s fs" "length gs \<le> length fs" "wal_resv (wal t) = wal_resv (wal s)"
    "filesize (wal t) = filesize (wal s)" "env_ok s \<longrightarrow> env_ok t"
  shows "loop_post fs n s ok s'"
  using assms unfolding loop_post_def by (metis order_less_le_trans)

text \<open>One round of the loop: everything that the current file has reserved goes to the last file, which has room for it.\<close>

lemma balance_round:
  assumes c: "chain pre b (f # gs) t" and cur: "wal_cur (wal t) = Some b" and m: "fresv t b \<le> ffree t (last (f # gs))"
  obtains pre' s' where "usenext (moveresv (wal_tail t) b (fresv t b) t) = (True, s')" "chain pre' f gs s'" "wal_cur (wal s') = Some f"
    "resv_sum s' (f # gs) = resv_sum t (b # f # gs)" "wal_resv (wal s') = wal_resv (wal t)" "filesize (wal s') = filesize (wal t)"
    "env_ok t \<longrightarrow> env_ok s'" "\<And>x. x \<in> set (f # gs) \<Longrightarrow> fresv t x \<le> fresv s' x"
proof -
  let ?u = "last (f # gs)" and ?t1 = "moveresv (last (f # gs)) b (fresv t b) t"
  have uin: "?u \<in> set (f # gs)" by (rule last_in_set) simp
  then have u: "wal_tail t = ?u" "?u \<noteq> b" using chain_tail [OF c] chainD(2) [OF c] by auto
  have b0: "0 \<le> fresv t b" using chainD(4) [OF c, of b] by simp
  have mv: "chain pre b (f # gs) ?t1" "resv_sum ?t1 (b # f # gs) = resv_sum t (b # f # gs)"
    using chain_moveresv [OF c, of ?u b "fresv t b"] u uin m b0 by auto
  have cur1: "wal_cur (wal ?t1) = Some b" using cur by simp
  from usenext_ok [OF mv(1) cur1] obtain pre' s' where s': "usenext ?t1 = (True, s')" "chain pre' f gs s'" "wal_cur (wal s') = Some f"
    "wal_resv (wal s') = wal_resv (wal ?t1)" "filesize (wal s') = filesize (wal ?t1)" "\<And>x. fresv s' x = fresv ?t1 x" "env_ok s' = env_ok ?t1" by metis
  have fb: "fresv ?t1 b = 0" using moveresv_at(1) [of ?u b "fresv t b" t b] u(2) by simp
  have "resv_sum s' (f # gs) = resv_sum ?t1 (f # gs)" using s'(6) by (intro resv_sum_cong) simp
  then have sm: "resv_sum s' (f # gs) = resv_sum t (b # f # gs)" using mv(2) fb by (simp add: resv_sum_def)
  have "fresv t x \<le> fresv s' x" if "x \<in> set (f # gs)" for x
  proof -
    have "x \<noteq> b" using that chainD(2) [OF c] by auto
    then show ?thesis using b0 unfolding s'(6) moveresv_at(1) [OF u(2)] by simp
  qed
  with s' sm show thesis by (intro that [of s' pre']) (simp_all add: u(1) env_ok_def)
qed

lemma balance_loop_ok:
  assumes "chain pre b fs s" "wal_cur (wal s) = Some b" "0 < n" "n \<le> filesize (wal s) - 4" "b # fs = us @ h # vs" "n \<le> fresv s h"
    "balance_loop k n s = (ok, s')"
  shows "loop_post (b # fs) n s ok s' \<and> (env_ok s \<and> length us \<le> k \<longrightarrow> ok)"
  using assms
proof (induction k arbitrary: pre b fs s us vs)
  case 0
  then have e: "ok = (n \<le> fresv s b)" "s' = s" by auto
  have "length fs < length (b # fs)" by simp
  then have "loop_post (b # fs) n s ok s'"
    unfolding loop_post_def e(2) using 0(1,2) e(1) by blast
  moreover have "ok" if "us = []" using that 0 e(1) by simp
  ultimately show ?case by simp
next
  case (Suc k)
  note c = Suc.prems(1) and cur = Suc.prems(2) and n = Suc.prems(3,4) and h = Suc.prems(5,6)
  show ?case
  proof (cases "n \<le> fresv s b")
    case True
    then have "ok" "s' = s" using Suc.prems(7) cur by simp_all
    then show ?thesis using c cur True by (auto simp: loop_post_def)
  next
    case False
    obtain u us' where us: "us = b # us'" "fs = us' @ h # vs" using h False by (cases us) auto
    have "fs \<noteq> []" using us(2) by simp
    then obtain f gs where fs: "fs = f # gs" by (cases fs) auto
    obtain r s1 where nf: "needfree (fresv s b) s = (r, s1)" by (rule prod.exhaust)
    have go: "loop_post (b # fs) n s ok s' \<and> (env_ok s \<and> length us \<le> Suc k \<longrightarrow> ok)" if r: "r = fresv s b" and t: "chain pre b (fs @ new) s1" "wal_cur (wal s1) = Some b" "wal_resv (wal s1) = wal_resv (wal s)"
        "filesize (wal s1) = filesize (wal s)" "env_ok s \<longrightarrow> env_ok s1" "fresv s1 b = fresv s b" "fresv s b \<le> ffree s1 (last (fs @ new))"
        "fresv s1 h = fresv s h" "resv_sum s1 (b # fs @ new) = resv_sum s (b # fs)" "length new \<le> 1" for new
    proof -
      have c1: "chain pre b (f # gs @ new) s1" and m1: "fresv s1 b \<le> ffree s1 (last (f # gs @ new))" using t(1,6,7) fs by simp_all
      from balance_round [OF c1 t(2) m1] obtain pre' s2 where s2: "usenext (moveresv (wal_tail s1) b (fresv s1 b) s1) = (True, s2)" "chain pre' f (gs @ new) s2"
        "wal_cur (wal s2) = Some f" "resv_sum s2 (f # gs @ new) = resv_sum s1 (b # f # gs @ new)" "wal_resv (wal s2) = wal_resv (wal s1)"
        "filesize (wal s2) = filesize (wal s1)" "env_ok s1 \<longrightarrow> env_ok s2" "\<And>x. x \<in> set (f # gs @ new) \<Longrightarrow> fresv s1 x \<le> fresv s2 x" by blast
      have e: "balance_loop k n s2 = (ok, s')"
        using Suc.prems(7) False cur r t(2,6) s2(1) by (simp add: nf Let_def)
      have h2: "f # gs @ new = us' @ h # (vs @ new)" using us(2) fs by simp
      have "h \<in> set (f # gs @ new)" unfolding h2 by simp
      then have "n \<le> fresv s2 h" using s2(8) [of h] t(8) h(2) by simp
      from Suc.IH [OF s2(2,3) n(1) _ h2 this e] n(2) s2(6) t(4)
      have p: "loop_post (f # gs @ new) n s2 ok s'" "env_ok s2 \<and> length us' \<le> k \<longrightarrow> ok" by simp_all
      have "loop_post (b # fs) n s ok s'"
        by (rule loop_post_trans [OF p(1)]) (use s2 t fs in auto)
      then show ?thesis using p(2) us(1) s2(7) t(5) by auto
    qed
    from nf c show ?thesis
    proof (cases rule: needfree_cases)
      case Has
      then show ?thesis using go [of "[]"] c cur fs by simp
    next
      case (New a)
      have fr: "file_st s1 x = file_st s x" if "x \<in> set (b # fs)" for x by (rule New(6)) (use that in auto)
      have "resv_sum s1 (b # fs @ [a]) = resv_sum s1 (b # fs) + fresv s1 a" by (simp add: resv_sum_def)
      then have sm: "resv_sum s1 (b # fs @ [a]) = resv_sum s (b # fs)" using resv_sum_cong [of "b # fs" s1 s] fr New(4) by simp
      have "h \<in> set (b # fs)" using us by simp
      then show ?thesis using go [of "[a]"] New(1,3,5,7-10) cur fr [of b] fr [of h] sm False n by simp
    next
      case Fail
      have ne: "fresv s b \<noteq> 0" using Fail(4) chainD(5) [OF c, of "last (b # fs)"] last_in_set [of "b # fs"] by simp
      then have "ok = False" "s' = s1" using Suc.prems(7) False cur Fail(1) by (simp_all add: nf Let_def)
      moreover note w = wsame_chain [OF Fail(2) c]
      moreover have "resv_sum s1 (b # fs) = resv_sum s (b # fs)" by (rule resv_sum_cong) (use w(2) in auto)
      ultimately show ?thesis using Fail(3) cur unfolding loop_post_def by auto
    qed
  qed
qed


section \<open>Reserving space\<close>

text \<open>
  The space of the log is in order: the current file is open, what it has reserved beyond \<open>n\<close> and what every later file has reserved is
  a number of whole deletion records, no count is negative, and \<open>w->resv\<close> is the sum of what these files have reserved.
\<close>

definition log_space :: "int \<Rightarrow> server \<Rightarrow> bool" where
  "log_space n s \<longleftrightarrow>
     (\<exists>pre b fs. chain pre b fs s \<and> wal_cur (wal s) = Some b \<and> wal_resv (wal s) = resv_sum s (b # fs) \<and>
        n \<le> fresv s b \<and> (fresv s b - n) mod 84 = 0 \<and> (\<forall>x \<in> set fs. fresv s x mod 84 = 0))"

text \<open>Room for moving space between the files without needing more than one new file.\<close>

definition chain_room :: "server \<Rightarrow> bool" where
  "chain_room s \<longleftrightarrow> 84 * int (length (live_files s) + 2) \<le> filesize (wal s) - 4"

lemma sum_mod84: "(\<forall>x \<in> set fs. fresv s x mod 84 = 0) \<Longrightarrow> resv_sum s fs mod 84 = 0"
proof (induction fs)
  case (Cons f fs)
  then have "(fresv s f + resv_sum s fs) mod 84 = 0" by (simp add: mod_add_eq [symmetric])
  then show ?case by (simp add: resv_sum_def)
qed (simp add: resv_sum_def)

lemma balance_ok:
  assumes c: "chain pre b fs s" and cur: "wal_cur (wal s) = Some b" and n: "0 < n" "n \<le> filesize (wal s) - 4"
    and h: "h \<in> set (b # fs)" "n \<le> fresv s h" and sm: "(resv_sum s (b # fs) - n) mod 84 = 0" and w: "wal_resv (wal s) = resv_sum s (b # fs)"
    and e: "balance n s = (ok, s')"
  shows "ok \<Longrightarrow> log_space n s'" "wal_resv (wal s') = wal_resv (wal s)"
    "env_ok s \<Longrightarrow> 84 * int (length fs + 2) \<le> filesize (wal s) - 4 \<Longrightarrow> ok"
proof -
  obtain us vs where us: "b # fs = us @ h # vs" using split_list [OF h(1)] by blast
  obtain o1 s1 where l: "balance_loop (Suc (length (wal_files (wal s)))) n s = (o1, s1)" by (rule prod.exhaust)
  note bl = balance_loop_ok [OF c cur n us h(2) l]
  obtain pre1 b1 fs1 where s1: "chain pre1 b1 fs1 s1" "wal_cur (wal s1) = Some b1" "resv_sum s1 (b1 # fs1) = resv_sum s (b # fs)"
    "o1 \<longrightarrow> n \<le> fresv s1 b1" "length fs1 < length (b # fs)" "wal_resv (wal s1) = wal_resv (wal s)" "filesize (wal s1) = filesize (wal s)"
    "env_ok s \<longrightarrow> env_ok s1"
    using bl unfolding loop_post_def by blast
  have lus: "length us \<le> Suc (length (wal_files (wal s)))"
  proof -
    have "length us < length (b # fs)" unfolding us by simp
    then show ?thesis using chainD(1) [OF c] by simp
  qed
  let ?k = "length (wal_files (wal s1)) + 2"
  have e': "(ok, s') = (if o1 then balancerest ?k (wal_cur (wal s1)) n s1 else (False, s1))" using e by (simp add: balance_def l del: balance_loop.simps balancerest.simps split: bool.splits)
  have "(ok \<longrightarrow> log_space n s') \<and> wal_resv (wal s') = wal_resv (wal s) \<and>
    (env_ok s \<and> 84 * int (length fs + 2) \<le> filesize (wal s) - 4 \<longrightarrow> ok)"
  proof (cases o1)
    case False
    then show ?thesis using e' s1(6) bl lus by auto
  next
    case True
    have n1: "0 \<le> n" "n \<le> fresv s1 b1" "(resv_sum s1 (b1 # fs1) - n) mod 84 = 0" using n(1) s1(3,4) True sm by simp_all
    have br: "balancerest ?k (Some b1) n s1 = (ok, s')" using e' True s1(2) by simp
    note p = balancerest_ok [OF s1(1) n1 br]
    have r: "wal_resv (wal s') = wal_resv (wal s)" using p s1(6) by (simp add: rest_post_def)
    have "log_space n s'" if k: ok
    proof -
      obtain new where "chain pre1 b1 (fs1 @ new) s'" "resv_sum s' (b1 # fs1 @ new) = resv_sum s1 (b1 # fs1)" "n \<le> fresv s' b1"
        "(fresv s' b1 - n) mod 84 = 0" "\<forall>x \<in> set (fs1 @ new). fresv s' x mod 84 = 0" "wal_cur (wal s') = Some b1"
        using p k s1(2) unfolding rest_post_def by auto
      then show ?thesis unfolding log_space_def using r w s1(3)
        by (intro exI [of _ pre1] exI [of _ b1] exI [of _ "fs1 @ new"]) simp
    qed
    moreover have "ok" if "env_ok s" "84 * int (length fs + 2) \<le> filesize (wal s) - 4"
    proof -
      have "fst (balancerest ?k (Some b1) n s1)"
        by (rule balancerest_succeeds [OF s1(1) n1]) (use s1(5,7,8) that chainD(1) [OF s1(1)] in auto)
      then show ?thesis using br by simp
    qed
    ultimately show ?thesis using r by blast
  qed
  then show "ok \<Longrightarrow> log_space n s'" "wal_resv (wal s') = wal_resv (wal s)" "env_ok s \<Longrightarrow> 84 * int (length fs + 2) \<le> filesize (wal s) - 4 \<Longrightarrow> ok" by blast+
qed

text \<open>Taking space from the free part of a file.\<close>

lemma chain_take:
  assumes c: "chain pre b fs s" and t: "t \<in> set (b # fs)" "n \<le> ffree s t" "0 \<le> n"
  defines "s' \<equiv> upd_wal (\<lambda>w. w\<lparr>wal_resv := wal_resv w + n\<rparr>) (upd_file t (\<lambda>x. x\<lparr>f_free := f_free x - n, f_resv := f_resv x + n\<rparr>) s)"
  shows "chain pre b fs s'" "resv_sum s' (b # fs) = resv_sum s (b # fs) + n" "fresv s' x = fresv s x + (if x = t then n else 0)"
    "wal_cur (wal s') = wal_cur (wal s)" "filesize (wal s') = filesize (wal s)" "wal_resv (wal s') = wal_resv (wal s) + n" "env_ok s' = env_ok s"
proof -
  show f: "fresv s' x = fresv s x + (if x = t then n else 0)" for x by (simp add: s'_def upd_file_def)
  show "wal_cur (wal s') = wal_cur (wal s)" "filesize (wal s') = filesize (wal s)" "wal_resv (wal s') = wal_resv (wal s) + n" "env_ok s' = env_ok s"
    by (simp_all add: s'_def upd_file_def env_ok_def)
  have "distinct (b # fs)" using chainD(2) [OF c] by simp
  from resv_sum_point [OF this f] t(1) show "resv_sum s' (b # fs) = resv_sum s (b # fs) + n" by simp
  have "0 \<le> fresv s' x \<and> 0 \<le> ffree s' x \<and> 1 \<le> f_refs (file_st s' x)" if "x \<in> set (b # fs)" for x
    using chainD(4-6) [OF c that] t(2,3) by (auto simp: s'_def upd_file_def)
  then show "chain pre b fs s'" using c by (simp add: chain_def s'_def upd_file_def)
qed


lemma reserve_ok:
  assumes sp: "log_space 0 s" and use: "wal_use (wal s)" and n: "0 < n" "n \<le> filesize (wal s) - 4" and e: "reserve n s = (r, s')"
  shows "r = n \<and> log_space n s' \<and> wal_resv (wal s') = wal_resv (wal s) + n \<or> r = 0 \<and> wal_resv (wal s') = wal_resv (wal s)"
    "env_ok s \<Longrightarrow> chain_room s \<Longrightarrow> r = n"
proof -
  obtain pre b fs where c: "chain pre b fs s" "wal_cur (wal s) = Some b" "wal_resv (wal s) = resv_sum s (b # fs)" "fresv s b mod 84 = 0"
    "\<forall>x \<in> set fs. fresv s x mod 84 = 0" using sp unfolding log_space_def by auto
  have sm: "resv_sum s (b # fs) mod 84 = 0" by (rule sum_mod84) (use c(4,5) in simp)
  have room: "chain_room s = (84 * int (length fs + 3) \<le> filesize (wal s) - 4)"
    using live_chain [OF c(1,2)] by (simp add: chain_room_def add.commute)
  have n0: "n \<noteq> 0" using n(1) by simp
  let ?take = "\<lambda>t s. upd_wal (\<lambda>w. w\<lparr>wal_resv := wal_resv w + n\<rparr>) (upd_file t (\<lambda>x. x\<lparr>f_free := f_free x - n, f_resv := f_resv x + n\<rparr>) s)"
  have "(r = n \<and> log_space n s' \<and> wal_resv (wal s') = wal_resv (wal s) + n \<or> r = 0 \<and> wal_resv (wal s') = wal_resv (wal s)) \<and>
    (env_ok s \<and> chain_room s \<longrightarrow> r = n)"
  proof (cases "n \<le> ffree s b")
    case True
    have "reserve n s = (n, ?take b s)" using use c(2) True by (simp add: reserve_def)
    from trans [OF e [symmetric] this] have r: "r = n" "s' = ?take b s" by blast+
    have t: "chain pre b fs s'" "resv_sum s' (b # fs) = resv_sum s (b # fs) + n" "fresv s' b = fresv s b + n"
      "\<forall>x \<in> set fs. fresv s' x = fresv s x" "wal_cur (wal s') = Some b" "wal_resv (wal s') = wal_resv (wal s) + n"
      using chain_take [OF c(1) _ True, folded r(2)] n(1) c(2) chainD(2) [OF c(1)] by auto
    have "0 \<le> fresv s b" using chainD(4) [OF c(1), of b] by simp
    then have "log_space n s'" unfolding log_space_def using t c(3-5)
      by (intro exI [of _ pre] exI [of _ b] exI [of _ fs]) simp
    then show ?thesis using r(1) t(6) by simp
  next
    case False
    obtain m s1 where nf: "needfree n s = (m, s1)" by (rule prod.exhaust)
    have go: ?thesis if m: "m = n" and t: "chain pre b (fs @ new) s1" "wal_cur (wal s1) = Some b" "wal_resv (wal s1) = wal_resv (wal s)"
      "filesize (wal s1) = filesize (wal s)" "env_ok s \<longrightarrow> env_ok s1" "n \<le> ffree s1 (last (b # fs @ new))"
      "resv_sum s1 (b # fs @ new) = resv_sum s (b # fs)" "length new \<le> 1" for new
    proof -
      let ?u = "last (b # fs @ new)" and ?s2 = "?take (last (b # fs @ new)) s1"
      have u: "wal_tail s1 = ?u" "?u \<in> set (b # fs @ new)" using chain_tail [OF t(1)] last_in_set [of "b # fs @ new"] by auto
      have n': "0 \<le> n" using n(1) by simp
      note tk = chain_take [OF t(1) u(2) t(6) n']
      have nn: "n \<le> fresv ?s2 ?u" unfolding tk(3) using chainD(4) [OF t(1) u(2)] by simp
      have sm2: "(resv_sum ?s2 (b # fs @ new) - n) mod 84 = 0" unfolding tk(2) t(7) using sm by simp
      have w2: "wal_resv (wal ?s2) = resv_sum ?s2 (b # fs @ new)" unfolding tk(2,6) t(3,7) c(3) ..
      have cur2: "wal_cur (wal ?s2) = Some b" and f2: "n \<le> filesize (wal ?s2) - 4" using tk(4,5) t(2,4) n(2) by simp_all
      obtain ok s3 where ba: "balance n ?s2 = (ok, s3)" by (rule prod.exhaust)
      note bo = balance_ok [OF tk(1) cur2 n(1) f2 u(2) nn sm2 w2 ba]
      have e': "(r, s') = (if ok then (n, s3) else (0, upd_file (wal_tail s3) (\<lambda>x. x\<lparr>f_resv := f_resv x - n, f_free := f_free x + n\<rparr>)
          (upd_wal (\<lambda>w. w\<lparr>wal_resv := wal_resv w - n\<rparr>) s3)))"
        using e use c(2) False m ba by (simp add: reserve_def nf u(1) split: bool.splits)
      have res: "wal_resv (wal s3) = wal_resv (wal s) + n" using bo(2) tk(6) t(3) by simp
      have tot: "ok" if "env_ok s" "chain_room s"
      proof (rule bo(3))
        show "env_ok ?s2" using tk(7) t(5) that(1) by blast
        show "84 * int (length (fs @ new) + 2) \<le> filesize (wal ?s2) - 4" using that(2) tk(5) t(4,8) by (simp add: room)
      qed
      show ?thesis
      proof (cases ok)
        case True
        then have "r = n" "s' = s3" using e' by simp_all
        then show ?thesis using bo(1) [OF True] res by blast
      next
        case False
        then have "r = 0" "wal_resv (wal s') = wal_resv (wal s)" using e' res by (simp_all add: upd_file_def)
        then show ?thesis using tot False by blast
      qed
    qed
    from nf c(1) show ?thesis
    proof (cases rule: needfree_cases)
      case Has
      then show ?thesis using go [of "[]"] c(1,2) by simp
    next
      case (New a)
      have fr: "file_st s1 x = file_st s x" if "x \<in> set (b # fs)" for x by (rule New(6)) (use that in auto)
      have "resv_sum s1 (b # fs @ [a]) = resv_sum s1 (b # fs) + fresv s1 a" by (simp add: resv_sum_def)
      then have sm1: "resv_sum s1 (b # fs @ [a]) = resv_sum s (b # fs)" using resv_sum_cong [of "b # fs" s1 s] fr New(4) by simp
      show ?thesis by (rule go [of "[a]"]) (use New(1,3,5,7-10) c(2) sm1 n(2) in simp_all)
    next
      case Fail
      then have "r = 0" "s' = s1" using e use c(2) False n0 by (simp_all add: reserve_def nf)
      then show ?thesis using Fail(2,3) by (simp add: wsame_def)
    qed
  qed
  then show "r = n \<and> log_space n s' \<and> wal_resv (wal s') = wal_resv (wal s) + n \<or> r = 0 \<and> wal_resv (wal s') = wal_resv (wal s)"
    "env_ok s \<Longrightarrow> chain_room s \<Longrightarrow> r = n" by blast+
qed


text \<open>The log after start-up: one open file of \<open>size\<close> bytes.\<close>

definition new_log :: "int \<Rightarrow> server" where
  "new_log sz = (boot 0)\<lparr>wal := zero_wal\<lparr>wal_use := True, filesize := sz, wal_files := [1], wal_cur := Some 1, nfile := 1, wal_next := 2\<rparr>,
     file_brk := 2, file_st := (\<lambda>_. zero_file)(1 := zero_file\<lparr>f_seq := 1, iswopen := True, f_refs := 1, f_free := sz - 4\<rparr>)\<rparr>"

lemma new_log_fields:
  "wal (new_log sz) = zero_wal\<lparr>wal_use := True, filesize := sz, wal_files := [1], wal_cur := Some 1, nfile := 1, wal_next := 2\<rparr>" "file_brk (new_log sz) = 2"
  "file_st (new_log sz) = (\<lambda>_. zero_file)(1 := zero_file\<lparr>f_seq := 1, iswopen := True, f_refs := 1, f_free := sz - 4\<rparr>)" "allocs (new_log sz) = []" "sys (new_log sz) = []"
  by (simp_all add: new_log_def boot_def)

lemma new_log_space: "88 \<le> sz \<Longrightarrow> log_space 0 (new_log sz)"
  unfolding log_space_def chain_def
  by (rule exI [of _ "[]"], rule exI [of _ 1], rule exI [of _ "[]"]) (simp add: new_log_fields zero_wal_def zero_file_def resv_sum_def)

lemma new_log_room: "256 \<le> sz \<Longrightarrow> env_ok (new_log sz) \<and> chain_room (new_log sz)"
  by (simp add: env_ok_def chain_room_def live_files_def new_log_fields zero_wal_def)

text \<open>C19 (invariant). The contract of \<open>reserve\<close> and \<open>balance\<close>. When the space of the log is in order and a record of \<open>n\<close> bytes fits into a new
  file, \<open>reserve\<close> returns \<open>n\<close> or 0. If it returns \<open>n\<close>, then \<open>w->resv\<close> has grown by \<open>n\<close> and is still the sum of what the files from the
  current one on have reserved (space is moved, neither created nor destroyed), the current file has at least \<open>n\<close> bytes reserved, and
  beyond them every file has whole deletion records only, with no count negative. If it returns 0, \<open>w->resv\<close> is as before. It does not
  return 0 unless an allocation or a system call fails, so the loop and the recursion of \<open>balance\<close> come to an end.\<close>

theorem reserve_contract:
  assumes "log_space 0 s" "wal_use (wal s)" "0 < n" "n \<le> filesize (wal s) - 4" "reserve n s = (r, s')"
  shows "(r = n \<and> log_space n s' \<and> wal_resv (wal s') = wal_resv (wal s) + n \<or> r = 0 \<and> wal_resv (wal s') = wal_resv (wal s)) \<and>
    (env_ok s \<and> chain_room s \<longrightarrow> r = n)"
  using reserve_ok [OF assms] by blast

theorem reserve_contract_witness:
  "fst (reserve 300 (new_log 10485760)) = 300 \<and> log_space 300 (snd (reserve 300 (new_log 10485760)))"
proof -
  have u: "wal_use (wal (new_log 10485760))" "(300 :: int) \<le> filesize (wal (new_log 10485760)) - 4" by (simp_all add: new_log_fields)
  have "log_space 0 (new_log 10485760)" by (rule new_log_space) simp
  from reserve_contract [OF this u(1) _ u(2) prod.collapse [symmetric]] new_log_room [of 10485760] show ?thesis by auto
qed

section \<open>Writing into reserved space\<close>

lemma filewrites_space:
  assumes "log_space n s" "wal_cur (wal s) = Some f" "\<forall>k \<in> set ks. 0 \<le> k" "sum_list ks \<le> n" "filewrites f j ks s = (True, s')"
  shows "log_space (n - sum_list ks) s' \<and> wal_resv (wal s') = wal_resv (wal s) - sum_list ks \<and> wal_cur (wal s') = Some f"
  using assms
proof (induction ks arbitrary: n s)
  case (Cons k ks)
  obtain b ys where sy: "syscall s = (b, s\<lparr>sys := ys\<rparr>)" using syscall_outcome by blast
  let ?s1 = "upd_wal (\<lambda>w. w\<lparr>wal_resv := wal_resv w - k, alive := alive w + k\<rparr>) (upd_file f (\<lambda>x. x\<lparr>f_resv := f_resv x - k\<rparr>)
      (upd_job j (\<lambda>x. x\<lparr>walresv := walresv x - k, walused := walused x + k\<rparr>) (s\<lparr>sys := ys\<rparr>)))"
  have w: "filewrites f j ks ?s1 = (True, s')" using Cons.prems(5) by (cases b) (simp_all add: filewrite_def sy)
  have k: "0 \<le> k" "sum_list ks \<le> n - k" "k \<le> n" using Cons.prems(3,4) sum_list_nonneg [of ks] by auto
  obtain pre fs where c: "chain pre f fs s" "wal_resv (wal s) = resv_sum s (f # fs)" "n \<le> fresv s f" "(fresv s f - n) mod 84 = 0"
    "\<forall>x \<in> set fs. fresv s x mod 84 = 0" using Cons.prems(1,2) unfolding log_space_def by auto
  have d: "f \<notin> set fs" using chainD(2) [OF c(1)] by simp
  have f1: "fresv ?s1 f = fresv s f - k" "\<And>x. x \<noteq> f \<Longrightarrow> file_st ?s1 x = file_st s x" "ffree ?s1 f = ffree s f" "f_refs (file_st ?s1 f) = f_refs (file_st s f)"
    "wal_files (wal ?s1) = wal_files (wal s)" "filesize (wal ?s1) = filesize (wal s)" "file_brk ?s1 = file_brk s" "wal_resv (wal ?s1) = wal_resv (wal s) - k"
    "wal_cur (wal ?s1) = Some f"
    using Cons.prems(2) by (simp_all add: upd_file_def upd_job_def)
  have e: "file_st ?s1 x = file_st s x" if x: "x \<in> set fs" for x
  proof -
    have "x \<noteq> f" using x d by auto
    then show ?thesis by (rule f1(2))
  qed
  have nn: "0 \<le> fresv ?s1 x \<and> 0 \<le> ffree ?s1 x \<and> 1 \<le> f_refs (file_st ?s1 x)" if x: "x \<in> set (f # fs)" for x
  proof (cases "x = f")
    case True
    then show ?thesis using chainD(4-6) [OF c(1) x] f1(1,3,4) c(3) k(3) by simp
  next
    case False
    then show ?thesis using chainD(4-6) [OF c(1) x] f1(2) [OF False] by simp
  qed
  have "chain pre f fs ?s1" using c(1) nn unfolding chain_def f1(5-7) by blast
  moreover have "resv_sum ?s1 (f # fs) = resv_sum s (f # fs) - k"
    using resv_sum_cong [of fs ?s1 s] e f1(1) by (simp add: resv_sum_def)
  ultimately have "log_space (n - k) ?s1" unfolding log_space_def using c(2-5) f1(1,8,9) e
    by (intro exI [of _ pre] exI [of _ f] exI [of _ fs]) simp
  from Cons.IH [OF this f1(9) _ k(2) w] Cons.prems(3) f1(8) show ?case by (simp add: algebra_simps)
qed simp

lemma log_space_whole: "log_space n s \<Longrightarrow> 0 \<le> n \<Longrightarrow> n mod 84 = 0 \<Longrightarrow> log_space 0 s"
proof -
  assume a: "log_space n s" "0 \<le> n" "n mod 84 = 0"
  have "x mod 84 = 0" if "(x - n) mod 84 = 0" for x :: int
  proof -
    have "((x - n) mod 84 + n mod 84) mod 84 = x mod 84" by (simp add: mod_add_eq)
    then show ?thesis using that a(3) by simp
  qed
  then show ?thesis using a(1,2) unfolding log_space_def by (metis (no_types, opaque_lifting) diff_zero order_trans)
qed

text \<open>C20 (safety). No record is written past its reservation. After a successful \<open>reserve\<close> of \<open>n\<close> bytes the buffers of a record of \<open>m\<close> bytes, where
  the rest of the reservation is a number of whole deletion records (the one for the end of a new job), are all written
  to the current file out of the space that this file has reserved, and the space of the log is in order again.\<close>

theorem reserved_record_fits:
  assumes "log_space 0 s" "wal_use (wal s)" "n \<le> filesize (wal s) - 4" "reserve n s = (n, s1)" "0 < n"
    "\<forall>k \<in> set ks. 0 \<le> k" "sum_list ks \<le> n" "(n - sum_list ks) mod 84 = 0"
    "filewrites (the (wal_cur (wal s1))) j ks s1 = (True, s2)"
  shows "log_space 0 s2 \<and> wal_resv (wal s2) = wal_resv (wal s) + (n - sum_list ks) \<and> wal_cur (wal s2) = wal_cur (wal s1)"
proof -
  have r: "log_space n s1" "wal_resv (wal s1) = wal_resv (wal s) + n" using reserve_ok(1) [OF assms(1,2,5,3,4)] assms(5) by auto
  then obtain b where b: "wal_cur (wal s1) = Some b" by (auto simp: log_space_def)
  then have "filewrites b j ks s1 = (True, s2)" using assms(9) by simp
  from filewrites_space [OF r(1) b assms(6,7) this] r(2) b log_space_whole [of "n - sum_list ks" s2] assms(7,8) show ?thesis by simp
qed


theorem reserved_record_fits_witness:
  "\<exists>s1 s2. reserve 268 (new_log 10485760) = (268, s1) \<and> filewrites 1 9 [4, 1, 80, 99] s1 = (True, s2) \<and> log_space 0 s2 \<and> wal_resv (wal s2) = 84"
proof -
  let ?s = "new_log 10485760"
  have sp: "log_space 0 ?s" by (rule new_log_space) simp
  have u: "wal_use (wal ?s)" "(268 :: int) \<le> filesize (wal ?s) - 4" "wal_resv (wal ?s) = 0" by (simp_all add: new_log_fields zero_wal_def)
  obtain s1 where r: "reserve 268 ?s = (268, s1)" "wal_cur (wal s1) = Some 1" "sys s1 = []"
    by (simp add: reserve_def new_log_fields upd_file_def)
  have w: "filewrites (the (wal_cur (wal s1))) 9 [4, 1, 80, 99] s1 = (True, snd (filewrites 1 9 [4, 1, 80, 99] s1))"
    using r(2,3) by (simp add: filewrite_def syscall_def upd_file_def upd_job_def)
  from reserved_record_fits [OF sp u(1,2) r(1) _ _ _ _ w] r(1,2) u(3) w show ?thesis by auto
qed

text \<open>
  The side condition that a record fits into a new file is needed. \<open>needfree\<close> does not look at the size of the file it makes: for a record
  that is larger than a file it succeeds all the same, although no file has room for the record then. \<open>reserve\<close> goes on to
  subtract the record from the free space of the last file, which becomes negative.
\<close>

theorem oversized_reservation:
  assumes "chain pre b fs s" "env_ok s" "filesize (wal s) - 4 < n" "ffree s (wal_tail s) < n"
  shows "\<exists>s'. needfree n s = (n, s') \<and> ffree s' (wal_tail s') < n"
proof -
  obtain r s' where e: "needfree n s = (r, s')" by (rule prod.exhaust)
  from e assms(1) show ?thesis
  proof (cases rule: needfree_cases)
    case Has
    then show ?thesis using assms(4) chain_tail [OF assms(1)] by simp
  next
    case (New a)
    have "wal_tail s' = a" using chain_tail [OF New(3)] by simp
    then show ?thesis using e New(1,5) assms(3) by simp
  next
    case Fail
    then show ?thesis using assms(2) by simp
  qed
qed

end
