(* ===== verification/Bean_Main.thy ===== *)
theory Bean_Main
  imports Bean_Sample Bean_Log
begin

text \<open>
  The program from its arguments to the event loop: the options (\<open>util.c\<close>) and the order of initialisation (\<open>main.c\<close>). The
  account database and the outcome of opening the listening socket are parameters; messages are not modelled.
\<close>

section \<open>Options\<close>

text \<open>What the options set besides \<open>srv.wal\<close> and \<open>job_data_size_limit\<close>, which are part of the server.\<close>

record options =
  opt_port :: string
  opt_addr :: "string option"
  opt_user :: "string option"
  opt_dir :: "string option"
  verbose :: nat

type_synonym config = "options \<times> server"

abbreviation JOB_DATA_SIZE_LIMIT_MAX :: nat where "JOB_DATA_SIZE_LIMIT_MAX \<equiv> 1073741824"

definition no_options :: options where
  "no_options = \<lparr>opt_port = ''11300'', opt_addr = None, opt_user = None, opt_dir = None, verbose = 0\<rparr>"

text \<open>
  \<open>None\<close> is \<open>usage(5)\<close>. The conversion \<open>%zu\<close> accepts what \<open>strtoul\<close> does, leading white space and a sign included, and saturates;
  a character after the number is an error.
\<close>

definition parse_size_t :: "string \<Rightarrow> u64 option" where
  "parse_size_t str =
     (let t = strtoumax str
      in if strto_end t = str \<or> strto_end t \<noteq> [] then None else Some (strto_num t))"

text \<open>\<open>EARGF\<close>: the argument of a flag is the rest of the word or, if there is none, the next word.\<close>

definition EARGF :: "string \<Rightarrow> string list \<Rightarrow> (string \<times> string list) option" where
  "EARGF arg argv = (if arg \<noteq> [] then Some (arg, argv) else case argv of [] \<Rightarrow> None | a # as \<Rightarrow> Some (a, as))"

definition arg_flags :: string where
  "arg_flags = ''plzsfub''"

text \<open>The flags with an argument. \<open>filesize\<close> is an \<open>int\<close>; the product of \<open>-f\<close> is taken in 64 bits.\<close>

definition set_arg :: "char \<Rightarrow> string \<Rightarrow> config \<Rightarrow> config option" where
  "set_arg c v cf =
     (let (op, s) = cf
      in if c = CHR ''p'' then Some (op\<lparr>opt_port := v\<rparr>, s)
         else if c = CHR ''l'' then Some (op\<lparr>opt_addr := Some v\<rparr>, s)
         else if c = CHR ''z'' then
           (case parse_size_t v of
              None \<Rightarrow> None
            | Some n \<Rightarrow> Some (op, s\<lparr>job_data_size_limit := (if unat n > JOB_DATA_SIZE_LIMIT_MAX then JOB_DATA_SIZE_LIMIT_MAX else unat n)\<rparr>))
         else if c = CHR ''s'' then
           (case parse_size_t v of None \<Rightarrow> None | Some n \<Rightarrow> Some (op, upd_wal (\<lambda>w. w\<lparr>filesize := signed_take_bit 31 (uint n)\<rparr>) s))
         else if c = CHR ''f'' then
           (case parse_size_t v of
              None \<Rightarrow> None
            | Some n \<Rightarrow> Some (op, upd_wal (\<lambda>w. w\<lparr>syncrate := signed_take_bit 63 (signed_take_bit 63 (uint n) * 1000000), wantsync := True\<rparr>) s))
         else if c = CHR ''u'' then Some (op\<lparr>opt_user := Some v\<rparr>, s)
         else Some (op\<lparr>opt_dir := Some v\<rparr>, upd_wal (\<lambda>w. w\<lparr>wal_use := True\<rparr>) s))"

text \<open>The flags of one word. \<open>Inl\<close> is the code of \<open>exit\<close>; after a flag with an argument the word is used up.\<close>

fun parse_flags :: "string \<Rightarrow> string list \<Rightarrow> config \<Rightarrow> nat + string list \<times> config" where
  "parse_flags [] argv cf = Inr (argv, cf)"
| "parse_flags (c # arg) argv cf =
     (if c \<in> set arg_flags then
        (case EARGF arg argv of
           None \<Rightarrow> Inl 5
         | Some (v, argv') \<Rightarrow> (case set_arg c v cf of None \<Rightarrow> Inl 5 | Some cf' \<Rightarrow> Inr (argv', cf')))
      else if c = CHR ''c'' \<or> c = CHR ''n'' then parse_flags arg argv cf
      else if c = CHR ''F'' then parse_flags arg argv (fst cf, upd_wal (\<lambda>w. w\<lparr>wantsync := False\<rparr>) (snd cf))
      else if c = CHR ''h'' \<or> c = CHR ''v'' then Inl 0
      else if c = CHR ''V'' then parse_flags arg argv ((fst cf)\<lparr>verbose := verbose (fst cf) + 1\<rparr>, snd cf)
      else Inl 5)"

lemma parse_flags_length: "parse_flags arg argv cf = Inr (argv', cf') \<Longrightarrow> length argv' \<le> length argv"
  by (induction arg argv cf rule: parse_flags.induct)
    (auto simp: EARGF_def split: if_splits option.splits list.splits)

function optparse :: "string list \<Rightarrow> config \<Rightarrow> nat + config" where
  "optparse [] cf = Inr cf"
| "optparse (a # argv) cf =
     (if a = [] \<or> hd a \<noteq> CHR ''-'' \<or> tl a = [] then Inl 5
      else case parse_flags (tl a) argv cf of
             Inl e \<Rightarrow> Inl e
           | Inr (argv', cf') \<Rightarrow> optparse argv' cf')"
  by pat_completeness auto

termination
  by (relation "measure (\<lambda>(argv, cf). length argv)") (auto dest!: parse_flags_length)

subsection \<open>A reference definition\<close>

text \<open>
  The reference reads the command line in two passes: it first splits the words into options, then obeys the options one after
  the other. \<open>Malformed\<close> is a word that is not an option, a flag without its argument or an unknown flag.
\<close>

datatype cli_option = Valued char string | Bare char | Malformed

fun flag_tokens :: "string \<Rightarrow> string list \<Rightarrow> cli_option list \<times> string list" where
  "flag_tokens [] argv = ([], argv)"
| "flag_tokens (c # arg) argv =
     (if c \<in> set arg_flags then
        (if arg \<noteq> [] then ([Valued c arg], argv)
         else case argv of [] \<Rightarrow> ([Malformed], []) | v # vs \<Rightarrow> ([Valued c v], vs))
      else (Bare c # fst (flag_tokens arg argv), snd (flag_tokens arg argv)))"

lemma flag_tokens_length: "length (snd (flag_tokens arg argv)) \<le> length argv"
  by (induction arg argv rule: flag_tokens.induct) (auto split: list.split)

function tokens :: "string list \<Rightarrow> cli_option list" where
  "tokens [] = []"
| "tokens (a # argv) =
     (if length a < 2 \<or> hd a \<noteq> CHR ''-'' then [Malformed]
      else fst (flag_tokens (tl a) argv) @ tokens (snd (flag_tokens (tl a) argv)))"
  by pat_completeness auto

termination
  by (relation "measure length") (simp_all add: flag_tokens_length less_Suc_eq_le)

definition obey :: "cli_option \<Rightarrow> config \<Rightarrow> nat + config" where
  "obey t cf =
     (case t of
        Malformed \<Rightarrow> Inl 5
      | Valued c v \<Rightarrow> (case set_arg c v cf of None \<Rightarrow> Inl 5 | Some cf' \<Rightarrow> Inr cf')
      | Bare c \<Rightarrow>
          if c \<in> {CHR ''c'', CHR ''n''} then Inr cf
          else if c = CHR ''F'' then Inr (fst cf, upd_wal (\<lambda>w. w\<lparr>wantsync := False\<rparr>) (snd cf))
          else if c = CHR ''V'' then Inr ((fst cf)\<lparr>verbose := verbose (fst cf) + 1\<rparr>, snd cf)
          else if c \<in> {CHR ''h'', CHR ''v''} then Inl 0
          else Inl 5)"

fun obey_all :: "cli_option list \<Rightarrow> config \<Rightarrow> nat + config" where
  "obey_all [] cf = Inr cf"
| "obey_all (t # ts) cf = (case obey t cf of Inl e \<Rightarrow> Inl e | Inr cf' \<Rightarrow> obey_all ts cf')"

lemma obey_all_append: "obey_all (ts @ us) cf = (case obey_all ts cf of Inl e \<Rightarrow> Inl e | Inr cf' \<Rightarrow> obey_all us cf')"
  by (induction ts arbitrary: cf) (auto split: sum.split)

lemma parse_flags_obeys:
  "parse_flags arg argv cf = (case obey_all (fst (flag_tokens arg argv)) cf of Inl e \<Rightarrow> Inl e | Inr cf' \<Rightarrow> Inr (snd (flag_tokens arg argv), cf'))"
proof (induction arg arbitrary: argv cf)
  case (Cons c arg)
  show ?case
  proof (cases "c \<in> set arg_flags")
    case True
    then show ?thesis by (simp add: EARGF_def obey_def split: list.split option.split)
  next
    case False
    then obtain ts where t: "flag_tokens (c # arg) argv = (Bare c # ts, snd (flag_tokens arg argv))" "ts = fst (flag_tokens arg argv)" by simp
    have p: "parse_flags (c # arg) argv cf = (case obey (Bare c) cf of Inl e \<Rightarrow> Inl e | Inr cf' \<Rightarrow> parse_flags arg argv cf')"
      using False by (simp add: obey_def)
    show ?thesis unfolding p t(1) by (simp add: Cons.IH t(2) split: sum.split)
  qed
qed simp

lemma optparse_obeys: "optparse argv cf = obey_all (tokens argv) cf"
proof (induction argv cf rule: optparse.induct)
  case (2 a argv cf)
  have w: "length a < 2 \<longleftrightarrow> a = [] \<or> tl a = []" by (cases a) auto
  show ?case
    using 2 by (auto simp: w obey_def parse_flags_obeys obey_all_append split: sum.split)
qed simp

text \<open>C34 (equivalence). Reading the command line in one pass, with the argument of a flag taken from the rest of its word or from
  the next word, is the same as splitting the words into options first and obeying them in order.\<close>

theorem optparse_obeys_tokens: "optparse argv cf = obey_all (tokens argv) cf"
  by (rule optparse_obeys)

subsection \<open>What the options can set\<close>

text \<open>The values fit their types, the size limit is capped, and a log is in use only with a directory.\<close>

definition config_ok :: "config \<Rightarrow> bool" where
  "config_ok cf \<longleftrightarrow> job_data_size_limit (snd cf) \<le> JOB_DATA_SIZE_LIMIT_MAX \<and>
     filesize (wal (snd cf)) \<in> {- (2 ^ 31)..<2 ^ 31} \<and> syncrate (wal (snd cf)) \<in> {- (2 ^ 63)..<2 ^ 63} \<and>
     (wal_use (wal (snd cf)) \<longrightarrow> opt_dir (fst cf) \<noteq> None)"

definition only_options :: "server \<Rightarrow> server \<Rightarrow> bool" where
  "only_options s s' \<longleftrightarrow> s' = s\<lparr>wal := wal s', job_data_size_limit := job_data_size_limit s'\<rparr>"

lemma only_options_trans: "only_options s s1 \<Longrightarrow> only_options s1 s2 \<Longrightarrow> only_options s s2"
  unfolding only_options_def by (cases s; cases s1; cases s2) simp

lemma int_range [simp]: "signed_take_bit 31 (x :: int) \<in> {- 2147483648..<2147483648}" "signed_take_bit 63 (x :: int) \<in> {- 9223372036854775808..<9223372036854775808}"
  using signed_take_bit_int_greater_eq_minus_exp [of 31 x] signed_take_bit_int_less_exp [of 31 x]
    signed_take_bit_int_greater_eq_minus_exp [of 63 x] signed_take_bit_int_less_exp [of 63 x] by simp_all

lemma set_arg_ok:
  assumes "set_arg c v cf = Some cf'"
  shows "config_ok cf \<Longrightarrow> config_ok cf'" "only_options (snd cf) (snd cf')"
  using assms unfolding set_arg_def config_ok_def only_options_def
  by (auto simp del: atLeastLessThan_iff split: if_splits option.splits prod.splits)

lemma obey_ok:
  assumes "obey t cf = Inr cf'"
  shows "config_ok cf \<Longrightarrow> config_ok cf'" "only_options (snd cf) (snd cf')"
proof -
  have "(config_ok cf \<longrightarrow> config_ok cf') \<and> only_options (snd cf) (snd cf')"
  proof (cases "\<exists>c v. t = Valued c v")
    case True
    then obtain c v where t: "t = Valued c v" by blast
    then have "set_arg c v cf = Some cf'" using assms by (simp add: obey_def split: option.splits)
    from set_arg_ok [OF this] show ?thesis by blast
  next
    case False
    then show ?thesis using assms
      by (cases t) (auto simp: obey_def config_ok_def only_options_def split: if_splits)
  qed
  then show "config_ok cf \<Longrightarrow> config_ok cf'" "only_options (snd cf) (snd cf')" by simp_all
qed

lemma obey_all_ok:
  assumes "obey_all ts cf = Inr cf'"
  shows "(config_ok cf \<longrightarrow> config_ok cf') \<and> only_options (snd cf) (snd cf')"
  using assms
proof (induction ts arbitrary: cf)
  case Nil
  then show ?case by (simp add: only_options_def)
next
  case (Cons t ts)
  then obtain c where c: "obey t cf = Inr c" "obey_all ts c = Inr cf'" by (auto split: sum.splits)
  then show ?case using Cons.IH [OF c(2)] obey_ok [OF c(1)] only_options_trans by blast
qed

text \<open>C35 (type). Whatever the options are, the size limit for jobs is at most \<open>JOB_DATA_SIZE_LIMIT_MAX\<close>, the size of a log file is
  in the range of \<open>int\<close> and the interval of \<open>fsync\<close> in that of \<open>int64\<close>, and the log is in use only if a directory was given.\<close>

theorem options_in_range:
  assumes "config_ok cf" "optparse argv cf = Inr cf'"
  shows "config_ok cf'"
  using obey_all_ok assms optparse_obeys by auto

theorem options_in_range_witness:
  "\<exists>cf. optparse [''-Vz2000000000'', ''-s'', ''3000000000'', ''-b/d''] (no_options, boot 0) = Inr cf \<and> config_ok cf"
proof -
  have ok: "config_ok (no_options, boot 0)" by (simp add: config_ok_def boot_def zero_wal_def)
  have "\<exists>cf. optparse [''-Vz2000000000'', ''-s'', ''3000000000'', ''-b/d''] (no_options, boot 0) = Inr cf"
    by (simp add: arg_flags_def EARGF_def set_arg_def parse_size_t_def strtoumax_def is_space_def is_digit_def dec_val_def digit_val_def Let_def)
  then show ?thesis using options_in_range [OF ok] by blast
qed

lemma parse_size_t_print:
  assumes "n < 2 ^ 64"
  shows "parse_size_t (fmt_dec n) = Some (of_nat n)"
proof -
  let ?b = "fmt_dec n"
  have h: "is_digit (hd ?b)" and t: "takeWhile is_digit ?b = ?b" and d: "dropWhile is_digit ?b = []"
    using fmt_dec_digits [of n] fmt_dec_not_Nil [of n] by (simp_all add: takeWhile_eq_all_conv)
  note x = strtoumax_digits [OF h fmt_dec_not_Nil, unfolded t d fmt_dec_val]
  show ?thesis using x(1) x(5) [OF assms] fmt_dec_not_Nil [of n] by (simp add: parse_size_t_def Let_def)
qed

text \<open>C36 (functional). The size given with \<open>-s\<close> is used as it is, for every size that fits an \<open>int\<close>: it is not rounded up to a
  multiple of 4096 bytes as the usage text says.\<close>

theorem log_file_size_not_rounded:
  assumes "n < 2 ^ 31"
  shows "optparse [''-s'', fmt_dec n] (op, s) = Inr (op, upd_wal (\<lambda>w. w\<lparr>filesize := int n\<rparr>) s)"
proof -
  have u: "signed_take_bit 31 (uint (of_nat n :: u64)) = int n"
    using assms by (subst uint_nat) (simp add: unat_of_nat take_bit_nat_eq_self signed_take_bit_int_eq_self)
  have "parse_size_t (fmt_dec n) = Some (of_nat n)" by (rule parse_size_t_print) (use assms in simp)
  then show ?thesis by (simp add: optparse_obeys arg_flags_def obey_def set_arg_def u)
qed

theorem log_file_size_not_rounded_witness:
  "optparse [''-s'', fmt_dec 1000] (no_options, boot 0) = Inr (no_options, upd_wal (\<lambda>w. w\<lparr>filesize := 1000\<rparr>) (boot 0))"
  using log_file_size_not_rounded [of 1000 no_options "boot 0"] by simp

section \<open>Start\<close>

datatype account = PwError | PwNone | PwEntry

text \<open>\<open>Inl\<close> is the code of \<open>exit\<close>.\<close>

definition su :: "(string \<Rightarrow> account) \<Rightarrow> string \<Rightarrow> server \<Rightarrow> nat + server" where
  "su getpwnam user s =
     (case getpwnam user of
        PwError \<Rightarrow> Inl 32
      | PwNone \<Rightarrow> Inl 33
      | PwEntry \<Rightarrow>
          (case syscall s of
             (False, s1) \<Rightarrow> Inl 34
           | (True, s1) \<Rightarrow> (case syscall s1 of (False, s2) \<Rightarrow> Inl 34 | (True, s2) \<Rightarrow> Inr s2)))"

fun syscalls :: "nat \<Rightarrow> server \<Rightarrow> bool \<times> server" where
  "syscalls 0 s = (True, s)"
| "syscalls (Suc n) s = (case syscall s of (False, s1) \<Rightarrow> (False, s1) | (True, s1) \<Rightarrow> syscalls n s1)"

text \<open>\<open>sigemptyset\<close> and \<open>sigaction\<close> for \<open>SIGPIPE\<close>, \<open>SIGUSR1\<close> and, as process 1, \<open>SIGTERM\<close>.\<close>

definition set_sig_handlers :: "bool \<Rightarrow> server \<Rightarrow> nat + server" where
  "set_sig_handlers pid1 s = (case syscalls (if pid1 then 4 else 3) s of (False, s1) \<Rightarrow> Inl 111 | (True, s1) \<Rightarrow> Inr s1)"

text \<open>\<open>Exits None\<close> is an exit of \<open>srv_acquire_wal\<close>, with code 10 or 1, or a crash.\<close>

datatype outcome = Exits "nat option" | Serves server

record world =
  w_socket :: bool
  w_getpwnam :: "string \<Rightarrow> account"
  w_pid1 :: bool
  w_names :: "string list option"
  w_disk :: "int \<Rightarrow> string"

definition main_start :: "world \<Rightarrow> string list \<Rightarrow> server \<Rightarrow> outcome" where
  "main_start w argv s =
     (case optparse argv (no_options, s) of
        Inl e \<Rightarrow> Exits (Some e)
      | Inr (op, s1) \<Rightarrow>
          if \<not> w_socket w then Exits (Some 111)
          else case prot_init s1 of
            None \<Rightarrow> Exits (Some 50)
          | Some s2 \<Rightarrow>
              (case (case opt_user op of None \<Rightarrow> Inr s2 | Some u \<Rightarrow> su (w_getpwnam w) u s2) of
                 Inl e \<Rightarrow> Exits (Some e)
               | Inr s3 \<Rightarrow>
                   (case set_sig_handlers (w_pid1 w) s3 of
                      Inl e \<Rightarrow> Exits (Some e)
                    | Inr s4 \<Rightarrow> (case srv_acquire_wal (w_names w) (w_disk w) s4 of None \<Rightarrow> Exits None | Some s5 \<Rightarrow> Serves s5))))"

section \<open>A start without a log\<close>

lemma syscall_frame: "syscall s = (b, s') \<Longrightarrow> \<exists>y. s' = s\<lparr>sys := y\<rparr>"
  by (cases s) (auto simp: syscall_def split: list.splits)

lemma syscalls_frame: "syscalls n s = (b, s') \<Longrightarrow> \<exists>y. s' = s\<lparr>sys := y\<rparr>"
proof (induction n arbitrary: s)
  case 0
  then show ?case by (auto intro: exI [of _ "sys s"])
next
  case (Suc n)
  then obtain c s1 where c: "syscall s = (c, s1)" by (cases "syscall s")
  then obtain y where y: "s1 = s\<lparr>sys := y\<rparr>" using syscall_frame by blast
  then show ?case using Suc.IH [of s1] Suc.prems c by (cases c) auto
qed

lemma su_frame: "su pw u s = Inr s' \<Longrightarrow> \<exists>y. s' = s\<lparr>sys := y\<rparr>"
  by (auto simp: su_def split: account.splits prod.splits bool.splits dest!: syscall_frame)

lemma set_sig_handlers_frame: "set_sig_handlers p s = Inr s' \<Longrightarrow> \<exists>y. s' = s\<lparr>sys := y\<rparr>"
  using syscalls_frame by (fastforce simp: set_sig_handlers_def split: prod.splits bool.splits)

lemma reachable_sys: "reachable si s \<Longrightarrow> reachable si (s\<lparr>sys := y\<rparr>)"
  using reachable.environment [where s = s and a = "allocs s" and y = y and ts = "ticks s" and t = "now s"] by simp

lemma wal_refs: "wal (tube_iref tp s) = wal s" "wal (tube_dref tp s) = wal s"
  using rframe_fields [OF rframe_refs(1)] rframe_fields [OF rframe_refs(2)] by simp_all

lemma make_tube_wal: "make_tube name s = (tp, s') \<Longrightarrow> wal s' = wal s"
  by (auto simp: make_tube_def malloc_def Let_def split: prod.splits list.splits bool.splits option.splits)

lemma tubes_append_wal: "ms_append None malloc m s x = (b, m', s') \<Longrightarrow> wal s' = wal s"
  by (auto simp: ms_append_def grow_def ms_event_def malloc_def Let_def split: prod.splits list.splits bool.splits option.splits if_splits)

lemma find_or_make_wal: "tube_find_or_make name s = (tp, s') \<Longrightarrow> wal s' = wal s"
  by (auto simp: tube_find_or_make_def make_and_insert_tube_def wal_refs split: prod.splits option.splits bool.splits if_splits
      dest!: make_tube_wal tubes_append_wal)

lemma prot_init_wal: "prot_init s = Some s' \<Longrightarrow> wal s' = wal s"
  by (auto simp: prot_init_def nanoseconds_def wal_refs split: prod.splits bool.splits list.splits dest!: syscall_frame find_or_make_wal)

text \<open>The two allocations of \<open>prot_init\<close>, for the default tube and for its place in the set of tubes.\<close>

lemma prot_init_default:
  assumes "prot_init ((boot t)\<lparr>wal := w, allocs := a, sys := y, ticks := ts, job_data_size_limit := z\<rparr>) = Some s" "False \<notin> set (take 2 a)"
  shows "default_tube s \<noteq> None"
proof -
  have "a = [] \<or> a = [True] \<or> (\<exists>bs. a = True # True # bs)" using assms(2) by (cases a; cases "tl a") (auto simp: numeral_2_eq_2)
  then show ?thesis
    using assms(1) by (auto simp: prot_init_def nanoseconds_def syscall_def tube_find_or_make_def tube_find_def make_and_insert_tube_def make_tube_def
        malloc_def ms_append_def grow_def ms_event_def ms_init_def boot_def tube_iref_def tube_dref_def upd_tube_def Let_def split: list.splits bool.splits)
qed

text \<open>C9 (invariant). A server started without \<open>-b\<close> enters its event loop in a reachable state, so that everything shown of the
  reachable states holds of it: whatever the other options are, the order of initialisation in \<open>main\<close> establishes the invariant. The
  first two allocations, those of the default tube, have to succeed: \<open>prot_init\<close> goes on without a default tube otherwise.\<close>

theorem main_starts_reachable:
  assumes "main_start w argv ((boot t)\<lparr>allocs := a, sys := y, ticks := ts\<rparr>) = Serves s"
    "optparse argv (no_options, (boot t)\<lparr>allocs := a, sys := y, ticks := ts\<rparr>) = Inr (op, s1)" "opt_dir op = None" "False \<notin> set (take 2 a)"
  shows "reachable si s \<and> default_tube s \<noteq> None"
proof -
  let ?s0 = "(boot t)\<lparr>allocs := a, sys := y, ticks := ts\<rparr>"
  have "config_ok (no_options, ?s0)" by (simp add: config_ok_def boot_def zero_wal_def)
  then have c: "config_ok (op, s1)" "only_options ?s0 s1"
    using obey_all_ok [of "tokens argv" "(no_options, ?s0)" "(op, s1)"] assms(2) by (simp_all add: optparse_obeys)
  then have w: "\<not> wal_use (wal s1)" using assms(3) by (simp add: config_ok_def)
  have s1: "s1 = (boot t)\<lparr>wal := wal s1, allocs := a, sys := y, ticks := ts, job_data_size_limit := job_data_size_limit s1\<rparr>"
    using c(2) unfolding only_options_def by (cases s1) simp
  obtain s2 where s2: "prot_init s1 = Some s2" using assms(1,2) by (auto simp: main_start_def split: if_splits option.splits)
  obtain s3 where s3: "(case opt_user op of None \<Rightarrow> Inr s2 | Some u \<Rightarrow> su (w_getpwnam w) u s2) = Inr s3"
    using assms(1,2) s2 by (auto simp: main_start_def split: if_splits sum.splits)
  obtain s4 where s4: "set_sig_handlers (w_pid1 w) s3 = Inr s4" "srv_acquire_wal (w_names w) (w_disk w) s4 = Some s"
    using assms(1,2) s2 s3 by (auto simp: main_start_def split: if_splits sum.splits option.splits)
  obtain y3 where y3: "s3 = s2\<lparr>sys := y3\<rparr>"
    using s3 su_frame by (cases "opt_user op") (fastforce intro: exI [of _ "sys s2"])+
  obtain y4 where y4: "s4 = s3\<lparr>sys := y4\<rparr>" using set_sig_handlers_frame [OF s4(1)] by blast
  have i: "prot_init ((boot t)\<lparr>wal := wal s1, allocs := a, sys := y, ticks := ts, job_data_size_limit := job_data_size_limit s1\<rparr>) = Some s2"
    by (subst s1 [symmetric]) (rule s2)
  note d = prot_init_default [OF i assms(4)]
  have r: "reachable si s4" unfolding y4 y3 by (intro reachable_sys) (rule reachable.started [OF i w d])
  have w2: "\<not> wal_use (wal s2)" using w prot_init_wal [OF s2] by simp
  then have "s = s4" using s4(2) by (simp add: srv_acquire_wal_def y3 y4)
  then show ?thesis using r d by (simp add: y3 y4)
qed

definition sample_world :: world where
  "sample_world = \<lparr>w_socket = True, w_getpwnam = (\<lambda>_. PwEntry), w_pid1 = True, w_names = None, w_disk = (\<lambda>_. [])\<rparr>"

definition sample_argv :: "string list" where
  "sample_argv = [''-VVu'', ''bob'', ''-p4242'']"

lemma sample_optparse:
  "optparse sample_argv (no_options, s) = Inr (no_options\<lparr>verbose := 2, opt_user := Some ''bob'', opt_port := ''4242''\<rparr>, s)"
  by (simp add: sample_argv_def optparse_obeys arg_flags_def obey_def set_arg_def no_options_def)

theorem main_starts_reachable_witness: "main_start sample_world sample_argv (boot 0) = Serves run0 \<and> reachable run_si run0"
proof -
  have b: "(boot 0)\<lparr>allocs := [], sys := [], ticks := []\<rparr> = boot 0" by (simp add: boot_def)
  have r: "sys run0 = []" "\<not> wal_use (wal run0)" "default_tube run0 \<noteq> None" by (simp_all add: run0_def boot_def zero_wal_def)
  have m: "main_start sample_world sample_argv (boot 0) = Serves run0"
    by (simp add: main_start_def sample_optparse run0_starts sample_world_def su_def set_sig_handlers_def syscall_def r srv_acquire_wal_def eval_nat_numeral)
  have "reachable run_si run0"
    by (rule main_starts_reachable [where t = 0 and a = "[]" and y = "[]" and ts = "[]", unfolded b, OF m sample_optparse, THEN conjunct1]) (simp_all add: no_options_def)
  with m show ?thesis by simp
qed

end
