(* ===== verification/Bean_Pipeline.thy ===== *)
theory Bean_Pipeline
  imports Bean_Calm
begin

text \<open>
  Pipelined commands: a client may send several command lines at once. Every round of the loop of \<open>h_conn\<close> uses up the
  line that it dispatches, so the loop comes to an end, and no complete line is left behind in the buffer of a connection that
  waits for a command.
\<close>

section \<open>A command uses up its line\<close>

text \<open>\<open>spends c s s'\<close>: the line at the front of the buffer of \<open>c\<close> is still there, or it has been taken out of the buffer.\<close>

definition spends :: "addr \<Rightarrow> server \<Rightarrow> server \<Rightarrow> bool" where
  "spends c s s' \<longleftrightarrow> sock_fd (conn_st s' c) = sock_fd (conn_st s c) \<and>
     (cmd_len (conn_st s' c) = cmd_len (conn_st s c) \<and> c_cmd (conn_st s' c) = c_cmd (conn_st s c) \<or>
      length (c_cmd (conn_st s' c)) \<le> length (c_cmd (conn_st s c)) - cmd_len (conn_st s c))"

lemma spends_trans [trans]: "spends c s s1 \<Longrightarrow> spends c s1 s2 \<Longrightarrow> spends c s s2"
  by (auto simp: spends_def)

lemma spends_calm: "calm s s' \<Longrightarrow> spends c s s'"
  by (simp add: spends_def calmD(3-5))

lemma spends_upd:
  "cmd_len (f (conn_st s c)) = cmd_len (conn_st s c) \<Longrightarrow> c_cmd (f (conn_st s c)) = c_cmd (conn_st s c) \<Longrightarrow>
   sock_fd (f (conn_st s c)) = sock_fd (conn_st s c) \<Longrightarrow> spends c s (upd_conn c f s)"
  by (simp add: spends_def)

lemma fill_idle: "sock_fd (conn_st s c) = 0 \<or> cmd_len (conn_st s c) = 0 \<Longrightarrow> fill_extra_data c s = s"
  by (auto simp: fill_extra_data_def Let_def)

lemma spends_fill: "spends c s (fill_extra_data c s)"
  using fill_idle [of s c] fill_fields(3) [of s c] fill_fields(4) [of c s c] by (fastforce simp: spends_def)

lemma spends_skip: "spends c s (skip c k msg s)"
proof -
  define s2 where "s2 = fill_extra_data c (upd_conn c (\<lambda>x. x\<lparr>in_job := None, in_job_read := k\<rparr>) s)"
  have s2: "spends c s s2" unfolding s2_def by (rule spends_trans [OF spends_upd spends_fill]) simp_all
  have "spends c s2 (skip c k msg s)"
    unfolding skip_def Let_def s2_def [symmetric]
    using spends_calm [of s2 "reply c (msg @ crlf) STATE_SEND_WORD s2" c] by (simp add: spends_upd)
  then show ?thesis by (rule spends_trans [OF s2])
qed

lemma spends_maybe: "spends c s (maybe_enqueue_incoming_job c s)"
proof -
  have "spends c s (upd_conn c (\<lambda>x. x\<lparr>in_job := None, in_job_read := 0\<rparr>) s)" by (rule spends_upd) simp_all
  then have "spends c s (enqueue_incoming_job c s)"
    by (rule spends_trans) (use incoming_calm [of c s] spends_calm in blast)
  moreover have "spends c s (upd_conn c (\<lambda>x. x\<lparr>c_state := STATE_WANT_DATA\<rparr>) s)" by (rule spends_upd) simp_all
  ultimately show ?thesis by (simp add: maybe_enqueue_incoming_job_def Let_def)
qed

lemma spends_put: "spends c s (do_put c line s)"
proof -
  let ?s1 = "count_op OP_PUT s"
  have c1: "spends c s ?s1" by (rule spends_calm [OF calm_same]) simp
  have "spends c s (if jo = None then skip c k m (upd_conn c (\<lambda>x. x\<lparr>in_job := jo\<rparr>) s3)
      else maybe_enqueue_incoming_job c (fill_extra_data c (upd_conn c (\<lambda>x. x\<lparr>in_job := jo\<rparr>) s3)))"
    if m: "make_job pri dly ttr bs tp (connsetproducer c ?s1) = (jo, s3)" for pri dly ttr bs tp jo s3 k m
  proof -
    let ?s4 = "upd_conn c (\<lambda>x. x\<lparr>in_job := jo\<rparr>) s3"
    have "ustat s3 = ustat s" using ustat_make_job [OF m] by simp
    then have "spends c s s3" by (rule spends_calm [OF calm_same])
    also have "spends c s3 ?s4" by (rule spends_upd) simp_all
    finally have s4: "spends c s ?s4" .
    then show ?thesis
      using spends_trans [OF s4 spends_skip] spends_trans [OF spends_trans [OF s4 spends_fill] spends_maybe] by (cases jo) (simp_all only: if_True if_False option.simps simp_thms)
  qed
  from this [OF prod.collapse [symmetric]] spends_trans [OF c1 spends_skip] spends_trans [OF c1 spends_calm [OF calm_after(1) [OF refl]]]
    spends_calm [OF calm_after(1) [OF refl]]
  show ?thesis by (auto simp: do_put_def Let_def case_prod_beta split: option.split)
qed

lemma spends_dispatch: "spends c s (dispatch_cmd si c s)"
proof -
  have "spends c s (run_cmd si p c line s)" for p line
    using spends_put spends_calm [OF calm_run_cmd] by (cases "p = OP_PUT") (simp_all add: run_cmd_def)
  then show ?thesis using spends_calm by (simp add: dispatch_cmd_def Let_def)
qed

lemma round_shrinks:
  assumes "cmd_data_ready c s" "cmd_len (conn_st s c) \<noteq> 0"
  shows "length (c_cmd (conn_st (fill_extra_data c (dispatch_cmd si c s)) c)) < length (c_cmd (conn_st s c))"
proof -
  define s2 where "s2 = dispatch_cmd si c s"
  have d: "sock_fd (conn_st s c) \<noteq> 0" "c_cmd (conn_st s c) \<noteq> []" using assms(1) by (simp_all add: cmd_data_ready_def)
  have pos: "0 < length (c_cmd (conn_st s c))" using d(2) by simp
  note sp = spends_dispatch [of c s si, folded s2_def, unfolded spends_def]
  consider "sock_fd (conn_st s2 c) \<noteq> 0" "cmd_len (conn_st s2 c) = cmd_len (conn_st s c)" "c_cmd (conn_st s2 c) = c_cmd (conn_st s c)"
    | "length (c_cmd (conn_st s2 c)) \<le> length (c_cmd (conn_st s c)) - cmd_len (conn_st s c)"
    using sp d(1) by auto
  then show ?thesis
    unfolding s2_def [symmetric]
  proof cases
    case 1
    then have "length (c_cmd (conn_st (fill_extra_data c s2) c)) \<le> length (c_cmd (conn_st s c)) - cmd_len (conn_st s c)"
      using fill_fields(3) [of s2 c] assms(2) by simp
    then show "length (c_cmd (conn_st (fill_extra_data c s2) c)) < length (c_cmd (conn_st s c))"
      using pos assms(2) by linarith
  next
    case 2
    then show "length (c_cmd (conn_st (fill_extra_data c s2) c)) < length (c_cmd (conn_st s c))"
      using fill_fields(2) [of c s2] pos assms(2) by linarith
  qed
qed

section \<open>The loop\<close>

text \<open>No complete line is left in the buffer of a connection that waits for a command.\<close>

definition drained :: "addr \<Rightarrow> server \<Rightarrow> bool" where
  "drained c s \<longleftrightarrow> \<not> (cmd_data_ready c s \<and> scan_line_end (c_cmd (conn_st s c)) \<noteq> 0)"

lemma cmd_loop_drained:
  "length (c_cmd (conn_st s c)) < n \<Longrightarrow> drained c (cmd_loop n si c s) \<and> cmd_loop (n + k) si c s = cmd_loop n si c s"
proof (induction n arbitrary: s)
  case (Suc n)
  define s1 where "s1 = upd_conn c (\<lambda>x. x\<lparr>cmd_len := scan_line_end (c_cmd (conn_st s c))\<rparr>) s"
  let ?s2 = "fill_extra_data c (dispatch_cmd si c s1)"
  show ?case
  proof (cases "cmd_data_ready c s \<and> scan_line_end (c_cmd (conn_st s c)) \<noteq> 0")
    case True
    then have "length (c_cmd (conn_st ?s2 c)) < n"
      using round_shrinks [of c s1 si] Suc.prems by (simp add: s1_def cmd_data_ready_def)
    from Suc.IH [OF this] True show ?thesis by (simp add: Let_def s1_def)
  next
    case False
    then show ?thesis by (auto simp: Let_def drained_def cmd_data_ready_def)
  qed
qed simp

text \<open>C13 (termination). Pipelined commands are all handled. The loop of \<open>h_conn\<close> over the commands in the buffer of a connection comes to
  an end after at most as many rounds as the buffer has bytes: a larger bound changes nothing, and when the loop ends the connection
  does not wait for a command, or no complete command line is left in its buffer.\<close>

theorem pipelined_commands_handled:
  "drained c (cmd_loop (Suc (length (c_cmd (conn_st s c)))) si c s) \<and>
   cmd_loop (Suc (length (c_cmd (conn_st s c))) + k) si c s = cmd_loop (Suc (length (c_cmd (conn_st s c)))) si c s"
  by (rule cmd_loop_drained) simp

end
