(* ===== verification/Bean_Records.thy ===== *)
theory Bean_Records
  imports Bean_Startup Bean_Calm
begin

text \<open>
  Single records of the log: what \<open>filewrjobfull\<close> and \<open>filewrjobshort\<close> write for a job is what \<open>readrec\<close> reads, and a job that \<open>put\<close>
  accepts but that \<open>readrec\<close> refuses.
\<close>

section \<open>Written and read back\<close>

lemma filewrites_charges: "filewrites f j ns s = (True, s') \<Longrightarrow> walresv (job_st s' j) = walresv (job_st s j) - sum_list ns"
proof (induction ns arbitrary: s)
  case (Cons n ns)
  obtain s1 where s1: "filewrite f j n s = (True, s1)" "filewrites f j ns s1 = (True, s')"
    using Cons.prems by (auto split: prod.splits bool.splits)
  obtain ys where "syscall s = (True, s\<lparr>sys := ys\<rparr>)" using s1(1) by (auto simp: filewrite_def syscall_def split: list.splits bool.splits intro: that [of "sys s"])
  then have "walresv (job_st s1 j) = walresv (job_st s j) - n" using s1(1) by (auto simp: filewrite_def upd_file_def)
  then show ?case using Cons.IH [OF s1(2)] by simp
qed simp

lemma filedecref_walresv: "walresv (job_st (filermjob fp j s) j) = walresv (job_st s j)"
  by (simp add: filermjob_def filedecref_def walgc_def Let_def upd_file_def split: option.split)

lemma jobrec_bytes_truncate: "jobrec_bytes (Jobrec.truncate r) = jobrec_bytes r"
  by (simp add: jobrec_bytes_def Jobrec.truncate_def)

lemma records_truncate:
  "rec_bytes (Full nm (Jobrec.truncate r) b) = concat (full_record nm r b)" "rec_bytes (Short (Jobrec.truncate r)) = concat (short_record r)"
  by (simp_all add: full_record_def short_record_def jobrec_bytes_truncate) (simp add: Jobrec.truncate_def)

text \<open>C17 (roundtrip). A record that is written is read back. The buffers that \<open>filewrjobfull\<close> writes for a job, one after the other, take as
  many bytes from the reservation of the job as they have, and \<open>readrec\<close>, on these bytes and whatever follows them, consumes exactly
  them and adds a job with the tube name, every field and the body of the one that was written, ready if it was reserved. For the short
  record of \<open>filewrjobshort\<close> the same holds, and \<open>readrec\<close> replaces the fields of the job, or removes it if it was deleted. The job has
  to be one that the format can hold (\<open>wf_rec\<close>), and the reader in a state in which no system call fails.\<close>

theorem record_round_trip:
  fixes s :: server and j :: addr
  defines "nm \<equiv> t_name (tube_st s (the (j_tube (job_st s j))))" and "jr \<equiv> Jobrec.truncate (job_st s j)" and "b \<equiv> body (job_st s j)"
  assumes reader: "rok r" "quiet r" "rroom 1 r"
  shows "(wf_rec (job_data_size_limit r) (Full nm jr b) \<and> find_job r (r_id jr) = None \<and> filewrjobfull f j s = (True, sw) \<longrightarrow>
      walresv (job_st sw j) = walresv (job_st s j) - int (length (concat (full_record nm (job_st s j) b))) \<and>
      (\<exists>r'. readrec g (concat (full_record nm (job_st s j) b) @ rest) r = (RMore, rest, r') \<and> rok r' \<and>
        log_view r' = (log_view r)(r_id jr \<mapsto> (nm, replayed jr, b)))) \<and>
    (wf_rec (job_data_size_limit r) (Short jr) \<and> log_view r (r_id jr) = Some (nm', jr', b') \<and> filewrjobshort f j s = (True, sw) \<longrightarrow>
      walresv (job_st sw j) = walresv (job_st s j) - int (length (concat (short_record (job_st s j)))) \<and>
      (\<exists>r'. readrec g (concat (short_record (job_st s j)) @ rest) r = (RMore, rest, r') \<and> rok r' \<and>
        log_view r' = (log_view r)(r_id jr := (if r_state jr = Invalid then None else Some (nm', replayed jr, b')))))"
proof (intro conjI impI; elim conjE)
  assume w: "wf_rec (job_data_size_limit r) (Full nm jr b)" and new: "find_job r (r_id jr) = None" and e: "filewrjobfull f j s = (True, sw)"
  let ?s = "fileaddjob f j s"
  have bs: "r_body_size (job_st s j) = int (length b)" using w by (simp add: jr_def Jobrec.truncate_def)
  have f: "tube_name_len j ?s = int (length nm)" "r_body_size (job_st ?s j) = int (length b)" "walresv (job_st ?s j) = walresv (job_st s j)"
    using bs by (simp_all add: tube_name_len_def nm_def fileaddjob_def fileincref_def upd_file_def)
  have "filewrites f j [sizeof_int, int (length nm), sizeof_Jobrec, int (length b)] ?s = (True, sw)"
    using e by (simp add: filewrjobfull_def f Let_def del: filewrites.simps)
  from filewrites_charges [OF this]
  show "walresv (job_st sw j) = walresv (job_st s j) - int (length (concat (full_record nm (job_st s j) b)))"
    by (simp add: f(3) full_record_def bs)
  have "log_view r (r_id jr) = None" using new log_view_find by blast
  moreover obtain r' where r': "readrec g (rec_bytes (Full nm jr b) @ rest) r = (RMore, rest, r')" "stays 0 r r'" "log_view r' = apply_rec (Full nm jr b) (log_view r)"
    using readrec_applies_full [where n = 0 and f = g and ys = rest, OF reader(1,2) _ w] reader(3) by auto
  moreover have "readrec g (concat (full_record nm (job_st s j) b) @ rest) r = (RMore, rest, r')" using r'(1) by (simp only: jr_def records_truncate)
  ultimately show "\<exists>r'. readrec g (concat (full_record nm (job_st s j) b) @ rest) r = (RMore, rest, r') \<and> rok r' \<and>
      log_view r' = (log_view r)(r_id jr \<mapsto> (nm, replayed jr, b))"
    by (auto simp: stays_def)
next
  assume w: "wf_rec (job_data_size_limit r) (Short jr)" and old: "log_view r (r_id jr) = Some (nm', jr', b')" and e: "filewrjobshort f j s = (True, sw)"
  obtain s2 where s2: "filewrites f j [sizeof_int, sizeof_Jobrec] s = (True, s2)"
    "sw = (if r_state (job_st s2 j) = Invalid then filermjob (j_file (job_st s2 j)) j s2 else s2)"
    using e by (auto simp: filewrjobshort_def simp del: filewrites.simps split: prod.splits bool.splits)
  from filewrites_charges [OF s2(1)]
  show "walresv (job_st sw j) = walresv (job_st s j) - int (length (concat (short_record (job_st s j))))"
    by (simp add: s2(2) filedecref_walresv short_record_def)
  have rm: "rroom 0 r" using reader(3) by (simp add: rroom_def)
  obtain r' where r': "readrec g (rec_bytes (Short jr) @ rest) r = (RMore, rest, r')" "stays 0 r r'" "log_view r' = apply_rec (Short jr) (log_view r)"
    using readrec_applies_short [where f = g and ys = rest, OF reader(1,2) rm w] by auto
  moreover have "readrec g (concat (short_record (job_st s j)) @ rest) r = (RMore, rest, r')" using r'(1) by (simp only: jr_def records_truncate)
  ultimately show "\<exists>r'. readrec g (concat (short_record (job_st s j)) @ rest) r = (RMore, rest, r') \<and> rok r' \<and>
      log_view r' = (log_view r)(r_id jr := (if r_state jr = Invalid then None else Some (nm', replayed jr, b')))"
    using old by (auto simp: stays_def)
qed

text \<open>A job as a running server has it, and the server that writes it.\<close>

definition writer :: server where
  "writer = fresh_server\<lparr>job_st := (\<lambda>_. zero_job)(2 := Jobrec.extend (log_job 7 Ready)
     (Jobrec.more (zero_job\<lparr>j_tube := Some 1, walresv := 200, body := log_body (CHR ''x''), body_at := 2\<rparr>)))\<rparr>"

theorem record_round_trip_witness:
  "\<exists>s1 r'. filewrjobfull 0 2 writer = (True, s1) \<and> walresv (job_st s1 2) = 105 \<and>
     readrec 1 (concat (full_record ''default'' (job_st writer 2) (log_body (CHR ''x''))) @ ''rest'') fresh_server = (RMore, ''rest'', r') \<and>
     log_view r' 7 = Some (''default'', log_job 7 Ready, log_body (CHR ''x''))"
proof -
  have j: "Jobrec.truncate (job_st writer 2) = log_job 7 Ready" "body (job_st writer 2) = log_body (CHR ''x'')" "j_tube (job_st writer 2) = Some 1"
    "walresv (job_st writer 2) = 200" "sys writer = []" "tube_st writer = tube_st fresh_server" "r_body_size (job_st writer 2) = 4"
    by (simp_all add: writer_def Jobrec.defs log_job_def zero_job_def fresh_server_fields)
  have nm: "t_name (tube_st writer (the (j_tube (job_st writer 2)))) = ''default''" by (simp add: j fresh_server_fields)
  have w: "wf_rec (job_data_size_limit fresh_server) (Full ''default'' (log_job 7 Ready) (log_body (CHR ''x'')))"
    by (simp add: fresh_server_fields log_job_def log_body_def rec_fits_def)
  have e: "filewrjobfull 0 2 writer = (True, snd (filewrjobfull 0 2 writer))"
    by (simp add: filewrjobfull_def filewrite_def syscall_def fileaddjob_def fileincref_def upd_file_def upd_job_def j Let_def)
  have l: "length (concat (full_record ''default'' (job_st writer 2) (log_body (CHR ''x'')))) = 95"
    by (simp add: full_record_def log_body_def j)
  have i: "r_id (log_job 7 Ready) = 7" "replayed (log_job 7 Ready) = log_job 7 Ready" by (simp_all add: log_job_def replayed_def)
  have room: "rroom 1 fresh_server" by (rule fresh_rok(3)) simp
  note rt = record_round_trip [OF fresh_rok(1,2) room, where s = writer and j = 2 and f = 0 and sw = "snd (filewrjobfull 0 2 writer)" and g = 1 and
    rest = "''rest''", THEN conjunct1, unfolded nm j(1,2) i, THEN mp, OF conjI [OF w conjI [OF fresh_none e]]]
  have "walresv (job_st (snd (filewrjobfull 0 2 writer)) 2) = 105" using rt unfolding l by (simp add: j(4))
  moreover obtain r' where "readrec 1 (concat (full_record ''default'' (job_st writer 2) (log_body (CHR ''x''))) @ ''rest'') fresh_server = (RMore, ''rest'', r')"
    "log_view r' = (log_view fresh_server)(7 \<mapsto> (''default'', log_job 7 Ready, log_body (CHR ''x'')))" using rt by blast
  ultimately show ?thesis using e by (metis fun_upd_same)
qed

section \<open>A body that the reader refuses\<close>

lemma read_loop_prefix:
  assumes "rok s" "quiet s" "rroom (length rs + p) s" "\<forall>r \<in> set rs. wf_rec (job_data_size_limit s) r"
  shows "\<exists>s'. stays p s s' \<and> log_view s' = fold apply_rec rs (log_view s) \<and>
    (\<forall>n. read_loop (readrec f) (length rs + n) (concat (map rec_bytes rs) @ ys) s = read_loop (readrec f) n ys s')"
  using assms
proof (induction rs arbitrary: s)
  case Nil
  then show ?case by (intro exI [of _ s]) (simp add: stays_def)
next
  case (Cons r rs)
  let ?ys = "concat (map rec_bytes rs) @ ys"
  obtain s1 where s1: "readrec f (rec_bytes r @ ?ys) s = (RMore, ?ys, s1)" "stays (length rs + p) s s1" "log_view s1 = apply_rec r (log_view s)"
    using readrec_applies [where f = f and ys = ?ys, OF Cons.prems(1,2)] Cons.prems(3,4) by (metis add_Suc length_Cons list.set_intros(1))
  have st: "rok s1" "quiet s1" "rroom (length rs + p) s1" "job_data_size_limit s1 = job_data_size_limit s" using s1(2) by (simp_all add: stays_def)
  have "\<exists>s'. stays p s1 s' \<and> log_view s' = fold apply_rec rs (log_view s1) \<and>
      (\<forall>n. read_loop (readrec f) (length rs + n) ?ys s1 = read_loop (readrec f) n ys s')"
    by (rule Cons.IH) (use st Cons.prems(4) in auto)
  then show ?case using s1 st(4) by (auto simp: stays_def)
qed

lemma readrec_too_big:
  assumes q: "quiet s" and fits: "rec_fits jr" "r_id jr \<noteq> 0" "r_state jr \<noteq> Invalid" "r_state jr \<noteq> Copy"
    and nm: "nm \<noteq> []" "length nm < MAX_TUBE_NAME_LEN" "NUL \<notin> set nm" and b: "int (length b) = r_body_size jr"
    and big: "job_data_size_limit s < length b" and new: "find_job s (r_id jr) = None"
  shows "readrec f (rec_bytes (Full nm jr b) @ ys) s = (RErr, b @ ys, s)"
  unfolding readrec_full [OF q fits(1) nm b]
  using fits nm(1) b big new by (simp add: read_apply_def Let_def)

lemma put_body_size:
  fixes sz :: u32
  assumes "unat sz \<le> 2 ^ 30"
  shows "sint (sz + 2) = int (unat sz) + 2"
proof -
  have u: "uint sz \<le> 2 ^ 30" using assms by (metis of_nat_le_iff of_nat_numeral of_nat_power unat_eq_nat_uint int_nat_eq uint_ge_0)
  then have "uint (sz + 2) = uint sz + 2" by (subst uint_word_ariths) simp
  moreover have "sint (sz + 2) = uint (sz + 2)"
    using u calculation by (simp add: sint_uint signed_take_bit_int_eq_self)
  ultimately show ?thesis by simp
qed

lemma make_job_body:
  assumes "make_job pri dly ttr bs tp s = (Some j, s')"
  shows "r_body_size (job_st s' j) = bs" "body_at (job_st s' j) = j"
proof -
  have st: "job_st (snd (store_job ky malloc i hs)) = job_st (snd hs)" for ky i hs
    unfolding store_job_def by (rule store_frame [where f = job_st]) (simp add: malloc_def split: list.split)
  have ref: "job_st (tube_iref tp t) = job_st t" "job_st (tube_dref tp t) = job_st t" for tp t
    using rframe_fields [OF rframe_refs(1)] rframe_fields [OF rframe_refs(2)] by simp_all
  obtain ao s1 where a: "allocate_job bs s = (ao, s1)" by (rule prod.exhaust)
  have "r_body_size (job_st s' j) = bs \<and> body_at (job_st s' j) = j"
    using assms a
    by (auto simp: make_job_def make_job_with_id_def allocate_job_def Let_def case_prod_beta st ref split: option.splits prod.splits bool.splits)
  then show "r_body_size (job_st s' j) = bs" "body_at (job_st s' j) = j" by simp_all
qed

text \<open>C39 (error). A job that \<open>put\<close> accepts may be lost at the next start. \<open>put\<close> compares the size of the body without its line end with the job
  size limit; the job that it makes, and that is logged, has two bytes more, and \<open>readrec\<close> compares these with the limit. For a body of
  the limit or one byte less, \<open>put\<close> goes on to receive the body, but reading a log in which the job has its record ends with an error
  there: the job is not recovered, and neither is anything that follows it in the file. The records before it are recovered.\<close>

theorem accepted_job_lost:
  assumes put: "read_put_args (drop 4 line) = Some (pri, dly, ttr, sz, [])" "unat sz \<le> job_data_size_limit s" "job_data_size_limit s \<le> 2 ^ 30"
      "s0 = connsetproducer c (count_op OP_PUT s)"
      "make_job pri dly (if ttr < 1000000000 then 1000000000 else ttr) (sint (sz + 2)) (c_use (conn_st s0 c)) s0 = (Some j, sw)"
    and big: "job_data_size_limit s < unat sz + 2"
    and job: "rec_fits jr" "r_id jr \<noteq> 0" "r_state jr \<noteq> Invalid" "r_state jr \<noteq> Copy" "int (length b) = r_body_size jr"
      "r_body_size jr = r_body_size (job_st sw j)" "nm \<noteq> []" "length nm < MAX_TUBE_NAME_LEN" "NUL \<notin> set nm"
    and reader: "rok r" "quiet r" "rroom (length rs) r" "job_data_size_limit r = job_data_size_limit s" "find_job r (r_id jr) = None"
    and before: "\<forall>x \<in> set rs. wf_rec (job_data_size_limit r) x \<and> rec_id x \<noteq> r_id jr"
  shows "do_put c line s = maybe_enqueue_incoming_job c (fill_extra_data c (upd_conn c (\<lambda>x. x\<lparr>in_job := Some j\<rparr>) sw)) \<and>
    (\<exists>r'. fileread f (int_bytes 4 Walver @ concat (map rec_bytes rs) @ rec_bytes (Full nm jr b) @ after) r = Some (RErr, r') \<and> rok r' \<and>
       log_view r' = fold apply_rec rs (log_view r) \<and> find_job r' (r_id jr) = None)"
proof (rule conjI)
  have "\<not> job_data_size_limit (count_op OP_PUT s) < unat sz" using put(2) by simp
  then show "do_put c line s = maybe_enqueue_incoming_job c (fill_extra_data c (upd_conn c (\<lambda>x. x\<lparr>in_job := Some j\<rparr>) sw))"
    using put(1,5) by (simp add: do_put_def Let_def put(4))
next
  have lb: "length b = unat sz + 2"
    using job(5,6) make_job_body(1) [OF put(5)] put_body_size [of sz] put(2,3) by linarith
  let ?rec = "rec_bytes (Full nm jr b) @ after" and ?r = "fileincref (Some f) r"
  let ?bs = "concat (map rec_bytes rs) @ ?rec"
  have v: "rview ?r = rview r" by simp
  note c = rview_cong [OF v] and d = rviewD(13) [OF v]
  have "\<exists>r1. stays 0 ?r r1 \<and> log_view r1 = fold apply_rec rs (log_view ?r) \<and>
      (\<forall>n. read_loop (readrec f) (length rs + n) ?bs ?r = read_loop (readrec f) n ?rec r1)"
    by (rule read_loop_prefix) (use reader before in \<open>simp_all add: c d\<close>)
  then obtain r1 where r1: "stays 0 ?r r1" "log_view r1 = fold apply_rec rs (log_view r)"
    "\<And>n. read_loop (readrec f) (length rs + n) ?bs ?r = read_loop (readrec f) n ?rec r1" by (auto simp: c)
  have st: "rok r1" "quiet r1" "job_data_size_limit r1 = job_data_size_limit s" using r1(1) reader(4) by (simp_all add: stays_def d)
  have "filter (\<lambda>x. rec_id x = r_id jr) rs = []" using before by (simp add: filter_empty_conv)
  then have "log_view r1 (r_id jr) = log_view r (r_id jr)"
    using fold_apply_filter [where rs = rs and m = "log_view r" and m' = "log_view r" and n = "r_id jr", OF refl] r1(2) by simp
  then have new: "find_job r1 (r_id jr) = None" using reader(5) log_view_find by metis
  have "readrec f ?rec r1 = (RErr, b @ after, r1)"
    by (rule readrec_too_big [OF st(2) job(1-4) job(7-9) job(5) _ new]) (use big st(3) lb in simp)
  then have one: "read_loop (readrec f) (Suc n) ?rec r1 = Some (RErr, r1)" for n by simp
  have "length rs \<le> length ?bs" using records_length [of rs] by simp
  then obtain n where n: "Suc (length ?bs) = length rs + Suc n" by (metis add_Suc_right le_Suc_ex)
  have lp: "read_loop (readrec f) (Suc (length ?bs)) ?bs ?r = Some (RErr, r1)" unfolding n r1(3) by (rule one)
  have "int_bytes 4 Walver \<noteq> []" using length_int_bytes [of 4 Walver] by (metis length_0_conv zero_neq_numeral)
  then have rf: "readfull sizeof_int (int_bytes 4 Walver @ ?bs) r = (Some (int_bytes 4 Walver), ?bs, r)" using reader(2) by (intro readfull_exact) simp_all
  have iv: "int_at 0 4 (int_bytes 4 Walver) = Walver" using int_at_head [of Walver "[]"] by simp
  let ?r' = "filedecref (Some f) r1"
  have "fileread f (int_bytes 4 Walver @ ?bs) r = Some (RErr, ?r')"
    by (simp only: fileread_def rf prod.case option.case iv refl if_True lp option.map)
  moreover have v': "rview ?r' = rview r1" by simp
  note c' = rview_cong [OF v']
  have "rok ?r'" "log_view ?r' = log_view r1" "find_job ?r' (r_id jr) = None" using st(1) new by (simp_all add: c')
  ultimately show "\<exists>r'. fileread f (int_bytes 4 Walver @ concat (map rec_bytes rs) @ rec_bytes (Full nm jr b) @ after) r = Some (RErr, r') \<and> rok r' \<and>
      log_view r' = fold apply_rec rs (log_view r) \<and> find_job r' (r_id jr) = None"
    using r1(2) by (metis append.assoc)
qed

text \<open>With a limit of two bytes the body \<open>xx\<close> is accepted, and its job is refused.\<close>

definition small_server :: server where
  "small_server = fresh_server\<lparr>job_data_size_limit := 2\<rparr>"

theorem accepted_job_lost_witness:
  "\<exists>r'. fileread 1 (int_bytes 4 Walver @ rec_bytes (Full ''default'' (log_job 7 Ready) (log_body (CHR ''x''))) @ []) small_server = Some (RErr, r') \<and>
     find_job r' 7 = None"
proof -
  let ?s0 = "connsetproducer 0 (count_op OP_PUT small_server)"
  have args: "read_put_args (drop 4 ''put 0 0 1 2'') = Some (0, 0, 1000000000, 2, [])"
    by (simp add: read_put_args_def read_duration_def read_u32_def strtoumax_def Let_def is_digit_def is_space_def dec_val_def digit_val_def)
  obtain jo sw where mk: "make_job 0 0 (if (1000000000 :: int) < 1000000000 then 1000000000 else 1000000000) (sint (2 + 2 :: u32)) (c_use (conn_st ?s0 0)) ?s0 = (jo, sw)"
    by (rule prod.exhaust)
  have "allocs ?s0 = []" by (simp add: connsetproducer_def count_op_def small_server_def fresh_server_fields upd_conn_def)
  then have "jo \<noteq> None"
    using mk by (auto simp: make_job_def make_job_with_id_def allocate_job_def malloc_def Let_def case_prod_beta)
  then obtain j where j: "jo = Some j" by blast
  have size: "r_body_size (log_job 7 Ready) = r_body_size (job_st sw j)" using make_job_body(1) [OF mk [unfolded j]] by (simp add: log_job_def)
  have lim: "job_data_size_limit small_server = 2" by (simp add: small_server_def)
  have ok: "rok small_server" "quiet small_server" "rroom 0 small_server" "find_job small_server 7 = None"
    using fresh_rok(1,2) fresh_rok(3) [of 0] fresh_none
    by (simp_all add: small_server_def rokx_def quiet_def rroom_def find_job_def tubes_ok_def tube_refs_def tube_jobs_def)
  have u: "unat (2 :: u32) = 2" by simp
  show ?thesis
    using accepted_job_lost [OF args _ _ refl mk [unfolded j] _ _ _ _ _ _ size, where r = small_server and rs = "[]" and nm = "''default''" and
        b = "log_body (CHR ''x'')" and f = 1 and after = "[]"] ok
    by (auto simp: lim log_job_def log_body_def rec_fits_def)
qed

end
